(* ===== verification/Prelude.thy ===== *)
theory Prelude
  imports Main "HOL-Library.Word"
begin

unbundle bit_operations_syntax

section \<open>Prelude: panics, checked machine integers, shared lemmas\<close>

text \<open>
  What the component theories share. Rust code that panics is modelled by a value of type
  \<open>outcome\<close>: \<open>Ret x\<close> for a normal return and \<open>Panic p\<close> for a panic; \<open>obind\<close> sequences
  two such computations. \<open>DanglingRef\<close> marks a read through a reference into memory the
  code has moved or freed, which Rust leaves undefined. Machine integers are words of HOL-Library.Word; the arithmetic
  operators of the dev profile (the only profile the repository's aliases use) panic on
  overflow, which \<open>add_chk\<close>, \<open>sub_chk\<close> and \<open>mul_chk\<close> spell out.
\<close>

named_theorems outcome_simps \<open>case analysis of panicking computations\<close>
named_theorems word_nat_simps \<open>words read as natural numbers\<close>

datatype panic =
    ArithOverflow
  | IndexOutOfBounds
  | UnwrapOnNone
  | UnwrapOnErr
  | AssertFailed
  | AlreadyBorrowed
  | Unimplemented
  | DanglingRef
  | PanicMsg string

datatype 'a outcome = Ret 'a | Panic panic

type_synonym u8 = "8 word"
type_synonym u16 = "16 word"
type_synonym u32 = "32 word"
type_synonym u64 = "64 word"
type_synonym usize = "64 word"

fun obind :: "'a outcome \<Rightarrow> ('a \<Rightarrow> 'b outcome) \<Rightarrow> 'b outcome" where
  "obind (Ret x) f = f x"
| "obind (Panic p) f = Panic p"

definition returns :: "'a outcome \<Rightarrow> bool" where
  "returns r = (case r of Ret _ \<Rightarrow> True | Panic _ \<Rightarrow> False)"

text \<open>An \<open>Option::unwrap\<close> and a bounds-checked slice read.\<close>

definition unwrap :: "'a option \<Rightarrow> 'a outcome" where
  "unwrap x = (case x of None \<Rightarrow> Panic UnwrapOnNone | Some v \<Rightarrow> Ret v)"

definition idx :: "'a list \<Rightarrow> nat \<Rightarrow> 'a outcome" where
  "idx xs i = (if i < length xs then Ret (xs ! i) else Panic IndexOutOfBounds)"

definition upd :: "'a list \<Rightarrow> nat \<Rightarrow> 'a \<Rightarrow> 'a list outcome" where
  "upd xs i v = (if i < length xs then Ret (xs[i := v]) else Panic IndexOutOfBounds)"

text \<open>\<open>iter().position(p)\<close>: the index of the first element that satisfies the predicate.\<close>

fun iter_position :: "('a \<Rightarrow> bool) \<Rightarrow> 'a list \<Rightarrow> nat option" where
  "iter_position p [] = None"
| "iter_position p (x # xs) = (if p x then Some 0 else map_option Suc (iter_position p xs))"

definition add_chk :: "'a::len word \<Rightarrow> 'a word \<Rightarrow> 'a word outcome" where
  "add_chk a b = (if unat a + unat b < 2 ^ LENGTH('a) then Ret (a + b) else Panic ArithOverflow)"

definition sub_chk :: "'a::len word \<Rightarrow> 'a word \<Rightarrow> 'a word outcome" where
  "sub_chk a b = (if unat b \<le> unat a then Ret (a - b) else Panic ArithOverflow)"

definition mul_chk :: "'a::len word \<Rightarrow> 'a word \<Rightarrow> 'a word outcome" where
  "mul_chk a b = (if unat a * unat b < 2 ^ LENGTH('a) then Ret (a * b) else Panic ArithOverflow)"

definition checked_add :: "'a::len word \<Rightarrow> 'a word \<Rightarrow> 'a word option" where
  "checked_add a b = (if unat a + unat b < 2 ^ LENGTH('a) then Some (a + b) else None)"

text \<open>Code that may also loop forever: \<open>None\<close> when it does not return.\<close>

type_synonym 'a run = "'a outcome option"

definition rret :: "'a \<Rightarrow> 'a run" where
  "rret x = Some (Ret x)"

definition rbind :: "'a run \<Rightarrow> ('a \<Rightarrow> 'b run) \<Rightarrow> 'b run" where
  "rbind m f = (case m of None \<Rightarrow> None | Some (Panic p) \<Rightarrow> Some (Panic p) | Some (Ret x) \<Rightarrow> f x)"

text \<open>A \<open>for\<close> loop over a range, with a body that may panic.\<close>

primrec ofold :: "('a \<Rightarrow> 's \<Rightarrow> 's outcome) \<Rightarrow> 'a list \<Rightarrow> 's \<Rightarrow> 's outcome" where
  "ofold f [] s = Ret s"
| "ofold f (x # xs) s = obind (f x s) (ofold f xs)"

subsection \<open>Outcomes\<close>

lemma obind_eq_Ret [outcome_simps]:
  "obind m f = Ret y \<longleftrightarrow> (\<exists>x. m = Ret x \<and> f x = Ret y)"
  by (cases m) auto

lemma obind_eq_Panic [outcome_simps]:
  "obind m f = Panic p \<longleftrightarrow> m = Panic p \<or> (\<exists>x. m = Ret x \<and> f x = Panic p)"
  by (cases m) auto

lemma obind_assoc: "obind (obind m f) g = obind m (\<lambda>x. obind (f x) g)"
  by (cases m) auto

lemma obind_Ret_right [simp]: "obind m Ret = m"
  by (cases m) auto

lemma returns_iff: "returns r \<longleftrightarrow> (\<exists>x. r = Ret x)"
  by (cases r) (auto simp: returns_def)

lemma obind_cong [fundef_cong]:
  "m = m' \<Longrightarrow> (\<And>x. m' = Ret x \<Longrightarrow> f x = f' x) \<Longrightarrow> obind m f = obind m' f'"
  by (cases m') auto

lemma unwrap_simps [simp]:
  "unwrap None = Panic UnwrapOnNone" "unwrap (Some v) = Ret v"
  by (simp_all add: unwrap_def)

lemma idx_Ret [simp]: "i < length xs \<Longrightarrow> idx xs i = Ret (xs ! i)"
  by (simp add: idx_def)

lemma upd_Ret [simp]: "i < length xs \<Longrightarrow> upd xs i v = Ret (xs[i := v])"
  by (simp add: upd_def)

lemma rbind_simps [simp]:
  "rbind None f = None" "rbind (Some (Panic p)) f = Some (Panic p)" "rbind (Some (Ret x)) f = f x"
  "rbind (rret x) f = f x"
  by (simp_all add: rbind_def rret_def)

lemma rret_inject [simp]: "rret x = rret y \<longleftrightarrow> x = y"
  by (simp add: rret_def)

lemma rbind_bind: "rbind m f = Option.bind m (\<lambda>r. case r of Panic p \<Rightarrow> Some (Panic p) | Ret x \<Rightarrow> f x)"
  by (cases m) (auto simp: rbind_def split: outcome.split)

lemma rbind_mono [partial_function_mono]:
  assumes "mono_option B" and "\<And>y. mono_option (C y)"
  shows "mono_option (\<lambda>f. rbind (B f) (\<lambda>y. C y f))"
proof -
  have "mono_option (\<lambda>f. case r of Panic p \<Rightarrow> Some (Panic p) | Ret x \<Rightarrow> C x f)" for r
    using assms(2) by (cases r) (simp_all add: monotone_def flat_ord_def)
  with assms(1) show ?thesis unfolding rbind_bind by (rule bind_mono)
qed

lemma ofold_append: "ofold f (xs @ ys) s = obind (ofold f xs s) (ofold f ys)"
proof (induction xs arbitrary: s)
  case (Cons x xs)
  then show ?case by (cases "f x s") simp_all
qed simp

subsection \<open>Checked words\<close>

lemma add_chk_Ret_iff [outcome_simps]:
  "add_chk a b = Ret c \<longleftrightarrow> unat a + unat b < 2 ^ LENGTH('a) \<and> c = a + b" for a :: "'a::len word"
  by (auto simp: add_chk_def)

lemma unat_add_no_overflow [word_nat_simps]:
  "unat a + unat b < 2 ^ LENGTH('a) \<Longrightarrow> unat (a + b) = unat a + unat b" for a :: "'a::len word"
  by (simp add: unat_word_ariths)

lemma add_chk_unat: "add_chk a b = Ret c \<Longrightarrow> unat c = unat a + unat b"
  by (auto simp: add_chk_Ret_iff unat_add_no_overflow)

lemma sub_chk_Ret_iff [outcome_simps]:
  "sub_chk a b = Ret c \<longleftrightarrow> unat b \<le> unat a \<and> c = a - b"
  by (auto simp: sub_chk_def)

lemma unat_sub_no_overflow [word_nat_simps]:
  "unat b \<le> unat a \<Longrightarrow> unat (a - b) = unat a - unat b" for a :: "'a::len word"
  by (simp add: unat_sub_if')

lemma checked_add_Some_iff:
  "checked_add a b = Some c \<longleftrightarrow> unat a + unat b < 2 ^ LENGTH('a) \<and> c = a + b" for a :: "'a::len word"
  by (auto simp: checked_add_def)

lemma checked_add_unat: "checked_add a b = Some c \<Longrightarrow> unat c = unat a + unat b"
  by (auto simp: checked_add_Some_iff unat_add_no_overflow)

lemma unat_and_mask [word_nat_simps]: "unat (x AND mask n) = unat x mod 2 ^ n" for x :: "'a::len word"
proof -
  have "unat (x AND mask n) = unat (take_bit n x)" by (simp only: take_bit_eq_mask)
  also have "\<dots> = take_bit n (unat x)" by (rule unsigned_take_bit_eq)
  finally show ?thesis by (simp add: take_bit_eq_mod)
qed

lemma mask_9: "(511 :: 'a::len word) = mask 9"
  by (simp add: mask_eq_exp_minus_1)

subsection \<open>Lists\<close>

lemma in_set_tlD: "x \<in> set (tl xs) \<Longrightarrow> x \<in> set xs"
  by (cases xs) auto

lemma iter_position_Some: "iter_position p xs = Some i \<Longrightarrow> i < length xs \<and> p (xs ! i) \<and> (\<forall>j < i. \<not> p (xs ! j))"
  by (induction p xs arbitrary: i rule: iter_position.induct)
    (auto split: if_splits simp: less_Suc_eq_0_disj)

lemma iter_position_None: "iter_position p xs = None \<longleftrightarrow> (\<forall>x \<in> set xs. \<not> p x)"
  by (induction p xs rule: iter_position.induct) auto

lemma iter_position_map: "iter_position p (map f xs) = iter_position (\<lambda>x. p (f x)) xs"
  by (induction xs) auto

lemma take_update_last:
  "i < length xs \<Longrightarrow> take (Suc i) (xs[i := v]) = take i xs @ [v]"
  by (simp add: take_Suc_conv_app_nth)

lemma takeWhile_eq_take_length:
  "takeWhile P xs = take (length (takeWhile P xs)) xs"
  by (metis append_eq_conv_conj takeWhile_dropWhile_id)

end
