(* ===== verification/SmolStr.thy ===== *)
theory SmolStr
  imports Prelude
begin

section \<open>Small strings (lang/src/smol\_str.rs)\<close>

text \<open>
  The string type of the compiler. A value has one of three representations (inline bytes,
  a slice of a constant run of newlines and spaces, or a heap string); \<open>repr_new\<close> chooses
  one and \<open>repr_as_str\<close> reads the bytes back. A \<open>&str\<close> is its UTF-8 bytes, a HOL
  \<open>string\<close> (a HOL character is a byte). The results here are that every representation
  shows exactly the text it was made from, so the later theories use \<open>string\<close> for
  \<open>SmolStr\<close>.
\<close>

definition INLINE_CAP :: nat where "INLINE_CAP = 22"
definition N_NEWLINES :: nat where "N_NEWLINES = 32"
definition N_SPACES :: nat where "N_SPACES = 128"

definition newline :: char where "newline = CHR 0x0A"
definition space :: char where "space = CHR 0x20"

definition WS :: string where
  "WS = replicate 32 newline @ replicate 128 space"

datatype repr =
    Heap string
  | Inline (inl_len: u8) (inl_buf: "char list")
  | Substring (sub_newlines: nat) (sub_spaces: nat)

datatype ordering = OLess | OEqual | OGreater

text \<open>The copy loop of \<open>new_inline\<close>: \<open>buf[i] = bytes[i]\<close> panics once \<open>i\<close> is 22.\<close>

function new_inline_loop :: "string \<Rightarrow> nat \<Rightarrow> char list \<Rightarrow> char list outcome" where
  "new_inline_loop text i buf =
     (if i < length text
      then obind (upd buf i (text ! i)) (\<lambda>buf'. new_inline_loop text (i + 1) buf')
      else Ret buf)"
  by pat_completeness auto
termination
  by (relation "measure (\<lambda>(text, i, buf). length text - i)") auto

declare new_inline_loop.simps [simp del]

definition new_inline :: "string \<Rightarrow> repr outcome" where
  "new_inline text =
     obind (new_inline_loop text 0 (replicate INLINE_CAP (CHR 0x00)))
       (\<lambda>buf. Ret (Inline (of_nat (length text)) buf))"

text \<open>\<open>buf[..len].copy_from_slice(bytes)\<close> leaves the tail of the zeroed buffer in place.\<close>

definition repr_new :: "string \<Rightarrow> repr" where
  "repr_new text =
     (let len = length text in
      if len \<le> INLINE_CAP
      then Inline (of_nat len) (text @ drop len (replicate INLINE_CAP (CHR 0x00)))
      else
        (let possible_newline_count = min len N_NEWLINES;
             newlines = length (takeWhile (\<lambda>b. b = newline) (take possible_newline_count text));
             possible_space_count = len - newlines
         in if len \<le> N_NEWLINES + N_SPACES \<and> possible_space_count \<le> N_SPACES
               \<and> list_all (\<lambda>b. b = space) (drop newlines text)
            then Substring newlines possible_space_count
            else Heap text))"

fun repr_len :: "repr \<Rightarrow> nat" where
  "repr_len (Heap data) = length data"
| "repr_len (Inline len _) = unat len"
| "repr_len (Substring newlines spaces) = newlines + spaces"

fun repr_is_empty :: "repr \<Rightarrow> bool" where
  "repr_is_empty (Heap data) = (data = [])"
| "repr_is_empty (Inline len _) = (len = 0)"
| "repr_is_empty (Substring _ _) = False"

text \<open>Slicing \<open>buf[..len]\<close> panics when \<open>len\<close> is past the buffer; the \<open>assert!\<close> of the
  substring case is a panic of its own.\<close>

fun repr_as_str :: "repr \<Rightarrow> string outcome" where
  "repr_as_str (Heap data) = Ret data"
| "repr_as_str (Inline len buf) =
     (if unat len \<le> length buf then Ret (take (unat len) buf) else Panic IndexOutOfBounds)"
| "repr_as_str (Substring newlines spaces) =
     (if newlines \<le> N_NEWLINES \<and> spaces \<le> N_SPACES
      then Ret (take (N_NEWLINES + spaces - (N_NEWLINES - newlines)) (drop (N_NEWLINES - newlines) WS))
      else Panic AssertFailed)"

text \<open>\<open>PartialEq\<close>, \<open>Ord\<close> and \<open>Default\<close> go through \<open>as_str\<close>; \<open>str\<close> compares bytes
  lexicographically.\<close>

definition smol_eq :: "repr \<Rightarrow> repr \<Rightarrow> bool outcome" where
  "smol_eq a b = obind (repr_as_str a) (\<lambda>x. obind (repr_as_str b) (\<lambda>y. Ret (x = y)))"

fun str_cmp :: "string \<Rightarrow> string \<Rightarrow> ordering" where
  "str_cmp [] [] = OEqual"
| "str_cmp [] (_ # _) = OLess"
| "str_cmp (_ # _) [] = OGreater"
| "str_cmp (x # xs) (y # ys) =
     (if (of_char x :: nat) < of_char y then OLess
      else if (of_char y :: nat) < of_char x then OGreater
      else str_cmp xs ys)"

definition smol_cmp :: "repr \<Rightarrow> repr \<Rightarrow> ordering outcome" where
  "smol_cmp a b = obind (repr_as_str a) (\<lambda>x. obind (repr_as_str b) (\<lambda>y. Ret (str_cmp x y)))"

definition smol_default :: repr where
  "smol_default = repr_new []"

text \<open>The representation invariant: what \<open>repr_new\<close> and \<open>new_inline\<close> build.\<close>

fun repr_wf :: "repr \<Rightarrow> bool" where
  "repr_wf (Heap data) = (INLINE_CAP < length data)"
| "repr_wf (Inline len buf) = (unat len \<le> INLINE_CAP \<and> length buf = INLINE_CAP)"
| "repr_wf (Substring newlines spaces) =
     (newlines \<le> N_NEWLINES \<and> spaces \<le> N_SPACES \<and> INLINE_CAP < newlines + spaces)"

lemmas smol_consts = INLINE_CAP_def N_NEWLINES_def N_SPACES_def

subsection \<open>Substring representation\<close>

lemma WS_slice:
  assumes "n \<le> N_NEWLINES" and "s \<le> N_SPACES"
  shows "take (N_NEWLINES + s - (N_NEWLINES - n)) (drop (N_NEWLINES - n) WS)
         = replicate n newline @ replicate s space"
  using assms by (simp add: WS_def smol_consts min_def)

lemma takeWhile_const: "takeWhile (\<lambda>b. b = c) xs = replicate (length (takeWhile (\<lambda>b. b = c) xs)) c"
  by (induction xs) auto

lemma newline_run_split:
  fixes t :: string
  assumes n_def: "n = length (takeWhile (\<lambda>b. b = c) (take k t))"
    and "list_all (\<lambda>b. b = d) (drop n t)"
  shows "t = replicate n c @ replicate (length t - n) d"
proof -
  have "takeWhile (\<lambda>b. b = c) (take k t) = take n (take k t)"
    unfolding n_def by (rule takeWhile_eq_take_length)
  moreover have "n \<le> k"
    unfolding n_def using length_takeWhile_le [of "\<lambda>b. b = c" "take k t"] by simp
  ultimately have "take n t = replicate n c"
    using takeWhile_const [of c "take k t"] by (simp add: n_def min_def)
  moreover have "drop n t = replicate (length t - n) d"
    using assms(2) by (intro replicate_eqI) (auto simp: list_all_iff)
  ultimately show ?thesis by (metis append_take_drop_id)
qed

lemma unat_small_len: "n \<le> INLINE_CAP \<Longrightarrow> unat (of_nat n :: u8) = n"
  by (simp add: INLINE_CAP_def unat_of_nat)

subsection \<open>Every representation shows its text\<close>

lemma repr_new_shows: "repr_as_str (repr_new t) = Ret t"
proof (cases "length t \<le> INLINE_CAP")
  case True
  then show ?thesis by (simp add: repr_new_def Let_def unat_small_len)
next
  case False
  define n where "n = length (takeWhile (\<lambda>b. b = newline) (take (min (length t) N_NEWLINES) t))"
  have n: "n \<le> N_NEWLINES"
    using length_takeWhile_le [of "\<lambda>b. b = newline" "take (min (length t) N_NEWLINES) t"]
    by (simp add: n_def)
  show ?thesis
  proof (cases "length t \<le> N_NEWLINES + N_SPACES \<and> length t - n \<le> N_SPACES
                \<and> list_all (\<lambda>b. b = space) (drop n t)")
    case sub: True
    then have "t = replicate n newline @ replicate (length t - n) space"
      by (intro newline_run_split [OF n_def]) auto
    then show ?thesis
      using sub n False WS_slice [OF n, of "length t - n"]
      by (simp add: repr_new_def Let_def flip: n_def)
  next
    case heap: False
    with False show ?thesis by (auto simp: repr_new_def Let_def simp flip: n_def)
  qed
qed

lemma repr_new_len: "repr_len (repr_new t) = length t"
proof -
  have "length (takeWhile (\<lambda>b. b = newline) (take (min (length t) N_NEWLINES) t)) \<le> length t"
    using length_takeWhile_le [of "\<lambda>b. b = newline" "take (min (length t) N_NEWLINES) t"] by simp
  then show ?thesis by (simp add: repr_new_def Let_def unat_small_len)
qed

lemma repr_new_is_empty: "repr_is_empty (repr_new t) = (t = [])"
proof (cases "length t \<le> INLINE_CAP")
  case True
  then have "of_nat (length t) = (0 :: u8) \<longleftrightarrow> length t = 0"
    using unat_small_len [of "length t"] unat_eq_0 [of "of_nat (length t) :: u8"] by simp
  with True show ?thesis by (simp add: repr_new_def Let_def)
qed (auto simp: repr_new_def Let_def)

lemma repr_new_wf: "repr_wf (repr_new t)"
proof -
  have "length (takeWhile (\<lambda>b. b = newline) (take (min (length t) N_NEWLINES) t)) \<le> min (length t) N_NEWLINES"
    using length_takeWhile_le [of "\<lambda>b. b = newline" "take (min (length t) N_NEWLINES) t"] by simp
  then show ?thesis by (auto simp: repr_new_def Let_def unat_small_len)
qed

lemma repr_wf_shows: "repr_wf r \<Longrightarrow> \<exists>t. repr_as_str r = Ret t \<and> length t = repr_len r"
  by (cases r) (auto simp: WS_def smol_consts min_def)

subsection \<open>The inline constructor\<close>

lemma new_inline_loop_small:
  assumes "length t \<le> length buf" and "i \<le> length t"
  shows "new_inline_loop t i buf = Ret (take i buf @ drop i t @ drop (length t) buf)"
  using assms
proof (induction t i buf rule: new_inline_loop.induct)
  case (1 t i buf)
  show ?case
  proof (cases "i < length t")
    case True
    then have "i < length buf" using "1.prems" by simp
    with True "1.IH" [of "buf[i := t ! i]"] "1.prems"
    have "new_inline_loop t i buf
          = Ret (take (i + 1) (buf[i := t ! i]) @ drop (i + 1) t @ drop (length t) buf)"
      by (subst new_inline_loop.simps) simp
    with True \<open>i < length buf\<close> show ?thesis
      by (simp add: take_update_last Cons_nth_drop_Suc)
  next
    case False
    with "1.prems" show ?thesis by (subst new_inline_loop.simps) simp
  qed
qed

lemma new_inline_loop_large:
  assumes "length buf < length t" and "i \<le> length buf"
  shows "new_inline_loop t i buf = Panic IndexOutOfBounds"
  using assms
proof (induction t i buf rule: new_inline_loop.induct)
  case (1 t i buf)
  then show ?case
    by (subst new_inline_loop.simps) (cases "i < length buf"; simp add: upd_def)
qed

lemma new_inline_cases:
  "new_inline t = (if length t \<le> INLINE_CAP then Ret (repr_new t) else Panic IndexOutOfBounds)"
  by (simp add: new_inline_def repr_new_def Let_def new_inline_loop_small new_inline_loop_large)

subsection \<open>The order of strings\<close>

lemma char_order:
  assumes "\<not> (of_char x :: nat) < of_char y" and "\<not> (of_char y :: nat) < of_char x"
  shows "x = y"
  by (rule of_char_eqI [where 'a = nat]) (use assms in linarith)

lemma str_cmp_eq: "str_cmp a b = OEqual \<longleftrightarrow> a = b"
  by (induction a b rule: str_cmp.induct) (auto dest: char_order)

lemma str_cmp_swap: "str_cmp a b = OLess \<longleftrightarrow> str_cmp b a = OGreater"
  by (induction a b rule: str_cmp.induct) auto

lemma str_cmp_less_Cons:
  "str_cmp (x # xs) (y # ys) = OLess
   \<longleftrightarrow> (of_char x :: nat) < of_char y \<or> x = y \<and> str_cmp xs ys = OLess"
  by (auto dest: char_order)

lemma str_cmp_trans: "str_cmp a b = OLess \<Longrightarrow> str_cmp b c = OLess \<Longrightarrow> str_cmp a c = OLess"
proof (induction a arbitrary: b c)
  case Nil
  then show ?case by (cases b; cases c) auto
next
  case (Cons x xs)
  from Cons.prems obtain y ys z zs where eqs: "b = y # ys" "c = z # zs"
    by (cases b; cases c) auto
  with Cons show ?case
    unfolding eqs str_cmp_less_Cons by (auto intro: less_trans)
qed

subsection \<open>Clients of the string type\<close>

text \<open>What the compiler relies on: a made string shows its text. Comparing, hashing and
  printing in the source all go through \<open>as_str\<close>, so any of them on made strings is the
  same operation on the texts.\<close>

locale text_store =
  fixes make :: "string \<Rightarrow> 'r"
    and show_text :: "'r \<Rightarrow> string outcome"
    and text_len :: "'r \<Rightarrow> nat"
  assumes show_make: "show_text (make t) = Ret t"
    and len_make: "text_len (make t) = length t"
begin

lemma make_inject: "make a = make b \<longleftrightarrow> a = b"
  by (metis show_make outcome.inject(1))

lemma through_text:
  "obind (show_text (make a)) (\<lambda>x. obind (show_text (make b)) (\<lambda>y. Ret (f x y))) = Ret (f a b)"
  by (simp add: show_make)

end

interpretation smol: text_store repr_new repr_as_str repr_len
  by unfold_locales (rule repr_new_shows, rule repr_new_len)

text \<open>C30: whatever representation the constructor picks, the string shows exactly the text it
  was made from, its length and emptiness are the t's, and the representation invariant
  holds (so no later \<open>as_str\<close> hits its assertion).\<close>

theorem smol_new_faithful:
  "repr_as_str (repr_new t) = Ret t
   \<and> repr_len (repr_new t) = length t
   \<and> repr_is_empty (repr_new t) = (t = [])
   \<and> repr_wf (repr_new t)"
  using smol.show_make smol.len_make repr_new_is_empty repr_new_wf by blast

text \<open>\<open>new_inline\<close> agrees with the general constructor on texts of up to 22 bytes and
  panics on every longer one, as its documentation says.\<close>

lemma new_inline_exact:
  "new_inline t = (if length t \<le> 22 then Ret (repr_new t) else Panic IndexOutOfBounds)"
  using new_inline_cases [of t] by (simp add: INLINE_CAP_def)

text \<open>Equality and ordering of small strings are those of their texts whatever the two
  representations are, and the order is a strict total order.\<close>

lemma smol_order:
  "smol_eq (repr_new a) (repr_new b) = Ret (a = b)
   \<and> smol_cmp (repr_new a) (repr_new b) = Ret (str_cmp a b)
   \<and> (str_cmp a b = OEqual \<longleftrightarrow> a = b)
   \<and> (str_cmp a b = OLess \<longleftrightarrow> str_cmp b a = OGreater)
   \<and> \<not> (str_cmp a b = OLess \<and> str_cmp b c = OLess \<and> str_cmp a c \<noteq> OLess)"
  unfolding smol_eq_def smol_cmp_def smol.through_text
  using str_cmp_eq str_cmp_swap str_cmp_trans by blast

end
