(* ===== verification/Lexer.thy ===== *)
theory Lexer
  imports Prelude
begin

section \<open>Tokens and binding powers (lang/src/lexer.rs, lang/src/error.rs)\<close>

text \<open>
  The token kinds, the token record, the operator tables the parser and the compiler read,
  and the error values. Scanning itself is the code the \<open>logos\<close> derive macro generates
  from the token attributes: the scanner is an iterator over one source text, and the model
  takes the finite list of items it yields (kind, slice, span) as its input. Comments and
  white space never appear among them (\<open>logos::skip\<close>).
\<close>

datatype (plugins only: code size) tkind =
    TK_LeftParen | TK_RightParen | TK_LeftBracket | TK_RightBracket | TK_LeftBrace | TK_RightBrace
  | TK_Tilde | TK_Comma | TK_Dot | TK_Minus | TK_Plus | TK_Semicolon | TK_Colon | TK_ColonColon
  | TK_Slash | TK_Star | TK_Arrow | TK_QuestionMark
  | TK_Bang | TK_BangEqual | TK_Equal | TK_EqualEqual
  | TK_Greater | TK_GreaterEqual | TK_Less | TK_LessEqual
  | TK_Identifier | TK_String | TK_Int | TK_Float
  | TK_And | TK_Break | TK_Class | TK_Else | TK_Enum | TK_Extern | TK_False | TK_For | TK_Fun
  | TK_If | TK_Import | TK_In | TK_Interface | TK_Is | TK_Null | TK_Or | TK_Return | TK_Static
  | TK_True | TK_Var | TK_Val | TK_When | TK_While
  | TK_Comment | TK_Whitespace | TK_Newline | TK_Error

record token =
  kind :: tkind
  lex :: string
  start :: nat

text \<open>One item of the \<open>logos\<close> iterator: \<open>next()\<close>, \<open>slice()\<close> and \<open>span()\<close> after it.\<close>

record logos_item =
  li_kind :: tkind
  li_slice :: string
  li_span_start :: nat
  li_span_end :: nat

type_synonym logos_lexer = "logos_item list"

definition lexer_next :: "logos_lexer \<Rightarrow> (token \<times> logos_lexer) option" where
  "lexer_next l =
     (case l of
        [] \<Rightarrow> None
      | item # rest \<Rightarrow>
          Some (\<lparr>kind = li_kind item, lex = li_slice item, start = li_span_start item\<rparr>, rest))"

text \<open>The tables are read off \<open>TKind::infix_binding_power\<close> and its neighbours.\<close>

definition infix_binding_power :: "tkind \<Rightarrow> (nat \<times> nat) option" where
  "infix_binding_power k =
     (if k = TK_Equal then Some (6, 5)
      else if k = TK_Or then Some (10, 9)
      else if k = TK_And then Some (12, 11)
      else if k = TK_BangEqual \<or> k = TK_EqualEqual then Some (14, 13)
      else if k = TK_Less \<or> k = TK_LessEqual \<or> k = TK_Greater \<or> k = TK_GreaterEqual then Some (16, 15)
      else if k = TK_Plus \<or> k = TK_Minus then Some (16, 15)
      else if k = TK_Star \<or> k = TK_Slash then Some (18, 17)
      else if k = TK_Is then Some (20, 19)
      else None)"

definition prefix_binding_power :: "tkind \<Rightarrow> nat option" where
  "prefix_binding_power k = (if k = TK_Minus \<or> k = TK_Bang then Some 30 else None)"

definition is_binary_logic :: "tkind \<Rightarrow> bool" where
  "is_binary_logic k \<longleftrightarrow>
     k = TK_EqualEqual \<or> k = TK_BangEqual \<or> k = TK_Less \<or> k = TK_LessEqual
     \<or> k = TK_Greater \<or> k = TK_GreaterEqual \<or> k = TK_And \<or> k = TK_Or"

datatype error_kind =
    E100 tkind tkind
  | E101
  | E102
  | E200 string
  | E201 string
  | E500 string string
  | E501 string string
  | E502
  | E503 string
  | E504 string
  | E505
  | E506 string
  | E507 nat nat
  | E508 string string nat

record error =
  err_kind :: error_kind
  err_start :: nat

definition error_new :: "nat \<Rightarrow> error_kind \<Rightarrow> error" where
  "error_new s k = \<lparr>err_kind = k, err_start = s\<rparr>"

subsection \<open>Operator tables\<close>

lemma infix_powers:
  "infix_binding_power k = Some (l, r) \<Longrightarrow> l = r + 1 \<and> 5 \<le> r \<and> l \<le> 20"
  by (auto simp: infix_binding_power_def split: if_splits)

lemma infix_not_Error [simp]: "infix_binding_power TK_Error = None"
  by (simp add: infix_binding_power_def)

lemma prefix_not_Error [simp]: "prefix_binding_power TK_Error = None"
  by (simp add: prefix_binding_power_def)

lemma infix_Some_not_Error: "infix_binding_power k = Some p \<Longrightarrow> k \<noteq> TK_Error"
  by auto

lemma prefix_Some_not_Error: "prefix_binding_power k = Some p \<Longrightarrow> k \<noteq> TK_Error"
  by auto

end
