(* ===== verification/Ast.thy ===== *)
theory Ast
  imports Lexer
begin

section \<open>Abstract syntax (lang/src/parser/ast.rs)\<close>

text \<open>
  The syntax tree the parser builds. A 64-bit float literal is kept as its bit pattern; an
  \<open>i64\<close> literal as a signed 64-bit word.
\<close>

type_synonym i64 = "64 word"
type_synonym f64 = "64 word"

datatype literal =
    LBool bool
  | LInt i64
  | LFloat f64
  | LString string

datatype expr = Expr (ety: eexpr) (estart: nat)
  and eexpr =
    ELiteral literal
  | EIdentifier token
  | EVariable bool token expr
  | EBlock "expr list"
  | EIf expr expr "expr option"
  | EWhile expr expr
  | EBinary expr token expr
  | EUnary token expr
  | ECall expr "expr list"

datatype atype = AType (aty_name: token)

record parameter =
  par_name :: string
  par_ty :: atype

record member =
  mem_name :: token
  mem_ty :: atype
  mem_mutable :: bool

record ast_function =
  fn_name :: token
  fn_params :: "parameter list"
  fn_ret_type :: "atype option"
  fn_body :: "expr option"

record ast_class =
  cls_name :: token
  cls_members :: "member list"
  cls_methods :: "ast_function list"
  cls_functions :: "ast_function list"

record ast_module =
  mod_path :: "string list"
  mod_functions :: "ast_function list"
  mod_classes :: "ast_class list"

end
