(* ===== verification/Ir.thy ===== *)
theory Ir
  imports Ast
begin

section \<open>The intermediate representation (lang/src/compiler/ir/mod.rs)\<close>

text \<open>
  The typed expression trees the compiler produces. A \<open>MutRc<Module>\<close> is a shared pointer,
  so a module is named by a natural number, its identity: pointer equality of references is
  equality of these numbers. An expression carries the cell that caches its type; \<open>e_typ\<close>
  fills the cell on the way, so it returns the expression with the new cell contents next to
  the type. The theory shows that the cached types are those of a plain reference definition
  \<open>ty_of\<close>, that asking twice gives the same answer, and that the constructors keep the cells
  coherent.
\<close>

record func_ref =
  fr_module :: nat
  fr_index :: nat

record class_ref =
  cr_module :: nat
  cr_index :: nat

datatype ty =
    TVoid
  | TPoison
  | TBool
  | TI64
  | TF64
  | TFunction func_ref
  | TClass class_ref

record var_store =
  vs_ty :: ty
  vs_name :: string
  vs_index :: nat
  vs_mutable :: bool

datatype ir_constant =
    CBool bool
  | CInt i64
  | CFloat f64
  | CString string
  | CFunction func_ref
  | CClass class_ref

datatype ir_expr = IrExpr (inner: iexpr) (cell: "ty option")
  and iexpr =
    IPoison
  | IBinary ir_expr token ir_expr
  | IConstant ir_constant
  | IBlock "ir_expr list"
  | IIf ir_expr ir_expr ir_expr bool
  | IWhile ir_expr ir_expr
  | IVariable nat ty
  | IAssign ir_expr ir_expr
  | ICall ir_expr "ir_expr list"

datatype class_content =
    CCMember var_store
  | CCMethod func_ref
  | CCFunction func_ref

record ir_class =
  irc_name :: string
  irc_content :: "(string \<times> class_content) list"
  irc_ast :: ast_class

record ir_function =
  irf_name :: string
  irf_params :: "var_store list"
  irf_ret_type :: ty
  irf_locals :: "var_store list"
  irf_body :: ir_expr
  irf_ir :: "nat option"
  irf_ast :: ast_function

record ir_module =
  irm_funcs :: "ir_function list"
  irm_classes :: "ir_class list"
  irm_reserved_names :: "string set"
  irm_ast :: ast_module

subsection \<open>Types\<close>

definition is_int :: "ty \<Rightarrow> bool" where
  "is_int t \<longleftrightarrow> t = TI64 \<or> t = TPoison"

definition allow_math :: "ty \<Rightarrow> bool" where
  "allow_math t \<longleftrightarrow> t = TI64 \<or> t = TF64 \<or> t = TPoison"

definition allow_logic :: "ty \<Rightarrow> bool" where
  "allow_logic t \<longleftrightarrow> t = TBool \<or> t = TPoison"

definition allow_assignment :: "ty \<Rightarrow> bool" where
  "allow_assignment t \<longleftrightarrow> t \<noteq> TVoid"

definition into_fn :: "ty \<Rightarrow> func_ref outcome" where
  "into_fn t = (case t of TFunction r \<Rightarrow> Ret r | _ \<Rightarrow> Panic (PanicMsg ''explicit panic''))"

subsection \<open>Modules and functions\<close>

definition try_reserve_name :: "string \<Rightarrow> nat \<Rightarrow> ir_module \<Rightarrow> error + ir_module" where
  "try_reserve_name name pos m =
     (if name \<in> irm_reserved_names m then Inl (error_new pos (E201 name))
      else Inr (m\<lparr>irm_reserved_names := insert name (irm_reserved_names m)\<rparr>))"

definition from_ast :: "ast_module \<Rightarrow> ir_module" where
  "from_ast a = \<lparr>irm_funcs = [], irm_classes = [], irm_reserved_names = {}, irm_ast = a\<rparr>"

definition add_local :: "string \<Rightarrow> ty \<Rightarrow> bool \<Rightarrow> var_store list \<Rightarrow> var_store \<times> var_store list" where
  "add_local name t mutable locals =
     (let local = \<lparr>vs_ty = t, vs_name = name, vs_index = length locals, vs_mutable = mutable\<rparr>
      in (local, locals @ [local]))"

text \<open>The content of a class is an \<open>IndexMap\<close>: insertion keeps the position of a key that is
  already there and appends a new one.\<close>

fun index_insert :: "'k \<Rightarrow> 'v \<Rightarrow> ('k \<times> 'v) list \<Rightarrow> ('k \<times> 'v) list" where
  "index_insert k v [] = [(k, v)]"
| "index_insert k v ((k', v') # kvs) = (if k = k' then (k, v) # kvs else (k', v') # index_insert k v kvs)"

subsection \<open>Building expressions\<close>

definition e_new :: "iexpr \<Rightarrow> ir_expr" where
  "e_new i = IrExpr i None"

definition e_with_typ :: "iexpr \<Rightarrow> ty \<Rightarrow> ir_expr" where
  "e_with_typ i t = IrExpr i (Some t)"

definition e_zero :: ir_expr where "e_zero = e_new (IConstant (CInt 0))"
definition e_poison :: ir_expr where "e_poison = e_new IPoison"

definition e_binary :: "ir_expr \<Rightarrow> token \<Rightarrow> ir_expr \<Rightarrow> ir_expr" where
  "e_binary l op r = e_new (IBinary l op r)"

definition e_constant :: "ir_constant \<Rightarrow> ir_expr" where
  "e_constant c = e_new (IConstant c)"

definition e_block :: "ir_expr list \<Rightarrow> ir_expr" where
  "e_block es = e_new (IBlock es)"

definition e_while :: "ir_expr \<Rightarrow> ir_expr \<Rightarrow> ir_expr" where
  "e_while c b = e_new (IWhile c b)"

definition e_local :: "var_store \<Rightarrow> ir_expr" where
  "e_local v = e_new (IVariable (vs_index v) (vs_ty v))"

definition e_assign :: "ir_expr \<Rightarrow> ir_expr \<Rightarrow> ir_expr" where
  "e_assign st v = e_new (IAssign st v)"

definition e_assign_local :: "var_store \<Rightarrow> ir_expr \<Rightarrow> ir_expr" where
  "e_assign_local var v = e_assign (e_local var) v"

definition e_call :: "ir_expr \<Rightarrow> ir_expr list \<Rightarrow> ty \<Rightarrow> ir_expr" where
  "e_call callee args ret = e_with_typ (ICall callee args) ret"

fun assignable :: "ir_expr \<Rightarrow> bool" where
  "assignable (IrExpr (IVariable _ _) _) = True"
| "assignable _ = False"

fun from_literal :: "literal \<Rightarrow> ir_constant" where
  "from_literal (LBool b) = CBool b"
| "from_literal (LInt i) = CInt i"
| "from_literal (LFloat f) = CFloat f"
| "from_literal (LString s) = CString s"

text \<open>\<open>e_typ\<close> reads the cell or computes the type and stores it. \<open>e_typ_last\<close> is the
  \<open>expr.last().map(|e| e.typ())\<close> of a block.\<close>

fun e_typ :: "ir_expr \<Rightarrow> (ty \<times> ir_expr) outcome"
  and get_type :: "iexpr \<Rightarrow> (ty \<times> iexpr) outcome"
  and e_typ_last :: "ir_expr list \<Rightarrow> (ty \<times> ir_expr list) outcome" where
  "e_typ (IrExpr i (Some t)) = Ret (t, IrExpr i (Some t))"
| "e_typ (IrExpr i None) = obind (get_type i) (\<lambda>(t, i'). Ret (t, IrExpr i' (Some t)))"
| "get_type IPoison = Ret (TPoison, IPoison)"
| "get_type (IBinary l op r) =
     (if is_binary_logic (kind op) then Ret (TBool, IBinary l op r)
      else obind (e_typ l) (\<lambda>(t, l'). Ret (t, IBinary l' op r)))"
| "get_type (IConstant c) =
     (case c of
        CBool _ \<Rightarrow> Ret (TBool, IConstant c)
      | CInt _ \<Rightarrow> Ret (TI64, IConstant c)
      | CFloat _ \<Rightarrow> Ret (TF64, IConstant c)
      | CString _ \<Rightarrow> Panic Unimplemented
      | CFunction f \<Rightarrow> Ret (TFunction f, IConstant c)
      | CClass k \<Rightarrow> Ret (TClass k, IConstant c))"
| "get_type (IBlock es) = obind (e_typ_last es) (\<lambda>(t, es'). Ret (t, IBlock es'))"
| "get_type (IIf c t e phi) =
     (if \<not> phi then Ret (TVoid, IIf c t e phi)
      else obind (e_typ t) (\<lambda>(ty, t'). Ret (ty, IIf c t' e phi)))"
| "get_type (IWhile c b) = Ret (TVoid, IWhile c b)"
| "get_type (IVariable i t) = Ret (t, IVariable i t)"
| "get_type (IAssign st v) = obind (e_typ v) (\<lambda>(t, v'). Ret (t, IAssign st v'))"
| "get_type (ICall callee args) = Panic (PanicMsg ''explicit panic'')"
| "e_typ_last [] = Ret (TVoid, [])"
| "e_typ_last (e # es) =
     (if es = [] then obind (e_typ e) (\<lambda>(t, e'). Ret (t, [e']))
      else obind (e_typ_last es) (\<lambda>(t, es'). Ret (t, e # es')))"

text \<open>\<open>Expr::if_\<close>: the arms' types are asked for only when there is an \<open>else\<close> arm.\<close>

definition e_if :: "ir_expr \<Rightarrow> ir_expr \<Rightarrow> ir_expr option \<Rightarrow> ir_expr outcome" where
  "e_if c t els =
     (case els of
        None \<Rightarrow> Ret (e_new (IIf c t e_zero False))
      | Some e \<Rightarrow> obind (e_typ t) (\<lambda>(tt, t'). obind (e_typ e) (\<lambda>(te, e').
          Ret (e_new (IIf c t' e' (tt = te))))))"

subsection \<open>The reference types and the coherence of the cells\<close>

text \<open>The type of an expression with every cell but those of calls ignored; \<open>None\<close> where
  the code panics.\<close>

fun ty_of :: "ir_expr \<Rightarrow> ty option" and ity_of :: "iexpr \<Rightarrow> ty option \<Rightarrow> ty option"
  and ty_of_last :: "ir_expr list \<Rightarrow> ty option" where
  "ty_of (IrExpr i c) = ity_of i c"
| "ity_of IPoison c = Some TPoison"
| "ity_of (IBinary l op r) c = (if is_binary_logic (kind op) then Some TBool else ty_of l)"
| "ity_of (IConstant k) c =
     (case k of CBool _ \<Rightarrow> Some TBool | CInt _ \<Rightarrow> Some TI64 | CFloat _ \<Rightarrow> Some TF64
      | CString _ \<Rightarrow> None | CFunction f \<Rightarrow> Some (TFunction f) | CClass k \<Rightarrow> Some (TClass k))"
| "ity_of (IBlock es) c = ty_of_last es"
| "ity_of (IIf cnd t e phi) c = (if phi then ty_of t else Some TVoid)"
| "ity_of (IWhile cnd b) c = Some TVoid"
| "ity_of (IVariable i t) c = Some t"
| "ity_of (IAssign st v) c = ty_of v"
| "ity_of (ICall callee args) c = c"
| "ty_of_last [] = Some TVoid"
| "ty_of_last (e # es) = (if es = [] then ty_of e else ty_of_last es)"

text \<open>\<open>erase\<close> forgets the cells the code can refill.\<close>

fun erase :: "ir_expr \<Rightarrow> ir_expr" and ierase :: "iexpr \<Rightarrow> iexpr" where
  "erase (IrExpr i c) = IrExpr (ierase i) (case i of ICall _ _ \<Rightarrow> c | _ \<Rightarrow> None)"
| "ierase IPoison = IPoison"
| "ierase (IBinary l op r) = IBinary (erase l) op (erase r)"
| "ierase (IConstant k) = IConstant k"
| "ierase (IBlock es) = IBlock (map erase es)"
| "ierase (IIf c t e phi) = IIf (erase c) (erase t) (erase e) phi"
| "ierase (IWhile c b) = IWhile (erase c) (erase b)"
| "ierase (IVariable i t) = IVariable i t"
| "ierase (IAssign st v) = IAssign (erase st) (erase v)"
| "ierase (ICall callee args) = ICall (erase callee) (map erase args)"

text \<open>Coherent cells: a filled cell holds the reference type, a call's cell is filled, and an
  \<open>if\<close> that yields a value has arms of one type.\<close>

fun coherent :: "ir_expr \<Rightarrow> bool" and icoherent :: "iexpr \<Rightarrow> bool" where
  "coherent (IrExpr i c) \<longleftrightarrow>
     icoherent i \<and> (case i of ICall _ _ \<Rightarrow> c \<noteq> None | _ \<Rightarrow> c = None \<or> c = ity_of i c)"
| "icoherent IPoison = True"
| "icoherent (IBinary l op r) \<longleftrightarrow> coherent l \<and> coherent r"
| "icoherent (IConstant k) = True"
| "icoherent (IBlock es) \<longleftrightarrow> (\<forall>e \<in> set es. coherent e)"
| "icoherent (IIf c t e phi) \<longleftrightarrow> coherent c \<and> coherent t \<and> coherent e \<and> (phi \<longrightarrow> ty_of t = ty_of e \<and> ty_of t \<noteq> None)"
| "icoherent (IWhile c b) \<longleftrightarrow> coherent c \<and> coherent b"
| "icoherent (IVariable i t) = True"
| "icoherent (IAssign st v) \<longleftrightarrow> coherent st \<and> coherent v"
| "icoherent (ICall callee args) \<longleftrightarrow> coherent callee \<and> (\<forall>e \<in> set args. coherent e)"


definition is_call :: "iexpr \<Rightarrow> bool" where
  "is_call i = (case i of ICall _ _ \<Rightarrow> True | _ \<Rightarrow> False)"

lemma is_call_simps [simp]:
  "is_call (ICall f as)" "\<not> is_call IPoison" "\<not> is_call (IBinary l op r)" "\<not> is_call (IConstant k)"
  "\<not> is_call (IBlock es)" "\<not> is_call (IIf c t e phi)" "\<not> is_call (IWhile c b)"
  "\<not> is_call (IVariable n u)" "\<not> is_call (IAssign st v)"
  by (simp_all add: is_call_def)

lemma coherent_iff:
  "coherent (IrExpr i c) \<longleftrightarrow> icoherent i \<and> (if is_call i then c \<noteq> None else c = None \<or> c = ity_of i None)"
  by (cases i) (simp_all add: is_call_def)

lemma ity_of_no_call: "\<not> is_call i \<Longrightarrow> ity_of i c = ity_of i None"
  by (cases i) simp_all

lemma erase_iff: "erase (IrExpr i c) = IrExpr (ierase i) (if is_call i then c else None)"
  by (cases i) (simp_all add: is_call_def)

declare coherent.simps [simp del] erase.simps [simp del]
declare coherent_iff [simp] erase_iff [simp]

text \<open>The reference type only depends on the erased expression.\<close>

lemma is_call_ierase [simp]: "is_call (ierase i) = is_call i"
  by (cases i) simp_all

lemma ity_of_Some [simp]: "\<not> is_call i \<Longrightarrow> ity_of i (Some t) = ity_of i None"
  by (rule ity_of_no_call)

lemma ity_of_call [simp]: "is_call i \<Longrightarrow> ity_of i c = c"
  by (cases i) simp_all

lemma ty_of_erase:
  "ty_of (erase e) = ty_of e"
  "ity_of (ierase i) (if is_call i then c else None) = ity_of i c"
  "ty_of_last (map erase es) = ty_of_last es"
  by (induction e and i c and es rule: ty_of_ity_of_ty_of_last.induct) simp_all

definition typed :: "ir_expr \<Rightarrow> (ty \<times> ir_expr) outcome \<Rightarrow> bool" where
  "typed e r = (case r of
      Ret (t, e') \<Rightarrow> ty_of e = Some t \<and> erase e' = erase e \<and> coherent e' \<and> cell e' = Some t \<and> ty_of e' = Some t
    | Panic p \<Rightarrow> ty_of e = None)"

lemma erase_is_call: "erase e' = erase e \<Longrightarrow> ty_of e' = ty_of e"
  by (metis ty_of_erase(1))

lemma ierase_eqD:
  assumes "ierase i' = ierase i"
  shows "is_call i' = is_call i" and "ity_of i' None = ity_of i None"
proof -
  show "is_call i' = is_call i" using assms by (metis is_call_ierase)
  then show "ity_of i' None = ity_of i None"
    using assms ty_of_erase(2) [of i None] ty_of_erase(2) [of i' None] by simp
qed

lemma e_typ_correct:
  "coherent e \<Longrightarrow> typed e (e_typ e)"
  "icoherent i \<Longrightarrow> (case get_type i of
      Ret (t, i') \<Rightarrow> \<not> is_call i \<and> ity_of i None = Some t \<and> ierase i' = ierase i \<and> icoherent i'
    | Panic p \<Rightarrow> \<not> is_call i \<longrightarrow> ity_of i None = None)"
  "\<forall>e \<in> set es. coherent e \<Longrightarrow> (case e_typ_last es of
      Ret (t, es') \<Rightarrow> ty_of_last es = Some t \<and> map erase es' = map erase es \<and> (\<forall>e \<in> set es'. coherent e)
    | Panic p \<Rightarrow> ty_of_last es = None)"
proof (induction e and i and es rule: e_typ_get_type_e_typ_last.induct)
  case (1 i t)
  then show ?case by (auto simp: typed_def split: if_splits)
next
  case (2 i)
  then show ?case
  proof (cases "get_type i")
    case (Ret r)
    with 2 ierase_eqD [of "snd r" i] show ?thesis by (auto simp: typed_def)
  qed (auto simp: typed_def)
qed (auto simp: typed_def split: outcome.splits ir_constant.splits dest: erase_is_call)

subsection \<open>The interface: a query that caches its answer\<close>

locale cached_query =
  fixes query :: "'e \<Rightarrow> ('t \<times> 'e) outcome"
    and answer :: "'e \<Rightarrow> 't option"
    and inv :: "'e \<Rightarrow> bool"
    and core :: "'e \<Rightarrow> 'c"
  assumes query_Ret: "inv e \<Longrightarrow> query e = Ret (t, e') \<Longrightarrow>
      answer e = Some t \<and> inv e' \<and> core e' = core e \<and> query e' = Ret (t, e')"
    and query_Panic: "inv e \<Longrightarrow> query e = Panic p \<Longrightarrow> answer e = None"
    and answer_core: "core e = core e' \<Longrightarrow> answer e = answer e'"
begin

lemma query_iff:
  assumes "inv e"
  shows "(\<exists>e'. query e = Ret (t, e')) \<longleftrightarrow> answer e = Some t"
  using query_Ret [OF assms] query_Panic [OF assms] by (cases "query e") fastforce+

lemma query_obtain:
  assumes "inv e" and "answer e = Some t"
  obtains e' where "query e = Ret (t, e')" and "inv e'" and "core e' = core e" and "answer e' = Some t"
    and "query e' = Ret (t, e')"
  using query_iff [OF assms(1)] query_Ret [OF assms(1)] answer_core assms(2) that by metis

text \<open>What was asked of the expression before does not change the answer.\<close>

lemma query_agrees:
  assumes "inv e" and "inv e'" and "core e = core e'"
    and "query e = Ret (t, d)" and "query e' = Ret (t', d')"
  shows "t = t'"
  using query_Ret [OF assms(1,4)] query_Ret [OF assms(2,5)] answer_core [OF assms(3)] by simp

end

lemma e_typ_filled: "cell e = Some t \<Longrightarrow> e_typ e = Ret (t, e)"
  by (cases e) auto

interpretation typing: cached_query e_typ ty_of coherent erase
proof
  fix e e' t
  assume "coherent e" and "e_typ e = Ret (t, e')"
  then show "ty_of e = Some t \<and> coherent e' \<and> erase e' = erase e \<and> e_typ e' = Ret (t, e')"
    using e_typ_correct(1) [of e] by (simp add: typed_def e_typ_filled)
next
  fix e p
  assume "coherent e" and "e_typ e = Panic p"
  then show "ty_of e = None" using e_typ_correct(1) [of e] by (simp add: typed_def)
next
  fix e e'
  assume "erase e = erase e'"
  then show "ty_of e = ty_of e'" by (rule erase_is_call)
qed

subsection \<open>The constructors keep the cells coherent\<close>

lemmas e_defs = e_new_def e_with_typ_def e_zero_def e_poison_def e_binary_def e_constant_def e_block_def
  e_while_def e_local_def e_assign_def e_assign_local_def e_call_def

lemma e_coherent [simp, intro]:
  "coherent e_zero" "coherent e_poison" "coherent (e_constant k)" "coherent (e_local v)"
  "coherent l \<Longrightarrow> coherent r \<Longrightarrow> coherent (e_binary l op r)"
  "\<forall>e \<in> set es. coherent e \<Longrightarrow> coherent (e_block es)"
  "coherent c \<Longrightarrow> coherent b \<Longrightarrow> coherent (e_while c b)"
  "coherent l \<Longrightarrow> coherent r \<Longrightarrow> coherent (e_assign l r)"
  "coherent r \<Longrightarrow> coherent (e_assign_local v r)"
  "coherent c \<Longrightarrow> \<forall>e \<in> set es. coherent e \<Longrightarrow> coherent (e_call c es t)"
  by (simp_all add: e_defs)

lemma e_if_coherent:
  assumes "e_if c t els = Ret e" and "coherent c" and "coherent t" and "\<forall>x. els = Some x \<longrightarrow> coherent x"
  shows "coherent e"
proof (cases els)
  case None
  with assms show ?thesis by (auto simp: e_if_def e_defs)
next
  case (Some x)
  with assms(1) obtain tt t' tx x' where *: "e_typ t = Ret (tt, t')" "e_typ x = Ret (tx, x')"
    "e = e_new (IIf c t' x' (tt = tx))"
    by (auto simp: e_if_def outcome_simps)
  have "coherent t' \<and> ty_of t' = Some tt" "coherent x' \<and> ty_of x' = Some tx"
    using typing.query_Ret [OF _ *(1)] typing.query_Ret [OF _ *(2)] assms(3,4) Some erase_is_call by metis+
  with assms(2) *(3) show ?thesis by (simp add: e_new_def)
qed

text \<open>C16: asking an expression for its type through the cells gives the type the plain
  definition gives, leaves the expression the same but for the cells, keeps the cells coherent,
  and asking again returns the same type and changes nothing; it panics exactly where no type
  is defined.\<close>

theorem typ_cells_transparent:
  assumes "coherent e"
  shows "case e_typ e of
           Ret (t, e') \<Rightarrow> ty_of e = Some t \<and> erase e' = erase e \<and> coherent e' \<and> e_typ e' = Ret (t, e')
         | Panic p \<Rightarrow> ty_of e = None"
  using typing.query_Ret [OF assms] typing.query_Panic [OF assms]
  by (cases "e_typ e") auto

theorem typ_cells_transparent_witness:
  "case e_typ (e_block [e_poison, e_call e_poison [] TI64]) of
     Ret (t, e') \<Rightarrow> ty_of (e_block [e_poison, e_call e_poison [] TI64]) = Some t
        \<and> erase e' = erase (e_block [e_poison, e_call e_poison [] TI64]) \<and> coherent e' \<and> e_typ e' = Ret (t, e')
   | Panic p \<Rightarrow> ty_of (e_block [e_poison, e_call e_poison [] TI64]) = None"
  by (rule typ_cells_transparent) simp

text \<open>C17: an \<open>if\<close> yields a value exactly when it has an \<open>else\<close> arm of the type of its
  \<open>then\<close> arm; otherwise its type is void. It is built without a panic when both arms have a
  type, and its cells are coherent.\<close>

theorem if_yields_value:
  assumes "coherent c" and "coherent t" and "coherent e"
    and "ty_of t = Some tt" and "ty_of e = Some te"
  shows "\<exists>i. e_if c t (Some e) = Ret i \<and> coherent i
            \<and> ty_of i = Some (if tt = te then tt else TVoid)
         \<and> e_if c t None = Ret (e_new (IIf c t e_zero False))
         \<and> ty_of (e_new (IIf c t e_zero False)) = Some TVoid"
proof -
  obtain t' where t': "e_typ t = Ret (tt, t')" "ty_of t' = Some tt"
    using typing.query_obtain [OF assms(2,4)] by metis
  obtain e' where e': "e_typ e = Ret (te, e')"
    using typing.query_obtain [OF assms(3,5)] by metis
  have i: "e_if c t (Some e) = Ret (e_new (IIf c t' e' (tt = te)))"
    using t'(1) e' by (simp add: e_if_def)
  with e_if_coherent [OF i assms(1,2)] assms(3) t'(2) show ?thesis
    by (simp add: e_if_def) (simp add: e_new_def)
qed

theorem if_yields_value_witness:
  "\<exists>i. e_if e_poison (e_constant (CInt 1)) (Some (e_constant (CBool True))) = Ret i \<and> coherent i
            \<and> ty_of i = Some (if TI64 = TBool then TI64 else TVoid)
         \<and> e_if e_poison (e_constant (CInt 1)) None = Ret (e_new (IIf e_poison (e_constant (CInt 1)) e_zero False))
         \<and> ty_of (e_new (IIf e_poison (e_constant (CInt 1)) e_zero False)) = Some TVoid"
  by (rule if_yields_value) (simp_all, simp_all add: e_defs)

end
