(* ===== verification/ExprCompiler.thy ===== *)
theory ExprCompiler
  imports Ir
begin

section \<open>Compiling expressions (lang/src/compiler/module/expr_compiler.rs)\<close>

text \<open>
  \<open>ExprCompiler\<close> walks the syntax tree of one function body and builds the typed tree. Its
  state is the function's list of locals, which \<open>add_local\<close> extends through a shared
  reference, and the stack of scopes, innermost last. A scope maps a name to a reference
  \<open>&VarStore\<close> into the function's parameters or into its locals.

  The locals live in a \<open>SmallVec<[VarStore; 6]>\<close>: pushing may move them to another buffer,
  and a reference taken before then dangles. \<open>cc_buf n\<close> names the buffer that holds \<open>n\<close>
  locals (code of the smallvec crate, hence a parameter; documented: up to the inline
  capacity of six the buffer is the inline one). A reference remembers the buffer it points
  into and reading it in any other buffer is \<open>DanglingRef\<close>.

  \<open>cc_show\<close> is the derived \<open>Debug\<close> text of a type, which the code builds for the error values
  it then drops. For function and class types it walks the module graph, so it is a
  parameter that may fail to return.
\<close>

datatype var_ref = VParam nat | VLocal nat nat

type_synonym environment = "string \<rightharpoonup> var_ref"

record ec_state =
  ec_locals :: "var_store list"
  ec_envs :: "environment list"

record cctx =
  cc_mods :: "nat \<Rightarrow> ir_module"
  cc_self :: nat
  cc_params :: "var_store list"
  cc_buf :: "nat \<Rightarrow> nat"
  cc_show :: "ty \<Rightarrow> string outcome"

definition func_resolve :: "(nat \<Rightarrow> ir_module) \<Rightarrow> func_ref \<Rightarrow> ir_function outcome" where
  "func_resolve mods r = idx (irm_funcs (mods (fr_module r))) (fr_index r)"

definition deref :: "cctx \<Rightarrow> ec_state \<Rightarrow> var_ref \<Rightarrow> var_store outcome" where
  "deref C s r = (case r of
      VParam i \<Rightarrow> idx (cc_params C) i
    | VLocal i b \<Rightarrow> if b = cc_buf C (length (ec_locals s)) then idx (ec_locals s) i else Panic DanglingRef)"

text \<open>The error is built and dropped: the body of \<open>err\<close> is a comment.\<close>

definition ec_err :: "nat \<Rightarrow> error_kind \<Rightarrow> ec_state \<Rightarrow> ec_state" where
  "ec_err pos k s = s"

definition find_local :: "string \<Rightarrow> ec_state \<Rightarrow> var_ref option" where
  "find_local name s =
     (case List.map_filter (\<lambda>env. env name) (rev (ec_envs s)) of [] \<Rightarrow> None | r # _ \<Rightarrow> Some r)"

definition find_function :: "cctx \<Rightarrow> string \<Rightarrow> func_ref option" where
  "find_function C name =
     map_option (\<lambda>i. \<lparr>fr_module = cc_self C, fr_index = i\<rparr>)
       (iter_position (\<lambda>f. irf_name f = name) (irm_funcs (cc_mods C (cc_self C))))"

definition add_to_scope :: "string \<Rightarrow> var_ref \<Rightarrow> ec_state \<Rightarrow> ec_state outcome" where
  "add_to_scope name r s =
     (if ec_envs s = [] then Panic UnwrapOnNone
      else Ret (s\<lparr>ec_envs := butlast (ec_envs s) @ [(last (ec_envs s))(name \<mapsto> r)]\<rparr>))"

definition begin_scope :: "ec_state \<Rightarrow> ec_state" where
  "begin_scope s = s\<lparr>ec_envs := ec_envs s @ [Map.empty]\<rparr>"

definition end_scope :: "ec_state \<Rightarrow> ec_state" where
  "end_scope s = s\<lparr>ec_envs := butlast (ec_envs s)\<rparr>"

definition params_env :: "var_store list \<Rightarrow> environment" where
  "params_env ps = foldl (\<lambda>m (i, p). m(vs_name p \<mapsto> VParam i)) Map.empty (enumerate 0 ps)"

definition ec_new :: "ir_function \<Rightarrow> ec_state" where
  "ec_new f = \<lparr>ec_locals = irf_locals f, ec_envs = [params_env (irf_params f)]\<rparr>"

text \<open>The parts of \<open>expr\<close> after its recursive calls, one per kind of expression.\<close>

definition ec_binary :: "cctx \<Rightarrow> token \<Rightarrow> ir_expr \<Rightarrow> ir_expr \<Rightarrow> ec_state \<Rightarrow> (ir_expr \<times> ec_state) outcome" where
  "ec_binary C op left right s =
     obind (e_typ left) (\<lambda>(lty, left). obind (e_typ right) (\<lambda>(rty, right).
       let logic = is_binary_logic (kind op) in
       if lty \<noteq> rty then
         obind (cc_show C lty) (\<lambda>l. obind (cc_show C rty) (\<lambda>r.
           Ret (e_binary left op right, ec_err (start op) (E500 l r) s)))
       else if kind op = TK_Equal then
         (let s = (if \<not> assignable left then ec_err (start op) E505 s else s)
          in Ret (e_assign left right, s))
       else if (logic \<and> \<not> allow_logic lty) \<or> (\<not> logic \<and> \<not> allow_math lty) then
         obind (cc_show C lty) (\<lambda>l. Ret (e_binary left op right, ec_err (start op) (E501 (lex op) l) s))
       else Ret (e_binary left op right, s)))"

definition ec_condition :: "nat \<Rightarrow> ir_expr \<Rightarrow> ec_state \<Rightarrow> (ir_expr \<times> ec_state) outcome" where
  "ec_condition pos c s =
     obind (e_typ c) (\<lambda>(t, c). Ret (c, if t \<noteq> TBool then ec_err pos E502 s else s))"

definition ec_identifier :: "cctx \<Rightarrow> token \<Rightarrow> ec_state \<Rightarrow> (ir_expr \<times> ec_state) outcome" where
  "ec_identifier C ident s =
     (case find_local (lex ident) s of
        Some r \<Rightarrow> obind (deref C s r) (\<lambda>v. Ret (e_local v, s))
      | None \<Rightarrow>
          (case find_function C (lex ident) of
             Some f \<Rightarrow> Ret (e_constant (CFunction f), s)
           | None \<Rightarrow> Ret (e_poison, ec_err (start ident) (E503 (lex ident)) s)))"

definition ec_variable :: "cctx \<Rightarrow> bool \<Rightarrow> token \<Rightarrow> ir_expr \<Rightarrow> ec_state \<Rightarrow> (ir_expr \<times> ec_state) outcome" where
  "ec_variable C final name v s =
     obind (e_typ v) (\<lambda>(t, v).
     obind (if \<not> allow_assignment t
            then obind (cc_show C t) (\<lambda>x. Ret (ec_err (start name) (E504 x) s)) else Ret s) (\<lambda>s.
     let (local, ls) = add_local (lex name) t (\<not> final) (ec_locals s);
         r = VLocal (length (ec_locals s)) (cc_buf C (length ls));
         s = s\<lparr>ec_locals := ls\<rparr>
     in obind (add_to_scope (vs_name local) r s) (\<lambda>s. Ret (e_assign_local local v, s))))"

fun check_args :: "cctx \<Rightarrow> nat \<Rightarrow> nat \<Rightarrow> var_store list \<Rightarrow> ir_expr list \<Rightarrow> ec_state
    \<Rightarrow> (ir_expr list \<times> ec_state) outcome" where
  "check_args C pos i (p # ps) (a # as) s =
     obind (e_typ a) (\<lambda>(t, a).
     obind (if t \<noteq> vs_ty p
            then obind (cc_show C (vs_ty p)) (\<lambda>x. obind (cc_show C t) (\<lambda>y.
                   Ret (ec_err pos (E508 x y i) s)))
            else Ret s) (\<lambda>s.
     obind (check_args C pos (Suc i) ps as s) (\<lambda>(as, s). Ret (a # as, s))))"
| "check_args C pos i ps as s = Ret (as, s)"

definition call_args :: "cctx \<Rightarrow> nat \<Rightarrow> ir_function \<Rightarrow> ir_expr \<Rightarrow> ir_expr list \<Rightarrow> ec_state
    \<Rightarrow> (ir_expr \<times> ec_state) outcome" where
  "call_args C pos func callee args s =
     (let s = (if length args \<noteq> length (irf_params func)
               then ec_err pos (E507 (length (irf_params func)) (length args)) s else s)
      in obind (check_args C pos 0 (irf_params func) args s) (\<lambda>(args, s).
         Ret (e_call callee args (irf_ret_type func), s)))"

fun ec_expr :: "cctx \<Rightarrow> expr \<Rightarrow> ec_state \<Rightarrow> (ir_expr \<times> ec_state) outcome"
  and ec_exprs :: "cctx \<Rightarrow> expr list \<Rightarrow> ec_state \<Rightarrow> (ir_expr list \<times> ec_state) outcome" where
  "ec_expr C (Expr (ELiteral l) _) s = Ret (e_constant (from_literal l), s)"
| "ec_expr C (Expr (EBinary l op r) _) s =
     obind (ec_expr C l s) (\<lambda>(left, s). obind (ec_expr C r s) (\<lambda>(right, s). ec_binary C op left right s))"
| "ec_expr C (Expr (EBlock es) _) s =
     obind (ec_exprs C es (begin_scope s)) (\<lambda>(es, s). Ret (e_block es, end_scope s))"
| "ec_expr C (Expr (EIf c t e) _) s =
     obind (ec_expr C c s) (\<lambda>(cnd, s). obind (ec_condition (estart c) cnd s) (\<lambda>(cnd, s).
     obind (ec_expr C t s) (\<lambda>(thn, s).
     obind (case e of
              None \<Rightarrow> Ret (None, s)
            | Some e \<Rightarrow> obind (ec_expr C e s) (\<lambda>(e, s). Ret (Some e, s))) (\<lambda>(els, s).
     obind (e_if cnd thn els) (\<lambda>i. Ret (i, s))))))"
| "ec_expr C (Expr (EWhile c b) _) s =
     obind (ec_expr C c s) (\<lambda>(cnd, s). obind (ec_condition (estart c) cnd s) (\<lambda>(cnd, s).
     obind (ec_expr C b s) (\<lambda>(body, s). Ret (e_while cnd body, s))))"
| "ec_expr C (Expr (EIdentifier ident) _) s = ec_identifier C ident s"
| "ec_expr C (Expr (EVariable final name v) _) s =
     obind (ec_expr C v s) (\<lambda>(v, s). ec_variable C final name v s)"
| "ec_expr C (Expr (ECall callee args) _) s =
     obind (ec_expr C callee s) (\<lambda>(cal, s). obind (e_typ cal) (\<lambda>(t, cal).
       case t of
         TFunction fr \<Rightarrow>
           obind (func_resolve (cc_mods C) fr) (\<lambda>func.
           obind (ec_exprs C args s) (\<lambda>(args, s). call_args C (estart callee) func cal args s))
       | _ \<Rightarrow> obind (cc_show C t) (\<lambda>x. Ret (e_poison, ec_err (estart callee) (E506 x) s))))"
| "ec_expr C (Expr (EUnary op r) _) s = Panic (PanicMsg ''i can't compile this'')"
| "ec_exprs C [] s = Ret ([], s)"
| "ec_exprs C (e # es) s =
     obind (ec_expr C e s) (\<lambda>(e, s). obind (ec_exprs C es s) (\<lambda>(es, s). Ret (e # es, s)))"

subsection \<open>Well-formed trees and scopes\<close>

definition fref_ok :: "cctx \<Rightarrow> func_ref \<Rightarrow> bool" where
  "fref_ok C r \<longleftrightarrow> fr_index r < length (irm_funcs (cc_mods C (fr_module r)))"

definition fty_ok :: "cctx \<Rightarrow> ty \<Rightarrow> bool" where
  "fty_ok C t = (case t of TFunction r \<Rightarrow> fref_ok C r | _ \<Rightarrow> True)"

definition var_ok :: "cctx \<Rightarrow> var_store list \<Rightarrow> nat \<Rightarrow> ty \<Rightarrow> bool" where
  "var_ok C ls i t \<longleftrightarrow>
     (i < length (cc_params C) \<and> vs_ty (cc_params C ! i) = t) \<or> (i < length ls \<and> vs_ty (ls ! i) = t)"

text \<open>A well-formed tree over a table of locals: its variables are parameters or locals of the
  type they carry, its function constants and the types of its calls name functions that exist.\<close>

fun ir_ok :: "cctx \<Rightarrow> var_store list \<Rightarrow> ir_expr \<Rightarrow> bool"
  and iir_ok :: "cctx \<Rightarrow> var_store list \<Rightarrow> iexpr \<Rightarrow> ty option \<Rightarrow> bool" where
  "ir_ok C ls (IrExpr i c) = iir_ok C ls i c"
| "iir_ok C ls IPoison c = True"
| "iir_ok C ls (IBinary l op r) c \<longleftrightarrow> ir_ok C ls l \<and> ir_ok C ls r"
| "iir_ok C ls (IConstant k) c = (case k of CFunction r \<Rightarrow> fref_ok C r | _ \<Rightarrow> True)"
| "iir_ok C ls (IBlock es) c \<longleftrightarrow> (\<forall>e \<in> set es. ir_ok C ls e)"
| "iir_ok C ls (IIf cnd t e phi) c \<longleftrightarrow> ir_ok C ls cnd \<and> ir_ok C ls t \<and> ir_ok C ls e"
| "iir_ok C ls (IWhile cnd b) c \<longleftrightarrow> ir_ok C ls cnd \<and> ir_ok C ls b"
| "iir_ok C ls (IVariable i t) c = var_ok C ls i t"
| "iir_ok C ls (IAssign st v) c \<longleftrightarrow> ir_ok C ls st \<and> ir_ok C ls v"
| "iir_ok C ls (ICall f as) c \<longleftrightarrow>
     ir_ok C ls f \<and> (\<forall>e \<in> set as. ir_ok C ls e) \<and> (case c of Some t \<Rightarrow> fty_ok C t | None \<Rightarrow> True)"

definition good :: "cctx \<Rightarrow> ec_state \<Rightarrow> ir_expr \<Rightarrow> bool" where
  "good C s i \<longleftrightarrow> coherent i \<and> ir_ok C (ec_locals s) i"

definition ref_ok :: "cctx \<Rightarrow> var_store list \<Rightarrow> string \<Rightarrow> var_ref \<Rightarrow> bool" where
  "ref_ok C ls x r = (case r of
      VParam i \<Rightarrow> i < length (cc_params C) \<and> vs_name (cc_params C ! i) = x
    | VLocal i b \<Rightarrow> i < length ls \<and> vs_name (ls ! i) = x \<and> (\<exists>n \<le> length ls. b = cc_buf C n))"

definition table_ok :: "cctx \<Rightarrow> var_store list \<Rightarrow> bool" where
  "table_ok C vs \<longleftrightarrow> (\<forall>i < length vs. vs_index (vs ! i) = i \<and> fty_ok C (vs_ty (vs ! i)))"

definition ctx_ok :: "cctx \<Rightarrow> bool" where
  "ctx_ok C \<longleftrightarrow> table_ok C (cc_params C)
     \<and> (\<forall>m. \<forall>f \<in> set (irm_funcs (cc_mods C m)). fty_ok C (irf_ret_type f))"

definition ec_inv :: "cctx \<Rightarrow> ec_state \<Rightarrow> bool" where
  "ec_inv C s \<longleftrightarrow> table_ok C (ec_locals s) \<and> ec_envs s \<noteq> []
     \<and> (\<forall>env \<in> set (ec_envs s). \<forall>x r. env x = Some r \<longrightarrow> ref_ok C (ec_locals s) x r)"

definition ext :: "ec_state \<Rightarrow> ec_state \<Rightarrow> bool" where
  "ext s s' \<longleftrightarrow> (\<exists>ns. ec_locals s' = ec_locals s @ ns) \<and> butlast (ec_envs s') = butlast (ec_envs s)"

lemma ext_refl [simp, intro]: "ext s s"
  by (simp add: ext_def)

lemma ext_trans [trans]: "ext s t \<Longrightarrow> ext t u \<Longrightarrow> ext s u"
  by (auto simp: ext_def)

lemma fty_ok_simps [simp]:
  "fty_ok C TVoid" "fty_ok C TPoison" "fty_ok C TBool" "fty_ok C TI64" "fty_ok C TF64"
  "fty_ok C (TFunction r) = fref_ok C r" "fty_ok C (TClass c)"
  by (simp_all add: fty_ok_def)

lemma var_ok_mono: "var_ok C ls i t \<Longrightarrow> var_ok C (ls @ ns) i t"
  by (auto simp: var_ok_def nth_append)

lemma ir_ok_mono:
  "ir_ok C ls e \<Longrightarrow> ir_ok C (ls @ ns) e"
  "iir_ok C ls i c \<Longrightarrow> iir_ok C (ls @ ns) i c"
  by (induction C ls e and C ls i c rule: ir_ok_iir_ok.induct) (auto simp: var_ok_mono)

lemma good_ext: "good C s e \<Longrightarrow> ext s s' \<Longrightarrow> good C s' e"
  by (auto simp: good_def ext_def ir_ok_mono)

lemma ir_ok_erase:
  "ir_ok C ls (erase e) = ir_ok C ls e"
  "iir_ok C ls (ierase i) (if is_call i then c else None) = iir_ok C ls i c"
  by (induction C ls e and C ls i c rule: ir_ok_iir_ok.induct) simp_all

lemma ty_of_ok:
  assumes "table_ok C ls" and "ctx_ok C"
  shows "ir_ok C ls e \<Longrightarrow> ty_of e = Some t \<Longrightarrow> fty_ok C t"
    and "iir_ok C ls i c \<Longrightarrow> ity_of i c = Some t \<Longrightarrow> fty_ok C t"
    and "\<forall>e \<in> set es. ir_ok C ls e \<Longrightarrow> ty_of_last es = Some t \<Longrightarrow> fty_ok C t"
  using assms
  by (induction e and i c and es rule: ty_of_ity_of_ty_of_last.induct)
    (auto simp: ctx_ok_def table_ok_def var_ok_def split: ir_constant.splits if_splits)

lemma good_typ:
  assumes "good C s e" and "e_typ e = Ret (t, e')"
  shows "good C s e'" and "ty_of e = Some t" and "ty_of e' = Some t"
proof -
  have c: "coherent e" and i: "ir_ok C (ec_locals s) e" using assms(1) by (auto simp: good_def)
  note q = typing.query_Ret [OF c assms(2)]
  show "ty_of e = Some t" using q by simp
  moreover show "good C s e'" using q i ir_ok_erase(1) [of C "ec_locals s" e'] ir_ok_erase(1) [of C "ec_locals s" e]
    by (simp add: good_def)
  ultimately show "ty_of e' = Some t" using q by (metis erase_is_call)
qed

lemma good_simps [simp]:
  "good C s e_zero" "good C s e_poison"
  "good C s (e_constant k) \<longleftrightarrow> (case k of CFunction r \<Rightarrow> fref_ok C r | _ \<Rightarrow> True)"
  "good C s (e_local v) \<longleftrightarrow> var_ok C (ec_locals s) (vs_index v) (vs_ty v)"
  "good C s l \<Longrightarrow> good C s r \<Longrightarrow> good C s (e_binary l op r)"
  "(\<forall>e \<in> set es. good C s e) \<Longrightarrow> good C s (e_block es)"
  "good C s c \<Longrightarrow> good C s b \<Longrightarrow> good C s (e_while c b)"
  "good C s l \<Longrightarrow> good C s r \<Longrightarrow> good C s (e_assign l r)"
  "good C s c \<Longrightarrow> (\<forall>e \<in> set es. good C s e) \<Longrightarrow> fty_ok C t \<Longrightarrow> good C s (e_call c es t)"
  by (auto simp: good_def e_defs split: ir_constant.splits)

lemma good_if:
  assumes "e_if c t els = Ret e" and "good C s c" and "good C s t" and "\<forall>x. els = Some x \<longrightarrow> good C s x"
  shows "good C s e"
proof -
  have "coherent e" using e_if_coherent [OF assms(1)] assms(2-4) by (auto simp: good_def)
  moreover have "ir_ok C (ec_locals s) e"
    using assms
    by (cases els) (auto simp: e_if_def outcome_simps e_defs good_def dest!: good_typ(1) [unfolded good_def, rotated])
  ultimately show ?thesis by (simp add: good_def)
qed

subsection \<open>Each part keeps the state well formed\<close>

lemma ec_err_id [simp]: "ec_err pos k s = s" "(if b then ec_err pos k s else s) = s"
  by (simp_all add: ec_err_def)

lemma ec_binary_post:
  assumes "ec_binary C op l r s = Ret (i, s')" and "good C s l" and "good C s r"
  shows "s' = s \<and> good C s i"
proof -
  obtain lt l' rt r' where *: "e_typ l = Ret (lt, l')" "e_typ r = Ret (rt, r')"
    and "s' = s" and i: "i = e_binary l' op r' \<or> i = e_assign l' r'"
    using assms(1) by (auto simp: ec_binary_def outcome_simps Let_def split: if_splits)
  moreover have "good C s l'" "good C s r'"
    using good_typ(1) [OF assms(2) *(1)] good_typ(1) [OF assms(3) *(2)] by simp_all
  ultimately show ?thesis by auto
qed

lemma ec_condition_post:
  assumes "ec_condition p c s = Ret (i, s')" and "good C s c"
  shows "s' = s \<and> good C s i"
  using assms by (auto simp: ec_condition_def outcome_simps dest: good_typ(1))

lemma find_function_ok: "find_function C x = Some r \<Longrightarrow> fref_ok C r"
  by (auto simp: find_function_def fref_ok_def dest!: iter_position_Some)

text \<open>The innermost scope that binds a name decides, as in one map built from all scopes.\<close>

definition scope :: "ec_state \<Rightarrow> environment" where
  "scope s = foldl (++) Map.empty (ec_envs s)"

lemma find_local_scope: "find_local x s = scope s x"
proof -
  have "(case List.map_filter (\<lambda>env. env x) (rev envs) of [] \<Rightarrow> None | r # _ \<Rightarrow> Some r)
        = foldl (++) Map.empty envs x" for envs
    by (induction envs rule: rev_induct) (auto simp: map_filter_def map_add_def split: option.splits)
  then show ?thesis by (simp add: find_local_def scope_def)
qed

lemma scope_ref_ok:
  assumes "ec_inv C s" and "scope s x = Some r"
  shows "ref_ok C (ec_locals s) x r"
proof -
  have "foldl (++) Map.empty envs x = Some r \<Longrightarrow> \<exists>env \<in> set envs. env x = Some r" for envs
    by (induction envs rule: rev_induct) (auto simp: map_add_Some_iff)
  with assms show ?thesis by (auto simp: ec_inv_def scope_def)
qed

lemma deref_ok:
  assumes "ec_inv C s" and "ctx_ok C" and "ref_ok C (ec_locals s) x r" and "deref C s r = Ret v"
  shows "vs_name v = x \<and> var_ok C (ec_locals s) (vs_index v) (vs_ty v)"
  using assms
  by (auto simp: deref_def ref_ok_def idx_def ec_inv_def ctx_ok_def table_ok_def var_ok_def
      split: var_ref.splits if_splits)

lemma ec_identifier_post:
  assumes "ec_identifier C t s = Ret (i, s')" and "ec_inv C s" and "ctx_ok C"
  shows "s' = s \<and> good C s i"
proof (cases "scope s (lex t)")
  case None
  with assms(1) show ?thesis
    by (auto simp: ec_identifier_def find_local_scope split: option.splits dest: find_function_ok)
next
  case (Some r)
  with assms(1) obtain v where "deref C s r = Ret v" "i = e_local v" "s' = s"
    by (auto simp: ec_identifier_def find_local_scope outcome_simps)
  with deref_ok [OF assms(2,3) scope_ref_ok [OF assms(2) Some]] show ?thesis by simp
qed

lemma ec_variable_post:
  assumes "ec_variable C f n v s = Ret (i, s')" and "ec_inv C s" and "ctx_ok C" and "good C s v"
  shows "ec_inv C s' \<and> ext s s' \<and> good C s' i"
proof -
  define l where "l t = \<lparr>vs_ty = t, vs_name = lex n, vs_index = length (ec_locals s), vs_mutable = (\<not> f)\<rparr>" for t
  obtain t v' where t: "e_typ v = Ret (t, v')" and i: "i = e_assign_local (l t) v'"
    and s': "s' = s\<lparr>ec_locals := ec_locals s @ [l t],
        ec_envs := butlast (ec_envs s) @ [(last (ec_envs s))(lex n \<mapsto>
           VLocal (length (ec_locals s)) (cc_buf C (Suc (length (ec_locals s)))))]\<rparr>"
    using assms(1,2)
    by (auto simp: ec_variable_def outcome_simps add_local_def Let_def add_to_scope_def ec_inv_def l_def
        split: if_splits)
  have ft: "fty_ok C t"
    using assms(2-4) ty_of_ok(1) good_typ(2) [OF assms(4) t] by (auto simp: ec_inv_def good_def)
  have e: "ext s s'" by (simp add: ext_def s')
  have "good C s' v'" using good_typ(1) [OF assms(4) t] e by (rule good_ext)
  then have "good C s' i" by (simp add: i e_assign_local_def s' l_def var_ok_def)
  moreover have "table_ok C (ec_locals s')"
    using assms(2) ft by (auto simp: s' ec_inv_def table_ok_def l_def nth_append)
  moreover have "ref_ok C (ec_locals s') x r"
    if "env = last (ec_envs s) \<or> env \<in> set (butlast (ec_envs s))" "env x = Some r" for env x r
  proof -
    have "env \<in> set (ec_envs s)"
      using that(1) assms(2) by (metis ec_inv_def in_set_butlastD last_in_set)
    then have "ref_ok C (ec_locals s) x r"
      using that(2) assms(2) by (auto simp: ec_inv_def)
    then show ?thesis by (auto simp: ref_ok_def s' nth_append split: var_ref.splits intro: le_SucI)
  qed
  moreover have "ref_ok C (ec_locals s') (lex n) (VLocal (length (ec_locals s)) (cc_buf C (Suc (length (ec_locals s)))))"
    by (auto simp: ref_ok_def s' l_def)
  moreover have "set (ec_envs s') = insert ((last (ec_envs s))(lex n \<mapsto>
           VLocal (length (ec_locals s)) (cc_buf C (Suc (length (ec_locals s)))))) (set (butlast (ec_envs s)))"
    and "ec_envs s' \<noteq> []"
    by (simp_all add: s')
  ultimately show ?thesis
    using e by (auto simp: ec_inv_def split: if_splits)
qed

lemma check_args_post:
  assumes "check_args C p k ps as s = Ret (as', s')" and "\<forall>a \<in> set as. good C s a"
  shows "s' = s \<and> length as' = length as \<and> (\<forall>a \<in> set as'. good C s a)"
  using assms
  by (induction C p k ps as s arbitrary: as' rule: check_args.induct)
    (fastforce simp: outcome_simps split: if_splits dest: good_typ(1))+

lemma call_args_post:
  assumes "call_args C p f cal as s = Ret (i, s')" and "\<forall>a \<in> set as. good C s a" and "good C s cal"
    and "fty_ok C (irf_ret_type f)"
  shows "s' = s \<and> good C s i"
  using assms by (auto simp: call_args_def Let_def outcome_simps dest!: check_args_post)

definition ec_post :: "cctx \<Rightarrow> ec_state \<Rightarrow> ir_expr \<Rightarrow> ec_state \<Rightarrow> bool" where
  "ec_post C s i s' \<longleftrightarrow> ec_inv C s' \<and> ext s s' \<and> good C s' i"

lemma ec_post_trans:
  "ec_post C s i t \<Longrightarrow> ec_post C t j u \<Longrightarrow> ec_post C s j u \<and> good C u i"
  by (auto simp: ec_post_def intro: ext_trans good_ext)

lemma ec_postI: "ec_inv C s \<Longrightarrow> s' = s \<and> good C s i \<Longrightarrow> ec_post C s i s'"
  by (simp add: ec_post_def)

lemma begin_scope_inv: "ec_inv C s \<Longrightarrow> ec_inv C (begin_scope s)"
  by (auto simp: ec_inv_def begin_scope_def)

lemma end_scope_inv:
  assumes "ec_inv C s" and "ec_inv C s'" and "ext (begin_scope s) s'"
  shows "ec_inv C (end_scope s')" and "ext s (end_scope s')" and "ec_envs (end_scope s') = ec_envs s"
proof -
  have b: "butlast (ec_envs s') = ec_envs s" using assms(3) by (simp add: ext_def begin_scope_def)
  then have "\<forall>env \<in> set (ec_envs s). env \<in> set (ec_envs s')" by (metis in_set_butlastD)
  with assms b show "ec_inv C (end_scope s')"
    by (simp add: ec_inv_def end_scope_def) blast
  show "ext s (end_scope s')" "ec_envs (end_scope s') = ec_envs s"
    using assms(3) b by (auto simp: end_scope_def begin_scope_def ext_def)
qed

lemma good_end_scope [simp]: "good C (end_scope s) i = good C s i"
  by (simp add: good_def end_scope_def)

lemma func_resolve_ret:
  "ctx_ok C \<Longrightarrow> func_resolve (cc_mods C) r = Ret f \<Longrightarrow> fty_ok C (irf_ret_type f)"
  using nth_mem by (fastforce simp: func_resolve_def idx_def ctx_ok_def split: if_splits)

lemma ec_expr_post:
  assumes "ctx_ok C"
  shows "ec_inv C s \<Longrightarrow> ec_expr C e s = Ret (i, s') \<Longrightarrow> ec_post C s i s'"
    and "ec_inv C s \<Longrightarrow> ec_exprs C es s = Ret (is, s') \<Longrightarrow>
           ec_inv C s' \<and> ext s s' \<and> (\<forall>i \<in> set is. good C s' i) \<and> length is = length es"
  using assms
proof (induction C e s and C es s arbitrary: i s' and "is" s' rule: ec_expr_ec_exprs.induct)
  case (1 C l u s)
  then show ?case by (cases l) (auto simp: ec_post_def)
next
  case (2 C l op r u s)
  then obtain l' s1 r' s2 where *: "ec_expr C l s = Ret (l', s1)" "ec_expr C r s1 = Ret (r', s2)"
    "ec_binary C op l' r' s2 = Ret (i, s')"
    by (auto simp: outcome_simps)
  then have 1: "ec_post C s l' s1" and 2: "ec_post C s1 r' s2"
    using 2 by (auto simp: ec_post_def)
  with *(3) show ?case using ec_post_trans [OF 1 2] ec_binary_post [OF *(3)] by (auto simp: ec_post_def)
next
  case (3 C es u s)
  then obtain es' s1 where *: "ec_exprs C es (begin_scope s) = Ret (es', s1)" "i = e_block es'" "s' = end_scope s1"
    by (auto simp: outcome_simps)
  with 3(1) [OF _ *(1)] 3(2,4) have "ec_inv C s1 \<and> ext (begin_scope s) s1 \<and> (\<forall>i \<in> set es'. good C s1 i)"
    by (simp add: begin_scope_inv)
  with end_scope_inv [of C s s1] 3(2) *(2,3) show ?case by (simp add: ec_post_def)
next
  case (4 C c t e u s)
  then obtain c1 s1 c2 s2 t1 s3 els s4 where *: "ec_expr C c s = Ret (c1, s1)"
    "ec_condition (estart c) c1 s1 = Ret (c2, s2)" "ec_expr C t s2 = Ret (t1, s3)"
    "e_if c2 t1 els = Ret i" "s' = s4"
    and els: "case e of None \<Rightarrow> els = None \<and> s4 = s3
              | Some x \<Rightarrow> \<exists>x'. ec_expr C x s3 = Ret (x', s4) \<and> els = Some x'"
    by (cases e) (auto simp: outcome_simps)
  have 1: "ec_post C s c1 s1" using 4 * by auto
  then have c: "s2 = s1 \<and> good C s1 c2" using ec_condition_post [OF *(2), of C] by (simp add: ec_post_def)
  then have 2: "ec_post C s1 c2 s2" using 1 by (simp add: ec_post_def)
  have 3: "ec_post C s2 t1 s3"
    using 4(2) [OF *(1) refl *(2) refl _ *(3) 4(6)] 2 by (simp add: ec_post_def)
  note 13 = ec_post_trans [OF 1 2] ec_post_trans [OF 2 3]
  show ?case
  proof (cases e)
    case None
    with els 13 *(4,5) ec_post_trans [OF 1 2] ec_post_trans [OF _ 3, of s c2] show ?thesis
      by (auto simp: ec_post_def intro: good_if)
  next
    case (Some x)
    with els obtain x' where x': "ec_expr C x s3 = Ret (x', s4)" "els = Some x'" by auto
    have 5: "ec_post C s3 x' s4"
      using 4(3) [OF *(1) refl *(2) refl *(3) refl Some _ x'(1) 4(6)] 3 by (simp add: ec_post_def)
    have "ec_post C s x' s4"
      using ec_post_trans [OF 1 2] ec_post_trans [OF _ 3, of s c2] ec_post_trans [OF _ 5, of s t1] by blast
    moreover have "good C s4 c2" "good C s4 t1"
      using 13 5 by (auto simp: ec_post_def intro: good_ext)
    ultimately show ?thesis using good_if [OF *(4)] x'(2) *(5) by (auto simp: ec_post_def)
  qed
next
  case (5 C c b u s)
  then obtain c1 s1 c2 s2 b1 where *: "ec_expr C c s = Ret (c1, s1)"
    "ec_condition (estart c) c1 s1 = Ret (c2, s2)" "ec_expr C b s2 = Ret (b1, s')" "i = e_while c2 b1"
    by (auto simp: outcome_simps)
  have 1: "ec_post C s c1 s1" using 5 * by auto
  then have 2: "ec_post C s1 c2 s2" using ec_condition_post [OF *(2)] by (auto simp: ec_post_def)
  have 3: "ec_post C s2 b1 s'"
    using 5(2) [OF *(1) refl *(2) refl _ *(3) 5(5)] 2 by (simp add: ec_post_def)
  show ?case
    using ec_post_trans [OF 1 2] ec_post_trans [OF 2 3] ec_post_trans [OF _ 3, of s c2] *(4)
    by (auto simp: ec_post_def)
next
  case (6 C ident u s)
  then show ?case using ec_identifier_post by (auto intro: ec_postI)
next
  case (7 C final name v u s)
  then obtain v' s1 where *: "ec_expr C v s = Ret (v', s1)" "ec_variable C final name v' s1 = Ret (i, s')"
    by (auto simp: outcome_simps)
  with 7 have 1: "ec_post C s v' s1" by auto
  with ec_variable_post [OF *(2)] 7 have "ec_post C s1 i s'" by (auto simp: ec_post_def)
  with ec_post_trans [OF 1] show ?case by blast
next
  case (8 C callee args u s)
  then obtain c1 s1 t c2 where *: "ec_expr C callee s = Ret (c1, s1)" "e_typ c1 = Ret (t, c2)"
    by (auto simp: outcome_simps)
  have 1: "ec_post C s c1 s1" using 8 * by auto
  have c2: "good C s1 c2" using 1 *(2) by (auto simp: ec_post_def intro: good_typ(1))
  show ?case
  proof (cases "\<exists>r. t = TFunction r")
    case False
    then have "i = e_poison \<and> s' = s1"
      using 8(4) * by (auto simp: outcome_simps split: ty.splits)
    with 1 show ?thesis by (auto simp: ec_post_def)
  next
    case True
    then obtain r f as s2 where r: "t = TFunction r" "func_resolve (cc_mods C) r = Ret f"
      "ec_exprs C args s1 = Ret (as, s2)" "call_args C (estart callee) f c2 as s2 = Ret (i, s')"
      using 8(4) * by (auto simp: outcome_simps)
    have 2: "ec_inv C s2 \<and> ext s1 s2 \<and> (\<forall>a \<in> set as. good C s2 a)"
      using 8(2) [OF *(1) refl *(2) refl r(1,2) _ r(3) 8(5)] 1 by (simp add: ec_post_def)
    moreover have "s' = s2 \<and> good C s2 i"
      using call_args_post [OF r(4)] 2 good_ext [OF c2] func_resolve_ret [OF 8(5) r(2)] by blast
    ultimately show ?thesis using 1 by (auto simp: ec_post_def intro: ext_trans)
  qed
next
  case (11 C e es s)
  then obtain e1 s1 es1 where *: "ec_expr C e s = Ret (e1, s1)" "ec_exprs C es s1 = Ret (es1, s')" "is = e1 # es1"
    by (auto simp: outcome_simps)
  have 1: "ec_post C s e1 s1" using 11 * by auto
  then have 2: "ec_inv C s' \<and> ext s1 s' \<and> (\<forall>i \<in> set es1. good C s' i) \<and> length es1 = length es"
    using 11(2) [OF *(1) refl _ *(2) 11(5)] by (simp add: ec_post_def)
  with 1 *(3) show ?case by (auto simp: ec_post_def intro: ext_trans good_ext)
qed auto

end
