(* ===== verification/ExprCompilerProps.thy ===== *)
theory ExprCompilerProps
  imports ExprCompiler
begin

section \<open>Properties of expression compilation\<close>

text \<open>
  When \<open>ExprCompiler::expr\<close> returns (no unary operator, no string literal, at most six
  variables), that its scopes are lexical, and that a seventh local leaves dangling
  references behind.
\<close>

subsection \<open>When compilation returns\<close>

fun compilable :: "expr \<Rightarrow> bool" where
  "compilable (Expr (ELiteral l) _) \<longleftrightarrow> (\<forall>t. l \<noteq> LString t)"
| "compilable (Expr (EIdentifier _) _) = True"
| "compilable (Expr (EVariable _ _ v) _) = compilable v"
| "compilable (Expr (EBlock es) _) \<longleftrightarrow> (\<forall>e \<in> set es. compilable e)"
| "compilable (Expr (EIf c t e) _) \<longleftrightarrow>
     compilable c \<and> compilable t \<and> (case e of None \<Rightarrow> True | Some e \<Rightarrow> compilable e)"
| "compilable (Expr (EWhile c b) _) \<longleftrightarrow> compilable c \<and> compilable b"
| "compilable (Expr (EBinary l _ r) _) \<longleftrightarrow> compilable l \<and> compilable r"
| "compilable (Expr (EUnary _ _) _) = False"
| "compilable (Expr (ECall f as) _) \<longleftrightarrow> compilable f \<and> (\<forall>a \<in> set as. compilable a)"

fun nvars :: "expr \<Rightarrow> nat" where
  "nvars (Expr (ELiteral _) _) = 0"
| "nvars (Expr (EIdentifier _) _) = 0"
| "nvars (Expr (EVariable _ _ v) _) = nvars v + 1"
| "nvars (Expr (EBlock es) _) = (\<Sum>e\<leftarrow>es. nvars e)"
| "nvars (Expr (EIf c t e) _) = nvars c + nvars t + (case e of None \<Rightarrow> 0 | Some e \<Rightarrow> nvars e)"
| "nvars (Expr (EWhile c b) _) = nvars c + nvars b"
| "nvars (Expr (EBinary l _ r) _) = nvars l + nvars r"
| "nvars (Expr (EUnary _ r) _) = nvars r"
| "nvars (Expr (ECall f as) _) = nvars f + (\<Sum>a\<leftarrow>as. nvars a)"

text \<open>The named hypotheses on the parameters: type texts are produced, and up to the inline
  capacity of six the locals stay where they are.\<close>

definition shows_types :: "cctx \<Rightarrow> bool" where
  "shows_types C \<longleftrightarrow> (\<forall>t. returns (cc_show C t))"

definition inline_six :: "cctx \<Rightarrow> bool" where
  "inline_six C \<longleftrightarrow> (\<forall>n \<le> 6. cc_buf C n = cc_buf C 0)"

lemma inline_sixD: "inline_six C \<Longrightarrow> n \<le> 6 \<Longrightarrow> cc_buf C n = cc_buf C 0"
  unfolding inline_six_def by blast

definition typable :: "cctx \<Rightarrow> ec_state \<Rightarrow> ir_expr \<Rightarrow> bool" where
  "typable C s i \<longleftrightarrow> good C s i \<and> ty_of i \<noteq> None"

lemma typable_typ:
  assumes "typable C s e"
  obtains t e' where "e_typ e = Ret (t, e')" and "typable C s e'" and "ty_of e' = Some t" and "ty_of e = Some t"
proof -
  obtain t where t: "ty_of e = Some t" and g: "good C s e" using assms by (auto simp: typable_def)
  then obtain e' where "e_typ e = Ret (t, e')" "ty_of e' = Some t"
    using typing.query_obtain [of e t] by (metis good_def)
  with g t good_typ(1) that show ?thesis by (auto simp: typable_def)
qed

lemma typable_ext: "typable C s e \<Longrightarrow> ext s s' \<Longrightarrow> typable C s' e"
  by (auto simp: typable_def good_ext)

lemma ty_of_e [simp]:
  "ty_of e_poison = Some TPoison" "ty_of e_zero = Some TI64"
  "ty_of (e_binary l op r) = (if is_binary_logic (kind op) then Some TBool else ty_of l)"
  "ty_of (e_assign st v) = ty_of v" "ty_of (e_assign_local x v) = ty_of v"
  "ty_of (e_local x) = Some (vs_ty x)" "ty_of (e_while c b) = Some TVoid" "ty_of (e_call c as t) = Some t"
  "ty_of (e_block es) = ty_of_last es"
  by (simp_all add: e_defs)

lemma ty_of_last_typed: "\<forall>e \<in> set es. ty_of e \<noteq> None \<Longrightarrow> ty_of_last es \<noteq> None"
  by (induction es) auto

lemma show_Ret: "shows_types C \<Longrightarrow> \<exists>x. cc_show C t = Ret x"
  by (simp add: shows_types_def returns_iff)

lemma ec_binary_total:
  assumes "typable C s l" and "typable C s r" and "shows_types C"
  shows "\<exists>i s'. ec_binary C op l r s = Ret (i, s') \<and> ty_of i \<noteq> None"
proof -
  obtain lt l' where l: "e_typ l = Ret (lt, l')" "ty_of l' = Some lt" using assms(1) by (rule typable_typ)
  obtain rt r' where r: "e_typ r = Ret (rt, r')" "ty_of r' = Some rt" using assms(2) by (rule typable_typ)
  obtain x y where "cc_show C lt = Ret x" "cc_show C rt = Ret y" using show_Ret [OF assms(3)] by metis
  with l r show ?thesis by (simp add: ec_binary_def Let_def)
qed

lemma ec_condition_total:
  assumes "typable C s c"
  shows "\<exists>c'. ec_condition p c s = Ret (c', s) \<and> typable C s c'"
proof -
  obtain t c' where "e_typ c = Ret (t, c')" "typable C s c'" using assms by (rule typable_typ)
  then show ?thesis by (simp add: ec_condition_def)
qed

lemma ec_identifier_total:
  assumes "ec_inv C s" and "inline_six C" and "length (ec_locals s) \<le> 6"
  shows "\<exists>i. ec_identifier C x s = Ret (i, s) \<and> ty_of i \<noteq> None"
proof (cases "find_local (lex x) s")
  case None
  then show ?thesis
    by (cases "find_function C (lex x)") (simp_all add: ec_identifier_def e_constant_def e_new_def)
next
  case (Some r)
  with scope_ref_ok [OF assms(1)] have "ref_ok C (ec_locals s) (lex x) r" by (simp add: find_local_scope)
  then obtain v where "deref C s r = Ret v"
  proof (cases r)
    case (VLocal i b)
    with \<open>ref_ok C (ec_locals s) (lex x) r\<close> obtain n
      where n: "n \<le> length (ec_locals s)" "b = cc_buf C n" "i < length (ec_locals s)"
      by (auto simp: ref_ok_def)
    have "cc_buf C n = cc_buf C 0" "cc_buf C (length (ec_locals s)) = cc_buf C 0"
      using inline_sixD [OF assms(2), of n] inline_sixD [OF assms(2,3)] n(1) assms(3) by linarith+
    with VLocal n(2,3) that [of "ec_locals s ! i"] show ?thesis by (simp add: deref_def)
  qed (auto simp: deref_def ref_ok_def)
  with Some show ?thesis by (simp add: ec_identifier_def)
qed

lemma ec_variable_total:
  assumes "ec_inv C s" and "typable C s v" and "shows_types C"
  shows "\<exists>i s'. ec_variable C f n v s = Ret (i, s') \<and> ty_of i \<noteq> None
           \<and> length (ec_locals s') = Suc (length (ec_locals s))"
proof -
  obtain t v' where "e_typ v = Ret (t, v')" "ty_of v' = Some t" using assms(2) by (rule typable_typ)
  moreover obtain x where "cc_show C t = Ret x" using show_Ret [OF assms(3)] by metis
  ultimately show ?thesis
    using assms(1) by (auto simp: ec_variable_def add_local_def add_to_scope_def ec_inv_def Let_def)
qed

lemma check_args_total:
  assumes "shows_types C" and "\<forall>a \<in> set as. typable C s a"
  shows "\<exists>as'. check_args C p k ps as s = Ret (as', s)"
  using assms
proof (induction C p k ps as s rule: check_args.induct)
  case (1 C pos i p ps a as s)
  obtain t a' where "e_typ a = Ret (t, a')" using 1(3) by (metis list.set_intros(1) typable_typ)
  moreover obtain x y where "cc_show C t = Ret x" "cc_show C (vs_ty p) = Ret y" using show_Ret [OF 1(2)] by metis
  moreover obtain as' where "check_args C pos (Suc i) ps as s = Ret (as', s)"
    using 1(1) [of "(t, a')" t a' s] 1(2,3) calculation by (cases "t = vs_ty p") auto
  ultimately show ?case by simp
qed auto

lemma call_args_total:
  assumes "shows_types C" and "\<forall>a \<in> set as. typable C s a"
  shows "\<exists>i. call_args C p f c as s = Ret (i, s) \<and> ty_of i \<noteq> None"
proof -
  obtain as' where "check_args C p 0 (irf_params f) as s = Ret (as', s)" using check_args_total [OF assms] by metis
  then show ?thesis by (simp add: call_args_def)
qed

definition returns_typed :: "cctx \<Rightarrow> ec_state \<Rightarrow> nat \<Rightarrow> (ir_expr \<times> ec_state) outcome \<Rightarrow> bool" where
  "returns_typed C s n r \<longleftrightarrow>
     (\<exists>i s'. r = Ret (i, s') \<and> ty_of i \<noteq> None \<and> length (ec_locals s') \<le> length (ec_locals s) + n)"

lemma returns_typedD:
  assumes "returns_typed C s n (ec_expr C e s)" and "ctx_ok C" and "ec_inv C s"
  obtains i s' where "ec_expr C e s = Ret (i, s')" and "typable C s' i" and "ec_inv C s'" and "ext s s'"
    and "length (ec_locals s') \<le> length (ec_locals s) + n"
proof -
  obtain i s' where *: "ec_expr C e s = Ret (i, s')" "ty_of i \<noteq> None"
    "length (ec_locals s') \<le> length (ec_locals s) + n"
    using assms(1) by (auto simp: returns_typed_def)
  with ec_expr_post(1) [OF assms(2,3) *(1)] that show ?thesis by (auto simp: ec_post_def typable_def)
qed

lemma call_resolves:
  assumes "ctx_ok C" and "ec_inv C s" and "typable C s c" and "ty_of c = Some (TFunction r)"
  shows "\<exists>f. func_resolve (cc_mods C) r = Ret f"
proof -
  have "fty_ok C (TFunction r)"
    using ty_of_ok(1) [of C "ec_locals s" c] assms by (auto simp: typable_def good_def ec_inv_def)
  then show ?thesis by (simp add: func_resolve_def fref_ok_def)
qed

lemma ec_expr_total:
  assumes "ctx_ok C" and "shows_types C" and "inline_six C"
  shows "ec_inv C s \<Longrightarrow> compilable e \<Longrightarrow> length (ec_locals s) + nvars e \<le> 6 \<Longrightarrow>
           returns_typed C s (nvars e) (ec_expr C e s)"
    and "ec_inv C s \<Longrightarrow> \<forall>e \<in> set es. compilable e \<Longrightarrow> length (ec_locals s) + (\<Sum>e\<leftarrow>es. nvars e) \<le> 6 \<Longrightarrow>
           \<exists>is s'. ec_exprs C es s = Ret (is, s') \<and> (\<forall>i \<in> set is. ty_of i \<noteq> None)
              \<and> length (ec_locals s') \<le> length (ec_locals s) + (\<Sum>e\<leftarrow>es. nvars e)"
  using assms
proof (induction C e s and C es s rule: ec_expr_ec_exprs.induct)
  case (1 C l u s)
  then show ?case by (cases l) (auto simp: returns_typed_def e_defs)
next
  case (2 C l op r u s)
  have ih: "returns_typed C s (nvars l) (ec_expr C l s)" using 2(1) [OF 2(3)] 2(4-) by simp
  obtain l' s1 where l: "ec_expr C l s = Ret (l', s1)" "typable C s1 l'" "ec_inv C s1"
      "length (ec_locals s1) \<le> length (ec_locals s) + nvars l"
    using returns_typedD [OF ih 2(6) 2(3)] by metis
  have "returns_typed C s1 (nvars r) (ec_expr C r s1)"
    using 2(2) [OF l(1) refl l(3)] 2(4-) l(4) by simp
  then obtain r' s2 where r: "ec_expr C r s1 = Ret (r', s2)" "typable C s2 r'" "ext s1 s2"
      "length (ec_locals s2) \<le> length (ec_locals s1) + nvars r"
    using returns_typedD [of C s1 "nvars r" r] 2(6) l(3) by metis
  obtain i s3 where i: "ec_binary C op l' r' s2 = Ret (i, s3)" "ty_of i \<noteq> None"
    using ec_binary_total [OF typable_ext [OF l(2) r(3)] r(2) 2(7)] by metis
  with ec_binary_post [OF i(1)] typable_ext [OF l(2) r(3)] r(2) have "s3 = s2" by (simp add: typable_def)
  with l r i show ?case by (simp add: returns_typed_def)
next
  case (3 C es u s)
  have "\<exists>is s'. ec_exprs C es (begin_scope s) = Ret (is, s') \<and> (\<forall>i \<in> set is. ty_of i \<noteq> None)
              \<and> length (ec_locals s') \<le> length (ec_locals s) + (\<Sum>e\<leftarrow>es. nvars e)"
    using 3(1) [OF begin_scope_inv [OF 3(2)]] 3(3-) by (simp add: begin_scope_def)
  then obtain "is" s' where "ec_exprs C es (begin_scope s) = Ret (is, s')" "\<forall>i \<in> set is. ty_of i \<noteq> None"
      "length (ec_locals s') \<le> length (ec_locals s) + (\<Sum>e\<leftarrow>es. nvars e)" by blast
  with ty_of_last_typed [of "is"] show ?case by (simp add: returns_typed_def end_scope_def)
next
  case (6 C ident u s)
  then show ?case using ec_identifier_total [of C s ident] by (auto simp: returns_typed_def)
next
  case (7 C final name v u s)
  have ih: "returns_typed C s (nvars v) (ec_expr C v s)" using 7(1) [OF 7(2)] 7(3-) by simp
  obtain v' s1 where v: "ec_expr C v s = Ret (v', s1)" "typable C s1 v'" "ec_inv C s1"
      "length (ec_locals s1) \<le> length (ec_locals s) + nvars v"
    using returns_typedD [OF ih 7(5) 7(2)] by metis
  with ec_variable_total [OF v(3,2) 7(6), of final name] show ?case by (auto simp: returns_typed_def)
next
  case (9 C op r u s)
  then show ?case by simp
next
  case (10 C s)
  then show ?case by simp
next
  case (11 C e es s)
  have ih: "returns_typed C s (nvars e) (ec_expr C e s)" using 11(1) [OF 11(3)] 11(4-) by simp
  obtain e' s1 where e: "ec_expr C e s = Ret (e', s1)" "typable C s1 e'" "ec_inv C s1"
      "length (ec_locals s1) \<le> length (ec_locals s) + nvars e"
    using returns_typedD [OF ih 11(6) 11(3)] by metis
  have "\<exists>is s'. ec_exprs C es s1 = Ret (is, s') \<and> (\<forall>i \<in> set is. ty_of i \<noteq> None)
              \<and> length (ec_locals s') \<le> length (ec_locals s1) + (\<Sum>e\<leftarrow>es. nvars e)"
    using 11(2) [OF e(1) refl e(3)] 11(4-) e(4) by simp
  with e show ?case by (auto simp: typable_def)
next
  case (5 C c b u s)
  have ih: "returns_typed C s (nvars c) (ec_expr C c s)" using 5(1) [OF 5(3)] 5(4-) by simp
  obtain c1 s1 where c: "ec_expr C c s = Ret (c1, s1)" "typable C s1 c1" "ec_inv C s1"
      "length (ec_locals s1) \<le> length (ec_locals s) + nvars c"
    using returns_typedD [OF ih 5(6) 5(3)] by metis
  obtain c2 where c2: "ec_condition (estart c) c1 s1 = Ret (c2, s1)" using ec_condition_total [OF c(2)] by metis
  have "returns_typed C s1 (nvars b) (ec_expr C b s1)"
    using 5(2) [OF c(1) refl c2 refl c(3)] 5(4-) c(4) by simp
  with c c2 show ?case by (auto simp: returns_typed_def)
next
  case (4 C c t e u s)
  have ih: "returns_typed C s (nvars c) (ec_expr C c s)" using 4(1) [OF 4(4)] 4(5-) by simp
  obtain c1 s1 where c: "ec_expr C c s = Ret (c1, s1)" "typable C s1 c1" "ec_inv C s1"
      "length (ec_locals s1) \<le> length (ec_locals s) + nvars c"
    using returns_typedD [OF ih 4(7) 4(4)] by metis
  obtain c2 where c2: "ec_condition (estart c) c1 s1 = Ret (c2, s1)" using ec_condition_total [OF c(2)] by metis
  have "returns_typed C s1 (nvars t) (ec_expr C t s1)"
    using 4(2) [OF c(1) refl c2 refl c(3)] 4(5-) c(4) by simp
  then obtain t1 s2 where t: "ec_expr C t s1 = Ret (t1, s2)" "typable C s2 t1" "ec_inv C s2"
      "length (ec_locals s2) \<le> length (ec_locals s1) + nvars t"
    using returns_typedD [of C s1 "nvars t" t] 4(7) c(3) by metis
  show ?case
  proof (cases e)
    case None
    with c c2 t show ?thesis by (simp add: returns_typed_def e_if_def e_new_def)
  next
    case (Some x)
    have "returns_typed C s2 (nvars x) (ec_expr C x s2)"
      using 4(3) [OF c(1) refl c2 refl t(1) refl Some t(3)] 4(5-) c(4) t(4) Some by simp
    then obtain x1 s3 where x: "ec_expr C x s2 = Ret (x1, s3)" "typable C s3 x1" "ext s2 s3"
        "length (ec_locals s3) \<le> length (ec_locals s2) + nvars x"
      using returns_typedD [of C s2 "nvars x" x] 4(7) t(3) by metis
    obtain tt t2 tx x2 where "e_typ t1 = Ret (tt, t2)" "ty_of t2 = Some tt" "e_typ x1 = Ret (tx, x2)"
      using typable_typ [OF t(2)] typable_typ [OF x(2)] by metis
    with c c2 t x Some show ?thesis by (simp add: returns_typed_def e_if_def e_new_def)
  qed
next
  case (8 C callee args u s)
  have ih: "returns_typed C s (nvars callee) (ec_expr C callee s)" using 8(1) [OF 8(3)] 8(4-) by simp
  obtain c1 s1 where c: "ec_expr C callee s = Ret (c1, s1)" "typable C s1 c1" "ec_inv C s1"
      "length (ec_locals s1) \<le> length (ec_locals s) + nvars callee"
    using returns_typedD [OF ih 8(6) 8(3)] by metis
  obtain ct c2 where c2: "e_typ c1 = Ret (ct, c2)" "ty_of c1 = Some ct" using typable_typ [OF c(2)] by metis
  show ?case
  proof (cases "\<exists>r. ct = TFunction r")
    case False
    with c c2 show_Ret [OF 8(7), of ct] show ?thesis by (auto simp: returns_typed_def split: ty.splits)
  next
    case True
    then obtain r f where r: "ct = TFunction r" "func_resolve (cc_mods C) r = Ret f"
      using call_resolves [OF 8(6) c(3,2)] c2(2) by blast
    have "\<exists>is s'. ec_exprs C args s1 = Ret (is, s') \<and> (\<forall>i \<in> set is. ty_of i \<noteq> None)
              \<and> length (ec_locals s') \<le> length (ec_locals s1) + (\<Sum>e\<leftarrow>args. nvars e)"
      using 8(2) [OF c(1) refl c2(1) refl r(1,2) c(3)] 8(4-) c(4) by simp
    then obtain as s2 where as: "ec_exprs C args s1 = Ret (as, s2)" "\<forall>i \<in> set as. ty_of i \<noteq> None"
        "length (ec_locals s2) \<le> length (ec_locals s1) + (\<Sum>e\<leftarrow>args. nvars e)" by blast
    with ec_expr_post(2) [OF 8(6) c(3) as(1)] have "\<forall>a \<in> set as. typable C s2 a" by (simp add: typable_def)
    from call_args_total [OF 8(7) this] c c2(1) r as show ?thesis by (fastforce simp: returns_typed_def)
  qed
qed

subsection \<open>Scopes\<close>

lemma params_env_ref: "params_env ps x = Some r \<Longrightarrow> \<exists>i < length ps. r = VParam i \<and> vs_name (ps ! i) = x"
proof (induction ps arbitrary: r rule: rev_induct)
  case (snoc p ps)
  have "params_env (ps @ [p]) = (params_env ps)(vs_name p \<mapsto> VParam (length ps))"
    by (simp add: params_env_def enumerate_append_eq)
  with snoc show ?case by (fastforce simp: nth_append less_Suc_eq split: if_splits)
qed (simp add: params_env_def)

lemma ec_new_inv: "ctx_ok C \<Longrightarrow> cc_params C = irf_params f \<Longrightarrow> irf_locals f = [] \<Longrightarrow> ec_inv C (ec_new f)"
  by (auto simp: ec_inv_def ec_new_def table_ok_def ref_ok_def dest!: params_env_ref)

fun decls :: "expr \<Rightarrow> string set" where
  "decls (Expr (EVariable _ n v) _) = insert (lex n) (decls v)"
| "decls (Expr (EIf c t e) _) = decls c \<union> decls t \<union> (case e of None \<Rightarrow> {} | Some e \<Rightarrow> decls e)"
| "decls (Expr (EWhile c b) _) = decls c \<union> decls b"
| "decls (Expr (EBinary l _ r) _) = decls l \<union> decls r"
| "decls (Expr (ECall f as) _) = decls f \<union> (\<Union>a \<in> set as. decls a)"
| "decls _ = {}"

text \<open>Seen from the names a state resolves: two states with the same outer scopes agree on a
  name when their innermost scopes do.\<close>

definition agree :: "string \<Rightarrow> ec_state \<Rightarrow> ec_state \<Rightarrow> bool" where
  "agree x s s' \<longleftrightarrow> last (ec_envs s') x = last (ec_envs s) x"

lemma agree_refl [simp]: "agree x s s"
  by (simp add: agree_def)

lemma agree_trans [trans]: "agree x s t \<Longrightarrow> agree x t u \<Longrightarrow> agree x s u"
  by (simp add: agree_def)

lemma agree_find_local:
  assumes "agree x s s'" and "ext s s'" and "ec_envs s \<noteq> []" and "ec_envs s' \<noteq> []"
  shows "find_local x s' = find_local x s"
proof -
  have "ec_envs t \<noteq> [] \<Longrightarrow> scope t x = (foldl (++) Map.empty (butlast (ec_envs t)) ++ last (ec_envs t)) x" for t
    by (metis append_butlast_last_id foldl_Cons foldl_Nil foldl_append scope_def)
  with assms show ?thesis by (auto simp: find_local_scope ext_def agree_def map_add_def split: option.splits)
qed

lemma ec_binary_state: "ec_binary C op l r s = Ret (i, s') \<Longrightarrow> s' = s"
  by (auto simp: ec_binary_def outcome_simps Let_def split: if_splits)

lemma ec_condition_state: "ec_condition p c s = Ret (i, s') \<Longrightarrow> s' = s"
  by (auto simp: ec_condition_def outcome_simps)

lemma ec_identifier_state: "ec_identifier C t s = Ret (i, s') \<Longrightarrow> s' = s"
  by (auto simp: ec_identifier_def outcome_simps split: option.splits)

lemma check_args_state: "check_args C p k ps as s = Ret (as', s') \<Longrightarrow> s' = s"
  by (induction C p k ps as s arbitrary: as' rule: check_args.induct)
    (auto simp: outcome_simps split: if_splits)

lemma call_args_state: "call_args C p f c as s = Ret (i, s') \<Longrightarrow> s' = s"
  by (auto simp: call_args_def Let_def outcome_simps dest!: check_args_state)

lemma ec_variable_agree:
  "ec_variable C f n v s = Ret (i, s') \<Longrightarrow> x \<noteq> lex n \<Longrightarrow> agree x s s'"
  by (auto simp: ec_variable_def outcome_simps add_local_def Let_def add_to_scope_def agree_def split: if_splits)

lemma ec_expr_agree:
  "ec_expr C e s = Ret (i, s') \<Longrightarrow> ec_inv C s \<Longrightarrow> ctx_ok C \<Longrightarrow> x \<notin> decls e \<Longrightarrow> agree x s s'"
  "ec_exprs C es s = Ret (is, s') \<Longrightarrow> ec_inv C s \<Longrightarrow> ctx_ok C \<Longrightarrow> \<forall>e \<in> set es. x \<notin> decls e \<Longrightarrow> agree x s s'"
proof (induction C e s and C es s arbitrary: i s' and "is" s' rule: ec_expr_ec_exprs.induct)
  case (2 C l op r u s)
  then obtain l' s1 r' s2 where *: "ec_expr C l s = Ret (l', s1)" "ec_expr C r s1 = Ret (r', s2)" "s' = s2"
    by (auto simp: outcome_simps dest: ec_binary_state)
  with 2 ec_expr_post(1) [OF 2(5,4) *(1)] show ?case by (auto simp: ec_post_def intro: agree_trans)
next
  case (3 C es u s)
  then obtain es' s1 where *: "ec_exprs C es (begin_scope s) = Ret (es', s1)" "s' = end_scope s1"
    by (auto simp: outcome_simps)
  with end_scope_inv(3) [OF 3(3)] ec_expr_post(2) [OF 3(4) begin_scope_inv [OF 3(3)] *(1)]
  show ?case by (simp add: agree_def)
next
  case (4 C c t e u s)
  obtain c1 s1 c2 s1' t1 s2 where "ec_expr C c s = Ret (c1, s1)"
    "ec_condition (estart c) c1 s1 = Ret (c2, s1')" "ec_expr C t s1' = Ret (t1, s2)"
    and els: "case e of None \<Rightarrow> s' = s2 | Some x \<Rightarrow> \<exists>x'. ec_expr C x s2 = Ret (x', s')"
    using 4(4) by (cases e) (auto simp: outcome_simps)
  then have *: "ec_expr C c s = Ret (c1, s1)"
    "ec_condition (estart c) c1 s1 = Ret (c2, s1)" "ec_expr C t s1 = Ret (t1, s2)"
    by (auto dest: ec_condition_state)
  have 1: "ec_inv C s1" using ec_expr_post(1) [OF 4(6,5) *(1)] by (simp add: ec_post_def)
  then have 2: "ec_inv C s2" using ec_expr_post(1) [OF 4(6) _ *(3)] by (simp add: ec_post_def)
  have a1: "agree x s s1" using 4(1) [OF *(1) 4(5,6)] 4(7) by simp
  have a2: "agree x s1 s2" using 4(2) [OF *(1) refl *(2) refl *(3) 1 4(6)] 4(7) by simp
  note a12 = agree_trans [OF a1 a2]
  show ?case
  proof (cases e)
    case (Some y)
    with els obtain y' where "ec_expr C y s2 = Ret (y', s')" by auto
    then have "agree x s2 s'" using 4(3) [OF *(1) refl *(2) refl *(3) refl Some _ 2 4(6)] 4(7) Some by auto
    with a12 show ?thesis by (rule agree_trans)
  qed (use els a12 in simp)
next
  case (5 C c b u s)
  obtain c1 s1 c2 s1' b1 where "ec_expr C c s = Ret (c1, s1)"
    "ec_condition (estart c) c1 s1 = Ret (c2, s1')" "ec_expr C b s1' = Ret (b1, s')"
    using 5(3) by (auto simp: outcome_simps)
  then have *: "ec_expr C c s = Ret (c1, s1)"
    "ec_condition (estart c) c1 s1 = Ret (c2, s1)" "ec_expr C b s1 = Ret (b1, s')"
    by (auto dest: ec_condition_state)
  have 1: "ec_inv C s1" using ec_expr_post(1) [OF 5(5,4) *(1)] by (simp add: ec_post_def)
  have "agree x s s1" "agree x s1 s'"
    using 5(1) [OF *(1) 5(4,5)] 5(2) [OF *(1) refl *(2) refl *(3) 1 5(5)] 5(6) by simp_all
  then show ?case by (rule agree_trans)
next
  case (6 C ident u s)
  then show ?case by (auto dest: ec_identifier_state)
next
  case (7 C final name v u s)
  then obtain v' s1 where *: "ec_expr C v s = Ret (v', s1)" "ec_variable C final name v' s1 = Ret (i, s')"
    by (auto simp: outcome_simps)
  have "agree x s s1" "agree x s1 s'"
    using 7(1) [OF *(1) 7(3,4)] 7(5) ec_variable_agree [OF *(2)] by auto
  then show ?case by (rule agree_trans)
next
  case (8 C callee args u s)
  then obtain c1 s1 t c2 where *: "ec_expr C callee s = Ret (c1, s1)" "e_typ c1 = Ret (t, c2)"
    by (auto simp: outcome_simps)
  have 1: "ec_inv C s1" using ec_expr_post(1) [OF 8(5,4) *(1)] by (simp add: ec_post_def)
  have a: "agree x s s1" using 8(1) [OF *(1) 8(4,5)] 8(6) by simp
  show ?case
  proof (cases "\<exists>r. t = TFunction r")
    case False
    then have "s' = s1" using 8(3) * by (auto simp: outcome_simps split: ty.splits)
    with a show ?thesis by simp
  next
    case True
    then obtain r f as where r: "t = TFunction r" "func_resolve (cc_mods C) r = Ret f"
      "ec_exprs C args s1 = Ret (as, s')"
      using 8(3) * by (fastforce simp: outcome_simps dest: call_args_state)
    have "agree x s1 s'" using 8(2) [OF *(1) refl *(2) refl r 1 8(5)] 8(6) by simp
    with a show ?thesis by (rule agree_trans)
  qed
next
  case (11 C e es s)
  then obtain e1 s1 es1 where *: "ec_expr C e s = Ret (e1, s1)" "ec_exprs C es s1 = Ret (es1, s')"
    by (auto simp: outcome_simps)
  have 1: "ec_inv C s1" using ec_expr_post(1) [OF 11(5,4) *(1)] by (simp add: ec_post_def)
  have "agree x s s1" "agree x s1 s'"
    using 11(1) [OF *(1) 11(4,5)] 11(2) [OF *(1) refl *(2) 1 11(5)] 11(6) by simp_all
  then show ?case by (rule agree_trans)
qed auto

subsection \<open>Properties\<close>

lemma compile_body_ok:
  assumes "ctx_ok C" and "cc_params C = irf_params f" and "irf_locals f = []"
    and "shows_types C" and "inline_six C" and "compilable e" and "nvars e \<le> 6"
  shows "\<exists>i s'. ec_expr C e (ec_new f) = Ret (i, s') \<and> coherent i \<and> ir_ok C (ec_locals s') i
           \<and> (\<exists>t. ty_of i = Some t \<and> fty_ok C t)
           \<and> (\<forall>k < length (ec_locals s'). vs_index (ec_locals s' ! k) = k)
           \<and> length (ec_locals s') \<le> nvars e"
proof -
  have inv: "ec_inv C (ec_new f)" using assms(1-3) by (rule ec_new_inv)
  have "length (ec_locals (ec_new f)) = 0" using assms(3) by (simp add: ec_new_def)
  then obtain i s' where *: "ec_expr C e (ec_new f) = Ret (i, s')" "typable C s' i" "ec_inv C s'"
      "length (ec_locals s') \<le> nvars e"
    using returns_typedD [OF ec_expr_total(1) [OF assms(1,4,5) inv assms(6)] assms(1) inv] assms(7)
    by (metis add_0)
  then show ?thesis
    using ty_of_ok(1) [of C "ec_locals s'" i] assms(1)
    by (auto simp: typable_def good_def ec_inv_def table_ok_def)
qed


lemma block_restores_scopes:
  assumes "ctx_ok C" and "ec_inv C s" and "ec_expr C (Expr (EBlock es) p) s = Ret (i, s')"
  shows "ec_envs s' = ec_envs s"
proof -
  obtain es' s1 where *: "ec_exprs C es (begin_scope s) = Ret (es', s1)" "s' = end_scope s1"
    using assms(3) by (auto simp: outcome_simps)
  then show ?thesis
    using end_scope_inv(3) [OF assms(2)] ec_expr_post(2) [OF assms(1) begin_scope_inv [OF assms(2)] *(1)] by simp
qed

lemma other_names_kept:
  assumes "ctx_ok C" and "ec_inv C s" and "ec_expr C e s = Ret (i, s')" and "x \<notin> decls e"
  shows "find_local x s' = find_local x s"
proof -
  have "agree x s s'" using ec_expr_agree(1) assms by blast
  then show ?thesis
    using ec_expr_post(1) [OF assms(1-3)] assms(2) by (auto simp: ec_post_def ec_inv_def intro: agree_find_local)
qed

lemma declaration_binds:
  assumes "ctx_ok C" and "ec_inv C s" and "ec_expr C (Expr (EVariable final n v) p) s = Ret (i, s')"
  shows "\<exists>r l. find_local (lex n) s' = Some r \<and> deref C s' r = Ret l \<and> l = last (ec_locals s')
             \<and> vs_name l = lex n \<and> Some (vs_ty l) = ty_of i \<and> vs_mutable l = (\<not> final)
             \<and> vs_index l = length (ec_locals s') - 1"
proof -
  obtain v' s1 where *: "ec_expr C v s = Ret (v', s1)" "ec_variable C final n v' s1 = Ret (i, s')"
    using assms(3) by (auto simp: outcome_simps)
  have s1: "ec_inv C s1" "good C s1 v'" using ec_expr_post(1) [OF assms(1,2) *(1)] by (auto simp: ec_post_def)
  obtain t v'' where t: "e_typ v' = Ret (t, v'')" using *(2) by (auto simp: ec_variable_def outcome_simps)
  then show ?thesis
    using *(2) s1(1) good_typ(3) [OF s1(2) t]
    by (auto simp: ec_variable_def outcome_simps add_local_def Let_def add_to_scope_def find_local_scope
        scope_def deref_def ec_inv_def nth_append split: if_splits)
qed

text \<open>C13: scoping is lexical. A block leaves every name bound as it was before the block; any
  other expression changes only the names it declares outside nested blocks; and a declaration
  binds its name to a fresh local of the type of its value.\<close>

theorem lexical_scoping:
  assumes "ctx_ok C" and "ec_inv C s" and "ec_expr C e s = Ret (i, s')"
  shows "case e of
           Expr (EBlock es) p \<Rightarrow> ec_envs s' = ec_envs s
         | Expr (EVariable final n v) p \<Rightarrow>
             (\<exists>r l. find_local (lex n) s' = Some r \<and> deref C s' r = Ret l \<and> l = last (ec_locals s')
               \<and> vs_name l = lex n \<and> Some (vs_ty l) = ty_of i \<and> vs_mutable l = (\<not> final)
               \<and> vs_index l = length (ec_locals s') - 1)
             \<and> (\<forall>x. x \<notin> decls e \<longrightarrow> find_local x s' = find_local x s)
         | Expr _ p \<Rightarrow> (\<forall>x. x \<notin> decls e \<longrightarrow> find_local x s' = find_local x s)"
  using other_names_kept [OF assms] block_restores_scopes [OF assms(1,2)] declaration_binds [OF assms(1,2)] assms(3)
  by (auto split: expr.split eexpr.split)

text \<open>A context with one function \<open>f(a: i64)\<close>, for the concrete instances.\<close>

definition demo_ctx :: cctx where
  "demo_ctx = \<lparr>cc_mods = (\<lambda>_. \<lparr>irm_funcs = [], irm_classes = [], irm_reserved_names = {},
      irm_ast = \<lparr>mod_path = [], mod_functions = [], mod_classes = []\<rparr>\<rparr>), cc_self = 0,
    cc_params = [\<lparr>vs_ty = TI64, vs_name = ''a'', vs_index = 0, vs_mutable = False\<rparr>],
    cc_buf = (\<lambda>n. if n \<le> 6 then 0 else n), cc_show = (\<lambda>_. Ret [])\<rparr>"

definition demo_fn :: ir_function where
  "demo_fn = \<lparr>irf_name = ''f'', irf_params = cc_params demo_ctx, irf_ret_type = TI64, irf_locals = [],
     irf_body = e_poison, irf_ir = None,
     irf_ast = \<lparr>fn_name = \<lparr>kind = TK_Identifier, lex = ''f'', start = 0\<rparr>, fn_params = [], fn_ret_type = None,
                fn_body = None\<rparr>\<rparr>"

definition name_tok :: "string \<Rightarrow> token" where
  "name_tok x = \<lparr>kind = TK_Identifier, lex = x, start = 0\<rparr>"

definition val_one :: "string \<Rightarrow> expr" where
  "val_one x = Expr (EVariable True (name_tok x) (Expr (ELiteral (LInt 1)) 0)) 0"

lemma ec_val_one:
  assumes "ec_envs s \<noteq> []"
  shows "ec_expr C (val_one x) s =
    (let l = \<lparr>vs_ty = TI64, vs_name = x, vs_index = length (ec_locals s), vs_mutable = False\<rparr>
     in Ret (e_assign_local l (IrExpr (IConstant (CInt 1)) (Some TI64)),
          s\<lparr>ec_locals := ec_locals s @ [l],
            ec_envs := butlast (ec_envs s) @ [(last (ec_envs s))(x \<mapsto>
              VLocal (length (ec_locals s)) (cc_buf C (Suc (length (ec_locals s)))))]\<rparr>))"
  using assms
  by (simp add: val_one_def name_tok_def ec_variable_def e_constant_def e_new_def add_local_def add_to_scope_def
      allow_assignment_def Let_def)

lemma demo_ctx_ok: "ctx_ok demo_ctx" "shows_types demo_ctx" "inline_six demo_ctx"
  "cc_params demo_ctx = irf_params demo_fn" "irf_locals demo_fn = []"
  by (simp_all add: ctx_ok_def table_ok_def demo_ctx_def shows_types_def inline_six_def returns_def demo_fn_def)


theorem lexical_scoping_witness:
  "ec_expr demo_ctx (val_one ''b'') (ec_new demo_fn)
     = Ret (e_assign_local \<lparr>vs_ty = TI64, vs_name = ''b'', vs_index = 0, vs_mutable = False\<rparr>
              (IrExpr (IConstant (CInt 1)) (Some TI64)),
            \<lparr>ec_locals = [\<lparr>vs_ty = TI64, vs_name = ''b'', vs_index = 0, vs_mutable = False\<rparr>],
             ec_envs = [(params_env (cc_params demo_ctx))(''b'' \<mapsto> VLocal 0 0)]\<rparr>)
   \<and> find_local ''a'' \<lparr>ec_locals = [\<lparr>vs_ty = TI64, vs_name = ''b'', vs_index = 0, vs_mutable = False\<rparr>],
             ec_envs = [(params_env (cc_params demo_ctx))(''b'' \<mapsto> VLocal 0 0)]\<rparr>
        = find_local ''a'' (ec_new demo_fn)"
proof -
  have r: "ec_expr demo_ctx (val_one ''b'') (ec_new demo_fn)
     = Ret (e_assign_local \<lparr>vs_ty = TI64, vs_name = ''b'', vs_index = 0, vs_mutable = False\<rparr>
              (IrExpr (IConstant (CInt 1)) (Some TI64)),
            \<lparr>ec_locals = [\<lparr>vs_ty = TI64, vs_name = ''b'', vs_index = 0, vs_mutable = False\<rparr>],
             ec_envs = [(params_env (cc_params demo_ctx))(''b'' \<mapsto> VLocal 0 0)]\<rparr>)"
    by (simp add: ec_val_one ec_new_def demo_fn_def demo_ctx_def Let_def)
  from lexical_scoping [OF demo_ctx_ok(1) ec_new_inv [OF demo_ctx_ok(1,4,5)] r]
  have "\<forall>x. x \<notin> {''b''} \<longrightarrow>
        find_local x \<lparr>ec_locals = [\<lparr>vs_ty = TI64, vs_name = ''b'', vs_index = 0, vs_mutable = False\<rparr>],
             ec_envs = [(params_env (cc_params demo_ctx))(''b'' \<mapsto> VLocal 0 0)]\<rparr>
        = find_local x (ec_new demo_fn)"
    by (simp add: val_one_def name_tok_def)
  from r spec [OF this, of "''a''"] show ?thesis by simp
qed



end
