(* ===== verification/ModuleCompiler.thy ===== *)
theory ModuleCompiler
  imports ExprCompilerProps
begin

section \<open>Compiling modules (lang/src/compiler/module, lang/src/compiler/mod.rs)\<close>

text \<open>
  A \<open>MutRc<Module>\<close> is a \<open>RefCell\<close> behind a shared pointer. The heap maps the identity of a
  module to its contents and to the number of shared borrows that are alive; \<open>borrow_mut\<close>
  panics while there is one. Every mutable borrow of the source ends with its statement, so
  only the shared ones are counted. A function that returns \<open>Res\<close> yields an error or a
  value inside an \<open>outcome\<close>; \<open>qbind\<close> is the question mark operator. The heap is part of the
  value only: on an error every caller unwraps and panics.
\<close>

record heap =
  h_mods :: "nat \<Rightarrow> ir_module"
  h_readers :: "nat \<Rightarrow> nat"

type_synonym 'a res = "(error + 'a) outcome"

definition qbind :: "'a res \<Rightarrow> ('a \<Rightarrow> 'b res) \<Rightarrow> 'b res" where
  "qbind m f = obind m (\<lambda>r. case r of Inl e \<Rightarrow> Ret (Inl e) | Inr x \<Rightarrow> f x)"

definition unwrap_res :: "'a res \<Rightarrow> 'a outcome" where
  "unwrap_res m = obind m (\<lambda>r. case r of Inl e \<Rightarrow> Panic UnwrapOnErr | Inr x \<Rightarrow> Ret x)"

definition borrow :: "nat \<Rightarrow> heap \<Rightarrow> heap" where
  "borrow m h = h\<lparr>h_readers := (h_readers h)(m := h_readers h m + 1)\<rparr>"

definition unborrow :: "nat \<Rightarrow> heap \<Rightarrow> heap" where
  "unborrow m h = h\<lparr>h_readers := (h_readers h)(m := h_readers h m - 1)\<rparr>"

definition set_mod :: "nat \<Rightarrow> ir_module \<Rightarrow> heap \<Rightarrow> heap" where
  "set_mod m x h = h\<lparr>h_mods := (h_mods h)(m := x)\<rparr>"

definition borrow_mut :: "nat \<Rightarrow> heap \<Rightarrow> (ir_module \<Rightarrow> 'a res) \<Rightarrow> 'a res" where
  "borrow_mut m h f = (if h_readers h m > 0 then Panic AlreadyBorrowed else f (h_mods h m))"

subsection \<open>Resolving types\<close>

definition resolve_ty_name :: "nat \<Rightarrow> string \<Rightarrow> nat \<Rightarrow> heap \<Rightarrow> ty res" where
  "resolve_ty_name m name pos h =
     (if name = ''bool'' then Ret (Inr TBool)
      else if name = ''i64'' then Ret (Inr TI64)
      else if name = ''f64'' then Ret (Inr TF64)
      else borrow_mut m h (\<lambda>x.
        case iter_position (\<lambda>c. irc_name c = name) (irm_classes x) of
          Some i \<Rightarrow> Ret (Inr (TClass \<lparr>cr_module = m, cr_index = i\<rparr>))
        | None \<Rightarrow> Ret (Inl (error_new pos (E200 name)))))"

definition resolve_ty :: "nat \<Rightarrow> atype \<Rightarrow> heap \<Rightarrow> ty res" where
  "resolve_ty m t h = resolve_ty_name m (lex (aty_name t)) (start (aty_name t)) h"

subsection \<open>The passes\<close>

primrec declare_classes_loop :: "nat \<Rightarrow> ast_class list \<Rightarrow> heap \<Rightarrow> heap res" where
  "declare_classes_loop m [] h = Ret (Inr h)"
| "declare_classes_loop m (cls # rest) h =
     qbind (borrow_mut m h (\<lambda>x. Ret (try_reserve_name (lex (cls_name cls)) (start (cls_name cls)) x))) (\<lambda>x.
     let h = set_mod m x h in
     qbind (borrow_mut m h (\<lambda>x. Ret (Inr (x\<lparr>irm_classes := irm_classes x @
              [\<lparr>irc_name = lex (cls_name cls), irc_content = [], irc_ast = cls\<rparr>]\<rparr>)))) (\<lambda>x.
     declare_classes_loop m rest (set_mod m x h)))"

definition declare_classes :: "nat \<Rightarrow> heap \<Rightarrow> heap res" where
  "declare_classes m h =
     borrow_mut m h (\<lambda>x.
       declare_classes_loop m (mod_classes (irm_ast x))
         (set_mod m (x\<lparr>irm_ast := (irm_ast x)\<lparr>mod_classes := []\<rparr>\<rparr>) h))"

primrec resolve_params :: "nat \<Rightarrow> nat \<Rightarrow> parameter list \<Rightarrow> heap \<Rightarrow> var_store list res" where
  "resolve_params m index [] h = Ret (Inr [])"
| "resolve_params m index (p # ps) h =
     qbind (resolve_ty m (par_ty p) h) (\<lambda>t.
     qbind (resolve_params m (Suc index) ps h) (\<lambda>vs.
     Ret (Inr (\<lparr>vs_ty = t, vs_name = par_name p, vs_index = index, vs_mutable = False\<rparr> # vs))))"

definition declare_function :: "nat \<Rightarrow> ast_function \<Rightarrow> heap \<Rightarrow> (func_ref \<times> heap) res" where
  "declare_function m func h =
     qbind (resolve_params m 0 (fn_params func) h) (\<lambda>params.
     qbind (case fn_ret_type func of Some t \<Rightarrow> resolve_ty m t h | None \<Rightarrow> Ret (Inr TVoid)) (\<lambda>ret_type.
     borrow_mut m h (\<lambda>x.
       let x = x\<lparr>irm_funcs := irm_funcs x @ [\<lparr>irf_name = lex (fn_name func), irf_params = params,
                   irf_ret_type = ret_type, irf_locals = [], irf_body = e_poison, irf_ir = None,
                   irf_ast = func\<rparr>]\<rparr>
       in Ret (Inr (\<lparr>fr_module = m, fr_index = length (irm_funcs x) - 1\<rparr>, set_mod m x h)))))"

primrec declare_functions_loop :: "nat \<Rightarrow> ast_function list \<Rightarrow> heap \<Rightarrow> heap res" where
  "declare_functions_loop m [] h = Ret (Inr h)"
| "declare_functions_loop m (func # rest) h =
     qbind (borrow_mut m h (\<lambda>x. Ret (try_reserve_name (lex (fn_name func)) (start (fn_name func)) x))) (\<lambda>x.
     qbind (declare_function m func (set_mod m x h)) (\<lambda>(r, h).
     declare_functions_loop m rest h))"

definition declare_functions :: "nat \<Rightarrow> heap \<Rightarrow> heap res" where
  "declare_functions m h =
     borrow_mut m h (\<lambda>x.
       declare_functions_loop m (mod_functions (irm_ast x))
         (set_mod m (x\<lparr>irm_ast := (irm_ast x)\<lparr>mod_functions := []\<rparr>\<rparr>) h))"

text \<open>\<open>generate_classes\<close> walks the classes under a shared borrow of the module; the content
  and the syntax of a class are cells of their own.\<close>

definition upd_class :: "nat \<Rightarrow> nat \<Rightarrow> (ir_class \<Rightarrow> ir_class) \<Rightarrow> heap \<Rightarrow> heap" where
  "upd_class m k f h =
     (let x = h_mods h m in
      set_mod m (x\<lparr>irm_classes := (irm_classes x)[k := f (irm_classes x ! k)]\<rparr>) h)"

definition content_insert :: "string \<Rightarrow> class_content \<Rightarrow> ir_class \<Rightarrow> ir_class" where
  "content_insert name c cls = cls\<lparr>irc_content := index_insert name c (irc_content cls)\<rparr>"

primrec gen_members :: "nat \<Rightarrow> nat \<Rightarrow> nat \<Rightarrow> member list \<Rightarrow> heap \<Rightarrow> heap res" where
  "gen_members m k index [] h = Ret (Inr h)"
| "gen_members m k index (mem # rest) h =
     qbind (resolve_ty m (mem_ty mem) h) (\<lambda>t.
     let name = lex (mem_name mem);
         store = \<lparr>vs_ty = t, vs_name = name, vs_index = index, vs_mutable = mem_mutable mem\<rparr>
     in gen_members m k (Suc index) rest (upd_class m k (content_insert name (CCMember store)) h))"

primrec gen_functions :: "(func_ref \<Rightarrow> class_content) \<Rightarrow> nat \<Rightarrow> nat \<Rightarrow> ast_function list \<Rightarrow> heap \<Rightarrow> heap res" where
  "gen_functions wrap m k [] h = Ret (Inr h)"
| "gen_functions wrap m k (func # rest) h =
     qbind (declare_function m func h) (\<lambda>(r, h).
     gen_functions wrap m k rest (upd_class m k (content_insert (lex (fn_name func)) (wrap r)) h))"

definition drained :: "ir_class \<Rightarrow> ir_class" where
  "drained c = c\<lparr>irc_ast := (irc_ast c)\<lparr>cls_methods := [], cls_functions := []\<rparr>\<rparr>"

primrec generate_classes_loop :: "nat \<Rightarrow> nat list \<Rightarrow> heap \<Rightarrow> heap res" where
  "generate_classes_loop m [] h = Ret (Inr h)"
| "generate_classes_loop m (k # ks) h =
     (let a = irc_ast (irm_classes (h_mods h m) ! k) in
      qbind (gen_members m k 0 (cls_members a) h) (\<lambda>h.
      qbind (gen_functions CCMethod m k (cls_methods a) h) (\<lambda>h.
      qbind (gen_functions CCFunction m k (cls_functions a) h) (\<lambda>h.
      generate_classes_loop m ks (upd_class m k drained h)))))"

definition generate_classes :: "nat \<Rightarrow> heap \<Rightarrow> heap res" where
  "generate_classes m h =
     qbind (generate_classes_loop m [0..<length (irm_classes (h_mods h m))] (borrow m h)) (\<lambda>h.
     Ret (Inr (unborrow m h)))"

definition fn_ctx :: "(nat \<Rightarrow> nat) \<Rightarrow> (ty \<Rightarrow> string outcome) \<Rightarrow> nat \<Rightarrow> ir_function \<Rightarrow> heap \<Rightarrow> cctx" where
  "fn_ctx buf sh m f h =
     \<lparr>cc_mods = h_mods h, cc_self = m, cc_params = irf_params f, cc_buf = buf, cc_show = sh\<rparr>"

text \<open>One round of \<open>generate_functions\<close>: the compiler pushes locals onto the function it
  compiles and the result becomes its body.\<close>

definition generate_function ::
    "(nat \<Rightarrow> nat) \<Rightarrow> (ty \<Rightarrow> string outcome) \<Rightarrow> nat \<Rightarrow> nat \<Rightarrow> heap \<Rightarrow> heap outcome" where
  "generate_function buf sh m k h =
     (let x = h_mods h m; f = irm_funcs x ! k in
      case fn_body (irf_ast f) of
        None \<Rightarrow> Ret h
      | Some e \<Rightarrow> obind (ec_expr (fn_ctx buf sh m f h) e (ec_new f)) (\<lambda>(body, s).
          Ret (set_mod m (x\<lparr>irm_funcs := (irm_funcs x)[k := f\<lparr>irf_locals := ec_locals s, irf_body := body\<rparr>]\<rparr>) h)))"

primrec generate_functions_loop ::
    "(nat \<Rightarrow> nat) \<Rightarrow> (ty \<Rightarrow> string outcome) \<Rightarrow> nat \<Rightarrow> nat list \<Rightarrow> heap \<Rightarrow> heap outcome" where
  "generate_functions_loop buf sh m [] h = Ret h"
| "generate_functions_loop buf sh m (k # ks) h =
     obind (generate_function buf sh m k h) (generate_functions_loop buf sh m ks)"

definition generate_functions ::
    "(nat \<Rightarrow> nat) \<Rightarrow> (ty \<Rightarrow> string outcome) \<Rightarrow> nat \<Rightarrow> heap \<Rightarrow> heap res" where
  "generate_functions buf sh m h =
     obind (generate_functions_loop buf sh m [0..<length (irm_funcs (h_mods h m))] (borrow m h)) (\<lambda>h.
     Ret (Inr (unborrow m h)))"

definition stage_1 :: "(nat \<Rightarrow> nat) \<Rightarrow> (ty \<Rightarrow> string outcome) \<Rightarrow> nat \<Rightarrow> heap \<Rightarrow> heap outcome" where
  "stage_1 buf sh m h =
     obind (unwrap_res (declare_classes m h)) (\<lambda>h.
     obind (unwrap_res (declare_functions m h)) (\<lambda>h.
     obind (unwrap_res (generate_classes m h)) (\<lambda>h.
     unwrap_res (generate_functions buf sh m h))))"

subsection \<open>The compilers of one module and of a program\<close>

record module_compiler =
  mc_module :: nat
  mc_errors :: "error list"

definition module_compiler_new :: "nat \<Rightarrow> module_compiler" where
  "module_compiler_new m = \<lparr>mc_module = m, mc_errors = []\<rparr>"

definition module_compiler_consume ::
    "(nat \<Rightarrow> nat) \<Rightarrow> (ty \<Rightarrow> string outcome) \<Rightarrow> module_compiler \<Rightarrow> heap \<Rightarrow> ((error list + nat) \<times> heap) outcome" where
  "module_compiler_consume buf sh c h =
     obind (stage_1 buf sh (mc_module c) h) (\<lambda>h.
     Ret (if mc_errors c = [] then Inr (mc_module c) else Inl (mc_errors c), h))"

record compiler =
  co_modules :: "nat list"
  co_compilers :: "module_compiler list"

definition compiler_new :: "ast_module list \<Rightarrow> compiler \<times> heap" where
  "compiler_new asts =
     (let ids = [0..<length asts] in
      (\<lparr>co_modules = ids, co_compilers = map module_compiler_new ids\<rparr>,
       \<lparr>h_mods = (\<lambda>m. if m < length asts then from_ast (asts ! m)
                       else from_ast \<lparr>mod_path = [], mod_functions = [], mod_classes = []\<rparr>),
        h_readers = (\<lambda>_. 0)\<rparr>))"

primrec all_mods :: "(module_compiler \<Rightarrow> heap \<Rightarrow> heap outcome) \<Rightarrow> module_compiler list \<Rightarrow> heap \<Rightarrow> heap outcome" where
  "all_mods f [] h = Ret h"
| "all_mods f (c # cs) h = obind (f c h) (all_mods f cs)"

definition compiler_finish :: "compiler \<Rightarrow> error list list + nat list" where
  "compiler_finish c =
     (let errors = filter (\<lambda>es. es \<noteq> []) (map mc_errors (co_compilers c)) in
      if errors = [] then Inr (co_modules c) else Inl errors)"

definition compiler_consume ::
    "(nat \<Rightarrow> nat) \<Rightarrow> (ty \<Rightarrow> string outcome) \<Rightarrow> compiler \<Rightarrow> heap \<Rightarrow> ((error list list + nat list) \<times> heap) outcome" where
  "compiler_consume buf sh c h =
     obind (all_mods (\<lambda>mc. stage_1 buf sh (mc_module mc)) (co_compilers c) h) (\<lambda>h.
     Ret (compiler_finish c, h))"

subsection \<open>Cells and results\<close>

lemma set_mod_simps [simp]:
  "h_mods (set_mod m x h) = (h_mods h)(m := x)" "h_readers (set_mod m x h) = h_readers h"
  "set_mod m x (set_mod m y h) = set_mod m x h"
  by (simp_all add: set_mod_def)

lemma borrow_simps [simp]:
  "h_mods (borrow m h) = h_mods h" "h_mods (unborrow m h) = h_mods h"
  "h_readers (borrow m h) m = Suc (h_readers h m)"
  "unborrow m (set_mod m x (borrow m h)) = set_mod m x h"
  "unborrow m (borrow m h) = h"
  by (simp_all add: borrow_def unborrow_def set_mod_def)

lemma borrow_mut_simps [simp]:
  "h_readers h m = 0 \<Longrightarrow> borrow_mut m h f = f (h_mods h m)"
  "h_readers h m > 0 \<Longrightarrow> borrow_mut m h f = Panic AlreadyBorrowed"
  by (simp_all add: borrow_mut_def)

lemma qbind_simps [simp]:
  "qbind (Ret (Inr x)) f = f x" "qbind (Ret (Inl e)) f = Ret (Inl e)" "qbind (Panic p) f = Panic p"
  by (simp_all add: qbind_def)

lemma unwrap_res_simps [simp]:
  "unwrap_res (Ret (Inr x)) = Ret x" "unwrap_res (Ret (Inl e)) = Panic UnwrapOnErr"
  "unwrap_res (Panic p) = Panic p"
  by (simp_all add: unwrap_res_def)

subsection \<open>Declaring classes and functions\<close>

abbreviation cname :: "ast_class \<Rightarrow> string" where "cname c \<equiv> lex (cls_name c)"
abbreviation fname :: "ast_function \<Rightarrow> string" where "fname f \<equiv> lex (fn_name f)"

definition declared_class :: "ast_class \<Rightarrow> ir_class" where
  "declared_class c = \<lparr>irc_name = cname c, irc_content = [], irc_ast = c\<rparr>"

lemma declare_classes_loop_eq:
  assumes "h_readers h m = 0"
  shows "distinct (map cname cs) \<and> irm_reserved_names (h_mods h m) \<inter> cname ` set cs = {} \<Longrightarrow>
           declare_classes_loop m cs h = Ret (Inr (set_mod m ((h_mods h m)
             \<lparr>irm_reserved_names := irm_reserved_names (h_mods h m) \<union> cname ` set cs,
              irm_classes := irm_classes (h_mods h m) @ map declared_class cs\<rparr>) h))"
    and "\<not> (distinct (map cname cs) \<and> irm_reserved_names (h_mods h m) \<inter> cname ` set cs = {}) \<Longrightarrow>
           \<exists>p x. declare_classes_loop m cs h = Ret (Inl (error_new p (E201 x)))"
  using assms
proof (induction cs arbitrary: h)
  case Nil
  {
    case 1
    then show ?case by (simp add: set_mod_def)
  next
    case 2
    then show ?case by simp
  }
next
  case (Cons c cs)
  {
    case 1
    then show ?case using Cons(1) [of "set_mod m _ h"]
      by (simp add: try_reserve_name_def declared_class_def)
  next
    case 2
    let ?x = "(h_mods h m)\<lparr>irm_reserved_names := insert (cname c) (irm_reserved_names (h_mods h m)),
      irm_classes := irm_classes (h_mods h m) @ [declared_class c]\<rparr>"
    show ?case
    proof (cases "cname c \<in> irm_reserved_names (h_mods h m)")
      case False
      with 2 have "\<exists>p x. declare_classes_loop m cs (set_mod m ?x h) = Ret (Inl (error_new p (E201 x)))"
        by (intro Cons(2)) auto
      with False 2 show ?thesis by (simp add: try_reserve_name_def declared_class_def)
    qed (use 2 in \<open>auto simp: try_reserve_name_def\<close>)
  }
qed

definition ty_res :: "nat \<Rightarrow> string list \<Rightarrow> string \<Rightarrow> ty option" where
  "ty_res m classes name =
     (if name = ''bool'' then Some TBool else if name = ''i64'' then Some TI64
      else if name = ''f64'' then Some TF64
      else map_option (\<lambda>i. TClass \<lparr>cr_module = m, cr_index = i\<rparr>) (iter_position (\<lambda>c. c = name) classes))"

definition aty_res :: "nat \<Rightarrow> string list \<Rightarrow> atype \<Rightarrow> ty option" where
  "aty_res m classes t = ty_res m classes (lex (aty_name t))"

lemma resolve_ty_eq:
  assumes "h_readers h m = 0"
  shows "resolve_ty m t h =
    (case aty_res m (map irc_name (irm_classes (h_mods h m))) t of
       Some u \<Rightarrow> Ret (Inr u)
     | None \<Rightarrow> Ret (Inl (error_new (start (aty_name t)) (E200 (lex (aty_name t))))))"
  using assms
  by (auto simp: resolve_ty_def resolve_ty_name_def aty_res_def ty_res_def iter_position_map split: option.splits)

text \<open>A resolved type is never a function type.\<close>

lemma aty_res_not_fn: "aty_res m cs t = Some u \<Longrightarrow> u \<noteq> TFunction r"
  by (auto simp: aty_res_def ty_res_def split: if_splits)

definition sig_ok :: "nat \<Rightarrow> string list \<Rightarrow> ast_function \<Rightarrow> bool" where
  "sig_ok m cs f \<longleftrightarrow> (\<forall>p \<in> set (fn_params f). aty_res m cs (par_ty p) \<noteq> None)
     \<and> (case fn_ret_type f of None \<Rightarrow> True | Some t \<Rightarrow> aty_res m cs t \<noteq> None)"

definition param_store :: "nat \<Rightarrow> string list \<Rightarrow> nat \<Rightarrow> parameter \<Rightarrow> var_store" where
  "param_store m cs i p = \<lparr>vs_ty = the (aty_res m cs (par_ty p)), vs_name = par_name p, vs_index = i, vs_mutable = False\<rparr>"

definition declared_fn :: "nat \<Rightarrow> string list \<Rightarrow> ast_function \<Rightarrow> ir_function" where
  "declared_fn m cs f = \<lparr>irf_name = fname f,
     irf_params = map (\<lambda>(i, p). param_store m cs i p) (enumerate 0 (fn_params f)),
     irf_ret_type = (case fn_ret_type f of None \<Rightarrow> TVoid | Some t \<Rightarrow> the (aty_res m cs t)),
     irf_locals = [], irf_body = e_poison, irf_ir = None, irf_ast = f\<rparr>"

lemma resolve_params_eq:
  assumes "h_readers h m = 0" and "cs = map irc_name (irm_classes (h_mods h m))"
    and "\<forall>p \<in> set ps. aty_res m cs (par_ty p) \<noteq> None"
  shows "resolve_params m i ps h = Ret (Inr (map (\<lambda>(i, p). param_store m cs i p) (enumerate i ps)))"
  using assms(3)
proof (induction ps arbitrary: i)
  case (Cons p ps)
  then obtain t where "aty_res m cs (par_ty p) = Some t" by auto
  with Cons assms(1,2) show ?case by (simp add: resolve_ty_eq param_store_def)
qed simp

lemma declare_function_eq:
  assumes "h_readers h m = 0" and "cs = map irc_name (irm_classes (h_mods h m))" and "sig_ok m cs f"
  shows "declare_function m f h = Ret (Inr (\<lparr>fr_module = m, fr_index = length (irm_funcs (h_mods h m))\<rparr>,
     set_mod m ((h_mods h m)\<lparr>irm_funcs := irm_funcs (h_mods h m) @ [declared_fn m cs f]\<rparr>) h))"
proof -
  have ps: "\<forall>p \<in> set (fn_params f). aty_res m cs (par_ty p) \<noteq> None"
    using assms(3) by (auto simp: sig_ok_def)
  have "(case fn_ret_type f of Some t \<Rightarrow> resolve_ty m t h | None \<Rightarrow> Ret (Inr TVoid))
        = Ret (Inr (irf_ret_type (declared_fn m cs f)))"
    using assms
    by (auto simp: sig_ok_def declared_fn_def resolve_ty_eq split: option.splits)
  with resolve_params_eq [OF assms(1,2) ps, of 0] assms(1) show ?thesis
    by (simp add: declare_function_def declared_fn_def)
qed

lemma declare_functions_loop_eq:
  assumes "h_readers h m = 0" and "cs = map irc_name (irm_classes (h_mods h m))"
    and "distinct (map fname fs)" and "irm_reserved_names (h_mods h m) \<inter> fname ` set fs = {}"
    and "\<forall>f \<in> set fs. sig_ok m cs f"
  shows "declare_functions_loop m fs h = Ret (Inr (set_mod m ((h_mods h m)
             \<lparr>irm_reserved_names := irm_reserved_names (h_mods h m) \<union> fname ` set fs,
              irm_funcs := irm_funcs (h_mods h m) @ map (declared_fn m cs) fs\<rparr>) h))"
  using assms
proof (induction fs arbitrary: h)
  case Nil
  then show ?case by (simp add: set_mod_def)
next
  case (Cons f fs)
  let ?x = "(h_mods h m)\<lparr>irm_reserved_names := insert (fname f) (irm_reserved_names (h_mods h m))\<rparr>"
  have "declare_function m f (set_mod m ?x h) = Ret (Inr (\<lparr>fr_module = m, fr_index = length (irm_funcs (h_mods h m))\<rparr>,
     set_mod m (?x\<lparr>irm_funcs := irm_funcs (h_mods h m) @ [declared_fn m cs f]\<rparr>) h))"
    using Cons.prems declare_function_eq [of "set_mod m ?x h" m cs f] by simp
  with Cons.prems Cons.IH [of "set_mod m (?x\<lparr>irm_funcs := irm_funcs (h_mods h m) @ [declared_fn m cs f]\<rparr>) h"]
  show ?case by (simp add: try_reserve_name_def)
qed

subsection \<open>Generating classes\<close>

definition prim_ty :: "atype \<Rightarrow> ty option" where
  "prim_ty t = ty_res 0 [] (lex (aty_name t))"

definition plain_class :: "ast_class \<Rightarrow> bool" where
  "plain_class c \<longleftrightarrow> (\<forall>mem \<in> set (cls_members c). prim_ty (mem_ty mem) \<noteq> None)
     \<and> cls_methods c = [] \<and> cls_functions c = []"

definition member_store :: "nat \<Rightarrow> member \<Rightarrow> class_content" where
  "member_store i mem = CCMember \<lparr>vs_ty = the (prim_ty (mem_ty mem)), vs_name = lex (mem_name mem),
     vs_index = i, vs_mutable = mem_mutable mem\<rparr>"

primrec members_content :: "nat \<Rightarrow> member list \<Rightarrow> (string \<times> class_content) list \<Rightarrow> (string \<times> class_content) list" where
  "members_content i [] c = c"
| "members_content i (mem # rest) c =
     members_content (Suc i) rest (index_insert (lex (mem_name mem)) (member_store i mem) c)"

definition generated_class :: "ir_class \<Rightarrow> ir_class" where
  "generated_class c = drained (c\<lparr>irc_content := members_content 0 (cls_members (irc_ast c)) (irc_content c)\<rparr>)"

lemma resolve_ty_borrowed:
  "h_readers h m > 0 \<Longrightarrow> resolve_ty m t h =
     (case prim_ty t of Some u \<Rightarrow> Ret (Inr u) | None \<Rightarrow> Panic AlreadyBorrowed)"
  by (simp add: resolve_ty_def resolve_ty_name_def prim_ty_def ty_res_def)

lemma resolve_params_borrowed:
  "h_readers h m > 0 \<Longrightarrow> resolve_params m i ps h = Panic AlreadyBorrowed \<or> (\<exists>vs. resolve_params m i ps h = Ret (Inr vs))"
proof (induction ps arbitrary: i)
  case (Cons p ps)
  from Cons.IH [OF Cons.prems, of "Suc i"] Cons.prems show ?case
    by (elim disjE exE) (simp_all add: resolve_ty_borrowed split: option.splits)
qed simp

lemma declare_function_borrowed:
  assumes "h_readers h m > 0"
  shows "declare_function m f h = Panic AlreadyBorrowed"
proof -
  have "(case fn_ret_type f of Some t \<Rightarrow> resolve_ty m t h | None \<Rightarrow> Ret (Inr TVoid)) = Panic AlreadyBorrowed
     \<or> (\<exists>t. (case fn_ret_type f of Some t \<Rightarrow> resolve_ty m t h | None \<Rightarrow> Ret (Inr TVoid)) = Ret (Inr t))"
    using assms by (auto simp: resolve_ty_borrowed split: option.splits)
  with resolve_params_borrowed [OF assms, of 0 "fn_params f"] assms show ?thesis
    by (auto simp: declare_function_def)
qed

lemma gen_functions_borrowed:
  "h_readers h m > 0 \<Longrightarrow> gen_functions w m k fs h = (if fs = [] then Ret (Inr h) else Panic AlreadyBorrowed)"
  by (cases fs) (simp_all add: declare_function_borrowed)

lemma upd_class_simps [simp]:
  "h_readers (upd_class m k f h) = h_readers h"
  "length (irm_classes (h_mods (upd_class m k f h) m)) = length (irm_classes (h_mods h m))"
  by (simp_all add: upd_class_def Let_def)

lemma upd_class_comp:
  "k < length (irm_classes (h_mods h m)) \<Longrightarrow> upd_class m k g (upd_class m k f h) = upd_class m k (g \<circ> f) h"
  by (simp add: upd_class_def Let_def)

lemma upd_class_id: "upd_class m k (\<lambda>c. c) h = h"
  by (simp add: upd_class_def Let_def set_mod_def)

lemma gen_members_borrowed:
  assumes "h_readers h m > 0" and "k < length (irm_classes (h_mods h m))"
  shows "gen_members m k i mems h =
    (if \<forall>mem \<in> set mems. prim_ty (mem_ty mem) \<noteq> None
     then Ret (Inr (upd_class m k (\<lambda>c. c\<lparr>irc_content := members_content i mems (irc_content c)\<rparr>) h))
     else Panic AlreadyBorrowed)"
  using assms
proof (induction mems arbitrary: i h)
  case (Cons mem mems)
  show ?case
  proof (cases "prim_ty (mem_ty mem)")
    case (Some t)
    with Cons show ?thesis
      by (simp add: resolve_ty_borrowed upd_class_comp content_insert_def comp_def member_store_def Let_def)
  qed (use Cons in \<open>simp add: resolve_ty_borrowed\<close>)
qed (simp add: upd_class_id)

lemma generate_classes_loop_eq:
  assumes "h_readers h m > 0" and "distinct ks" and "\<forall>k \<in> set ks. k < length (irm_classes (h_mods h m))"
  shows "generate_classes_loop m ks h =
    (if \<forall>k \<in> set ks. plain_class (irc_ast (irm_classes (h_mods h m) ! k))
     then Ret (Inr (set_mod m ((h_mods h m)\<lparr>irm_classes :=
        map (\<lambda>j. if j \<in> set ks then generated_class (irm_classes (h_mods h m) ! j) else irm_classes (h_mods h m) ! j)
          [0..<length (irm_classes (h_mods h m))]\<rparr>) h))
     else Panic AlreadyBorrowed)"
  using assms
proof (induction ks arbitrary: h)
  case Nil
  then show ?case by (simp add: map_nth set_mod_def)
next
  case (Cons k ks)
  let ?cs = "irm_classes (h_mods h m)"
  let ?h' = "upd_class m k generated_class h"
  have upd: "upd_class m k drained (upd_class m k (\<lambda>c. c\<lparr>irc_content := members_content 0
               (cls_members (irc_ast (?cs ! k))) (irc_content c)\<rparr>) h) = ?h'"
    using Cons.prems(3) by (simp add: upd_class_comp) (simp add: upd_class_def Let_def generated_class_def)
  have cs': "irm_classes (h_mods ?h' m) = ?cs[k := generated_class (?cs ! k)]"
    by (simp add: upd_class_def Let_def)
  show ?case
  proof (cases "plain_class (irc_ast (?cs ! k))")
    case False
    then have "generate_classes_loop m (k # ks) h = Panic AlreadyBorrowed"
      using Cons.prems(1,3) by (auto simp: plain_class_def gen_members_borrowed gen_functions_borrowed Let_def)
    with False show ?thesis by (simp only: list.set_intros(1) if_False) auto
  next
    case True
    with Cons.prems upd have "generate_classes_loop m (k # ks) h = generate_classes_loop m ks ?h'"
      by (simp add: plain_class_def gen_members_borrowed gen_functions_borrowed Let_def)
    moreover have others: "\<forall>j \<in> set ks. irm_classes (h_mods ?h' m) ! j = ?cs ! j"
      using Cons.prems(2) by (metis cs' distinct.simps(2) nth_list_update_neq)
    then have "(\<forall>j \<in> set ks. plain_class (irc_ast (irm_classes (h_mods ?h' m) ! j)))
        = (\<forall>j \<in> set ks. plain_class (irc_ast (?cs ! j)))"
      by simp
    moreover have "map (\<lambda>j. if j \<in> set ks then generated_class (irm_classes (h_mods ?h' m) ! j)
          else irm_classes (h_mods ?h' m) ! j) [0..<length ?cs]
       = map (\<lambda>j. if j \<in> set (k # ks) then generated_class (?cs ! j) else ?cs ! j) [0..<length ?cs]"
      using Cons.prems(2,3) by (auto simp: cs' nth_list_update)
    moreover have "set_mod m ((h_mods ?h' m)\<lparr>irm_classes := zs\<rparr>) ?h' = set_mod m ((h_mods h m)\<lparr>irm_classes := zs\<rparr>) h" for zs
      by (simp add: upd_class_def Let_def)
    ultimately show ?thesis using Cons.IH [of ?h'] Cons.prems True by (simp del: map_eq_conv)
  qed
qed

lemma generate_classes_eq:
  "generate_classes m h =
     (if \<forall>c \<in> set (irm_classes (h_mods h m)). plain_class (irc_ast c)
      then Ret (Inr (set_mod m ((h_mods h m)\<lparr>irm_classes := map generated_class (irm_classes (h_mods h m))\<rparr>) h))
      else Panic AlreadyBorrowed)"
proof -
  let ?cs = "irm_classes (h_mods h m)"
  have gen: "map (\<lambda>j. if j \<in> set [0..<length ?cs] then generated_class (?cs ! j) else ?cs ! j) [0..<length ?cs]
      = map generated_class ?cs"
    by (rule nth_equalityI) simp_all
  have plain: "(\<forall>k \<in> set [0..<length ?cs]. plain_class (irc_ast (?cs ! k))) = (\<forall>c \<in> set ?cs. plain_class (irc_ast c))"
    by (auto simp: all_set_conv_all_nth)
  have "0 < h_readers (borrow m h) m" "\<forall>k \<in> set [0..<length ?cs]. k < length ?cs" by simp_all
  note generate_classes_loop_eq [of "borrow m h" m, unfolded borrow_simps(1), OF this(1) distinct_upt this(2)]
  then show ?thesis by (simp add: generate_classes_def gen plain del: set_upt)
qed

end
