(* ===== verification/ModuleCompilerProps.thy ===== *)
theory ModuleCompilerProps
  imports ModuleCompiler
begin

section \<open>Properties of module compilation\<close>

text \<open>
  From the single passes to whole programs: which modules compile, what the compiled module
  holds, and where the compiler panics.
\<close>

subsection \<open>Generating functions\<close>

lemma ir_ok_cong:
  assumes "cc_params C = cc_params C'"
    and "\<forall>m. length (irm_funcs (cc_mods C m)) = length (irm_funcs (cc_mods C' m))"
  shows "ir_ok C ls e = ir_ok C' ls e" and "iir_ok C ls i c = iir_ok C' ls i c"
proof -
  have f: "fref_ok C r = fref_ok C' r" for r using assms by (simp add: fref_ok_def)
  then have "fty_ok C t = fty_ok C' t" for t by (simp add: fty_ok_def split: ty.splits)
  moreover have "var_ok C ls i t = var_ok C' ls i t" for ls i t using assms by (simp add: var_ok_def)
  ultimately show "ir_ok C ls e = ir_ok C' ls e" and "iir_ok C ls i c = iir_ok C' ls i c"
    using f by (induction C ls e and C ls i c rule: ir_ok_iir_ok.induct) (auto split: option.splits ir_constant.splits)
qed

definition no_fn_ty :: "ty \<Rightarrow> bool" where
  "no_fn_ty t \<longleftrightarrow> (\<forall>r. t \<noteq> TFunction r)"

definition sig_plain :: "ir_function \<Rightarrow> bool" where
  "sig_plain f \<longleftrightarrow> no_fn_ty (irf_ret_type f)
     \<and> (\<forall>i < length (irf_params f). vs_index (irf_params f ! i) = i \<and> no_fn_ty (vs_ty (irf_params f ! i)))"

definition heap_ok :: "heap \<Rightarrow> bool" where
  "heap_ok h \<longleftrightarrow> (\<forall>m. \<forall>f \<in> set (irm_funcs (h_mods h m)). sig_plain f)"

definition body_ready :: "ast_function \<Rightarrow> bool" where
  "body_ready f = (case fn_body f of None \<Rightarrow> True | Some e \<Rightarrow> compilable e \<and> nvars e \<le> 6)"

text \<open>What generating a function leaves in the module: the body and the locals it was
  compiled to, over the unchanged signature.\<close>

definition compiled_fn :: "heap \<Rightarrow> nat \<Rightarrow> ir_function \<Rightarrow> bool" where
  "compiled_fn h m f = (case fn_body (irf_ast f) of
      None \<Rightarrow> irf_body f = e_poison \<and> irf_locals f = []
    | Some e \<Rightarrow>
        coherent (irf_body f)
        \<and> ir_ok (fn_ctx (\<lambda>_. 0) (\<lambda>_. Ret []) m f h) (irf_locals f) (irf_body f)
        \<and> ty_of (irf_body f) \<noteq> None
        \<and> (\<forall>k < length (irf_locals f). vs_index (irf_locals f ! k) = k))"

definition same_sig :: "ir_function \<Rightarrow> ir_function \<Rightarrow> bool" where
  "same_sig f g \<longleftrightarrow> irf_name g = irf_name f \<and> irf_params g = irf_params f
     \<and> irf_ret_type g = irf_ret_type f \<and> irf_ast g = irf_ast f"

lemma no_fn_ty_ok: "no_fn_ty t \<Longrightarrow> fty_ok C t"
  by (cases t) (auto simp: no_fn_ty_def)

lemma fn_ctx_ok: "heap_ok h \<Longrightarrow> f \<in> set (irm_funcs (h_mods h m)) \<Longrightarrow> ctx_ok (fn_ctx buf sh m f h)"
  by (auto simp: ctx_ok_def fn_ctx_def table_ok_def heap_ok_def sig_plain_def no_fn_ty_ok)

lemma generate_function_ok:
  assumes "heap_ok h" and "k < length (irm_funcs (h_mods h m))" and "f = irm_funcs (h_mods h m) ! k"
    and "irf_locals f = []" and "irf_body f = e_poison" and "body_ready (irf_ast f)"
    and "\<forall>t. returns (sh t)" and "\<forall>n \<le> 6. buf n = buf 0"
  shows "\<exists>g. generate_function buf sh m k h
            = Ret (set_mod m ((h_mods h m)\<lparr>irm_funcs := (irm_funcs (h_mods h m))[k := g]\<rparr>) h)
          \<and> same_sig f g \<and> compiled_fn h m g"
proof (cases "fn_body (irf_ast f)")
  case None
  then have "generate_function buf sh m k h
            = Ret (set_mod m ((h_mods h m)\<lparr>irm_funcs := (irm_funcs (h_mods h m))[k := f]\<rparr>) h)"
    using assms(3) by (simp add: generate_function_def Let_def set_mod_def)
  with None assms(4,5) show ?thesis by (auto simp: same_sig_def compiled_fn_def)
next
  case (Some e)
  let ?C = "fn_ctx buf sh m f h"
  have C: "ctx_ok ?C" using fn_ctx_ok [OF assms(1)] assms(2,3) by simp
  have "inline_six ?C" unfolding inline_six_def fn_ctx_def cctx.simps by (rule assms(8))
  moreover have "cc_params ?C = irf_params f" "shows_types ?C"
    using assms(7) by (simp_all add: fn_ctx_def shows_types_def)
  ultimately obtain i s' where i: "ec_expr ?C e (ec_new f) = Ret (i, s')" "coherent i" "ir_ok ?C (ec_locals s') i"
      "ty_of i \<noteq> None" "\<forall>k < length (ec_locals s'). vs_index (ec_locals s' ! k) = k"
    using compile_body_ok [OF C _ assms(4), of e] Some assms(6) unfolding body_ready_def by fastforce
  let ?g = "f\<lparr>irf_locals := ec_locals s', irf_body := i\<rparr>"
  have "generate_function buf sh m k h
            = Ret (set_mod m ((h_mods h m)\<lparr>irm_funcs := (irm_funcs (h_mods h m))[k := ?g]\<rparr>) h)"
    using i(1) Some assms(3) by (simp add: generate_function_def Let_def)
  moreover have "ir_ok (fn_ctx (\<lambda>_. 0) (\<lambda>_. Ret []) m ?g h) (ec_locals s') i"
    using i(3) ir_ok_cong(1) [of "fn_ctx (\<lambda>_. 0) (\<lambda>_. Ret []) m ?g h" ?C] by (simp add: fn_ctx_def)
  ultimately show ?thesis using i Some by (intro exI [of _ ?g]) (auto simp: same_sig_def compiled_fn_def)
qed

lemma compiled_fn_cong:
  "\<forall>m. length (irm_funcs (h_mods h m)) = length (irm_funcs (h_mods h' m)) \<Longrightarrow> compiled_fn h m f = compiled_fn h' m f"
  using ir_ok_cong(1) [of "fn_ctx (\<lambda>_. 0) (\<lambda>_. Ret []) m f h" "fn_ctx (\<lambda>_. 0) (\<lambda>_. Ret []) m f h'"]
  by (auto simp: compiled_fn_def fn_ctx_def split: option.splits)

text \<open>Modules that differ in the bodies and locals of functions only.\<close>

lemma same_sig_plain: "same_sig f g \<Longrightarrow> sig_plain g = sig_plain f"
  by (simp add: same_sig_def sig_plain_def)

definition same_sigs :: "(nat \<Rightarrow> ir_module) \<Rightarrow> (nat \<Rightarrow> ir_module) \<Rightarrow> bool" where
  "same_sigs M M' \<longleftrightarrow> (\<forall>m. irm_classes (M m) = irm_classes (M' m) \<and> list_all2 same_sig (irm_funcs (M m)) (irm_funcs (M' m)))"

lemma same_sig_refl [simp]: "same_sig f f"
  by (simp add: same_sig_def)

lemma same_sig_trans: "same_sig f g \<Longrightarrow> same_sig g k \<Longrightarrow> same_sig f k"
  by (simp add: same_sig_def)

lemma same_sigs_refl [simp]: "same_sigs M M"
  by (simp add: same_sigs_def list_all2_same)

lemma same_sigs_update:
  assumes "same_sigs M M'" and "list_all2 same_sig (irm_funcs (M' m)) fs"
  shows "same_sigs M (M'(m := (M' m)\<lparr>irm_funcs := fs\<rparr>))"
proof -
  have l: "list_all2 same_sig (irm_funcs (M m)) (irm_funcs (M' m))" using assms(1) by (simp add: same_sigs_def)
  have "list_all2 same_sig (irm_funcs (M m)) fs" by (rule list_all2_trans [OF _ l assms(2)]) (rule same_sig_trans)
  with assms(1) show ?thesis by (simp add: same_sigs_def)
qed

lemma same_sigs_length: "same_sigs M M' \<Longrightarrow> length (irm_funcs (M m)) = length (irm_funcs (M' m))"
  using list_all2_lengthD unfolding same_sigs_def by blast

abbreviation set_fn :: "nat \<Rightarrow> nat \<Rightarrow> ir_function \<Rightarrow> heap \<Rightarrow> heap" where
  "set_fn m k g h \<equiv> set_mod m ((h_mods h m)\<lparr>irm_funcs := (irm_funcs (h_mods h m))[k := g]\<rparr>) h"

lemma set_fn_ok:
  assumes "heap_ok h" and "k < length (irm_funcs (h_mods h m))" and "same_sig (irm_funcs (h_mods h m) ! k) g"
  shows "heap_ok (set_fn m k g h)" and "same_sigs M (h_mods h) \<Longrightarrow> same_sigs M (h_mods (set_fn m k g h))"
proof -
  have "sig_plain (irm_funcs (h_mods h m) ! k)" using assms(1) nth_mem [OF assms(2)] unfolding heap_ok_def by blast
  then have "sig_plain g" using assms(3) by (simp add: same_sig_plain)
  then show "heap_ok (set_fn m k g h)" using assms(1) by (auto simp: heap_ok_def dest!: set_update_subset_insert [THEN subsetD])
  have "list_all2 same_sig (irm_funcs (h_mods h m)) ((irm_funcs (h_mods h m))[k := g])"
    using assms(2,3) by (auto simp: list_all2_conv_all_nth nth_list_update)
  then show "same_sigs M (h_mods h) \<Longrightarrow> same_sigs M (h_mods (set_fn m k g h))"
    using same_sigs_update by (fastforce simp: set_mod_def)
qed

text \<open>Generating the functions one after the other: what one round makes of a function it has not
  met before holds of every function in the end.\<close>

lemma generate_functions_loop_all:
  assumes step: "\<And>h k. heap_ok h \<Longrightarrow> same_sigs M (h_mods h) \<Longrightarrow> k < length fs0 \<Longrightarrow> irm_funcs (h_mods h m) ! k = fs0 ! k \<Longrightarrow>
      \<exists>g. generate_function buf sh m k h = Ret (set_fn m k g h) \<and> same_sig (fs0 ! k) g \<and> Q g"
    and "fs0 = irm_funcs (M m)"
    and "heap_ok h" and "same_sigs M (h_mods h)" and "distinct ks" and "\<forall>k \<in> set ks. k < length fs0 \<and> irm_funcs (h_mods h m) ! k = fs0 ! k"
  shows "\<exists>fs. generate_functions_loop buf sh m ks h = Ret (set_mod m ((h_mods h m)\<lparr>irm_funcs := fs\<rparr>) h)
          \<and> list_all2 same_sig fs0 fs \<and> (\<forall>j < length fs. if j \<in> set ks then Q (fs ! j) else fs ! j = irm_funcs (h_mods h m) ! j)"
  using assms(3-)
proof (induction ks arbitrary: h)
  case Nil
  then show ?case using assms(2) by (intro exI [of _ "irm_funcs (h_mods h m)"]) (simp add: set_mod_def same_sigs_def)
next
  case (Cons k ks)
  let ?fs = "irm_funcs (h_mods h m)"
  have len: "length ?fs = length fs0" using same_sigs_length [OF Cons.prems(2)] assms(2) by simp
  have k: "k < length fs0" "?fs ! k = fs0 ! k" using Cons.prems(4) by auto
  obtain g where g: "generate_function buf sh m k h = Ret (set_fn m k g h)" "same_sig (fs0 ! k) g" "Q g"
    using step [OF Cons.prems(1,2) k] by blast
  let ?h' = "set_fn m k g h"
  have ok: "heap_ok ?h'" "same_sigs M (h_mods ?h')" using set_fn_ok [OF Cons.prems(1), of k m g] g(2) k len Cons.prems(2) by simp_all
  have others: "\<forall>j \<in> set ks. j < length fs0 \<and> irm_funcs (h_mods ?h' m) ! j = fs0 ! j"
    using Cons.prems(3,4) by (auto simp: nth_list_update_neq) (metis nth_list_update_neq)
  obtain fs where fs: "generate_functions_loop buf sh m ks ?h' = Ret (set_mod m ((h_mods ?h' m)\<lparr>irm_funcs := fs\<rparr>) ?h')"
     "list_all2 same_sig fs0 fs" "\<forall>j < length fs. if j \<in> set ks then Q (fs ! j) else fs ! j = irm_funcs (h_mods ?h' m) ! j"
    using Cons.IH [OF ok _ others] Cons.prems(3) by auto
  have "if j \<in> set (k # ks) then Q (fs ! j) else fs ! j = ?fs ! j" if "j < length fs" for j
    using fs(3) that g(3) Cons.prems(3) k(1) len by (cases "j = k") (auto simp: nth_list_update)
  with g(1) fs(1,2) show ?case by (intro exI [of _ fs]) simp
qed

lemma generate_functions_all:
  assumes step: "\<And>h' k. heap_ok h' \<Longrightarrow> same_sigs (h_mods h) (h_mods h') \<Longrightarrow> k < length (irm_funcs (h_mods h m)) \<Longrightarrow>
      irm_funcs (h_mods h' m) ! k = irm_funcs (h_mods h m) ! k \<Longrightarrow>
      \<exists>g. generate_function buf sh m k h' = Ret (set_fn m k g h') \<and> same_sig (irm_funcs (h_mods h m) ! k) g \<and> Q g"
    and "heap_ok h"
  shows "\<exists>fs. generate_functions buf sh m h = Ret (Inr (set_mod m ((h_mods h m)\<lparr>irm_funcs := fs\<rparr>) h))
          \<and> list_all2 same_sig (irm_funcs (h_mods h m)) fs \<and> (\<forall>f \<in> set fs. Q f)"
proof -
  let ?fs = "irm_funcs (h_mods h m)"
  have ok: "heap_ok (borrow m h)" "same_sigs (h_mods h) (h_mods (borrow m h))" using assms(2) by (simp_all add: heap_ok_def)
  have "\<exists>fs. generate_functions_loop buf sh m [0..<length ?fs] (borrow m h)
        = Ret (set_mod m ((h_mods (borrow m h) m)\<lparr>irm_funcs := fs\<rparr>) (borrow m h)) \<and> list_all2 same_sig ?fs fs
      \<and> (\<forall>j < length fs. if j \<in> set [0..<length ?fs] then Q (fs ! j) else fs ! j = irm_funcs (h_mods (borrow m h) m) ! j)"
    by (rule generate_functions_loop_all [OF step refl ok distinct_upt]) simp_all
  then obtain fs where fs: "generate_functions_loop buf sh m [0..<length ?fs] (borrow m h)
        = Ret (set_mod m ((h_mods h m)\<lparr>irm_funcs := fs\<rparr>) (borrow m h))"
      "list_all2 same_sig ?fs fs" "\<forall>j < length fs. if j \<in> set [0..<length ?fs] then Q (fs ! j) else fs ! j = ?fs ! j"
    unfolding borrow_simps(1) by blast
  have "Q f" if "f \<in> set fs" for f using that fs(3) list_all2_lengthD [OF fs(2)] by (auto simp: in_set_conv_nth)
  with fs(1,2) show ?thesis by (intro exI [of _ fs]) (simp add: generate_functions_def)
qed

lemma generate_functions_ok:
  assumes "heap_ok h"
    and "\<forall>f \<in> set (irm_funcs (h_mods h m)). irf_locals f = [] \<and> irf_body f = e_poison \<and> body_ready (irf_ast f)"
    and "\<forall>t. returns (sh t)" and "\<forall>n \<le> 6. buf n = buf 0"
  shows "\<exists>fs. generate_functions buf sh m h = Ret (Inr (set_mod m ((h_mods h m)\<lparr>irm_funcs := fs\<rparr>) h))
          \<and> list_all2 same_sig (irm_funcs (h_mods h m)) fs \<and> (\<forall>f \<in> set fs. compiled_fn h m f)"
proof (rule generate_functions_all [OF _ assms(1)])
  fix h' k
  assume h': "heap_ok h'" "same_sigs (h_mods h) (h_mods h')" "k < length (irm_funcs (h_mods h m))"
    "irm_funcs (h_mods h' m) ! k = irm_funcs (h_mods h m) ! k"
  have "compiled_fn h' m g = compiled_fn h m g" for g by (rule compiled_fn_cong) (simp add: same_sigs_length [OF h'(2)])
  then show "\<exists>g. generate_function buf sh m k h' = Ret (set_fn m k g h') \<and> same_sig (irm_funcs (h_mods h m) ! k) g \<and> compiled_fn h m g"
    using generate_function_ok [OF h'(1) _ refl _ _ _ assms(3,4), of k m] assms(2) h'(3,4) same_sigs_length [OF h'(2), of m] by simp
qed

subsection \<open>Modules and programs\<close>

text \<open>A module that compiles: no two of its declarations share a name, its classes are plain,
  every type name is known and every body is ready.\<close>

definition module_ready :: "nat \<Rightarrow> ast_module \<Rightarrow> bool" where
  "module_ready m a \<longleftrightarrow>
     distinct (map cname (mod_classes a) @ map fname (mod_functions a))
     \<and> (\<forall>c \<in> set (mod_classes a). plain_class c)
     \<and> (\<forall>f \<in> set (mod_functions a). sig_ok m (map cname (mod_classes a)) f \<and> body_ready f)"

text \<open>What the compiled module holds.\<close>

definition module_compiled :: "heap \<Rightarrow> nat \<Rightarrow> ast_module \<Rightarrow> bool" where
  "module_compiled h m a \<longleftrightarrow>
     irm_classes (h_mods h m) = map (\<lambda>c. generated_class (declared_class c)) (mod_classes a)
     \<and> list_all2 same_sig (map (declared_fn m (map cname (mod_classes a))) (mod_functions a)) (irm_funcs (h_mods h m))
     \<and> (\<forall>f \<in> set (irm_funcs (h_mods h m)). compiled_fn h m f)
     \<and> irm_reserved_names (h_mods h m) = cname ` set (mod_classes a) \<union> fname ` set (mod_functions a)"

lemma declared_class_simps [simp]:
  "irc_name (declared_class c) = cname c" "irc_ast (declared_class c) = c"
  "irc_name \<circ> declared_class = (\<lambda>c. cname c)"
  by (auto simp: declared_class_def)

lemma declared_fn_plain:
  assumes "sig_ok m cs f"
  shows "sig_plain (declared_fn m cs f)"
proof -
  have "no_fn_ty (the (aty_res m cs t))" if "aty_res m cs t \<noteq> None" for t
    using that aty_res_not_fn by (auto simp: no_fn_ty_def)
  with assms show ?thesis
    by (auto simp: sig_plain_def declared_fn_def sig_ok_def param_store_def nth_enumerate_eq no_fn_ty_def [of TVoid]
        split: option.splits)
qed

lemma same_sigs_plain: "list_all2 same_sig fs gs \<Longrightarrow> \<forall>f \<in> set fs. sig_plain f \<Longrightarrow> \<forall>g \<in> set gs. sig_plain g"
  by (induction rule: list_all2_induct) (auto simp: same_sig_plain)

text \<open>The module when its bodies are about to be compiled.\<close>

definition declared_module :: "nat \<Rightarrow> ast_module \<Rightarrow> ir_module" where
  "declared_module m a =
     \<lparr>irm_funcs = map (declared_fn m (map cname (mod_classes a))) (mod_functions a),
      irm_classes = map (\<lambda>c. generated_class (declared_class c)) (mod_classes a),
      irm_reserved_names = cname ` set (mod_classes a) \<union> fname ` set (mod_functions a),
      irm_ast = a\<lparr>mod_classes := [], mod_functions := []\<rparr>\<rparr>"

lemma stage_1_declared:
  assumes "h_readers h m = 0" and "h_mods h m = from_ast a" and "module_ready m a"
  shows "stage_1 buf sh m h = unwrap_res (generate_functions buf sh m (set_mod m (declared_module m a) h))"
proof -
  let ?cs = "map cname (mod_classes a)" and ?ast = "a\<lparr>mod_classes := []\<rparr>"
  let ?x1 = "\<lparr>irm_funcs = [], irm_classes = map declared_class (mod_classes a),
              irm_reserved_names = cname ` set (mod_classes a), irm_ast = ?ast\<rparr>"
  let ?x2 = "?x1\<lparr>irm_funcs := map (declared_fn m ?cs) (mod_functions a),
              irm_reserved_names := cname ` set (mod_classes a) \<union> fname ` set (mod_functions a),
              irm_ast := ?ast\<lparr>mod_functions := []\<rparr>\<rparr>"
  have ready: "distinct ?cs" "distinct (map fname (mod_functions a))"
      "cname ` set (mod_classes a) \<inter> fname ` set (mod_functions a) = {}"
      "\<forall>c \<in> set (mod_classes a). plain_class c"
      "\<forall>f \<in> set (mod_functions a). sig_ok m ?cs f \<and> body_ready f"
    using assms(3) by (auto simp: module_ready_def)
  have 1: "declare_classes m h = Ret (Inr (set_mod m ?x1 h))"
    using assms(1,2) ready(1) declare_classes_loop_eq(1) [of "set_mod m _ h" m "mod_classes a"]
    by (simp add: declare_classes_def from_ast_def)
  have 2: "declare_functions m (set_mod m ?x1 h) = Ret (Inr (set_mod m ?x2 h))"
    using assms(1) ready(2,3,5) declare_functions_loop_eq [of "set_mod m _ h" m ?cs "mod_functions a"]
    by (simp add: declare_functions_def)
  have 3: "generate_classes m (set_mod m ?x2 h) = Ret (Inr (set_mod m (declared_module m a) h))"
    using ready(4) by (simp add: generate_classes_eq declared_module_def comp_def)
  show ?thesis using 1 2 3 by (simp add: stage_1_def)
qed

lemma declared_module_ok:
  assumes "module_ready m a" and "heap_ok h"
  shows "heap_ok (set_mod m (declared_module m a) h)"
    and "f \<in> set (irm_funcs (declared_module m a)) \<Longrightarrow> irf_locals f = [] \<and> irf_body f = e_poison \<and> body_ready (irf_ast f)"
  using assms declared_fn_plain by (auto simp: heap_ok_def declared_module_def module_ready_def declared_fn_def)

lemma stage_1_ok:
  assumes "h_readers h m = 0" and "h_mods h m = from_ast a" and "module_ready m a" and "heap_ok h"
    and "\<forall>t. returns (sh t)" and "\<forall>n \<le> 6. buf n = buf 0"
  shows "\<exists>h'. stage_1 buf sh m h = Ret h' \<and> module_compiled h' m a \<and> heap_ok h'
           \<and> h_readers h' = h_readers h \<and> (\<forall>m'. m' \<noteq> m \<longrightarrow> h_mods h' m' = h_mods h m')"
proof -
  let ?x = "declared_module m a" and ?h = "set_mod m (declared_module m a) h"
  note ok = declared_module_ok(1) [OF assms(3,4)]
  obtain fs where fs: "generate_functions buf sh m ?h = Ret (Inr (set_mod m (?x\<lparr>irm_funcs := fs\<rparr>) h))"
      "list_all2 same_sig (irm_funcs ?x) fs" "\<forall>f \<in> set fs. compiled_fn ?h m f"
    using generate_functions_ok [OF ok _ assms(5,6), of m] declared_module_ok(2) [OF assms(3,4)] by auto
  let ?h' = "set_mod m (?x\<lparr>irm_funcs := fs\<rparr>) h"
  have "\<forall>f \<in> set fs. compiled_fn ?h' m f"
    using fs(2,3) compiled_fn_cong [of ?h ?h'] by (auto dest: list_all2_lengthD)
  then have "module_compiled ?h' m a" using fs(2) by (simp add: module_compiled_def declared_module_def)
  moreover have "\<forall>f \<in> set (irm_funcs ?x). sig_plain f" using ok unfolding heap_ok_def by (auto dest: spec [of _ m])
  then have "\<forall>f \<in> set fs. sig_plain f" by (rule same_sigs_plain [OF fs(2)])
  then have "heap_ok ?h'" using assms(4) by (simp add: heap_ok_def)
  ultimately show ?thesis using stage_1_declared [OF assms(1-3)] fs(1) by simp
qed

lemma ir_ok_grow:
  assumes "cc_params C = cc_params C'"
    and "\<forall>m. length (irm_funcs (cc_mods C m)) \<le> length (irm_funcs (cc_mods C' m))"
  shows "ir_ok C ls e \<Longrightarrow> ir_ok C' ls e" and "iir_ok C ls i c \<Longrightarrow> iir_ok C' ls i c"
proof -
  have f: "fref_ok C r \<Longrightarrow> fref_ok C' r" for r using assms(2) less_le_trans by (auto simp: fref_ok_def)
  then have "fty_ok C t \<Longrightarrow> fty_ok C' t" for t by (simp add: fty_ok_def split: ty.splits)
  moreover have "var_ok C ls i t = var_ok C' ls i t" for ls i t using assms by (simp add: var_ok_def)
  ultimately show "ir_ok C ls e \<Longrightarrow> ir_ok C' ls e" and "iir_ok C ls i c \<Longrightarrow> iir_ok C' ls i c"
    using f by (induction C ls e and C ls i c rule: ir_ok_iir_ok.induct) (auto split: option.splits ir_constant.splits)
qed

lemma compiled_fn_grow:
  assumes "\<forall>m. length (irm_funcs (h_mods h m)) \<le> length (irm_funcs (h_mods h' m))" and "compiled_fn h m f"
  shows "compiled_fn h' m f"
  using assms ir_ok_grow(1) [of "fn_ctx (\<lambda>_. 0) (\<lambda>_. Ret []) m f h" "fn_ctx (\<lambda>_. 0) (\<lambda>_. Ret []) m f h'"]
  by (auto simp: compiled_fn_def fn_ctx_def split: option.splits)

lemma module_compiled_grow:
  assumes "module_compiled h m a" and "h_mods h' m = h_mods h m"
    and "\<forall>m. length (irm_funcs (h_mods h m)) \<le> length (irm_funcs (h_mods h' m))"
  shows "module_compiled h' m a"
  using assms compiled_fn_grow [OF assms(3)] by (auto simp: module_compiled_def)

lemma module_compiler_new_simps [simp]:
  "mc_module (module_compiler_new m) = m" "mc_errors (module_compiler_new m) = []"
  by (simp_all add: module_compiler_new_def)

lemma finish_new: "compiler_finish (fst (compiler_new asts)) = Inr [0..<length asts]"
  by (simp add: compiler_new_def compiler_finish_def comp_def Let_def)

lemma all_mods_ok:
  assumes "distinct ids" and "\<forall>m \<in> set ids. h_readers h m = 0 \<and> h_mods h m = from_ast (asts ! m) \<and> module_ready m (asts ! m)"
    and "heap_ok h" and "\<forall>t. returns (sh t)" and "\<forall>n \<le> 6. buf n = buf 0"
  shows "\<exists>h'. all_mods (\<lambda>mc. stage_1 buf sh (mc_module mc)) (map module_compiler_new ids) h = Ret h'
           \<and> (\<forall>m \<in> set ids. module_compiled h' m (asts ! m)) \<and> h_readers h' = h_readers h
           \<and> (\<forall>m. m \<notin> set ids \<longrightarrow> h_mods h' m = h_mods h m)
           \<and> (\<forall>m. length (irm_funcs (h_mods h m)) \<le> length (irm_funcs (h_mods h' m)))"
  using assms(1-3)
proof (induction ids arbitrary: h)
  case (Cons m ids)
  have m: "h_readers h m = 0" "h_mods h m = from_ast (asts ! m)" "module_ready m (asts ! m)"
    using Cons.prems(2) by auto
  obtain h1 where h1: "stage_1 buf sh m h = Ret h1" "module_compiled h1 m (asts ! m)" "heap_ok h1"
      "h_readers h1 = h_readers h" "\<forall>m'. m' \<noteq> m \<longrightarrow> h_mods h1 m' = h_mods h m'"
    using stage_1_ok [OF m Cons.prems(3) assms(4,5)] by auto
  have pre: "\<forall>k \<in> set ids. h_readers h1 k = 0 \<and> h_mods h1 k = from_ast (asts ! k) \<and> module_ready k (asts ! k)"
    using Cons.prems(1,2) h1(4,5) by (metis distinct.simps(2) list.set_intros(2))
  obtain h2 where h2: "all_mods (\<lambda>mc. stage_1 buf sh (mc_module mc)) (map module_compiler_new ids) h1 = Ret h2"
      "\<forall>k \<in> set ids. module_compiled h2 k (asts ! k)" "h_readers h2 = h_readers h1"
      "\<forall>k. k \<notin> set ids \<longrightarrow> h_mods h2 k = h_mods h1 k"
      "\<forall>k. length (irm_funcs (h_mods h1 k)) \<le> length (irm_funcs (h_mods h2 k))"
    using Cons.IH [OF _ pre h1(3)] Cons.prems(1) by auto
  have "module_compiled h2 m (asts ! m)"
    using module_compiled_grow [OF h1(2) _ h2(5)] h2(4) Cons.prems(1) by simp
  moreover have "length (irm_funcs (h_mods h k)) \<le> length (irm_funcs (h_mods h2 k))" for k
    using h2(5) h1(5) m(2) by (cases "k = m") (auto simp: from_ast_def dest: spec [of _ k])
  ultimately show ?case using h1 h2 by (intro exI [of _ h2]) auto
qed simp

subsection \<open>Properties\<close>


definition demo_module :: ast_module where
  "demo_module = \<lparr>mod_path = [''main''],
     mod_functions = [\<lparr>fn_name = name_tok ''main'',
        fn_params = [\<lparr>par_name = ''a'', par_ty = AType (name_tok ''i64'')\<rparr>],
        fn_ret_type = Some (AType (name_tok ''P'')),
        fn_body = Some (Expr (EBlock [val_one ''b'', Expr (EIdentifier (name_tok ''b'')) 0]) 0)\<rparr>],
     mod_classes = [\<lparr>cls_name = name_tok ''P'',
        cls_members = [\<lparr>mem_name = name_tok ''x'', mem_ty = AType (name_tok ''f64''), mem_mutable = True\<rparr>],
        cls_methods = [], cls_functions = []\<rparr>]\<rparr>"

lemma demo_module_ready: "module_ready 0 demo_module"
  by (simp add: module_ready_def demo_module_def name_tok_def plain_class_def prim_ty_def ty_res_def sig_ok_def
      aty_res_def body_ready_def val_one_def)



text \<open>A module with a repeated class name makes the compiler panic on the unwrapped
  error.\<close>

lemma duplicate_class_panics:
  assumes "h_readers h m = 0" and "h_mods h m = from_ast a" and "\<not> distinct (map cname (mod_classes a))"
  shows "stage_1 buf sh m h = Panic UnwrapOnErr"
proof -
  let ?x = "(from_ast a)\<lparr>irm_ast := a\<lparr>mod_classes := []\<rparr>\<rparr>"
  obtain p x where "declare_classes_loop m (mod_classes a) (set_mod m ?x h) = Ret (Inl (error_new p (E201 x)))"
    using declare_classes_loop_eq(2) [of "set_mod m ?x h" m "mod_classes a"] assms(1,3) by auto
  then have "declare_classes m h = Ret (Inl (error_new p (E201 x)))"
    using assms(1,2) by (simp add: declare_classes_def from_ast_def)
  then show ?thesis by (simp add: stage_1_def)
qed

theorem duplicate_class_panics_witness:
  "stage_1 (\<lambda>_. 0) (\<lambda>_. Ret []) 0
     (snd (compiler_new [\<lparr>mod_path = [], mod_functions = [],
        mod_classes = [\<lparr>cls_name = name_tok ''P'', cls_members = [], cls_methods = [], cls_functions = []\<rparr>,
                       \<lparr>cls_name = name_tok ''P'', cls_members = [], cls_methods = [], cls_functions = []\<rparr>]\<rparr>]))
   = Panic UnwrapOnErr"
  by (rule duplicate_class_panics) (auto simp: compiler_new_def Let_def)

lemma index_insert_new: "k \<notin> fst ` set kvs \<Longrightarrow> index_insert k v kvs = kvs @ [(k, v)]"
  by (induction kvs) auto

lemma members_content_distinct:
  assumes "distinct (map (\<lambda>mem. lex (mem_name mem)) mems)"
    and "fst ` set kvs \<inter> (\<lambda>mem. lex (mem_name mem)) ` set mems = {}"
  shows "members_content i mems kvs = kvs @ map (\<lambda>(j, mem). (lex (mem_name mem), member_store j mem)) (enumerate i mems)"
  using assms
  by (induction mems arbitrary: i kvs) (auto simp: index_insert_new)

text \<open>C37: generating the classes of a freshly declared module returns exactly when every class
  has only members of built-in type: any method, function or class-typed member makes it panic
  on a second borrow of the module. When it returns, a class whose members have distinct names
  holds them in the order of the source, each with its position.\<close>

theorem class_methods_panic:
  assumes "irm_classes (h_mods h m) = map declared_class cs"
    and "\<forall>c \<in> set cs. distinct (map (\<lambda>mem. lex (mem_name mem)) (cls_members c))"
  shows "generate_classes m h =
     (if \<forall>c \<in> set cs. (\<forall>mem \<in> set (cls_members c). lex (aty_name (mem_ty mem)) \<in> {''bool'', ''i64'', ''f64''})
                       \<and> cls_methods c = [] \<and> cls_functions c = []
      then Ret (Inr (set_mod m ((h_mods h m)\<lparr>irm_classes := map (\<lambda>c.
             \<lparr>irc_name = cname c,
              irc_content = map (\<lambda>(i, mem). (lex (mem_name mem), member_store i mem)) (enumerate 0 (cls_members c)),
              irc_ast = c\<rparr>) cs\<rparr>) h))
      else Panic AlreadyBorrowed)"
proof -
  have p: "plain_class c \<longleftrightarrow> (\<forall>mem \<in> set (cls_members c). lex (aty_name (mem_ty mem)) \<in> {''bool'', ''i64'', ''f64''})
                       \<and> cls_methods c = [] \<and> cls_functions c = []" for c
    by (auto simp: plain_class_def prim_ty_def ty_res_def split: if_splits)
  have "generated_class (declared_class c) = \<lparr>irc_name = cname c,
          irc_content = map (\<lambda>(i, mem). (lex (mem_name mem), member_store i mem)) (enumerate 0 (cls_members c)),
          irc_ast = c\<rparr>" if "c \<in> set cs" "plain_class c" for c
    using that assms(2) members_content_distinct [of "cls_members c" "[]" 0]
    by (simp add: generated_class_def declared_class_def drained_def plain_class_def)
  then have "\<forall>c \<in> set cs. plain_class c \<Longrightarrow> map generated_class (map declared_class cs) = map (\<lambda>c. \<lparr>irc_name = cname c,
          irc_content = map (\<lambda>(i, mem). (lex (mem_name mem), member_store i mem)) (enumerate 0 (cls_members c)),
          irc_ast = c\<rparr>) cs"
    by simp
  then show ?thesis
    unfolding p [symmetric]
    by (cases "\<forall>c \<in> set cs. plain_class c") (simp_all add: generate_classes_eq assms(1) del: map_eq_conv map_map, blast)
qed

theorem class_methods_panic_witness:
  "generate_classes 0 (set_mod 0 ((from_ast demo_module)\<lparr>irm_classes := map declared_class (mod_classes demo_module)\<rparr>)
       (snd (compiler_new [])))
   = Ret (Inr (set_mod 0 ((from_ast demo_module)\<lparr>irm_classes := [\<lparr>irc_name = ''P'',
        irc_content = [(''x'', CCMember \<lparr>vs_ty = TF64, vs_name = ''x'', vs_index = 0, vs_mutable = True\<rparr>)],
        irc_ast = hd (mod_classes demo_module)\<rparr>]\<rparr>) (snd (compiler_new []))))"
  by (subst class_methods_panic [where cs = "mod_classes demo_module"])
    (simp_all add: demo_module_def name_tok_def member_store_def prim_ty_def ty_res_def)

end
