(* ===== verification/Ata.thy ===== *)
theory Ata
  imports Prelude
begin

section \<open>The ATA disk driver (kernel/src/drivers/disk/ata_pio.rs)\<close>

text \<open>
  The driver talks to a drive through x86 ports. The drive is not code of the repository: it
  is a parameter, the four port accesses on a state of its own, collected in a record. A driver
  operation returns \<open>None\<close> when it polls the status port forever, \<open>Some (Panic p)\<close> when it
  panics and \<open>Some (Ret x)\<close> when it returns.
\<close>

record 'd ports =
  p_in8 :: "u16 \<Rightarrow> 'd \<Rightarrow> u8 \<times> 'd"
  p_in16 :: "u16 \<Rightarrow> 'd \<Rightarrow> u16 \<times> 'd"
  p_out8 :: "u16 \<Rightarrow> u8 \<Rightarrow> 'd \<Rightarrow> 'd"
  p_out16 :: "u16 \<Rightarrow> u16 \<Rightarrow> 'd \<Rightarrow> 'd"

datatype status_bits = Busy | RwReady

definition status_code :: "status_bits \<Rightarrow> u8" where
  "status_code s = (case s of Busy \<Rightarrow> 0x80 | RwReady \<Rightarrow> 0x08)"

definition is_set :: "status_bits \<Rightarrow> u8 \<Rightarrow> bool" where
  "is_set s v \<longleftrightarrow> v AND status_code s \<noteq> 0"

datatype command = CmdRead | CmdWrite | CmdCacheFlush

definition command_code :: "command \<Rightarrow> u8" where
  "command_code c = (case c of CmdRead \<Rightarrow> 0x20 | CmdWrite \<Rightarrow> 0x30 | CmdCacheFlush \<Rightarrow> 0xE7)"

datatype io_port = IoData | IoErrFeatures | IoSectorCount | IoLbaLow | IoLbaMid | IoLbaHigh | IoDriveSel | IoStatus

definition io_offset :: "io_port \<Rightarrow> u16" where
  "io_offset p = (case p of IoData \<Rightarrow> 0 | IoErrFeatures \<Rightarrow> 1 | IoSectorCount \<Rightarrow> 2 | IoLbaLow \<Rightarrow> 3
     | IoLbaMid \<Rightarrow> 4 | IoLbaHigh \<Rightarrow> 5 | IoDriveSel \<Rightarrow> 6 | IoStatus \<Rightarrow> 7)"

type_synonym sector = "u16 list"

record ata_drive =
  io_base :: u16
  control_base :: u16
  position :: usize

subsection \<open>Ports and polling\<close>

definition port_addr :: "ata_drive \<Rightarrow> io_port \<Rightarrow> u16 outcome" where
  "port_addr a p = add_chk (io_base a) (io_offset p)"

definition con_port :: "ata_drive \<Rightarrow> u16 outcome" where
  "con_port a = add_chk (control_base a) 0"

definition io_read :: "'d ports \<Rightarrow> ata_drive \<Rightarrow> io_port \<Rightarrow> 'd \<Rightarrow> (u8 \<times> 'd) run" where
  "io_read D a p d = rbind (Some (port_addr a p)) (\<lambda>port. rret (p_in8 D port d))"

definition io_write :: "'d ports \<Rightarrow> ata_drive \<Rightarrow> io_port \<Rightarrow> u8 \<Rightarrow> 'd \<Rightarrow> 'd run" where
  "io_write D a p v d = rbind (Some (port_addr a p)) (\<lambda>port. rret (p_out8 D port v d))"

partial_function (option) wait_loop :: "'d ports \<Rightarrow> u16 \<Rightarrow> status_bits \<Rightarrow> bool \<Rightarrow> 'd \<Rightarrow> 'd option" where
  "wait_loop D port st until d =
     (if is_set st (fst (p_in8 D port d)) \<noteq> until then wait_loop D port st until (snd (p_in8 D port d))
      else Some (snd (p_in8 D port d)))"

definition wait_status :: "'d ports \<Rightarrow> ata_drive \<Rightarrow> status_bits \<Rightarrow> bool \<Rightarrow> 'd \<Rightarrow> 'd run" where
  "wait_status D a st until d =
     rbind (Some (port_addr a IoStatus)) (\<lambda>port. map_option Ret (wait_loop D port st until d))"

definition wait_ready :: "'d ports \<Rightarrow> ata_drive \<Rightarrow> 'd \<Rightarrow> 'd run" where
  "wait_ready D a d = rbind (wait_status D a Busy False d) (wait_status D a RwReady True)"

definition send_command :: "'d ports \<Rightarrow> ata_drive \<Rightarrow> command \<Rightarrow> 'd \<Rightarrow> 'd run" where
  "send_command D a c d = io_write D a IoStatus (command_code c) d"

subsection \<open>Sectors\<close>

definition calc_lba :: "ata_drive \<Rightarrow> usize" where
  "calc_lba a = position a div 512"

definition is_sector_aligned :: "usize \<Rightarrow> bool" where
  "is_sector_aligned v \<longleftrightarrow> v AND 511 = 0"

definition pos_aligned :: "ata_drive \<Rightarrow> bool" where
  "pos_aligned a = is_sector_aligned (position a)"

definition min_required_sector_count :: "ata_drive \<Rightarrow> usize \<Rightarrow> u8 outcome" where
  "min_required_sector_count a bytes =
     (let sector_aligned = is_sector_aligned bytes \<and> bytes \<noteq> 0 in
      obind (if sector_aligned then Ret (\<not> pos_aligned a)
             else obind (add_chk (position a AND 511) (bytes AND 511)) (\<lambda>s. Ret (512 < s))) (\<lambda>bleeds_into_next.
      obind (add_chk (ucast (bytes div 512) :: u8) (of_bool bleeds_into_next)) (\<lambda>n.
      add_chk n (of_bool (\<not> sector_aligned)))))"

definition before_read_write :: "'d ports \<Rightarrow> ata_drive \<Rightarrow> u8 \<Rightarrow> 'd \<Rightarrow> 'd run" where
  "before_read_write D a sector_count d =
     (let lba = calc_lba a in
      rbind (wait_status D a Busy False d) (\<lambda>d.
      rbind (io_write D a IoDriveSel (ucast (0xF0 OR (drop_bit 24 lba AND 0xF))) d) (\<lambda>d.
      rbind (io_write D a IoSectorCount sector_count d) (\<lambda>d.
      rbind (io_write D a IoLbaLow (ucast lba) d) (\<lambda>d.
      rbind (io_write D a IoLbaMid (ucast (drop_bit 8 lba)) d) (\<lambda>d.
      io_write D a IoLbaHigh (ucast (drop_bit 16 lba)) d))))))"

text \<open>\<open>for word in &mut buf { *word = data_port.read() }\<close>\<close>

primrec read_words :: "'d ports \<Rightarrow> u16 \<Rightarrow> nat \<Rightarrow> 'd \<Rightarrow> u16 list \<times> 'd" where
  "read_words D port 0 d = ([], d)"
| "read_words D port (Suc n) d =
     (let (w, d) = p_in16 D port d; (ws, d) = read_words D port n d in (w # ws, d))"

definition read_sector :: "'d ports \<Rightarrow> ata_drive \<Rightarrow> 'd \<Rightarrow> (sector \<times> 'd) run" where
  "read_sector D a d =
     rbind (before_read_write D a 1 d) (\<lambda>d.
     rbind (send_command D a CmdRead d) (\<lambda>d.
     rbind (Some (port_addr a IoData)) (\<lambda>port.
     rbind (wait_ready D a d) (\<lambda>d.
     rret (read_words D port 256 d)))))"

definition read_sector_if_unaligned :: "'d ports \<Rightarrow> ata_drive \<Rightarrow> 'd \<Rightarrow> (sector option \<times> 'd) run" where
  "read_sector_if_unaligned D a d =
     (if \<not> pos_aligned a then rbind (read_sector D a d) (\<lambda>(s, d). rret (Some s, d)) else rret (None, d))"

definition get_partial_write_sectors ::
    "'d ports \<Rightarrow> ata_drive \<Rightarrow> usize \<Rightarrow> 'd \<Rightarrow> (sector option \<times> sector option \<times> ata_drive \<times> 'd) run" where
  "get_partial_write_sectors D a len d =
     rbind (read_sector_if_unaligned D a d) (\<lambda>(start, d).
     rbind (Some (add_chk (position a) len)) (\<lambda>p.
     let a = a\<lparr>position := p\<rparr> in
     rbind (read_sector_if_unaligned D a d) (\<lambda>(end, d).
     rbind (Some (sub_chk (position a) len)) (\<lambda>p.
     rret (start, end, a\<lparr>position := p\<rparr>, d)))))"

definition ata_new :: "'d ports \<Rightarrow> u16 \<Rightarrow> u16 \<Rightarrow> 'd \<Rightarrow> (ata_drive \<times> 'd) run" where
  "ata_new D io con d =
     (let a = \<lparr>io_base = io, control_base = con, position = 0\<rparr> in
      rbind (io_read D a IoStatus d) (\<lambda>(v, d).
      if v = 0xFF then Some (Panic AssertFailed)
      else rbind (Some (con_port a)) (\<lambda>port. rret (a, p_out8 D port 0 d))))"

subsection \<open>Reading\<close>

text \<open>Where one word read from the drive goes in the buffer; the position in the buffer may be
  negative for the bytes before the start.\<close>

definition place_word :: "u16 \<Rightarrow> int \<Rightarrow> u8 list \<Rightarrow> u8 list outcome" where
  "place_word w index buf =
     (let i = nat index; buf_len = int (length buf) in
      if index = -1 then upd buf 0 (ucast (drop_bit 8 w))
      else if index < -1 then Ret buf
      else if index + 1 < buf_len then
        obind (upd buf i (ucast w)) (\<lambda>buf. upd buf (i + 1) (ucast (drop_bit 8 w)))
      else if index < buf_len then upd buf i (ucast w)
      else Ret buf)"

definition word_index :: "nat \<Rightarrow> nat \<Rightarrow> usize \<Rightarrow> int" where
  "word_index sector word pos = (int sector * 256 + int word) * 2 - int (unat (pos mod 512))"

primrec read_sector_words ::
    "'d ports \<Rightarrow> u16 \<Rightarrow> usize \<Rightarrow> nat \<Rightarrow> nat list \<Rightarrow> u8 list \<Rightarrow> 'd \<Rightarrow> (u8 list \<times> 'd) run" where
  "read_sector_words D port pos sector [] buf d = rret (buf, d)"
| "read_sector_words D port pos sector (word # words) buf d =
     (let (w, d) = p_in16 D port d in
      rbind (Some (place_word w (word_index sector word pos) buf)) (\<lambda>buf.
      read_sector_words D port pos sector words buf d))"

primrec read_sectors ::
    "'d ports \<Rightarrow> ata_drive \<Rightarrow> u16 \<Rightarrow> nat list \<Rightarrow> u8 list \<Rightarrow> 'd \<Rightarrow> (u8 list \<times> 'd) run" where
  "read_sectors D a port [] buf d = rret (buf, d)"
| "read_sectors D a port (sector # sectors) buf d =
     rbind (wait_ready D a d) (\<lambda>d.
     rbind (read_sector_words D port (position a) sector [0..<256] buf d) (\<lambda>(buf, d).
     read_sectors D a port sectors buf d))"

definition ata_read :: "'d ports \<Rightarrow> ata_drive \<Rightarrow> u8 list \<Rightarrow> 'd \<Rightarrow> (usize \<times> u8 list \<times> ata_drive \<times> 'd) run" where
  "ata_read D a buf d =
     (let len = of_nat (length buf) :: usize in
      rbind (Some (min_required_sector_count a len)) (\<lambda>sector_count.
      rbind (before_read_write D a sector_count d) (\<lambda>d.
      rbind (send_command D a CmdRead d) (\<lambda>d.
      rbind (Some (port_addr a IoData)) (\<lambda>port.
      rbind (read_sectors D a port [0..<unat sector_count] buf d) (\<lambda>(buf, d).
      rbind (Some (add_chk (position a) len)) (\<lambda>p.
      rret (len, buf, a\<lparr>position := p\<rparr>, d))))))))"

subsection \<open>Writing\<close>

definition word_to_write :: "sector option \<Rightarrow> sector option \<Rightarrow> nat \<Rightarrow> int \<Rightarrow> u8 list \<Rightarrow> u16 outcome" where
  "word_to_write start_sector end_sector word index buf =
     (let i = nat index; buf_len = int (length buf) in
      if index = -1 then
        obind (unwrap start_sector) (\<lambda>s. obind (idx s word) (\<lambda>w. obind (idx buf 0) (\<lambda>b.
        add_chk (w AND 255) (push_bit 8 (ucast b)))))
      else if index < -1 then obind (unwrap start_sector) (\<lambda>s. idx s word)
      else if index + 1 < buf_len then
        obind (idx buf i) (\<lambda>b. obind (idx buf (i + 1)) (\<lambda>c. add_chk (ucast b) (push_bit 8 (ucast c))))
      else if index < buf_len then
        obind (idx buf i) (\<lambda>b. obind (unwrap end_sector) (\<lambda>s. obind (idx s word) (\<lambda>w.
        add_chk (ucast b) (w AND 0xFF00))))
      else obind (unwrap end_sector) (\<lambda>s. idx s word))"

primrec write_sector_words ::
    "'d ports \<Rightarrow> u16 \<Rightarrow> usize \<Rightarrow> sector option \<Rightarrow> sector option \<Rightarrow> u8 list \<Rightarrow> nat \<Rightarrow> nat list \<Rightarrow> 'd \<Rightarrow> 'd run" where
  "write_sector_words D port pos s e buf sector [] d = rret d"
| "write_sector_words D port pos s e buf sector (word # words) d =
     rbind (Some (word_to_write s e word (word_index sector word pos) buf)) (\<lambda>w.
     write_sector_words D port pos s e buf sector words (p_out16 D port w d))"

primrec write_sectors ::
    "'d ports \<Rightarrow> ata_drive \<Rightarrow> u16 \<Rightarrow> sector option \<Rightarrow> sector option \<Rightarrow> u8 list \<Rightarrow> nat list \<Rightarrow> 'd \<Rightarrow> 'd run" where
  "write_sectors D a port s e buf [] d = rret d"
| "write_sectors D a port s e buf (sector # sectors) d =
     rbind (wait_ready D a d) (\<lambda>d.
     rbind (write_sector_words D port (position a) s e buf sector [0..<256] d) (\<lambda>d.
     write_sectors D a port s e buf sectors d))"

definition ata_write :: "'d ports \<Rightarrow> ata_drive \<Rightarrow> u8 list \<Rightarrow> 'd \<Rightarrow> (usize \<times> ata_drive \<times> 'd) run" where
  "ata_write D a buf d =
     (let len = of_nat (length buf) :: usize in
      rbind (Some (min_required_sector_count a len)) (\<lambda>sector_count.
      rbind (get_partial_write_sectors D a len d) (\<lambda>(start_sector, end_sector, a, d).
      rbind (before_read_write D a sector_count d) (\<lambda>d.
      rbind (send_command D a CmdWrite d) (\<lambda>d.
      rbind (Some (port_addr a IoData)) (\<lambda>port.
      rbind (write_sectors D a port start_sector end_sector buf [0..<unat sector_count] d) (\<lambda>d.
      rbind (send_command D a CmdCacheFlush d) (\<lambda>d.
      rbind (Some (add_chk (position a) len)) (\<lambda>p.
      rret (len, a\<lparr>position := p\<rparr>, d))))))))))"

subsection \<open>Seeking\<close>

datatype seek_from = SeekStart u64 | SeekEnd "64 word" | SeekCurrent "64 word"

text \<open>\<open>position as i64 + by\<close> is a checked signed addition.\<close>

definition add_i64_chk :: "64 word \<Rightarrow> 64 word \<Rightarrow> 64 word outcome" where
  "add_i64_chk a b =
     (let s = sint a + sint b in
      if - (2 ^ 63) \<le> s \<and> s < 2 ^ 63 then Ret (word_of_int s) else Panic ArithOverflow)"

definition ata_seek :: "ata_drive \<Rightarrow> seek_from \<Rightarrow> ((unit + u64) \<times> ata_drive) outcome" where
  "ata_seek a s =
     (case s of
        SeekStart pos \<Rightarrow> Ret (Inr pos, a\<lparr>position := pos\<rparr>)
      | SeekCurrent by \<Rightarrow>
          obind (add_i64_chk (position a) by) (\<lambda>res.
          if 0 \<le> sint res then Ret (Inr res, a\<lparr>position := res\<rparr>) else Ret (Inl (), a))
      | SeekEnd _ \<Rightarrow> Ret (Inl (), a))"

definition ata_flush :: "ata_drive \<Rightarrow> unit + unit" where
  "ata_flush a = Inr ()"

end
