(* ===== verification/AtaDevice.thy ===== *)
theory AtaDevice
  imports Ata
begin

section \<open>The drive behind the ports\<close>

text \<open>
  The hypotheses on the drive, the handshake of the driver with it, and the start of a transfer.
\<close>

subsection \<open>What an ATA drive promises\<close>

text \<open>The documented behaviour of a drive in PIO mode, as hypotheses over the port accesses. A
  ghost view of the drive's state holds the task file registers, the transfer in progress (the
  next word and how many are left), the contents of the disk as 16-bit words, and two flags of
  the handshake: since the last command or sector a status read has shown the drive free
  (\<open>Busy\<close> clear), and after that one has shown it ready for data. A command or register write is
  specified only on a free drive with no transfer in progress and a data access only on a
  ready one. Polling ends: \<open>Busy\<close> clears, and on a free drive with a transfer in progress
  \<open>RwReady\<close> gets set.\<close>

datatype transfer = XIdle | XRead nat nat | XWrite nat nat

record ata_view =
  v_count :: u8
  v_low :: u8
  v_mid :: u8
  v_high :: u8
  v_sel :: u8
  v_xfer :: transfer
  v_free :: bool
  v_ready :: bool
  v_disk :: "nat \<Rightarrow> u16"

definition view_lba :: "ata_view \<Rightarrow> nat" where
  "view_lba v = unat (v_low v) + unat (v_mid v) * 2 ^ 8 + unat (v_high v) * 2 ^ 16 + unat (v_sel v AND 15) * 2 ^ 24"

definition view_words :: "ata_view \<Rightarrow> nat" where
  "view_words v = (if v_count v = 0 then 256 else unat (v_count v)) * 256"

definition polled :: "u8 \<Rightarrow> ata_view \<Rightarrow> ata_view" where
  "polled s v = (let free = v_free v \<or> \<not> is_set Busy s in
     v\<lparr>v_free := free, v_ready := v_ready v \<or> (free \<and> is_set RwReady s)\<rparr>)"

definition after_word :: "(nat \<Rightarrow> nat \<Rightarrow> transfer) \<Rightarrow> nat \<Rightarrow> nat \<Rightarrow> ata_view \<Rightarrow> ata_view" where
  "after_word X w n v = v\<lparr>v_xfer := (if n = 0 then XIdle else X (Suc w) n),
     v_free := v_free v \<and> n mod 256 \<noteq> 0, v_ready := v_ready v \<and> n mod 256 \<noteq> 0\<rparr>"

definition polls :: "'d ports \<Rightarrow> u16 \<Rightarrow> nat \<Rightarrow> 'd \<Rightarrow> 'd" where
  "polls D port n d = ((\<lambda>d. snd (p_in8 D port d)) ^^ n) d"

definition ata_device :: "'d ports \<Rightarrow> u16 \<Rightarrow> nat \<Rightarrow> ('d \<Rightarrow> ata_view) \<Rightarrow> bool" where
  "ata_device D b cap view \<longleftrightarrow>
     (\<forall>d. view (snd (p_in8 D (b + 7) d)) = polled (fst (p_in8 D (b + 7) d)) (view d))
   \<and> (\<forall>d. \<exists>n. \<not> is_set Busy (fst (p_in8 D (b + 7) (polls D (b + 7) n d))))
   \<and> (\<forall>d. v_free (view d) \<longrightarrow> v_xfer (view d) \<noteq> XIdle \<longrightarrow>
        (\<exists>n. is_set RwReady (fst (p_in8 D (b + 7) (polls D (b + 7) n d)))))
   \<and> (\<forall>d x. v_free (view d) \<longrightarrow> v_xfer (view d) = XIdle \<longrightarrow>
        view (p_out8 D (b + 2) x d) = (view d)\<lparr>v_count := x\<rparr>
        \<and> view (p_out8 D (b + 3) x d) = (view d)\<lparr>v_low := x\<rparr>
        \<and> view (p_out8 D (b + 4) x d) = (view d)\<lparr>v_mid := x\<rparr>
        \<and> view (p_out8 D (b + 5) x d) = (view d)\<lparr>v_high := x\<rparr>
        \<and> view (p_out8 D (b + 6) x d) = (view d)\<lparr>v_sel := x\<rparr>)
   \<and> (\<forall>d. v_free (view d) \<longrightarrow> v_xfer (view d) = XIdle \<longrightarrow> view_lba (view d) + view_words (view d) div 256 \<le> cap \<longrightarrow>
        view (p_out8 D (b + 7) 0x20 d) = (view d)\<lparr>v_free := False, v_ready := False,
             v_xfer := XRead (view_lba (view d) * 256) (view_words (view d))\<rparr>
        \<and> view (p_out8 D (b + 7) 0x30 d) = (view d)\<lparr>v_free := False, v_ready := False,
             v_xfer := XWrite (view_lba (view d) * 256) (view_words (view d))\<rparr>)
   \<and> (\<forall>d. v_xfer (view d) = XIdle \<longrightarrow>
        view (p_out8 D (b + 7) 0xE7 d) = (view d)\<lparr>v_free := False, v_ready := False\<rparr>)
   \<and> (\<forall>d w n. v_ready (view d) \<longrightarrow> v_xfer (view d) = XRead w (Suc n) \<longrightarrow>
        fst (p_in16 D b d) = v_disk (view d) w \<and> view (snd (p_in16 D b d)) = after_word XRead w n (view d))
   \<and> (\<forall>d w n x. v_ready (view d) \<longrightarrow> v_xfer (view d) = XWrite w (Suc n) \<longrightarrow>
        view (p_out16 D b x d) = after_word XWrite w n ((view d)\<lparr>v_disk := (v_disk (view d))(w := x)\<rparr>))"

lemmas ata_deviceD =
  ata_device_def [THEN iffD1, THEN conjunct1]
  ata_device_def [THEN iffD1, THEN conjunct2, THEN conjunct1]
  ata_device_def [THEN iffD1, THEN conjunct2, THEN conjunct2, THEN conjunct1]
  ata_device_def [THEN iffD1, THEN conjunct2, THEN conjunct2, THEN conjunct2, THEN conjunct1]
  ata_device_def [THEN iffD1, THEN conjunct2, THEN conjunct2, THEN conjunct2, THEN conjunct2, THEN conjunct1]
  ata_device_def [THEN iffD1, THEN conjunct2, THEN conjunct2, THEN conjunct2, THEN conjunct2, THEN conjunct2, THEN conjunct1]
  ata_device_def [THEN iffD1, THEN conjunct2, THEN conjunct2, THEN conjunct2, THEN conjunct2, THEN conjunct2, THEN conjunct2, THEN conjunct1]
  ata_device_def [THEN iffD1, THEN conjunct2, THEN conjunct2, THEN conjunct2, THEN conjunct2, THEN conjunct2, THEN conjunct2, THEN conjunct2]

subsection \<open>Running\<close>

lemma polls_simps [simp]:
  "polls D port 0 d = d" "polls D port (Suc n) d = polls D port n (snd (p_in8 D port d))"
  by (simp_all add: polls_def funpow_Suc_right del: funpow.simps(2))

text \<open>A wait ends when some poll shows the wanted state; then the last poll has shown it.\<close>

lemma wait_loop_ends:
  assumes "is_set st (fst (p_in8 D port (polls D port n d))) = until"
  shows "\<exists>k \<le> n. wait_loop D port st until d = Some (polls D port (Suc k) d)
           \<and> is_set st (fst (p_in8 D port (polls D port k d))) = until"
  using assms
proof (induction n arbitrary: d)
  case 0
  then show ?case by (subst wait_loop.simps) simp
next
  case (Suc n)
  show ?case
  proof (cases "is_set st (fst (p_in8 D port d)) = until")
    case True
    then show ?thesis by (subst wait_loop.simps) (auto intro!: exI [of _ 0])
  next
    case False
    from Suc obtain k where "k \<le> n" "wait_loop D port st until (snd (p_in8 D port d)) = Some (polls D port (Suc k) (snd (p_in8 D port d)))"
      "is_set st (fst (p_in8 D port (polls D port k (snd (p_in8 D port d))))) = until"
      by auto
    with False show ?thesis by (subst wait_loop.simps) (auto intro!: exI [of _ "Suc k"])
  qed
qed

lemma io_offset_simps [simp]:
  "io_offset IoData = 0" "io_offset IoSectorCount = 2" "io_offset IoLbaLow = 3" "io_offset IoLbaMid = 4"
  "io_offset IoLbaHigh = 5" "io_offset IoDriveSel = 6" "io_offset IoStatus = 7"
  by (simp_all add: io_offset_def)

lemma command_code_simps [simp]:
  "command_code CmdRead = 0x20" "command_code CmdWrite = 0x30" "command_code CmdCacheFlush = 0xE7"
  by (simp_all add: command_code_def)

lemma io_offset_le: "unat (io_offset p) \<le> 7"
  by (cases p) (simp_all add: io_offset_def)

lemma port_addr_ok:
  assumes "unat (io_base a) + 7 < 2 ^ 16"
  shows "port_addr a p = Ret (io_base a + io_offset p)"
proof -
  have "unat (io_base a) + unat (io_offset p) < 2 ^ 16" using assms io_offset_le [of p] by linarith
  then show ?thesis by (simp add: port_addr_def add_chk_def)
qed

definition core :: "ata_view \<Rightarrow> ata_view" where
  "core v = v\<lparr>v_free := False, v_ready := False\<rparr>"

lemma core_eqD:
  assumes "core v = core v'"
  shows "v_xfer v = v_xfer v'" "v_disk v = v_disk v'" "v_count v = v_count v'"
    "view_lba v = view_lba v'" "view_words v = view_words v'"
  using assms by (auto simp: core_def view_lba_def view_words_def) (cases v; cases v'; simp)+

lemma core_polled [simp]: "core (polled s v) = core v"
  by (simp add: core_def polled_def Let_def)

lemma polled_flags:
  "v_free (polled s v) \<longleftrightarrow> v_free v \<or> \<not> is_set Busy s"
  "v_ready (polled s v) \<longleftrightarrow> v_ready v \<or> ((v_free v \<or> \<not> is_set Busy s) \<and> is_set RwReady s)"
  by (simp_all add: polled_def Let_def)

text \<open>A drive attached at the ports of the driver.\<close>

definition attached :: "'d ports \<Rightarrow> ata_drive \<Rightarrow> nat \<Rightarrow> ('d \<Rightarrow> ata_view) \<Rightarrow> bool" where
  "attached D a cap view \<longleftrightarrow> unat (io_base a) + 7 < 2 ^ 16 \<and> ata_device D (io_base a) cap view"

lemma polls_core:
  assumes "attached D a cap view"
  shows "core (view (polls D (io_base a + 7) n d)) = core (view d)"
    and "v_free (view d) \<Longrightarrow> v_free (view (polls D (io_base a + 7) n d))"
  using assms ata_deviceD(1) [of D "io_base a" cap view]
  by (induction n arbitrary: d) (auto simp: attached_def polled_flags)

lemma polls_last:
  "polls D port (Suc k) d = snd (p_in8 D port (polls D port k d))"
  by (simp add: polls_def)

lemma wait_busy:
  assumes "attached D a cap view"
  shows "\<exists>d'. wait_status D a Busy False d = rret d' \<and> core (view d') = core (view d) \<and> v_free (view d')"
proof -
  let ?p = "io_base a + 7"
  have dev: "unat (io_base a) + 7 < 2 ^ 16" "ata_device D (io_base a) cap view"
    using assms by (auto simp: attached_def)
  obtain n where "is_set Busy (fst (p_in8 D ?p (polls D ?p n d))) = False"
    using ata_deviceD(2) [OF dev(2)] by blast
  from wait_loop_ends [OF this] obtain k where k: "wait_loop D ?p Busy False d = Some (polls D ?p (Suc k) d)"
    "\<not> is_set Busy (fst (p_in8 D ?p (polls D ?p k d)))" by auto
  have "v_free (view (polls D ?p (Suc k) d))"
    using k(2) ata_deviceD(1) [OF dev(2)] by (simp only: polls_last polled_flags) simp
  then show ?thesis
    using k(1) polls_core(1) [OF assms, of "Suc k" d] port_addr_ok [OF dev(1)] by (auto simp: wait_status_def rret_def)
qed

lemma wait_ready_ok:
  assumes "attached D a cap view" and "v_xfer (view d) \<noteq> XIdle"
  shows "\<exists>d'. wait_ready D a d = rret d' \<and> core (view d') = core (view d) \<and> v_free (view d') \<and> v_ready (view d')"
proof -
  let ?p = "io_base a + 7"
  have dev: "unat (io_base a) + 7 < 2 ^ 16" "ata_device D (io_base a) cap view"
    using assms by (auto simp: attached_def)
  obtain e where e: "wait_status D a Busy False d = rret e" "core (view e) = core (view d)" "v_free (view e)"
    using wait_busy [OF assms(1)] by metis
  have "v_xfer (view e) \<noteq> XIdle" using core_eqD(1) [OF e(2)] assms(2) by simp
  then obtain n where "is_set RwReady (fst (p_in8 D ?p (polls D ?p n e))) = True"
    using ata_deviceD(3) [OF dev(2)] e(3) by blast
  from wait_loop_ends [OF this] obtain k where k: "wait_loop D ?p RwReady True e = Some (polls D ?p (Suc k) e)"
    "is_set RwReady (fst (p_in8 D ?p (polls D ?p k e)))" by auto
  have "v_free (view (polls D ?p (Suc k) e))" "v_ready (view (polls D ?p (Suc k) e))"
    using k(2) ata_deviceD(1) [OF dev(2)] polls_core(2) [OF assms(1) e(3), of k]
    by (simp_all only: polls_last polled_flags) simp_all
  then show ?thesis
    using k(1) e(1,2) polls_core(1) [OF assms(1), of "Suc k" e] port_addr_ok [OF dev(1)]
    by (auto simp: wait_status_def wait_ready_def rret_def)
qed

lemma unat_ucast8: "unat (ucast (x :: 64 word) :: 8 word) = unat x mod 256"
  by (simp add: unsigned_ucast_eq take_bit_eq_mod)

lemma unat_drop64: "unat (drop_bit n (x :: 64 word)) = unat x div 2 ^ n"
proof -
  have "unat (drop_bit n x) = drop_bit n (unat x)" using unsigned_less [of x, where ?'a = nat]
    by (simp only: unsigned_drop_bit_eq) (simp add: take_bit_nat_eq_self)
  then show ?thesis by (simp only: drop_bit_eq_div)
qed

lemma sel_bits: "unat ((ucast (0xF0 OR ((y :: 64 word) AND 0xF)) :: 8 word) AND 15) = unat y mod 16"
proof -
  have m8: "(15 :: 8 word) = mask 4" and m64: "(0xF :: 64 word) = mask 4" by (simp_all add: mask_eq_exp_minus_1)
  have "unat ((ucast (0xF0 OR (y AND 0xF)) :: 8 word) AND 15) = unat (0xF0 OR (y AND 0xF)) mod 256 mod 16"
    by (simp only: m8 unat_and_mask unat_ucast8) simp
  also have "\<dots> = take_bit 4 (unat (0xF0 OR (y AND 0xF)))"
    by (simp add: take_bit_eq_mod mod_mod_cancel)
  also have "unat (0xF0 OR (y AND 0xF)) = 240 OR (unat y mod 16)"
    by (simp only: unsigned_or_eq m64 unat_and_mask) simp
  also have "take_bit 4 (240 OR (unat y mod 16)) = take_bit 4 (unat y mod 16)"
    by (simp add: take_bit_or)
  also have "\<dots> = unat y mod 16" by (simp add: take_bit_eq_mod)
  finally show ?thesis .
qed

lemma lba_digits:
  fixes l :: nat
  assumes "l < 2 ^ 28"
  shows "l mod 256 + l div 2 ^ 8 mod 256 * 2 ^ 8 + l div 2 ^ 16 mod 256 * 2 ^ 16 + l div 2 ^ 24 mod 16 * 2 ^ 24 = l"
proof -
  define l1 l2 l3 where "l1 = l div 256" and "l2 = l1 div 256" and "l3 = l2 div 256"
  have d: "l div 2 ^ 8 = l1" "l div 2 ^ 16 = l2" "l div 2 ^ 24 = l3"
    by (simp_all add: l1_def l2_def l3_def div_mult2_eq [symmetric])
  have "l3 < 16" using assms unfolding d(3) [symmetric] by (simp add: less_mult_imp_div_less)
  then have "l3 mod 16 = l3" by simp
  moreover have "l mod 256 + 256 * l1 = l" "l1 mod 256 + 256 * l2 = l1" "l2 mod 256 + 256 * l3 = l2"
    by (simp_all add: l1_def l2_def l3_def)
  ultimately show ?thesis unfolding d by simp
qed

lemma io_write_ok: "unat (io_base a) + 7 < 2 ^ 16 \<Longrightarrow> io_write D a p v d = rret (p_out8 D (io_base a + io_offset p) v d)"
  by (simp add: io_write_def port_addr_ok)

lemma before_read_write_ok:
  assumes "attached D a cap view" and "v_xfer (view d) = XIdle" and "unat (calc_lba a) < 2 ^ 28"
  shows "\<exists>d'. before_read_write D a n d = rret d' \<and> v_free (view d') \<and> v_xfer (view d') = XIdle
           \<and> v_disk (view d') = v_disk (view d) \<and> v_count (view d') = n \<and> view_lba (view d') = unat (calc_lba a)"
proof -
  have dev: "unat (io_base a) + 7 < 2 ^ 16" "ata_device D (io_base a) cap view"
    using assms by (auto simp: attached_def)
  obtain e where e: "wait_status D a Busy False d = rret e" "core (view e) = core (view d)" "v_free (view e)"
    using wait_busy [OF assms(1)] by metis
  have x: "v_xfer (view e) = XIdle" "v_disk (view e) = v_disk (view d)" using core_eqD(1,2) [OF e(2)] assms(2) by simp_all
  let ?l = "calc_lba a"
  let ?d1 = "p_out8 D (io_base a + 6) (ucast (0xF0 OR (drop_bit 24 ?l AND 0xF))) e"
  let ?d2 = "p_out8 D (io_base a + 2) n ?d1"
  let ?d3 = "p_out8 D (io_base a + 3) (ucast ?l) ?d2"
  let ?d4 = "p_out8 D (io_base a + 4) (ucast (drop_bit 8 ?l)) ?d3"
  let ?d5 = "p_out8 D (io_base a + 5) (ucast (drop_bit 16 ?l)) ?d4"
  note reg = ata_deviceD(4) [OF dev(2), rule_format]
  have 1: "view ?d1 = (view e)\<lparr>v_sel := ucast (0xF0 OR (drop_bit 24 ?l AND 0xF))\<rparr>" using reg e(3) x(1) by simp
  have 2: "view ?d2 = (view ?d1)\<lparr>v_count := n\<rparr>" using reg e(3) x(1) 1 by simp
  have 3: "view ?d3 = (view ?d2)\<lparr>v_low := ucast ?l\<rparr>" using reg e(3) x(1) 1 2 by simp
  have 4: "view ?d4 = (view ?d3)\<lparr>v_mid := ucast (drop_bit 8 ?l)\<rparr>" using reg e(3) x(1) 1 2 3 by simp
  have 5: "view ?d5 = (view ?d4)\<lparr>v_high := ucast (drop_bit 16 ?l)\<rparr>" using reg e(3) x(1) 1 2 3 4 by simp
  have vs: "v_low (view ?d5) = ucast ?l" "v_mid (view ?d5) = ucast (drop_bit 8 ?l)"
      "v_high (view ?d5) = ucast (drop_bit 16 ?l)" "v_sel (view ?d5) = ucast (0xF0 OR (drop_bit 24 ?l AND 0xF))"
    by (simp_all add: 5 4 3 2 1)
  have "view_lba (view ?d5) = unat ?l mod 256 + unat ?l div 2 ^ 8 mod 256 * 2 ^ 8
          + unat ?l div 2 ^ 16 mod 256 * 2 ^ 16 + unat ?l div 2 ^ 24 mod 16 * 2 ^ 24"
    unfolding view_lba_def vs unat_ucast8 unat_drop64 sel_bits ..
  then have "view_lba (view ?d5) = unat ?l" using lba_digits [OF assms(3)] by (simp only:)
  moreover have "before_read_write D a n d = rret ?d5"
    using e(1) dev(1) by (simp add: before_read_write_def Let_def io_write_ok)
  moreover have "v_free (view ?d5) \<and> v_xfer (view ?d5) = XIdle \<and> v_disk (view ?d5) = v_disk (view d) \<and> v_count (view ?d5) = n"
    using 1 2 3 4 5 e(3) x by simp
  ultimately show ?thesis by blast
qed

text \<open>Setting up and sending a transfer command.\<close>

lemma start_transfer:
  assumes "attached D a cap view" and "v_xfer (view d) = XIdle" and "unat (calc_lba a) < 2 ^ 28"
    and "0 < unat n" and "unat (calc_lba a) + unat n \<le> cap"
  shows "\<exists>e d'. before_read_write D a n d = rret e \<and> send_command D a CmdRead e = rret d'
           \<and> v_xfer (view d') = XRead (unat (calc_lba a) * 256) (unat n * 256) \<and> v_disk (view d') = v_disk (view d)"
    and "\<exists>e d'. before_read_write D a n d = rret e \<and> send_command D a CmdWrite e = rret d'
           \<and> v_xfer (view d') = XWrite (unat (calc_lba a) * 256) (unat n * 256) \<and> v_disk (view d') = v_disk (view d)"
proof -
  have dev: "unat (io_base a) + 7 < 2 ^ 16" "ata_device D (io_base a) cap view"
    using assms by (auto simp: attached_def)
  obtain e where e: "before_read_write D a n d = rret e" "v_free (view e)" "v_xfer (view e) = XIdle"
      "v_disk (view e) = v_disk (view d)" "v_count (view e) = n" "view_lba (view e) = unat (calc_lba a)"
    using before_read_write_ok [OF assms(1-3)] by metis
  have w: "view_words (view e) = unat n * 256" using e(5) assms(4) by (auto simp: view_words_def)
  have "view_lba (view e) + view_words (view e) div 256 \<le> cap" using w e(6) assms(5) by simp
  then have v: "view (p_out8 D (io_base a + 7) 0x20 e) = (view e)\<lparr>v_free := False, v_ready := False,
             v_xfer := XRead (view_lba (view e) * 256) (view_words (view e))\<rparr>
        \<and> view (p_out8 D (io_base a + 7) 0x30 e) = (view e)\<lparr>v_free := False, v_ready := False,
             v_xfer := XWrite (view_lba (view e) * 256) (view_words (view e))\<rparr>"
    using ata_deviceD(5) [OF dev(2)] e(2,3) by blast
  have "send_command D a c e = rret (p_out8 D (io_base a + 7) (command_code c) e)" for c
    using dev(1) by (simp add: send_command_def io_write_ok)
  with v e w show "\<exists>e d'. before_read_write D a n d = rret e \<and> send_command D a CmdRead e = rret d'
           \<and> v_xfer (view d') = XRead (unat (calc_lba a) * 256) (unat n * 256) \<and> v_disk (view d') = v_disk (view d)"
    and "\<exists>e d'. before_read_write D a n d = rret e \<and> send_command D a CmdWrite e = rret d'
           \<and> v_xfer (view d') = XWrite (unat (calc_lba a) * 256) (unat n * 256) \<and> v_disk (view d') = v_disk (view d)"
    by simp_all
qed

end
