(* ===== verification/AtaRead.thy ===== *)
theory AtaRead
  imports AtaDevice
begin

section \<open>Reading from the drive\<close>

text \<open>
  Sector counts, the bytes of the disk, and the loops of \<open>read\<close> with their invariant.
\<close>

subsection \<open>Sector counts\<close>

lemma unat_and_511: "unat ((x :: 64 word) AND 511) = unat x mod 512"
  by (simp add: mask_9 unat_and_mask)

lemma is_sector_aligned_iff: "is_sector_aligned v \<longleftrightarrow> unat v mod 512 = 0"
  by (simp add: is_sector_aligned_def flip: unat_and_511 unat_eq_0)

lemma unat_div_512: "unat ((x :: 64 word) div 512) = unat x div 512"
  by (simp add: unat_div)

lemma unat_mod_512: "unat ((x :: 64 word) mod 512) = unat x mod 512"
  by (simp add: unat_mod)

definition sectors_for :: "nat \<Rightarrow> nat \<Rightarrow> nat" where
  "sectors_for pos len = (pos mod 512 + len + 511) div 512"

lemma sectors_for_eq:
  assumes "len \<noteq> 0"
  shows "sectors_for pos len = len div 512
    + of_bool (if len mod 512 = 0 then pos mod 512 \<noteq> 0 else 512 < pos mod 512 + len mod 512)
    + of_bool (len mod 512 \<noteq> 0)"
proof -
  define o' q r where "o' = pos mod 512" and "q = len div 512" and "r = len mod 512"
  have b: "o' < 512" "r < 512" and l: "len = 512 * q + r" by (simp_all add: o'_def r_def q_def)
  have "sectors_for pos len = (512 * q + (o' + r + 511)) div 512"
    unfolding sectors_for_def o'_def [symmetric] l by (simp add: ac_simps)
  also have "\<dots> = q + (o' + r + 511) div 512" by simp
  also have "(o' + r + 511) div 512 = of_bool (if r = 0 then o' \<noteq> 0 else 512 < o' + r) + of_bool (r \<noteq> 0)"
  proof (cases "r = 0")
    case True
    then show ?thesis using b by (cases "o' = 0") (auto intro!: div_nat_eqI)
  next
    case False
    then show ?thesis using b by (cases "512 < o' + r") (auto intro!: div_nat_eqI)
  qed
  finally show ?thesis by (simp add: o'_def q_def r_def)
qed

lemma min_required_sector_count_ok:
  assumes "len \<noteq> 0" and "sectors_for (unat (position a)) (unat len) \<le> 255"
  shows "\<exists>n. min_required_sector_count a len = Ret n \<and> unat n = sectors_for (unat (position a)) (unat len)"
proof -
  let ?o = "unat (position a) mod 512" and ?L = "unat len"
  let ?al = "?L mod 512 = 0"
  let ?bl = "if ?al then ?o \<noteq> 0 else ?o + ?L mod 512 > 512"
  have L: "?L \<noteq> 0" using assms(1) by (simp add: unat_eq_0)
  have cnt: "sectors_for (unat (position a)) ?L = ?L div 512 + of_bool ?bl + of_bool (\<not> ?al)"
    using sectors_for_eq [OF L] by simp
  have "?o + ?L mod 512 < 2 ^ LENGTH(64)"
    using mod_less_divisor [of 512 "unat (position a)"] mod_less_divisor [of 512 ?L] by simp
  then have s: "add_chk (position a AND 511) (len AND 511) = Ret ((position a AND 511) + (len AND 511))"
    and us: "unat ((position a AND 511) + (len AND 511)) = ?o + ?L mod 512"
    by (simp_all add: add_chk_def unat_and_511 unat_add_no_overflow)
  have b: "(if is_sector_aligned len \<and> len \<noteq> 0 then Ret (\<not> pos_aligned a)
            else obind (add_chk (position a AND 511) (len AND 511)) (\<lambda>s. Ret (512 < s))) = Ret ?bl"
    using assms(1) by (simp add: s is_sector_aligned_iff pos_aligned_def word_less_nat_alt us)
  have q: "unat (ucast (len div 512) :: 8 word) = ?L div 512"
    using cnt assms(2) by (simp add: unat_ucast8 unat_div_512)
  have o: "unat (of_bool P :: 8 word) = of_bool P" for P by (cases P) simp_all
  have "?L div 512 + of_bool ?bl + of_bool (\<not> ?al) < 2 ^ 8" using cnt assms(2) by simp
  then have "add_chk (ucast (len div 512) :: 8 word) (of_bool ?bl) = Ret (ucast (len div 512) + of_bool ?bl)"
    and n1: "unat (ucast (len div 512) + of_bool ?bl :: 8 word) = ?L div 512 + of_bool ?bl"
    and "add_chk (ucast (len div 512) + of_bool ?bl :: 8 word) (of_bool (\<not> ?al)) = Ret (ucast (len div 512) + of_bool ?bl + of_bool (\<not> ?al))"
    and "unat (ucast (len div 512) + of_bool ?bl + of_bool (\<not> ?al) :: 8 word) = ?L div 512 + of_bool ?bl + of_bool (\<not> ?al)"
    by (simp_all add: add_chk_def q o unat_add_no_overflow)
  then show ?thesis
    unfolding min_required_sector_count_def Let_def b cnt
    using assms(1) by (simp add: is_sector_aligned_iff)
qed

subsection \<open>Bytes of the disk\<close>

definition lo :: "u16 \<Rightarrow> u8" where "lo w = ucast w"
definition hi :: "u16 \<Rightarrow> u8" where "hi w = ucast (drop_bit 8 w)"
definition mk :: "u8 \<Rightarrow> u8 \<Rightarrow> u16" where "mk l h = ucast l + push_bit 8 (ucast h)"

text \<open>The byte at an address: words are little endian.\<close>

definition byte_at :: "(nat \<Rightarrow> u16) \<Rightarrow> nat \<Rightarrow> u8" where
  "byte_at I A = (if even A then lo (I (A div 2)) else hi (I (A div 2)))"

lemma byte_at_word [simp]: "byte_at I (2 * K) = lo (I K)" "byte_at I (Suc (2 * K)) = hi (I K)"
  by (simp_all add: byte_at_def)

lemma unat_lo: "unat (lo w) = unat w mod 256" 
  by (simp add: lo_def unsigned_ucast_eq take_bit_eq_mod)

lemma unat_hi: "unat (hi w) = unat w div 256"
proof -
  have "unat w < 65536" using unsigned_less [of w, where ?'a = nat] by simp
  then have "unat w div 256 < 256" by (simp add: less_mult_imp_div_less)
  moreover have "unat (drop_bit 8 w) = drop_bit 8 (unat w)"
    using unsigned_less [of w, where ?'a = nat] by (simp only: unsigned_drop_bit_eq) (simp add: take_bit_nat_eq_self)
  ultimately show ?thesis
    by (simp add: hi_def unsigned_ucast_eq take_bit_eq_mod drop_bit_eq_div)
qed

lemma unat_ucast16: "unat (ucast (b :: 8 word) :: 16 word) = unat b"
  using unsigned_less [of b, where ?'a = nat] by (simp add: unsigned_ucast_eq take_bit_nat_eq_self)

lemma unat_push8: "unat (push_bit 8 (ucast (b :: 8 word) :: 16 word)) = unat b * 256"
  using unsigned_less [of b, where ?'a = nat]
  by (simp only: unsigned_push_bit_eq unat_ucast16) (simp add: push_bit_eq_mult take_bit_nat_eq_self)

lemma mk_sum: "unat (ucast l :: 16 word) + unat (push_bit 8 (ucast h :: 16 word)) < 2 ^ LENGTH(16)"
  for l h :: "8 word"
  using unsigned_less [of l, where ?'a = nat] unsigned_less [of h, where ?'a = nat]
  by (simp only: unat_ucast16 unat_push8) simp

lemma unat_mk: "unat (mk l h) = unat l + unat h * 256"
  unfolding mk_def using mk_sum [of l h] by (simp only: unat_add_no_overflow unat_ucast16 unat_push8)

lemma lo_hi_mk [simp]: "lo (mk l h) = l" "hi (mk l h) = h" "mk (lo w) (hi w) = w"
proof -
  have l: "unat l < 256" using unsigned_less [of l, where ?'a = nat] by simp
  show "lo (mk l h) = l" "hi (mk l h) = h"
    using l by (auto simp: unat_mk unat_lo unat_hi intro!: unsigned_word_eqI [where ?'a = nat])
  show "mk (lo w) (hi w) = w"
    by (rule unsigned_word_eqI [where ?'a = nat]) (simp add: unat_mk unat_lo unat_hi)
qed

text \<open>The sums the driver forms when it merges a byte into a word.\<close>

lemma add_chk_mk: "add_chk (ucast l) (push_bit 8 (ucast h)) = Ret (mk l h)" for l h :: "8 word"
  using mk_sum [of l h] by (simp add: add_chk_def mk_def)

lemma and_255: "(w :: 16 word) AND 255 = ucast (lo w)"
proof (rule unsigned_word_eqI [where ?'a = nat])
  have "(255 :: 16 word) = mask 8" by (simp add: mask_eq_exp_minus_1)
  then show "unat (w AND 255) = unat (ucast (lo w) :: 16 word)"
    by (simp only: unat_and_mask unat_ucast16 unat_lo) simp
qed

lemma and_FF00: "(w :: 16 word) AND 0xFF00 = push_bit 8 (ucast (hi w))"
proof (rule bit_word_eqI)
  fix n assume n: "n < LENGTH(16)"
  have m: "(0xFF00 :: 16 word) = push_bit 8 (mask 8)" by (simp add: mask_eq_exp_minus_1 push_bit_eq_mult)
  show "bit (w AND 0xFF00) n = bit (push_bit 8 (ucast (hi w)) :: 16 word) n"
    unfolding m bit_and_iff bit_push_bit_iff bit_mask_iff hi_def bit_unsigned_iff bit_drop_bit_eq comp_def
    using n by auto
qed

lemma add_chk_low: "add_chk ((w :: 16 word) AND 255) (push_bit 8 (ucast h)) = Ret (mk (lo w) h)"
  by (simp only: and_255 add_chk_mk)

lemma add_chk_high: "add_chk (ucast l) ((w :: 16 word) AND 0xFF00) = Ret (mk l (hi w))"
  by (simp only: and_FF00 add_chk_mk)

subsection \<open>Reading\<close>

text \<open>The bytes of the buffer below \<open>m\<close> hold what the disk holds from \<open>pos\<close> on.\<close>

definition filled :: "(nat \<Rightarrow> u16) \<Rightarrow> nat \<Rightarrow> nat \<Rightarrow> int \<Rightarrow> u8 list \<Rightarrow> bool" where
  "filled I pos L m buf \<longleftrightarrow> length buf = L \<and> (\<forall>j < L. int j < m \<longrightarrow> buf ! j = byte_at I (pos + j))"

lemma place_word_ok:
  assumes "filled I pos L m buf" and "0 < L" and "int pos + m = 2 * int K"
  shows "\<exists>buf'. place_word (I K) m buf = Ret buf' \<and> filled I pos L (m + 2) buf'"
proof -
  have len: "length buf = L" using assms(1) by (simp add: filled_def)
  consider "m = -1" | "m < -1" | "0 \<le> m" by linarith
  then show ?thesis
  proof cases
    case 1
    then have p: "pos = Suc (2 * K)" using assms(3) by linarith
    have "place_word (I K) m buf = Ret (buf[0 := hi (I K)])"
      using 1 assms(2) len by (simp add: place_word_def hi_def)
    moreover have "filled I pos L (m + 2) (buf[0 := hi (I K)])"
      using 1 assms(2) len by (auto simp: filled_def p)
    ultimately show ?thesis by blast
  next
    case 2
    then have "place_word (I K) m buf = Ret buf" by (simp add: place_word_def)
    moreover have "filled I pos L (m + 2) buf" using 2 len by (auto simp: filled_def)
    ultimately show ?thesis by blast
  next
    case 3
    define i where "i = nat m"
    have m: "m = int i" and p: "pos + i = 2 * K" using 3 assms(3) by (auto simp: i_def)
    have old: "buf ! j = byte_at I (pos + j)" if "j < L" "j < i" for j
      using assms(1) that m by (simp add: filled_def)
    have at: "byte_at I (pos + i) = lo (I K)" "byte_at I (pos + Suc i) = hi (I K)" by (simp_all add: p)
    let ?b = "if Suc i < L then buf[i := lo (I K), Suc i := hi (I K)] else if i < L then buf[i := lo (I K)] else buf"
    have "place_word (I K) m buf = Ret ?b"
      using len by (simp add: place_word_def m lo_def hi_def)
    moreover have "filled I pos L (m + 2) ?b"
      unfolding filled_def
    proof (intro conjI allI impI)
      show "length ?b = L" using len by simp
      fix j assume j: "j < L" "int j < m + 2"
      then consider "j < i" | "j = i" | "j = Suc i" using m by linarith
      then show "?b ! j = byte_at I (pos + j)"
        using old j(1) at len by cases (auto simp: nth_list_update)
    qed
    ultimately show ?thesis by blast
  qed
qed

text \<open>Where a transfer of \<open>n\<close> words stands: \<open>r\<close> of the current sector's words are left, and
  \<open>n\<close> words of later sectors.\<close>

definition pending :: "(nat \<Rightarrow> nat \<Rightarrow> transfer) \<Rightarrow> nat \<Rightarrow> nat \<Rightarrow> transfer" where
  "pending X w n = (if n = 0 then XIdle else X w n)"

lemma after_word_pending:
  assumes "n mod 256 = 0" and "r < 256"
  shows "v_xfer (after_word X w (r + n) v) = pending X (Suc w) (r + n)"
    and "v_ready v \<Longrightarrow> 0 < r \<Longrightarrow> v_ready (after_word X w (r + n) v)"
    and "v_disk (after_word X w (r + n) v) = v_disk v"
proof -
  have "(r + n) mod 256 = r" using assms by (metis add_0_right mod_add_right_eq mod_less)
  then show "v_xfer (after_word X w (r + n) v) = pending X (Suc w) (r + n)"
    and "v_ready v \<Longrightarrow> 0 < r \<Longrightarrow> v_ready (after_word X w (r + n) v)"
    and "v_disk (after_word X w (r + n) v) = v_disk v"
    by (simp_all add: after_word_def pending_def)
qed

lemma device_read_word:
  assumes "attached D a cap view" and "v_ready (view d)" and "v_xfer (view d) = XRead w (Suc r + n)"
    and "n mod 256 = 0" and "r < 256"
  obtains d' where "p_in16 D (io_base a) d = (v_disk (view d) w, d')" and "v_xfer (view d') = pending XRead (Suc w) (r + n)"
    and "0 < r \<Longrightarrow> v_ready (view d')" and "v_disk (view d') = v_disk (view d)"
proof -
  have "fst (p_in16 D (io_base a) d) = v_disk (view d) w \<and> view (snd (p_in16 D (io_base a) d)) = after_word XRead w (r + n) (view d)"
    using ata_deviceD(7) [of D "io_base a" cap view] assms(1-3) by (simp add: attached_def)
  with after_word_pending [OF assms(4,5)] assms(2) that [of "snd (p_in16 D (io_base a) d)"] show thesis
    by (simp add: prod_eq_iff)
qed

lemma word_index_addr:
  "int (unat p) + word_index s w p = 2 * int (unat p div 512 * 256 + s * 256 + w)"
proof -
  have lin: "P = 512 * q + r \<Longrightarrow> P + ((x * 256 + y) * 2 - r) = 2 * (q * 256 + x * 256 + y)" for P q r x y :: int
    by simp
  have "int (unat p) = int (512 * (unat p div 512) + unat p mod 512)" by simp
  then have "int (unat p) = 512 * int (unat p div 512) + int (unat p mod 512)"
    by (simp only: of_nat_add of_nat_mult of_nat_numeral)
  then show ?thesis
    unfolding word_index_def unat_mod_512 of_nat_add of_nat_mult of_nat_numeral by (rule lin)
qed

lemma read_sector_words_ok:
  assumes "attached D a cap view" and "n mod 256 = 0" and "0 < L"
    and "pos = unat p" and "k \<le> 256" and "v_xfer (view d) = pending XRead (W + (256 - k)) (k + n)"
    and "0 < k \<Longrightarrow> v_ready (view d)"
    and "filled (v_disk (view d)) pos L (word_index s (256 - k) p) buf" and "W = pos div 512 * 256 + s * 256"
  shows "\<exists>buf' d'. read_sector_words D (io_base a) p s [256 - k..<256] buf d = rret (buf', d')
           \<and> v_xfer (view d') = pending XRead (W + 256) n \<and> v_disk (view d') = v_disk (view d)
           \<and> filled (v_disk (view d)) pos L (word_index s 256 p) buf'"
  using assms(5-8)
proof (induction k arbitrary: buf d)
  case 0
  then show ?case by simp
next
  case (Suc k)
  let ?w = "256 - Suc k"
  have x: "v_xfer (view d) = XRead (W + ?w) (Suc k + n)" and r: "v_ready (view d)"
    using Suc.prems(2,3) by (simp_all add: pending_def)
  obtain d' where d': "p_in16 D (io_base a) d = (v_disk (view d) (W + ?w), d')"
      "v_xfer (view d') = pending XRead (Suc (W + ?w)) (k + n)" "0 < k \<Longrightarrow> v_ready (view d')"
      "v_disk (view d') = v_disk (view d)"
    using device_read_word [OF assms(1) r x assms(2)] Suc.prems(1) by auto
  have s1: "Suc ?w = 256 - k" using Suc.prems(1) by simp
  have step: "word_index s ?w p + 2 = word_index s (256 - k) p" using Suc.prems(1) by (simp add: word_index_def)
  have "int pos + word_index s ?w p = 2 * int (W + ?w)"
    unfolding assms(4,9) by (rule word_index_addr)
  then obtain buf' where b: "place_word (v_disk (view d) (W + ?w)) (word_index s ?w p) buf = Ret buf'"
      "filled (v_disk (view d)) pos L (word_index s (256 - k) p) buf'"
    using place_word_ok [OF Suc.prems(4) assms(3)] step by metis
  have l: "[?w..<256] = ?w # [256 - k..<256]" using Suc.prems(1) s1 by (simp add: upt_conv_Cons)
  have "v_xfer (view d') = pending XRead (W + (256 - k)) (k + n)"
    using d'(2) s1 by (metis add_Suc_right)
  then obtain buf'' d'' where "read_sector_words D (io_base a) p s [256 - k..<256] buf' d' = rret (buf'', d'')"
      "v_xfer (view d'') = pending XRead (W + 256) n" "v_disk (view d'') = v_disk (view d')"
      "filled (v_disk (view d')) pos L (word_index s 256 p) buf''"
    using Suc.IH [of d' buf'] Suc.prems(1) d'(3,4) b(2) by auto
  then show ?case unfolding l using d'(1,4) b(1) by simp
qed

lemma read_sectors_ok:
  assumes "attached D a cap view" and "0 < L" and "pos = unat (position a)" and "lba = pos div 512"
    and "r \<le> cnt" and "v_xfer (view d) = pending XRead ((lba + (cnt - r)) * 256) (r * 256)"
    and "filled (v_disk (view d)) pos L (word_index (cnt - r) 0 (position a)) buf"
  shows "\<exists>buf' d'. read_sectors D a (io_base a) [cnt - r..<cnt] buf d = rret (buf', d')
           \<and> v_xfer (view d') = XIdle \<and> v_disk (view d') = v_disk (view d)
           \<and> filled (v_disk (view d)) pos L (word_index cnt 0 (position a)) buf'"
  using assms(5-7)
proof (induction r arbitrary: buf d)
  case 0
  then show ?case by (simp add: pending_def)
next
  case (Suc r)
  let ?s = "cnt - Suc r"
  have "v_xfer (view d) \<noteq> XIdle" using Suc.prems(2) by (simp add: pending_def)
  then obtain e where e: "wait_ready D a d = rret e" "core (view e) = core (view d)" "v_ready (view e)"
    using wait_ready_ok [OF assms(1)] by metis
  note ce = core_eqD(1,2) [OF e(2)]
  obtain buf' d' where b: "read_sector_words D (io_base a) (position a) ?s [256 - 256..<256] buf e = rret (buf', d')"
      "v_xfer (view d') = pending XRead (((lba + ?s) * 256) + 256) (r * 256)" "v_disk (view d') = v_disk (view e)"
      "filled (v_disk (view e)) pos L (word_index ?s 256 (position a)) buf'"
    using read_sector_words_ok [OF assms(1) _ assms(2,3), of "r * 256" 256 e "(lba + ?s) * 256" ?s buf]
      Suc.prems(2,3) e(3) ce assms(4) by (auto simp: algebra_simps)
  have s1: "Suc ?s = cnt - r" using Suc.prems(1) by simp
  have wi: "word_index ?s 256 (position a) = word_index (cnt - r) 0 (position a)"
    by (simp add: word_index_def flip: s1)
  have l: "[?s..<cnt] = ?s # [cnt - r..<cnt]" using Suc.prems(1) s1 by (simp add: upt_conv_Cons)
  have x: "v_xfer (view d') = pending XRead ((lba + (cnt - r)) * 256) (r * 256)"
    using b(2) by (simp add: algebra_simps flip: s1)
  show ?case
    unfolding l using Suc.IH [OF _ x, of buf'] Suc.prems(1) e(1) b ce(2) wi by simp
qed

text \<open>A request the driver can serve: not empty, inside a disk of at most \<open>2 ^ 28\<close> sectors and
  spanning at most 255 of them.\<close>

definition servable :: "nat \<Rightarrow> ata_drive \<Rightarrow> nat \<Rightarrow> bool" where
  "servable cap a L \<longleftrightarrow> 0 < L \<and> unat (position a) + L \<le> 512 * cap \<and> cap \<le> 2 ^ 28
     \<and> sectors_for (unat (position a)) L \<le> 255"

lemma sectors_cover: "pos mod 512 + L \<le> 512 * sectors_for pos L" "sectors_for pos L * 512 < pos mod 512 + L + 512"
  unfolding sectors_for_def by linarith+

lemma servableD:
  assumes "servable cap a L"
  shows "unat (of_nat L :: usize) = L" and "of_nat L \<noteq> (0 :: usize)"
    and "unat (calc_lba a) = unat (position a) div 512" and "unat (calc_lba a) < 2 ^ 28"
    and "unat (calc_lba a) + sectors_for (unat (position a)) L \<le> cap"
    and "0 < sectors_for (unat (position a)) L"
    and "add_chk (position a) (of_nat L) = Ret (position a + of_nat L)"
    and "unat (position a + of_nat L) = unat (position a) + L"
    and "\<exists>n. min_required_sector_count a (of_nat L) = Ret n \<and> unat n = sectors_for (unat (position a)) L"
proof -
  let ?p = "unat (position a)"
  note sv = assms [unfolded servable_def]
  have lin: "P + L \<le> 512 * cap \<Longrightarrow> S * 512 < m + L + 512 \<Longrightarrow> 512 * q + m = P \<Longrightarrow> 512 * (q + S) < 512 * Suc cap"
    for P S m q :: nat by simp
  have le: "?p + L \<le> 512 * cap" using sv by blast
  have lt: "?p + L < 2 ^ 64" using sv by simp
  then show u: "unat (of_nat L :: usize) = L" by (simp add: unat_of_nat)
  with sv show nz: "of_nat L \<noteq> (0 :: usize)" by (metis less_numeral_extra(3) unat_eq_0)
  show c: "unat (calc_lba a) = ?p div 512" by (simp add: calc_lba_def unat_div_512)
  have "?p < 512 * cap" using sv by linarith
  then show "unat (calc_lba a) < 2 ^ 28" using sv c by (simp add: less_mult_imp_div_less)
  have "512 * (?p div 512 + sectors_for ?p L) < 512 * Suc cap"
    using lin [OF le sectors_cover(2) [of ?p L] mult_div_mod_eq] .
  then show "unat (calc_lba a) + sectors_for ?p L \<le> cap" using c by simp
  show "0 < sectors_for ?p L" using sv sectors_cover(1) [of ?p L] by (cases "sectors_for ?p L") auto
  show "add_chk (position a) (of_nat L) = Ret (position a + of_nat L)"
    and "unat (position a + of_nat L) = ?p + L"
    using lt u by (simp_all add: add_chk_def unat_add_no_overflow)
  show "\<exists>n. min_required_sector_count a (of_nat L) = Ret n \<and> unat n = sectors_for ?p L"
    using min_required_sector_count_ok [OF nz, of a] sv u by simp
qed

lemma attached_io: "attached D a cap view \<Longrightarrow> port_addr a IoData = Ret (io_base a)"
  by (simp add: attached_def port_addr_ok)

lemma ata_read_ok:
  assumes "attached D a cap view" and "v_xfer (view d) = XIdle" and "servable cap a (length buf)"
  shows "\<exists>d'. ata_read D a buf d = rret (of_nat (length buf),
              map (\<lambda>j. byte_at (v_disk (view d)) (unat (position a) + j)) [0..<length buf],
              a\<lparr>position := position a + of_nat (length buf)\<rparr>, d')
           \<and> v_xfer (view d') = XIdle \<and> v_disk (view d') = v_disk (view d)"
proof -
  let ?L = "length buf" and ?p = "unat (position a)"
  note sv = servableD [OF assms(3)]
  obtain n where n: "min_required_sector_count a (of_nat ?L) = Ret n" "unat n = sectors_for ?p ?L" using sv(9) by metis
  obtain e d1 where d1: "before_read_write D a n d = rret e" "send_command D a CmdRead e = rret d1"
      "v_xfer (view d1) = XRead (unat (calc_lba a) * 256) (unat n * 256)" "v_disk (view d1) = v_disk (view d)"
    using start_transfer(1) [OF assms(1,2) sv(4), of n] sv(5,6) n(2) by auto
  have L: "0 < ?L" using assms(3) by (simp add: servable_def)
  have "word_index 0 0 (position a) \<le> 0" by (simp add: word_index_def)
  then have "filled (v_disk (view d1)) ?p ?L (word_index 0 0 (position a)) buf" by (auto simp: filled_def)
  then obtain buf' d2 where b: "read_sectors D a (io_base a) [0..<unat n] buf d1 = rret (buf', d2)"
      "v_xfer (view d2) = XIdle" "v_disk (view d2) = v_disk (view d1)"
      "filled (v_disk (view d1)) ?p ?L (word_index (unat n) 0 (position a)) buf'"
    using read_sectors_ok [OF assms(1) L refl refl, of "unat n" "unat n" d1 buf] d1(3) sv(3,6) n(2)
    by (auto simp: pending_def)
  have "int ?L \<le> word_index (unat n) 0 (position a)"
    using sectors_cover(1) [of ?p ?L] n(2) by (simp add: word_index_def unat_mod_512)
  with b(4) have "buf' = map (\<lambda>j. byte_at (v_disk (view d1)) (?p + j)) [0..<?L]"
    by (auto simp: filled_def intro!: nth_equalityI)
  with b n(1) d1 sv(7) attached_io [OF assms(1)] show ?thesis by (simp add: ata_read_def Let_def)
qed

end
