(* ===== verification/AtaWrite.thy ===== *)
theory AtaWrite
  imports AtaRead
begin

section \<open>Writing to the drive\<close>

text \<open>
  The sectors read back at the edges of a request, the merged words, and the loops of \<open>write\<close>.
\<close>

subsection \<open>Writing\<close>

lemma read_words_ok:
  assumes "attached D a cap view" and "r \<le> 256" and "v_xfer (view d) = pending XRead w r"
    and "0 < r \<Longrightarrow> v_ready (view d)"
  shows "\<exists>d'. read_words D (io_base a) r d = (map (v_disk (view d)) [w..<w + r], d')
           \<and> v_xfer (view d') = XIdle \<and> v_disk (view d') = v_disk (view d)"
  using assms(2-4)
proof (induction r arbitrary: d w)
  case 0
  then show ?case by (simp add: pending_def)
next
  case (Suc r)
  have x: "v_xfer (view d) = XRead w (Suc r + 0)" and rd: "v_ready (view d)"
    using Suc.prems(2,3) by (simp_all add: pending_def)
  obtain d' where d': "p_in16 D (io_base a) d = (v_disk (view d) w, d')"
      "v_xfer (view d') = pending XRead (Suc w) (r + 0)" "0 < r \<Longrightarrow> v_ready (view d')"
      "v_disk (view d') = v_disk (view d)"
    using device_read_word [OF assms(1) rd x] Suc.prems(1) by auto
  with Suc.IH [of d' "Suc w"] Suc.prems(1) show ?case
    by (auto simp: upt_conv_Cons simp del: upt_Suc)
qed

definition sector_at :: "(nat \<Rightarrow> u16) \<Rightarrow> nat \<Rightarrow> sector" where
  "sector_at I lba = map I [lba * 256..<lba * 256 + 256]"

lemma sector_at_nth [simp]: "w < 256 \<Longrightarrow> sector_at I lba ! w = I (lba * 256 + w)" "length (sector_at I lba) = 256"
  by (simp_all add: sector_at_def)

lemma read_sector_ok:
  assumes "attached D a cap view" and "v_xfer (view d) = XIdle" and "unat (calc_lba a) < 2 ^ 28"
    and "unat (calc_lba a) + 1 \<le> cap"
  shows "\<exists>d'. read_sector D a d = rret (sector_at (v_disk (view d)) (unat (calc_lba a)), d')
           \<and> v_xfer (view d') = XIdle \<and> v_disk (view d') = v_disk (view d)"
proof -
  obtain e d1 where d1: "before_read_write D a 1 d = rret e" "send_command D a CmdRead e = rret d1"
      "v_xfer (view d1) = XRead (unat (calc_lba a) * 256) 256" "v_disk (view d1) = v_disk (view d)"
    using start_transfer(1) [OF assms(1-3), of 1] assms(4) by auto
  then obtain d2 where d2: "wait_ready D a d1 = rret d2" "core (view d2) = core (view d1)" "v_ready (view d2)"
    using wait_ready_ok [OF assms(1), of d1] by auto
  note cd = core_eqD(1,2) [OF d2(2)]
  obtain d3 where "read_words D (io_base a) 256 d2 = (sector_at (v_disk (view d)) (unat (calc_lba a)), d3)"
      "v_xfer (view d3) = XIdle" "v_disk (view d3) = v_disk (view d)"
    using read_words_ok [OF assms(1), of 256 d2 "unat (calc_lba a) * 256"] d2(3) cd d1(3,4)
    by (auto simp: pending_def sector_at_def)
  with d1 d2 attached_io [OF assms(1)] show ?thesis by (simp add: read_sector_def)
qed

text \<open>The disk with the buffer laid over it, as bytes and as words.\<close>

definition overlay :: "(nat \<Rightarrow> u16) \<Rightarrow> nat \<Rightarrow> u8 list \<Rightarrow> nat \<Rightarrow> u8" where
  "overlay I pos buf A = (if pos \<le> A \<and> A < pos + length buf then buf ! (A - pos) else byte_at I A)"

definition overlay_word :: "(nat \<Rightarrow> u16) \<Rightarrow> nat \<Rightarrow> u8 list \<Rightarrow> nat \<Rightarrow> u16" where
  "overlay_word I pos buf K = mk (overlay I pos buf (2 * K)) (overlay I pos buf (Suc (2 * K)))"

lemma byte_at_overlay: "byte_at (overlay_word I pos buf) A = overlay I pos buf A"
  by (auto simp: byte_at_def overlay_word_def elim!: evenE oddE)

lemma overlay_word_outside:
  "Suc (2 * K) < pos \<or> pos + length buf \<le> 2 * K \<Longrightarrow> overlay_word I pos buf K = I K"
  by (auto simp: overlay_word_def overlay_def)

text \<open>The sector that holds an unaligned address, read before the transfer.\<close>

definition edge :: "(nat \<Rightarrow> u16) \<Rightarrow> nat \<Rightarrow> sector option" where
  "edge I A = (if A mod 512 \<noteq> 0 then Some (sector_at I (A div 512)) else None)"

lemma word_to_write_ok:
  assumes "pos = unat p" and "0 < length buf" and "s < sectors_for pos (length buf)" and "w < 256"
  shows "word_to_write (edge I pos) (edge I (pos + length buf)) w (word_index s w p) buf
         = Ret (overlay_word I pos buf (pos div 512 * 256 + s * 256 + w))"
proof -
  define K m where "K = pos div 512 * 256 + s * 256 + w" and "m = word_index s w p"
  let ?L = "length buf"
  have addr: "int pos + m = 2 * int K" unfolding m_def K_def assms(1) by (rule word_index_addr)
  have "K = (pos div 512 + s) * 256 + w" by (simp add: K_def)
  then have K: "K div 256 = pos div 512 + s"
    using assms(4) by (metis add.right_neutral div_less div_mult_self3 zero_neq_numeral)
  have sec: "sector_at I (K div 256) ! w = I K" unfolding K using assms(4) by (simp add: K_def algebra_simps)
  define b o' where "b = pos div 512" and "o' = pos mod 512"
  have pos: "pos = 512 * b + o'" by (simp add: b_def o'_def)
  have o: "o' < 512" by (simp add: o'_def)
  have K2: "2 * K = 512 * b + 512 * s + 2 * w" by (simp add: K_def b_def)
  have start: "edge I pos = Some (sector_at I (K div 256))" if "m < 0"
  proof -
    have "2 * K < pos" using addr that by linarith
    then have "512 * s < o'" using K2 pos by linarith
    with o have "s = 0" and "o' \<noteq> 0" by linarith+
    then show ?thesis using K by (simp add: edge_def o'_def)
  qed
  have fin: "edge I (pos + ?L) = Some (sector_at I (K div 256))" if "int ?L \<le> m + 1"
  proof -
    have "pos + ?L \<le> Suc (2 * K)" using addr that by linarith
    then have up: "pos + ?L < 512 * (b + s) + 512" using K2 assms(4) by simp
    have "512 * s < o' + ?L"
      using sectors_cover(2) [of pos ?L, folded o'_def] assms(3) by linarith
    then have lo: "512 * (b + s) < pos + ?L" using pos by simp
    from up lo have "(pos + ?L) div 512 = b + s" by (intro div_nat_eqI) simp_all
    moreover have "(pos + ?L) mod 512 \<noteq> 0"
      using lo mult_div_mod_eq [of 512 "pos + ?L"] calculation by (metis add_0_right less_irrefl)
    ultimately show ?thesis using K by (simp add: edge_def b_def)
  qed
  consider "m = -1" | "m < -1" | "0 \<le> m" "m + 1 < int ?L" | "0 \<le> m" "m + 1 = int ?L" | "0 \<le> m" "int ?L \<le> m"
    by linarith
  then have "word_to_write (edge I pos) (edge I (pos + ?L)) w m buf = Ret (overlay_word I pos buf K)"
  proof cases
    case 1
    then have p: "pos = Suc (2 * K)" using addr by linarith
    have "overlay_word I pos buf K = mk (lo (I K)) (buf ! 0)" using assms(2) by (simp add: overlay_word_def overlay_def p)
    with 1 start sec assms(2,4) show ?thesis by (simp add: word_to_write_def add_chk_low)
  next
    case 2
    then have "Suc (2 * K) < pos" using addr by linarith
    with 2 start sec assms(4) show ?thesis by (simp add: word_to_write_def overlay_word_outside)
  next
    case 3
    define i where "i = nat m"
    have m: "m = int i" and p: "2 * K = pos + i" using 3 addr by (auto simp: i_def)
    have "overlay_word I pos buf K = mk (buf ! i) (buf ! Suc i)" using 3 m by (simp add: overlay_word_def overlay_def p)
    with 3 m show ?thesis by (simp add: word_to_write_def add_chk_mk)
  next
    case 4
    define i where "i = nat m"
    have m: "m = int i" "?L = Suc i" and p: "2 * K = pos + i" using 4 addr by (auto simp: i_def)
    have "byte_at I (Suc (pos + i)) = hi (I K)" by (simp flip: p)
    then have "overlay_word I pos buf K = mk (buf ! i) (hi (I K))" using m by (simp add: overlay_word_def overlay_def p)
    with 4 m fin sec assms(4) show ?thesis by (simp add: word_to_write_def add_chk_high)
  next
    case 5
    then have "pos + ?L \<le> 2 * K" using addr by linarith
    with 5 fin sec assms(4) show ?thesis by (simp add: word_to_write_def overlay_word_outside)
  qed
  then show ?thesis by (simp add: K_def m_def)
qed

text \<open>The disk while words \<open>l\<close> up to \<open>m\<close> of \<open>J\<close> have been laid over \<open>I\<close>.\<close>

definition laid :: "(nat \<Rightarrow> u16) \<Rightarrow> (nat \<Rightarrow> u16) \<Rightarrow> nat \<Rightarrow> nat \<Rightarrow> nat \<Rightarrow> u16" where
  "laid J I l m K = (if l \<le> K \<and> K < m then J K else I K)"

lemma laid_step: "l \<le> m \<Longrightarrow> (laid J I l m)(m := J m) = laid J I l (Suc m)"
  by (rule ext) (auto simp: laid_def)

lemma laid_refl [simp]: "laid J I l l = I"
  by (rule ext) (auto simp: laid_def)

lemma device_write_word:
  assumes "attached D a cap view" and "v_ready (view d)" and "v_xfer (view d) = XWrite w (Suc r + n)"
    and "n mod 256 = 0" and "r < 256"
  shows "v_xfer (view (p_out16 D (io_base a) x d)) = pending XWrite (Suc w) (r + n)"
    and "0 < r \<Longrightarrow> v_ready (view (p_out16 D (io_base a) x d))"
    and "v_disk (view (p_out16 D (io_base a) x d)) = (v_disk (view d))(w := x)"
proof -
  have "view (p_out16 D (io_base a) x d) = after_word XWrite w (r + n) ((view d)\<lparr>v_disk := (v_disk (view d))(w := x)\<rparr>)"
    using ata_deviceD(8) [of D "io_base a" cap view] assms(1-3) by (simp add: attached_def)
  with after_word_pending [OF assms(4,5), where X = XWrite and w = w] assms(2)
  show "v_xfer (view (p_out16 D (io_base a) x d)) = pending XWrite (Suc w) (r + n)"
    and "0 < r \<Longrightarrow> v_ready (view (p_out16 D (io_base a) x d))"
    and "v_disk (view (p_out16 D (io_base a) x d)) = (v_disk (view d))(w := x)"
    by simp_all
qed

lemma write_sector_words_ok:
  assumes "attached D a cap view" and "n mod 256 = 0" and "l \<le> W"
    and "\<And>w. w < 256 \<Longrightarrow> word_to_write se ee w (word_index s w p) buf = Ret (J (W + w))"
    and "k \<le> 256" and "v_xfer (view d) = pending XWrite (W + (256 - k)) (k + n)"
    and "0 < k \<Longrightarrow> v_ready (view d)" and "v_disk (view d) = laid J I l (W + (256 - k))"
  shows "\<exists>d'. write_sector_words D (io_base a) p se ee buf s [256 - k..<256] d = rret d'
           \<and> v_xfer (view d') = pending XWrite (W + 256) n \<and> v_disk (view d') = laid J I l (W + 256)"
  using assms(5-8)
proof (induction k arbitrary: d)
  case 0
  then show ?case by simp
next
  case (Suc k)
  let ?w = "256 - Suc k"
  let ?d = "p_out16 D (io_base a) (J (W + ?w)) d"
  have x: "v_xfer (view d) = XWrite (W + ?w) (Suc k + n)" and r: "v_ready (view d)"
    using Suc.prems(2,3) by (simp_all add: pending_def)
  have k: "k < 256" and s1: "Suc ?w = 256 - k" using Suc.prems(1) by simp_all
  note dw = device_write_word [OF assms(1) r x assms(2) k, of "J (W + ?w)"]
  have "v_disk (view ?d) = laid J I l (W + (256 - k))"
    using dw(3) Suc.prems(4) laid_step [of l "W + ?w" J I] assms(3) s1 by (metis add_Suc_right trans_le_add1)
  moreover have "v_xfer (view ?d) = pending XWrite (W + (256 - k)) (k + n)"
    using dw(1) s1 by (metis add_Suc_right)
  ultimately obtain d' where "write_sector_words D (io_base a) p se ee buf s [256 - k..<256] ?d = rret d'"
      "v_xfer (view d') = pending XWrite (W + 256) n" "v_disk (view d') = laid J I l (W + 256)"
    using Suc.IH [of ?d] k dw(2) by auto
  moreover have "[?w..<256] = ?w # [256 - k..<256]" using k s1 by (simp add: upt_conv_Cons)
  ultimately show ?case using assms(4) [of ?w] by simp
qed

lemma write_sectors_ok:
  assumes "attached D a cap view"
    and "\<And>s w. s < cnt \<Longrightarrow> w < 256 \<Longrightarrow>
           word_to_write se ee w (word_index s w (position a)) buf = Ret (J (lba * 256 + s * 256 + w))"
    and "r \<le> cnt" and "v_xfer (view d) = pending XWrite ((lba + (cnt - r)) * 256) (r * 256)"
    and "v_disk (view d) = laid J I (lba * 256) ((lba + (cnt - r)) * 256)"
  shows "\<exists>d'. write_sectors D a (io_base a) se ee buf [cnt - r..<cnt] d = rret d'
           \<and> v_xfer (view d') = XIdle \<and> v_disk (view d') = laid J I (lba * 256) ((lba + cnt) * 256)"
  using assms(3-5)
proof (induction r arbitrary: d)
  case 0
  then show ?case by (simp add: pending_def)
next
  case (Suc r)
  let ?s = "cnt - Suc r"
  let ?W = "lba * 256 + ?s * 256"
  have "v_xfer (view d) \<noteq> XIdle" using Suc.prems(2) by (simp add: pending_def)
  then obtain e where e: "wait_ready D a d = rret e" "core (view e) = core (view d)" "v_ready (view e)"
    using wait_ready_ok [OF assms(1)] by metis
  note ce = core_eqD(1,2) [OF e(2)]
  have s: "?s < cnt" and s1: "Suc ?s = cnt - r" using Suc.prems(1) by simp_all
  obtain d' where d': "write_sector_words D (io_base a) (position a) se ee buf ?s [256 - 256..<256] e = rret d'"
      "v_xfer (view d') = pending XWrite (?W + 256) (r * 256)" "v_disk (view d') = laid J I (lba * 256) (?W + 256)"
    using write_sector_words_ok [OF assms(1), of "r * 256" "lba * 256" ?W se ee ?s "position a" buf J 256 e I]
      assms(2) [OF s] Suc.prems(2,3) e(3) ce by (auto simp: algebra_simps)
  have W: "?W + 256 = (lba + (cnt - r)) * 256" by (simp add: algebra_simps flip: s1)
  have "\<exists>d''. write_sectors D a (io_base a) se ee buf [cnt - r..<cnt] d' = rret d''
           \<and> v_xfer (view d'') = XIdle \<and> v_disk (view d'') = laid J I (lba * 256) ((lba + cnt) * 256)"
    using Suc.IH [of d'] Suc.prems(1) d'(2,3) unfolding W by auto
  moreover have l: "[?s..<cnt] = ?s # [cnt - r..<cnt]" using Suc.prems(1) s1 by (simp add: upt_conv_Cons)
  ultimately show ?case unfolding l using e(1) d'(1) by auto
qed

lemma edge_ok:
  assumes "attached D a cap view" and "v_xfer (view d) = XIdle" and "cap \<le> 2 ^ 28"
    and "unat (position a) mod 512 \<noteq> 0 \<Longrightarrow> unat (position a) < 512 * cap"
  shows "\<exists>d'. read_sector_if_unaligned D a d = rret (edge (v_disk (view d)) (unat (position a)), d')
           \<and> v_xfer (view d') = XIdle \<and> v_disk (view d') = v_disk (view d)"
proof (cases "pos_aligned a")
  case True
  then show ?thesis using assms(2)
    by (simp add: read_sector_if_unaligned_def edge_def pos_aligned_def is_sector_aligned_iff)
next
  case False
  then have m: "unat (position a) mod 512 \<noteq> 0" by (simp add: pos_aligned_def is_sector_aligned_iff)
  have c: "unat (calc_lba a) = unat (position a) div 512" by (simp add: calc_lba_def unat_div_512)
  have "unat (position a) div 512 < cap" using assms(4) [OF m] by (simp add: less_mult_imp_div_less)
  then obtain d' where "read_sector D a d = rret (sector_at (v_disk (view d)) (unat (calc_lba a)), d')"
      "v_xfer (view d') = XIdle" "v_disk (view d') = v_disk (view d)"
    using read_sector_ok [OF assms(1,2)] assms(3) c by auto
  with False m c show ?thesis by (simp add: read_sector_if_unaligned_def edge_def)
qed

lemma get_partial_ok:
  assumes "attached D a cap view" and "v_xfer (view d) = XIdle" and "servable cap a L"
  shows "\<exists>d'. get_partial_write_sectors D a (of_nat L) d
           = rret (edge (v_disk (view d)) (unat (position a)), edge (v_disk (view d)) (unat (position a) + L), a, d')
           \<and> v_xfer (view d') = XIdle \<and> v_disk (view d') = v_disk (view d)"
proof -
  note sv = servableD [OF assms(3)] and sv' = assms(3) [unfolded servable_def]
  obtain d1 where d1: "read_sector_if_unaligned D a d = rret (edge (v_disk (view d)) (unat (position a)), d1)"
      "v_xfer (view d1) = XIdle" "v_disk (view d1) = v_disk (view d)"
    using edge_ok [OF assms(1,2)] sv' by auto
  let ?a = "a\<lparr>position := position a + of_nat L\<rparr>"
  have at: "attached D ?a cap view" using assms(1) by (simp add: attached_def)
  have "unat (position ?a) < 512 * cap" if "unat (position ?a) mod 512 \<noteq> 0"
    using sv' sv(8) that by (cases "unat (position a) + L = 512 * cap") auto
  then obtain d2 where d2: "read_sector_if_unaligned D ?a d1 = rret (edge (v_disk (view d1)) (unat (position ?a)), d2)"
      "v_xfer (view d2) = XIdle" "v_disk (view d2) = v_disk (view d1)"
    using edge_ok [OF at d1(2)] sv' by auto
  have "sub_chk (position a + of_nat L) (of_nat L) = Ret (position a)"
    using sv(1,8) by (simp add: sub_chk_def)
  with d1 d2 sv(7,8) show ?thesis by (simp add: get_partial_write_sectors_def Let_def)
qed

lemma ata_write_ok:
  assumes "attached D a cap view" and "v_xfer (view d) = XIdle" and "servable cap a (length buf)"
  shows "\<exists>d'. ata_write D a buf d = rret (of_nat (length buf), a\<lparr>position := position a + of_nat (length buf)\<rparr>, d')
           \<and> v_xfer (view d') = XIdle \<and> v_disk (view d') = overlay_word (v_disk (view d)) (unat (position a)) buf"
proof -
  let ?L = "length buf" and ?p = "unat (position a)" and ?I = "v_disk (view d)"
  let ?J = "overlay_word ?I ?p buf" and ?lba = "unat (calc_lba a)"
  note sv = servableD [OF assms(3)]
  have L: "0 < ?L" using assms(3) by (simp add: servable_def)
  have dev: "unat (io_base a) + 7 < 2 ^ 16" "ata_device D (io_base a) cap view"
    using assms(1) by (auto simp: attached_def)
  obtain n where n: "min_required_sector_count a (of_nat ?L) = Ret n" "unat n = sectors_for ?p ?L" using sv(9) by metis
  obtain d0 where d0: "get_partial_write_sectors D a (of_nat ?L) d = rret (edge ?I ?p, edge ?I (?p + ?L), a, d0)"
      "v_xfer (view d0) = XIdle" "v_disk (view d0) = ?I"
    using get_partial_ok [OF assms] by auto
  obtain e d1 where d1: "before_read_write D a n d0 = rret e" "send_command D a CmdWrite e = rret d1"
      "v_xfer (view d1) = XWrite (?lba * 256) (unat n * 256)" "v_disk (view d1) = ?I"
    using start_transfer(2) [OF assms(1) d0(2) sv(4), of n] sv(5,6) n(2) d0(3) by auto
  have "word_to_write (edge ?I ?p) (edge ?I (?p + ?L)) w (word_index s w (position a)) buf
          = Ret (?J (?lba * 256 + s * 256 + w))" if "s < unat n" "w < 256" for s w
    using word_to_write_ok [OF refl L _ that(2)] that(1) n(2) sv(3) by metis
  then obtain d2 where d2: "write_sectors D a (io_base a) (edge ?I ?p) (edge ?I (?p + ?L)) buf [0..<unat n] d1 = rret d2"
      "v_xfer (view d2) = XIdle" "v_disk (view d2) = laid ?J ?I (?lba * 256) ((?lba + unat n) * 256)"
    using write_sectors_ok [OF assms(1), of "unat n" "edge ?I ?p" "edge ?I (?p + ?L)" buf ?J ?lba "unat n" d1 ?I]
      d1(3,4) sv(6) n(2) by (auto simp: pending_def)
  have flush: "view (p_out8 D (io_base a + 7) 0xE7 d2) = (view d2)\<lparr>v_free := False, v_ready := False\<rparr>"
    using ata_deviceD(6) [OF dev(2)] d2(2) by simp
  have "laid ?J ?I (?lba * 256) ((?lba + unat n) * 256) K = ?J K" for K
  proof (cases "?lba * 256 \<le> K \<and> K < (?lba + unat n) * 256")
    case False
    define q r where "q = ?p div 512" and "r = ?p mod 512"
    have p: "?p = 512 * q + r" by (simp add: q_def r_def)
    have "r + ?L \<le> 512 * unat n" using sectors_cover(1) [of ?p ?L] n(2) by (simp add: r_def)
    then have "Suc (2 * K) < ?p \<or> ?p + ?L \<le> 2 * K" using False p unfolding sv(3) q_def [symmetric] by auto
    with False overlay_word_outside show ?thesis by (simp add: laid_def)
  qed (simp add: laid_def)
  then have "v_disk (view d2) = ?J" using d2(3) by (simp add: fun_eq_iff)
  with n(1) d0(1) d1(1,2) d2(1,2) flush sv(7) attached_io [OF assms(1)] dev(1) show ?thesis
    by (simp add: ata_write_def Let_def send_command_def io_write_ok)
qed

end
