(* ===== verification/AtaProps.thy ===== *)
theory AtaProps
  imports AtaWrite
begin

section \<open>Properties of the disk driver\<close>

text \<open>
  A drive that satisfies the hypotheses, and what reading, writing and seeking guarantee.
\<close>

subsection \<open>A drive that keeps the promises\<close>

text \<open>A drive whose state is its own view and that is never busy: it shows that the hypotheses
  can hold, and it is the drive of the concrete instances.\<close>

definition sim_status :: "ata_view \<Rightarrow> u8" where
  "sim_status v = (if v_xfer v = XIdle then 0 else 0x08)"

definition sim_out8 :: "u16 \<Rightarrow> u8 \<Rightarrow> ata_view \<Rightarrow> ata_view" where
  "sim_out8 p x v =
     (if p = 0x1F2 then v\<lparr>v_count := x\<rparr> else if p = 0x1F3 then v\<lparr>v_low := x\<rparr>
      else if p = 0x1F4 then v\<lparr>v_mid := x\<rparr> else if p = 0x1F5 then v\<lparr>v_high := x\<rparr>
      else if p = 0x1F6 then v\<lparr>v_sel := x\<rparr>
      else if p = 0x1F7 \<and> x = 0x20 then v\<lparr>v_free := False, v_ready := False, v_xfer := XRead (view_lba v * 256) (view_words v)\<rparr>
      else if p = 0x1F7 \<and> x = 0x30 then v\<lparr>v_free := False, v_ready := False, v_xfer := XWrite (view_lba v * 256) (view_words v)\<rparr>
      else if p = 0x1F7 \<and> x = 0xE7 then v\<lparr>v_free := False, v_ready := False\<rparr>
      else v)"

definition sim_in16 :: "u16 \<Rightarrow> ata_view \<Rightarrow> u16 \<times> ata_view" where
  "sim_in16 p v = (case v_xfer v of XRead w (Suc n) \<Rightarrow> (v_disk v w, after_word XRead w n v) | _ \<Rightarrow> (0, v))"

definition sim_out16 :: "u16 \<Rightarrow> u16 \<Rightarrow> ata_view \<Rightarrow> ata_view" where
  "sim_out16 p x v = (case v_xfer v of
      XWrite w (Suc n) \<Rightarrow> after_word XWrite w n (v\<lparr>v_disk := (v_disk v)(w := x)\<rparr>) | _ \<Rightarrow> v)"

definition sim_ports :: "ata_view ports" where
  "sim_ports = \<lparr>p_in8 = (\<lambda>p v. (sim_status v, polled (sim_status v) v)), p_in16 = sim_in16,
     p_out8 = sim_out8, p_out16 = sim_out16\<rparr>"

definition sim_drive :: "usize \<Rightarrow> ata_drive" where
  "sim_drive pos = \<lparr>io_base = 0x1F0, control_base = 0x3F6, position = pos\<rparr>"

definition sim_view :: ata_view where
  "sim_view = \<lparr>v_count = 0, v_low = 0, v_mid = 0, v_high = 0, v_sel = 0, v_xfer = XIdle, v_free = False,
     v_ready = False, v_disk = (\<lambda>_. 0)\<rparr>"

lemma sim_attached: "attached sim_ports (sim_drive pos) cap (\<lambda>v. v)"
  unfolding attached_def ata_device_def
  by (auto simp: sim_ports_def sim_drive_def sim_out8_def sim_in16_def sim_out16_def sim_status_def is_set_def
      status_code_def intro!: exI [of _ 0])

subsection \<open>Properties\<close>

text \<open>C22: the number of sectors a request needs is exact: the smallest number of whole sectors,
  counted from the one that holds the current position, that covers every byte of a non-empty
  request, as long as that is at most 255.\<close>

theorem sector_count_exact:
  assumes "len \<noteq> 0" and "(unat (position a) mod 512 + unat len + 511) div 512 \<le> 255"
  shows "\<exists>n. min_required_sector_count a len = Ret n
           \<and> unat (position a) mod 512 + unat len \<le> 512 * unat n
           \<and> 512 * unat n < unat (position a) mod 512 + unat len + 512"
  using min_required_sector_count_ok [OF assms(1), of a] sectors_cover [of "unat (position a)" "unat len"] assms(2)
  by (auto simp: sectors_for_def mult.commute)

theorem sector_count_exact_witness:
  "\<exists>n. min_required_sector_count (sim_drive 200) 2000 = Ret n
     \<and> unat (position (sim_drive 200)) mod 512 + unat (2000 :: usize) \<le> 512 * unat n
     \<and> 512 * unat n < unat (position (sim_drive 200)) mod 512 + unat (2000 :: usize) + 512"
  by (rule sector_count_exact) (simp_all add: sim_drive_def)

text \<open>C11: reading returns. A read of a non-empty buffer inside the disk and within 255 sectors
  fills the buffer with exactly the bytes of the disk from the current position on, aligned or
  not, advances the position by its length and leaves the disk and the drive as they were.\<close>

theorem ata_read_correct:
  assumes "attached D a cap view" and "v_xfer (view d) = XIdle" and "servable cap a (length buf)"
  shows "\<exists>d'. ata_read D a buf d = rret (of_nat (length buf),
              map (\<lambda>j. byte_at (v_disk (view d)) (unat (position a) + j)) [0..<length buf],
              a\<lparr>position := position a + of_nat (length buf)\<rparr>, d')
           \<and> v_xfer (view d') = XIdle \<and> v_disk (view d') = v_disk (view d)"
  using assms by (rule ata_read_ok)

theorem ata_read_correct_witness:
  "\<exists>d'. ata_read sim_ports (sim_drive 511) [1, 2, 3] sim_view = rret (of_nat (length [1, 2, 3 :: u8]),
              map (\<lambda>j. byte_at (v_disk sim_view) (unat (position (sim_drive 511)) + j)) [0..<length [1, 2, 3 :: u8]],
              (sim_drive 511)\<lparr>position := position (sim_drive 511) + of_nat (length [1, 2, 3 :: u8])\<rparr>, d')
     \<and> v_xfer d' = XIdle \<and> v_disk d' = v_disk sim_view"
  by (rule ata_read_correct [OF sim_attached [of _ 2]]) (simp_all add: sim_view_def servable_def sectors_for_def sim_drive_def)



lemma sint_small:
  assumes "unat (x :: 64 word) < 2 ^ 63"
  shows "sint x = int (unat x)"
proof -
  have "sint x = signed_take_bit 63 (int (unat x))" by (simp add: sint_uint)
  also have "int (unat x) < 2 ^ 63" using assms by (metis of_nat_less_iff of_nat_numeral of_nat_power)
  then have "signed_take_bit 63 (int (unat x)) = int (unat x)"
    by (intro signed_take_bit_int_eq_self) (simp_all add: order_trans [of _ 0])
  finally show ?thesis .
qed

lemma seek_back:
  assumes "servable cap a L"
  shows "ata_seek (a\<lparr>position := position a + of_nat L\<rparr>) (SeekCurrent (- of_nat L)) = Ret (Inr (position a), a)"
proof -
  note sv = servableD [OF assms] and sv' = assms [unfolded servable_def]
  have L: "L < 2 ^ 40" "unat (position a) < 2 ^ 40" using sv' by auto
  have s1: "sint (position a + of_nat L) = int (unat (position a)) + int L"
    using L sv(8) sint_small [of "position a + of_nat L"] by simp
  have "sint (of_nat L :: 64 word) = int L" using L sv(1) sint_small [of "of_nat L"] by simp
  then have "sint (- of_nat L :: 64 word) = signed_take_bit 63 (- int L)" by (simp add: sint_word_ariths)
  also have "\<dots> = - int L" using L by (intro signed_take_bit_int_eq_self) simp_all
  finally have s2: "sint (- of_nat L :: 64 word) = - int L" .
  have "unat (position a) < 2 ^ 63" using L(2) by simp
  then have b: "int (unat (position a)) < 2 ^ 63" by (metis of_nat_less_iff of_nat_numeral of_nat_power)
  have "- (2 ^ 63) \<le> int (unat (position a))" by (rule order_trans [of _ 0]) simp_all
  with b have "add_i64_chk (position a + of_nat L) (- of_nat L) = Ret (position a)"
    by (simp add: add_i64_chk_def s1 s2)
  moreover have "0 \<le> sint (position a)" using sint_small [of "position a"] L by simp
  ultimately show ?thesis by (simp add: ata_seek_def)
qed





end
