(* ===== verification/Alloc.thy ===== *)
theory Alloc
  imports Prelude
begin

section \<open>The allocator contract and the bump allocator (kernel/src/allocator)\<close>

text \<open>
  Addresses are 64-bit words, the null pointer is zero. A client holds a set of live blocks,
  each an address with the layout it was allocated with. The locale \<open>heap_alloc\<close> states what a
  \<open>GlobalAlloc\<close> promises: an invariant that ties its state to the live blocks, kept by
  \<open>alloc\<close> and \<open>dealloc\<close>, under which live blocks are aligned and disjoint. The bump allocator is
  an instance; the fixed-size block allocator gives the contract from that of its fallback.
\<close>

record layout =
  l_size :: usize
  l_align :: usize

text \<open>The layouts a client may pass: a power of two alignment and a non-zero size that does not
  exceed \<open>isize::MAX\<close> when rounded up.\<close>

definition layout_ok :: "layout \<Rightarrow> bool" where
  "layout_ok l \<longleftrightarrow> 0 < unat (l_size l) \<and> (\<exists>k < 63. unat (l_align l) = 2 ^ k)
     \<and> unat (l_size l) + unat (l_align l) \<le> 2 ^ 63"

type_synonym block = "usize \<times> layout"

definition cells :: "block \<Rightarrow> nat set" where
  "cells b = {unat (fst b)..<unat (fst b) + unat (l_size (snd b))}"

definition safe :: "block set \<Rightarrow> bool" where
  "safe live \<longleftrightarrow> finite live
     \<and> (\<forall>b \<in> live. 0 < unat (l_size (snd b)) \<and> unat (fst b) mod unat (l_align (snd b)) = 0
          \<and> unat (fst b) + unat (l_size (snd b)) \<le> 2 ^ 64)
     \<and> (\<forall>b \<in> live. \<forall>c \<in> live. b \<noteq> c \<longrightarrow> cells b \<inter> cells c = {})"

text \<open>What a client does: allocate a layout, free a block it holds.\<close>

inductive reach ::
    "(layout \<Rightarrow> 's \<Rightarrow> (usize \<times> 's) outcome) \<Rightarrow> (usize \<Rightarrow> layout \<Rightarrow> 's \<Rightarrow> 's outcome) \<Rightarrow> 's \<Rightarrow> 's \<Rightarrow> block set \<Rightarrow> bool"
  for al de s0 where
  start: "reach al de s0 s0 {}"
| alloc: "reach al de s0 s live \<Longrightarrow> layout_ok l \<Longrightarrow> al l s = Ret (p, s') \<Longrightarrow> p \<noteq> 0 \<Longrightarrow>
    reach al de s0 s' (insert (p, l) live)"
| alloc_null: "reach al de s0 s live \<Longrightarrow> layout_ok l \<Longrightarrow> al l s = Ret (0, s') \<Longrightarrow> reach al de s0 s' live"
| dealloc: "reach al de s0 s live \<Longrightarrow> (p, l) \<in> live \<Longrightarrow> de p l s = Ret s' \<Longrightarrow>
    reach al de s0 s' (live - {(p, l)})"

lemma safe_address:
  assumes "safe live" and "(p, l) \<in> live" and "(p, k) \<in> live"
  shows "l = k"
proof (rule ccontr)
  assume "l \<noteq> k"
  then have "cells (p, l) \<inter> cells (p, k) = {}" using assms by (simp add: safe_def)
  moreover have "unat p \<in> cells (p, l)" "unat p \<in> cells (p, k)"
    using assms by (auto simp: safe_def cells_def)
  ultimately show False by blast
qed

locale heap_alloc =
  fixes al :: "layout \<Rightarrow> 's \<Rightarrow> (usize \<times> 's) outcome"
    and de :: "usize \<Rightarrow> layout \<Rightarrow> 's \<Rightarrow> 's outcome"
    and inv :: "'s \<Rightarrow> block set \<Rightarrow> bool"
  assumes inv_safe: "inv s live \<Longrightarrow> safe live \<and> (\<forall>(p, l) \<in> live. p \<noteq> 0 \<and> layout_ok l)"
    and alloc_inv: "inv s live \<Longrightarrow> layout_ok l \<Longrightarrow> al l s = Ret (p, s') \<Longrightarrow> p \<noteq> 0 \<Longrightarrow>
      (p, l) \<notin> live \<and> inv s' (insert (p, l) live)"
    and alloc_null_inv: "inv s live \<Longrightarrow> layout_ok l \<Longrightarrow> al l s = Ret (0, s') \<Longrightarrow> inv s' live"
    and dealloc_inv: "inv s live \<Longrightarrow> (p, l) \<in> live \<Longrightarrow> \<exists>s'. de p l s = Ret s' \<and> inv s' (live - {(p, l)})"
begin

lemma reach_inv: "reach al de s0 s live \<Longrightarrow> inv s0 {} \<Longrightarrow> inv s live"
proof (induction rule: reach.induct)
  case (dealloc s live p l s')
  with dealloc_inv [of s live p l] show ?case by auto
qed (auto intro: alloc_null_inv dest: alloc_inv)

lemma reach_safe: "reach al de s0 s live \<Longrightarrow> inv s0 {} \<Longrightarrow> safe live"
  using reach_inv inv_safe by blast

lemma reach_dealloc_returns:
  "reach al de s0 s live \<Longrightarrow> inv s0 {} \<Longrightarrow> (p, l) \<in> live \<Longrightarrow> \<exists>s'. de p l s = Ret s'"
  using reach_inv dealloc_inv by blast

text \<open>Distinct live blocks have distinct addresses.\<close>

lemma live_address:
  assumes "inv s live" and "(p, l) \<in> live" and "(p, k) \<in> live"
  shows "l = k"
  using safe_address [OF _ assms(2,3)] inv_safe [OF assms(1)] by blast

end

subsection \<open>Aligning addresses\<close>

definition align_up :: "usize \<Rightarrow> usize \<Rightarrow> usize outcome" where
  "align_up addr align =
     obind (add_chk addr align) (\<lambda>a. obind (sub_chk a 1) (\<lambda>a. obind (sub_chk align 1) (\<lambda>m.
     Ret (a AND NOT m))))"

subsection \<open>The bump allocator (bump.rs)\<close>

record bump =
  b_heap_start :: usize
  b_heap_end :: usize
  b_next :: usize
  b_allocations :: usize

definition bump_new :: bump where
  "bump_new = \<lparr>b_heap_start = 0, b_heap_end = 0, b_next = 0, b_allocations = 0\<rparr>"

definition bump_init :: "bump \<Rightarrow> usize \<Rightarrow> usize \<Rightarrow> bump outcome" where
  "bump_init b heap_start heap_size =
     obind (add_chk heap_start heap_size) (\<lambda>e.
     Ret (b\<lparr>b_heap_start := heap_start, b_heap_end := e, b_next := heap_start\<rparr>))"

definition bump_alloc :: "layout \<Rightarrow> bump \<Rightarrow> (usize \<times> bump) outcome" where
  "bump_alloc l b =
     obind (align_up (b_next b) (l_align l)) (\<lambda>alloc_start.
     case checked_add alloc_start (l_size l) of
       None \<Rightarrow> Ret (0, b)
     | Some alloc_end \<Rightarrow>
         if b_heap_end b < alloc_end then Ret (0, b)
         else obind (add_chk (b_allocations b) 1) (\<lambda>n.
              Ret (alloc_start, b\<lparr>b_next := alloc_end, b_allocations := n\<rparr>)))"

definition bump_dealloc :: "usize \<Rightarrow> layout \<Rightarrow> bump \<Rightarrow> bump outcome" where
  "bump_dealloc p l b =
     obind (sub_chk (b_allocations b) 1) (\<lambda>n.
     let b = b\<lparr>b_allocations := n\<rparr> in
     Ret (if b_allocations b = 0 then b\<lparr>b_next := b_heap_start b\<rparr> else b))"

subsection \<open>Alignment\<close>

lemma and_not_mask: "unat (x AND NOT (mask k)) = unat x div 2 ^ k * 2 ^ k" for x :: "64 word"
proof -
  have "x AND NOT (mask k) = x AND NOT (x AND mask k)"
    by (rule bit_eqI) (auto simp: bit_simps)
  also have "\<dots> = x - (x AND mask k)"
    by (rule disjunctive_diff_eq_and_not [symmetric]) (rule bit_eqI, auto simp: bit_simps)
  finally have "unat (x AND NOT (mask k)) = unat x - unat x mod 2 ^ k"
    by (simp add: unat_sub_no_overflow unat_and_mask)
  then show ?thesis by (simp add: minus_mod_eq_div_mult)
qed

lemma align_up_ok:
  assumes "unat align = 2 ^ k" and "k < 64" and "unat addr + unat align < 2 ^ 64"
  shows "\<exists>r. align_up addr align = Ret r \<and> unat r = (unat addr + 2 ^ k - 1) div 2 ^ k * 2 ^ k"
proof -
  have al: "1 \<le> unat align" using assms(1) by simp
  have u1: "unat (addr + align) = unat addr + 2 ^ k" using assms by (simp add: unat_add_no_overflow)
  have le: "1 \<le> unat addr + 2 ^ k" using al assms(1) by linarith
  have u2: "unat (addr + align - 1) = unat addr + 2 ^ k - 1"
    using u1 le by (subst unat_sub_no_overflow) simp_all
  have "align = of_nat (unat align)" by simp
  then have "align = 2 ^ k" using assms(1) by (metis of_nat_numeral of_nat_power)
  then have m: "align - 1 = mask k" by (simp add: mask_eq_exp_minus_1)
  have "align_up addr align = Ret ((addr + align - 1) AND NOT (mask k))"
    using assms(3) u1 al le by (simp add: align_up_def add_chk_def sub_chk_def m)
  then show ?thesis using u2 by (simp add: and_not_mask)
qed

lemma round_up:
  fixes a m :: nat
  assumes "0 < m"
  shows "a \<le> (a + m - 1) div m * m" "(a + m - 1) div m * m < a + m" "(a + m - 1) div m * m mod m = 0"
proof -
  have e: "(a + m - 1) div m * m + (a + m - 1) mod m = a + m - 1" by simp
  have "(a + m - 1) mod m < m" using assms by simp
  with e assms show "a \<le> (a + m - 1) div m * m" "(a + m - 1) div m * m < a + m" by linarith+
qed simp

text \<open>The converse direction: when \<open>align_up\<close> returns on a power of two, nothing overflowed.\<close>

lemma align_up_Ret:
  assumes "align_up addr align = Ret r" and "unat align = 2 ^ k" and "k < 64"
  shows "unat r = (unat addr + 2 ^ k - 1) div 2 ^ k * 2 ^ k" and "unat addr + 2 ^ k < 2 ^ 64"
proof -
  have "unat addr + unat align < 2 ^ 64"
    using assms(1) by (auto simp: align_up_def add_chk_def split: if_splits)
  then show "unat addr + 2 ^ k < 2 ^ 64" using assms(2) by simp
  show "unat r = (unat addr + 2 ^ k - 1) div 2 ^ k * 2 ^ k"
    using align_up_ok [OF assms(2,3) \<open>unat addr + unat align < 2 ^ 64\<close>] assms(1) by auto
qed

subsection \<open>The bump allocator keeps the contract\<close>

definition bump_inv :: "bump \<Rightarrow> block set \<Rightarrow> bool" where
  "bump_inv b live \<longleftrightarrow>
     safe live \<and> unat (b_allocations b) = card live
     \<and> unat (b_heap_start b) \<le> unat (b_next b) \<and> unat (b_next b) \<le> unat (b_heap_end b)
     \<and> (b_heap_start b = 0 \<longrightarrow> b_heap_end b = 0)
     \<and> (\<forall>(p, l) \<in> live. layout_ok l \<and> cells (p, l) \<subseteq> {unat (b_heap_start b)..<unat (b_next b)})"

lemma bump_alloc_cases:
  assumes "bump_alloc l b = Ret (p, b')" and "layout_ok l"
  shows "(p = 0 \<and> b' = b)
    \<or> (\<exists>e n. unat (b_next b) \<le> unat p \<and> unat p mod unat (l_align l) = 0 \<and> unat e = unat p + unat (l_size l)
          \<and> unat e \<le> unat (b_heap_end b) \<and> unat n = unat (b_allocations b) + 1
          \<and> b' = b\<lparr>b_next := e, b_allocations := n\<rparr>)"
proof -
  obtain k where k: "unat (l_align l) = 2 ^ k" "k < 64" using assms(2) by (auto simp: layout_ok_def)
  obtain s where s: "align_up (b_next b) (l_align l) = Ret s"
    using assms(1) by (auto simp: bump_alloc_def outcome_simps)
  have r: "unat (b_next b) \<le> unat s" "unat s mod unat (l_align l) = 0"
    using align_up_Ret(1) [OF s k] round_up [of "2 ^ k" "unat (b_next b)"] k(1) by simp_all
  show ?thesis
  proof (cases "checked_add s (l_size l)")
    case (Some e)
    show ?thesis
    proof (cases "b_heap_end b < e")
      case False
      then obtain n where n: "add_chk (b_allocations b) 1 = Ret n" "p = s" "b' = b\<lparr>b_next := e, b_allocations := n\<rparr>"
        using assms(1) s Some by (auto simp: bump_alloc_def outcome_simps)
      have "unat n = unat (b_allocations b) + 1" using add_chk_unat [OF n(1)] by simp
      moreover have "unat e \<le> unat (b_heap_end b)" using False by (simp add: word_less_nat_alt)
      ultimately show ?thesis using r n(2,3) checked_add_unat [OF Some] by auto
    qed (use assms(1) s Some in \<open>simp add: bump_alloc_def\<close>)
  qed (use assms(1) s in \<open>simp add: bump_alloc_def\<close>)
qed

lemma bump_inv_alloc:
  assumes "bump_inv b live" and "layout_ok l" and "bump_alloc l b = Ret (p, b')" and "p \<noteq> 0"
  shows "(p, l) \<notin> live \<and> bump_inv b' (insert (p, l) live)"
proof -
  obtain e n where *: "unat (b_next b) \<le> unat p" "unat p mod unat (l_align l) = 0" "unat e = unat p + unat (l_size l)"
    "unat e \<le> unat (b_heap_end b)" "unat n = unat (b_allocations b) + 1" "b' = b\<lparr>b_next := e, b_allocations := n\<rparr>"
    using bump_alloc_cases [OF assms(3,2)] assms(4) by auto
  have inv: "safe live" "unat (b_allocations b) = card live" "unat (b_heap_start b) \<le> unat (b_next b)"
      "b_heap_start b = 0 \<longrightarrow> b_heap_end b = 0"
      "\<forall>(q, k) \<in> live. layout_ok k \<and> cells (q, k) \<subseteq> {unat (b_heap_start b)..<unat (b_next b)}"
    using assms(1) by (auto simp: bump_inv_def)
  have sz: "0 < unat (l_size l)" using assms(2) by (simp add: layout_ok_def)
  have new: "cells (p, l) = {unat p..<unat e}" using *(3) by (simp add: cells_def)
  have disj: "cells b' \<inter> cells (p, l) = {}" if "b' \<in> live" for b'
    using inv(5) that *(1) new by (cases b') force
  then have notin: "(p, l) \<notin> live" using new *(3) sz by fastforce
  have "unat e \<le> 2 ^ 64" using unsigned_less [of e, where ?'a = nat] by simp
  then have "safe (insert (p, l) live)"
    using inv(1) disj *(2,3) sz unfolding safe_def by (auto simp: Int_commute)
  moreover have "card (insert (p, l) live) = Suc (card live)"
    using inv(1) notin by (simp add: safe_def)
  moreover have "\<forall>(q, k) \<in> insert (p, l) live. layout_ok k \<and> cells (q, k) \<subseteq> {unat (b_heap_start b)..<unat e}"
    using inv(3,5) assms(2) new *(1,3) by fastforce
  ultimately show ?thesis using notin inv * by (simp add: bump_inv_def)
qed

lemma bump_inv_dealloc:
  assumes "bump_inv b live" and "(p, l) \<in> live"
  shows "\<exists>b'. bump_dealloc p l b = Ret b' \<and> bump_inv b' (live - {(p, l)})"
proof -
  have inv: "safe live" "unat (b_allocations b) = card live" "finite live"
    using assms(1) by (auto simp: bump_inv_def safe_def)
  have c: "card (live - {(p, l)}) = card live - 1" "0 < card live"
    using inv(3) assms(2) by (auto simp: card_gt_0_iff)
  let ?n = "b_allocations b - 1"
  have n: "unat ?n = card (live - {(p, l)})" using inv(2) c by (subst unat_sub_no_overflow) simp_all
  have s: "safe (live - {(p, l)})" using inv(1) by (auto simp: safe_def)
  have r: "bump_dealloc p l b = Ret (if ?n = 0 then b\<lparr>b_allocations := ?n, b_next := b_heap_start b\<rparr> else b\<lparr>b_allocations := ?n\<rparr>)"
    using inv(2) c(2) by (simp add: bump_dealloc_def sub_chk_def Let_def)
  show ?thesis
  proof (cases "?n = 0")
    case True
    then have e: "live - {(p, l)} = {}" using n inv(3) by (simp add: card_eq_0_iff)
    show ?thesis unfolding e using True r assms(1) by (auto simp: bump_inv_def safe_def)
  next
    case False
    with r assms(1) s n show ?thesis by (auto simp: bump_inv_def)
  qed
qed

interpretation bump: heap_alloc bump_alloc bump_dealloc bump_inv
proof
  fix b live
  assume inv: "bump_inv b live"
  then have s: "safe live" "b_heap_start b = 0 \<longrightarrow> b_heap_end b = 0"
    "unat (b_next b) \<le> unat (b_heap_end b)"
    "\<forall>(q, k) \<in> live. layout_ok k \<and> cells (q, k) \<subseteq> {unat (b_heap_start b)..<unat (b_next b)}"
    by (auto simp: bump_inv_def)
  have "q \<noteq> 0" if "(q, k) \<in> live" for q k
  proof
    assume "q = 0"
    then have "0 \<in> cells (q, k)" using s(1) that by (auto simp: cells_def safe_def)
    then show False using s(2-4) that by (auto simp: unat_eq_0 dest!: bspec [of live _ "(q, k)"])
  qed
  with s show "safe live \<and> (\<forall>(p, l) \<in> live. p \<noteq> 0 \<and> layout_ok l)" by auto
next
  fix b live l b'
  assume "bump_inv b live" "layout_ok l" "bump_alloc l b = Ret (0, b')"
  then show "bump_inv b' live"
    using bump_alloc_cases [of l b 0 b'] by (auto simp: bump_inv_def layout_ok_def unat_eq_0)
qed (rule bump_inv_alloc bump_inv_dealloc; assumption)+

lemma bump_bounds_kept:
  "reach bump_alloc bump_dealloc b0 b live \<Longrightarrow> b_heap_start b = b_heap_start b0 \<and> b_heap_end b = b_heap_end b0"
proof (induction rule: reach.induct)
  case (alloc s live l p s')
  then show ?case using bump_alloc_cases [of l s p s'] by auto
next
  case (alloc_null s live l s')
  then show ?case using bump_alloc_cases [of l s 0 s'] by auto
next
  case (dealloc s live p l s')
  then show ?case by (auto simp: bump_dealloc_def outcome_simps Let_def)
qed simp

subsection \<open>Properties\<close>



text \<open>C19: whatever a client allocates and frees, the live blocks of an initialised bump
  allocator are aligned, pairwise disjoint and inside the heap, every one of them can be freed
  without a panic, and once none is left the whole heap is free again.\<close>

theorem bump_blocks_disjoint:
  assumes "bump_init bump_new hs sz = Ret b0" and "hs \<noteq> 0"
    and "reach bump_alloc bump_dealloc b0 b live"
  shows "safe live \<and> (\<forall>blk \<in> live. cells blk \<subseteq> {unat hs..<unat hs + unat sz})
       \<and> (\<forall>(p, l) \<in> live. \<exists>b'. bump_dealloc p l b = Ret b' \<and> (live = {(p, l)} \<longrightarrow> b_next b' = hs))"
proof -
  have b0: "unat hs + unat sz < 2 ^ 64" "b0 = \<lparr>b_heap_start = hs, b_heap_end = hs + sz, b_next = hs, b_allocations = 0\<rparr>"
    using assms(1) by (auto simp: bump_init_def bump_new_def add_chk_def split: if_splits)
  then have e: "unat (hs + sz) = unat hs + unat sz" by (simp add: unat_add_no_overflow)
  have "bump_inv b0 {}" using b0(2) e assms(2) by (auto simp: bump_inv_def safe_def)
  then have inv: "bump_inv b live" using bump.reach_inv [OF assms(3)] by simp
  have k: "b_heap_start b = hs" "b_heap_end b = hs + sz" using bump_bounds_kept [OF assms(3)] b0(2) by simp_all
  have "\<exists>b'. bump_dealloc p l b = Ret b' \<and> (live = {(p, l)} \<longrightarrow> b_next b' = hs)" if mem: "(p, l) \<in> live" for p l
  proof -
    obtain b' where b': "bump_dealloc p l b = Ret b'" "bump_inv b' (live - {(p, l)})"
      using bump.dealloc_inv [OF inv mem] by blast
    have "b_next b' = hs" if one: "live = {(p, l)}"
    proof -
      have "b_allocations b' = 0" using b'(2) one by (simp add: bump_inv_def unat_eq_0)
      then show ?thesis using b'(1) k(1) by (auto simp: bump_dealloc_def outcome_simps Let_def split: if_splits)
    qed
    with b'(1) show ?thesis by blast
  qed
  moreover have "cells blk \<subseteq> {unat hs..<unat hs + unat sz}" if "blk \<in> live" for blk
    using inv that k e by (cases blk) (force simp: bump_inv_def)
  ultimately show ?thesis using inv by (auto simp: bump_inv_def)
qed

lemma demo_reach:
  "reach bump_alloc bump_dealloc \<lparr>b_heap_start = 4096, b_heap_end = 8192, b_next = 4096, b_allocations = 0\<rparr>
     \<lparr>b_heap_start = 4096, b_heap_end = 8192, b_next = 4106, b_allocations = 1\<rparr> {(4096, \<lparr>l_size = 10, l_align = 8\<rparr>)}"
proof -
  have "bump_alloc \<lparr>l_size = 10, l_align = 8\<rparr> \<lparr>b_heap_start = 4096, b_heap_end = 8192, b_next = 4096, b_allocations = 0\<rparr>
      = Ret (4096, \<lparr>b_heap_start = 4096, b_heap_end = 8192, b_next = 4106, b_allocations = 1\<rparr>)"
    by (simp add: bump_alloc_def align_up_def add_chk_def sub_chk_def checked_add_def)
  moreover have "layout_ok \<lparr>l_size = 10, l_align = 8\<rparr>"
    by (auto simp: layout_ok_def intro!: exI [of _ 3])
  ultimately show ?thesis
    using reach.alloc [where al = bump_alloc and de = bump_dealloc, OF reach.start] by auto
qed

theorem bump_blocks_disjoint_witness:
  "safe {(4096 :: usize, \<lparr>l_size = 10, l_align = 8\<rparr>)}
   \<and> cells (4096, \<lparr>l_size = 10, l_align = 8\<rparr>) \<subseteq> {unat (4096 :: usize)..<unat (4096 :: usize) + unat (4096 :: usize)}
   \<and> (\<exists>b'. bump_dealloc 4096 \<lparr>l_size = 10, l_align = 8\<rparr>
              \<lparr>b_heap_start = 4096, b_heap_end = 8192, b_next = 4106, b_allocations = 1\<rparr> = Ret b' \<and> b_next b' = 4096)"
proof -
  have "bump_init bump_new 4096 4096 = Ret \<lparr>b_heap_start = 4096, b_heap_end = 8192, b_next = 4096, b_allocations = 0\<rparr>"
    by (simp add: bump_init_def bump_new_def add_chk_def)
  from bump_blocks_disjoint [OF this _ demo_reach] show ?thesis by simp
qed

end
