(* ===== verification/FixedBlock.thy ===== *)
theory FixedBlock
  imports Alloc
begin

section \<open>The fixed-size block allocator (kernel/src/allocator/fixed_size_block.rs)\<close>

text \<open>
  One free list per block size; the list nodes live in the free blocks themselves. The state
  holds the list heads, the \<open>next\<close> field stored at each node address, and the fallback heap of
  the linked_list_allocator crate, which is a parameter: its \<open>allocate_first_fit\<close> (zero for
  \<open>Err\<close>) and \<open>deallocate\<close>. What the crate promises is the contract \<open>heap_alloc\<close>, and the
  theory shows that the block allocator then keeps the same contract towards its own clients.
\<close>

definition BLOCK_SIZES :: "usize list" where
  "BLOCK_SIZES = [8, 16, 32, 64, 128, 256, 512, 1024, 2048]"

definition list_index :: "layout \<Rightarrow> nat option" where
  "list_index l =
     (let required_block_size = max (l_size l) (l_align l) in
      iter_position (\<lambda>s. required_block_size \<le> s) BLOCK_SIZES)"

record 'f fsb =
  fs_list_heads :: "usize option list"
  fs_next :: "usize \<Rightarrow> usize option"
  fs_fallback :: 'f

definition fsb_new :: "'f \<Rightarrow> (usize \<Rightarrow> usize option) \<Rightarrow> 'f fsb" where
  "fsb_new fb mem = \<lparr>fs_list_heads = replicate (length BLOCK_SIZES) None, fs_next = mem, fs_fallback = fb\<rparr>"

definition fsb_init :: "(usize \<Rightarrow> usize \<Rightarrow> 'f \<Rightarrow> 'f) \<Rightarrow> usize \<Rightarrow> usize \<Rightarrow> 'f fsb \<Rightarrow> 'f fsb" where
  "fsb_init fb_init heap_start heap_size s = s\<lparr>fs_fallback := fb_init heap_start heap_size (fs_fallback s)\<rparr>"

definition fallback_alloc ::
    "(layout \<Rightarrow> 'f \<Rightarrow> (usize \<times> 'f) outcome) \<Rightarrow> layout \<Rightarrow> 'f fsb \<Rightarrow> (usize \<times> 'f fsb) outcome" where
  "fallback_alloc fb_alloc l s =
     obind (fb_alloc l (fs_fallback s)) (\<lambda>(p, fb). Ret (p, s\<lparr>fs_fallback := fb\<rparr>))"

text \<open>\<open>Layout::from_size_align\<close>: the alignment must be a power of two and rounding the size up
  to it must not overflow.\<close>

definition from_size_align :: "usize \<Rightarrow> usize \<Rightarrow> layout option" where
  "from_size_align size' align =
     (if align \<noteq> 0 \<and> align AND (align - 1) = 0 \<and> size' \<le> -1 - (align - 1)
      then Some \<lparr>l_size = size', l_align = align\<rparr> else None)"

definition fsb_alloc ::
    "(layout \<Rightarrow> 'f \<Rightarrow> (usize \<times> 'f) outcome) \<Rightarrow> layout \<Rightarrow> 'f fsb \<Rightarrow> (usize \<times> 'f fsb) outcome" where
  "fsb_alloc fb_alloc l s =
     (case list_index l of
        Some index \<Rightarrow>
          obind (idx (fs_list_heads s) index) (\<lambda>head.
          case head of
            Some node \<Rightarrow>
              Ret (node, s\<lparr>fs_list_heads := (fs_list_heads s)[index := fs_next s node],
                           fs_next := (fs_next s)(node := None)\<rparr>)
          | None \<Rightarrow>
              obind (idx BLOCK_SIZES index) (\<lambda>block_size.
              obind (unwrap (from_size_align block_size block_size)) (\<lambda>l.
              fallback_alloc fb_alloc l s)))
      | None \<Rightarrow> fallback_alloc fb_alloc l s)"

text \<open>The size of a \<open>ListNode\<close>, one pointer; its alignment is the same.\<close>

definition NODE_SIZE :: usize where "NODE_SIZE = 8"

definition fsb_dealloc ::
    "(usize \<Rightarrow> layout \<Rightarrow> 'f \<Rightarrow> 'f outcome) \<Rightarrow> usize \<Rightarrow> layout \<Rightarrow> 'f fsb \<Rightarrow> 'f fsb outcome" where
  "fsb_dealloc fb_dealloc p l s =
     (case list_index l of
        Some index \<Rightarrow>
          obind (idx (fs_list_heads s) index) (\<lambda>head.
          obind (idx BLOCK_SIZES index) (\<lambda>block_size.
          if \<not> NODE_SIZE \<le> block_size then Panic AssertFailed
          else Ret (s\<lparr>fs_list_heads := (fs_list_heads s)[index := Some p],
                      fs_next := (fs_next s)(p := head)\<rparr>)))
      | None \<Rightarrow>
          if p = 0 then Panic UnwrapOnNone
          else obind (fb_dealloc p l (fs_fallback s)) (\<lambda>fb. Ret (s\<lparr>fs_fallback := fb\<rparr>)))"

subsection \<open>Block classes\<close>

definition block_layout :: "nat \<Rightarrow> layout" where
  "block_layout i = \<lparr>l_size = BLOCK_SIZES ! i, l_align = BLOCK_SIZES ! i\<rparr>"

text \<open>The layout the fallback sees for a client's layout.\<close>

definition outer :: "layout \<Rightarrow> layout" where
  "outer l = (case list_index l of Some i \<Rightarrow> block_layout i | None \<Rightarrow> l)"

lemma less_9: "(i :: nat) < 9 \<Longrightarrow> i = 0 \<or> i = 1 \<or> i = 2 \<or> i = 3 \<or> i = 4 \<or> i = 5 \<or> i = 6 \<or> i = 7 \<or> i = 8"
  by linarith

lemma block_sizes:
  shows "length BLOCK_SIZES = 9"
    and "i < 9 \<Longrightarrow> unat (BLOCK_SIZES ! i) = 2 ^ (i + 3)"
    and "i < 9 \<Longrightarrow> from_size_align (BLOCK_SIZES ! i) (BLOCK_SIZES ! i) = Some (block_layout i)"
    and "i < 9 \<Longrightarrow> NODE_SIZE \<le> BLOCK_SIZES ! i"
proof -
  show "length BLOCK_SIZES = 9" by (simp add: BLOCK_SIZES_def)
  assume "i < 9"
  note i = less_9 [OF this]
  from i show "unat (BLOCK_SIZES ! i) = 2 ^ (i + 3)" by (elim disjE) (simp_all add: BLOCK_SIZES_def)
  from i show "from_size_align (BLOCK_SIZES ! i) (BLOCK_SIZES ! i) = Some (block_layout i)"
    by (elim disjE) (simp_all add: BLOCK_SIZES_def from_size_align_def block_layout_def)
  from i show "NODE_SIZE \<le> BLOCK_SIZES ! i" by (elim disjE) (simp_all add: BLOCK_SIZES_def NODE_SIZE_def)
qed

lemma list_index_Some:
  assumes "list_index l = Some i"
  shows "i < 9" and "unat (l_size l) \<le> 2 ^ (i + 3)" and "unat (l_align l) \<le> 2 ^ (i + 3)"
proof -
  have "i < length BLOCK_SIZES \<and> max (l_size l) (l_align l) \<le> BLOCK_SIZES ! i"
    using iter_position_Some [OF assms [unfolded list_index_def Let_def]] by blast
  then have "i < length BLOCK_SIZES \<and> l_size l \<le> BLOCK_SIZES ! i \<and> l_align l \<le> BLOCK_SIZES ! i" by simp
  then show "i < 9" and "unat (l_size l) \<le> 2 ^ (i + 3)" and "unat (l_align l) \<le> 2 ^ (i + 3)"
    using block_sizes(1,2) by (auto simp: word_le_nat_alt)
qed

lemma block_layout_ok:
  assumes "i < 9"
  shows "layout_ok (block_layout i)"
proof -
  have "(2 :: nat) ^ (i + 3) + 2 ^ (i + 3) \<le> 2 ^ 63"
    using power_increasing [of "i + 4" 63 "2 :: nat"] assms by (simp add: power_add)
  moreover have "i + 3 < 63" using assms by simp
  ultimately show ?thesis
    using block_sizes(2) [OF assms] unfolding layout_ok_def block_layout_def layout.simps by auto
qed

lemma outer_ok:
  assumes "layout_ok l"
  shows "layout_ok (outer l)" and "unat (l_size l) \<le> unat (l_size (outer l))"
    and "unat p mod unat (l_align (outer l)) = 0 \<Longrightarrow> unat p mod unat (l_align l) = 0"
proof -
  obtain k where k: "unat (l_align l) = 2 ^ k" using assms by (auto simp: layout_ok_def)
  show "layout_ok (outer l)"
    using assms block_layout_ok list_index_Some(1) by (auto simp: outer_def split: option.splits)
  show "unat (l_size l) \<le> unat (l_size (outer l))"
    using list_index_Some block_sizes(2) by (auto simp: outer_def block_layout_def split: option.splits)
  assume m: "unat p mod unat (l_align (outer l)) = 0"
  show "unat p mod unat (l_align l) = 0"
  proof (cases "list_index l")
    case (Some i)
    have "(2 :: nat) ^ k \<le> 2 ^ (i + 3)" using list_index_Some(3) [OF Some] k by simp
    then have "(2 :: nat) ^ k dvd 2 ^ (i + 3)" by (simp add: le_imp_power_dvd)
    moreover have "(2 :: nat) ^ (i + 3) dvd unat p"
      using m Some list_index_Some(1) block_sizes(2) by (auto simp: outer_def block_layout_def mod_eq_0_iff_dvd)
    ultimately show ?thesis using k by (auto simp: mod_eq_0_iff_dvd intro: dvd_trans)
  qed (use m in \<open>simp add: outer_def\<close>)
qed

lemma cells_outer: "layout_ok l \<Longrightarrow> cells (p, l) \<subseteq> cells (p, outer l)"
  using outer_ok(2) by (force simp: cells_def)

subsection \<open>Free lists in memory\<close>

fun chain :: "(usize \<Rightarrow> usize option) \<Rightarrow> usize option \<Rightarrow> usize list \<Rightarrow> bool" where
  "chain mem h [] \<longleftrightarrow> h = None"
| "chain mem h (p # ps) \<longleftrightarrow> h = Some p \<and> chain mem (mem p) ps"

lemma chain_upd [simp]: "p \<notin> set ps \<Longrightarrow> chain (mem(p := v)) h ps = chain mem h ps"
  by (induction ps arbitrary: h) auto

lemma chain_Some: "chain mem (Some p) ps \<Longrightarrow> \<exists>qs. ps = p # qs \<and> chain mem (mem p) qs"
  by (cases ps) auto

lemma chain_None: "chain mem None ps \<longleftrightarrow> ps = []"
  by (cases ps) auto

text \<open>The free blocks, list by list, and what the fallback holds as live: the free blocks and the
  blocks handed out, each with its outer layout.\<close>

definition free_blocks :: "(nat \<Rightarrow> usize list) \<Rightarrow> block set" where
  "free_blocks frees = {(p, block_layout i) | p i. i < 9 \<and> p \<in> set (frees i)}"

definition outer_blocks :: "block set \<Rightarrow> block set" where
  "outer_blocks live = (\<lambda>(p, l). (p, outer l)) ` live"

definition lists_ok :: "'f fsb \<Rightarrow> (nat \<Rightarrow> usize list) \<Rightarrow> bool" where
  "lists_ok s frees \<longleftrightarrow>
     length (fs_list_heads s) = 9
     \<and> (\<forall>i < 9. chain (fs_next s) (fs_list_heads s ! i) (frees i) \<and> distinct (frees i))
     \<and> (\<forall>i < 9. \<forall>j < 9. i \<noteq> j \<longrightarrow> set (frees i) \<inter> set (frees j) = {})"

definition live_ok :: "block set \<Rightarrow> (nat \<Rightarrow> usize list) \<Rightarrow> bool" where
  "live_ok live frees \<longleftrightarrow>
     inj_on fst live \<and> (\<forall>i < 9. fst ` live \<inter> set (frees i) = {}) \<and> (\<forall>b \<in> live. layout_ok (snd b))"

definition fsb_inv :: "('f \<Rightarrow> block set \<Rightarrow> bool) \<Rightarrow> 'f fsb \<Rightarrow> block set \<Rightarrow> bool" where
  "fsb_inv fb_inv s live \<longleftrightarrow>
     (\<exists>frees. lists_ok s frees \<and> live_ok live frees
        \<and> fb_inv (fs_fallback s) (free_blocks frees \<union> outer_blocks live))"

lemma free_blocks_Cons:
  assumes "i < 9"
  shows "free_blocks (frees(i := p # ps)) = insert (p, block_layout i) (free_blocks (frees(i := ps)))"
  using assms by (auto simp: free_blocks_def split: if_splits)

lemma outer_Some: "list_index l = Some i \<Longrightarrow> outer l = block_layout i"
  by (simp add: outer_def)

lemma outer_insert: "outer_blocks (insert (p, l) live) = insert (p, outer l) (outer_blocks live)"
  by (simp add: outer_blocks_def)

lemma outer_mem: "(p, l) \<in> live \<Longrightarrow> (p, outer l) \<in> outer_blocks live"
  by (force simp: outer_blocks_def)

lemma outer_remove:
  assumes "live_ok live frees" and "(p, l) \<in> live"
  shows "outer_blocks (live - {(p, l)}) = outer_blocks live - {(p, outer l)}"
    and "p \<notin> fst ` (live - {(p, l)})"
proof -
  have one: "b = (p, l)" if "b \<in> live" "fst b = p" for b
    using inj_onD [of fst live b "(p, l)"] assms that by (simp add: live_ok_def)
  then show "p \<notin> fst ` (live - {(p, l)})" by auto
  show "outer_blocks (live - {(p, l)}) = outer_blocks live - {(p, outer l)}"
    using one by (force simp: outer_blocks_def)
qed

text \<open>Taking the head of a free list, and putting a block in front of one.\<close>

lemma lists_ok_pop:
  assumes ok: "lists_ok s frees" and i: "i < 9" and h: "fs_list_heads s ! i = Some node"
  shows "\<exists>qs. frees i = node # qs
    \<and> lists_ok (s\<lparr>fs_list_heads := (fs_list_heads s)[i := fs_next s node], fs_next := (fs_next s)(node := None)\<rparr>)
        (frees(i := qs)) \<and> (\<forall>j < 9. node \<notin> set ((frees(i := qs)) j))"
proof -
  have "chain (fs_next s) (fs_list_heads s ! i) (frees i)" using ok i by (simp add: lists_ok_def)
  then obtain qs where qs: "frees i = node # qs" "chain (fs_next s) (fs_next s node) qs"
    using h chain_Some by fastforce
  have n: "node \<notin> set qs" "node \<notin> set (frees j)" if "j < 9" "j \<noteq> i" for j
  proof -
    show "node \<notin> set qs" using ok i qs(1) by (auto simp: lists_ok_def)
    have "set (frees i) \<inter> set (frees j) = {}" using ok i that by (simp add: lists_ok_def)
    then show "node \<notin> set (frees j)" using qs(1) by auto
  qed
  have nq: "node \<notin> set qs" "distinct qs" using ok i qs(1) by (auto simp: lists_ok_def)
  have d: "set qs \<inter> set (frees j) = {}" if "j < 9" "j \<noteq> i" for j
  proof -
    have "set (frees i) \<inter> set (frees j) = {}" using ok i that by (simp add: lists_ok_def)
    then show ?thesis using qs(1) by auto
  qed
  have "chain ((fs_next s)(node := None)) ((fs_list_heads s)[i := fs_next s node] ! j) ((frees(i := qs)) j)
      \<and> distinct ((frees(i := qs)) j)" if "j < 9" for j
    using that ok qs nq n(2) i by (cases "j = i") (auto simp: lists_ok_def)
  moreover have "set ((frees(i := qs)) j) \<inter> set ((frees(i := qs)) k) = {}" if "j < 9" "k < 9" "j \<noteq> k" for j k
    using that d ok by (auto simp: lists_ok_def)
  moreover have "\<forall>j < 9. node \<notin> set ((frees(i := qs)) j)" using nq n(2) by auto
  ultimately show ?thesis using qs(1) ok by (auto simp: lists_ok_def)
qed

lemma lists_ok_push:
  assumes ok: "lists_ok s frees" and i: "i < 9" and n: "\<forall>j < 9. p \<notin> set (frees j)"
  shows "lists_ok (s\<lparr>fs_list_heads := (fs_list_heads s)[i := Some p],
      fs_next := (fs_next s)(p := fs_list_heads s ! i)\<rparr>) (frees(i := p # frees i))"
proof -
  have "chain ((fs_next s)(p := fs_list_heads s ! i)) ((fs_list_heads s)[i := Some p] ! j) ((frees(i := p # frees i)) j)
      \<and> distinct ((frees(i := p # frees i)) j)" if "j < 9" for j
    using that ok n i by (cases "j = i") (auto simp: lists_ok_def)
  moreover have "set ((frees(i := p # frees i)) j) \<inter> set ((frees(i := p # frees i)) k) = {}"
    if "j < 9" "k < 9" "j \<noteq> k" for j k
    using that n ok by (auto simp: lists_ok_def)
  ultimately show ?thesis using ok by (auto simp: lists_ok_def)
qed


lemma safe_block:
  assumes "safe live" and "(p, l) \<in> live"
  shows "0 < unat (l_size l)" and "unat p mod unat (l_align l) = 0" and "unat p + unat (l_size l) \<le> 2 ^ 64"
  using assms by (auto simp: safe_def dest!: bspec [where x = "(p, l)"])

subsection \<open>The contract, from that of the fallback\<close>

locale fixed_block = fallback: heap_alloc fb_alloc fb_dealloc fb_inv
  for fb_alloc :: "layout \<Rightarrow> 'f \<Rightarrow> (usize \<times> 'f) outcome"
    and fb_dealloc :: "usize \<Rightarrow> layout \<Rightarrow> 'f \<Rightarrow> 'f outcome"
    and fb_inv :: "'f \<Rightarrow> block set \<Rightarrow> bool"
begin

lemma live_safe:
  assumes "live_ok live frees" and "fb_inv fb (free_blocks frees \<union> outer_blocks live)"
  shows "safe live \<and> (\<forall>(p, l) \<in> live. p \<noteq> 0 \<and> layout_ok l)"
proof -
  have sf: "safe (free_blocks frees \<union> outer_blocks live)"
    and nz: "\<forall>(p, l) \<in> free_blocks frees \<union> outer_blocks live. p \<noteq> 0 \<and> layout_ok l"
    using fallback.inv_safe [OF assms(2)] by auto
  have inj: "inj_on fst live" and lok: "\<And>p l. (p, l) \<in> live \<Longrightarrow> layout_ok l"
    using assms(1) by (force simp: live_ok_def)+
  have "inj_on (\<lambda>(p, l). (p, outer l)) live" using inj unfolding inj_on_def by fastforce
  moreover have "finite (outer_blocks live)" using sf by (simp add: safe_def)
  ultimately have fin: "finite live" unfolding outer_blocks_def by (rule finite_imageD [rotated])
  have blk: "0 < unat (l_size (snd b)) \<and> unat (fst b) mod unat (l_align (snd b)) = 0
      \<and> unat (fst b) + unat (l_size (snd b)) \<le> 2 ^ 64 \<and> fst b \<noteq> 0" if "b \<in> live" for b
  proof -
    obtain p l where b: "b = (p, l)" and m: "(p, l) \<in> live" using \<open>b \<in> live\<close> by (cases b) auto
    have "unat p mod unat (l_align (outer l)) = 0" "unat p + unat (l_size (outer l)) \<le> 2 ^ 64"
      using safe_block(2,3) [OF sf, of p "outer l"] outer_mem [OF m] by simp_all
    then show ?thesis
      using outer_ok(3) [OF lok [OF m], of p] outer_ok(2) [OF lok [OF m]] lok [OF m] nz outer_mem [OF m] b
      by (auto simp: layout_ok_def)
  qed
  have dis: "cells b \<inter> cells c = {}" if m: "b \<in> live" "c \<in> live" "b \<noteq> c" for b c
  proof -
    obtain p l q k where bc: "b = (p, l)" "c = (q, k)" by (cases b, cases c) auto
    have "p \<noteq> q" using inj_onD [OF inj _ m(1,2)] m(3) bc by auto
    then have "cells (p, outer l) \<inter> cells (q, outer k) = {}"
      using sf outer_mem m(1,2) bc by (auto simp: safe_def)
    then show ?thesis using cells_outer lok m(1,2) bc by blast
  qed
  have "safe live" using fin blk dis by (auto simp: safe_def simp del: split_paired_All)
  then show ?thesis using blk lok by fastforce
qed

lemma fallback_fresh:
  assumes "fb_inv fb' (insert (p, k) (free_blocks frees \<union> outer_blocks live))"
    and "(p, k) \<notin> free_blocks frees \<union> outer_blocks live"
  shows "p \<notin> fst ` live" and "\<forall>j < 9. p \<notin> set (frees j)"
proof -
  have a: "(p, k') \<notin> free_blocks frees \<union> outer_blocks live" for k'
    using fallback.live_address [OF assms(1), of p k k'] assms(2) by auto
  then show "p \<notin> fst ` live" using outer_mem by fastforce
  show "\<forall>j < 9. p \<notin> set (frees j)" using a by (auto simp: free_blocks_def)
qed

lemma fsb_alloc_cases:
  assumes "fsb_alloc fb_alloc l s = Ret (p, s')" and "length (fs_list_heads s) = 9"
  obtains (reuse) i where "list_index l = Some i" "i < 9" "fs_list_heads s ! i = Some p"
      "s' = s\<lparr>fs_list_heads := (fs_list_heads s)[i := fs_next s p], fs_next := (fs_next s)(p := None)\<rparr>"
    | (fallback) fb where "fb_alloc (outer l) (fs_fallback s) = Ret (p, fb)" "s' = s\<lparr>fs_fallback := fb\<rparr>"
proof (cases "list_index l")
  case None
  then show ?thesis using assms fallback
    by (auto simp: fsb_alloc_def fallback_alloc_def outer_def outcome_simps)
next
  case (Some i)
  have i: "i < 9" using list_index_Some(1) [OF Some] .
  show ?thesis
  proof (cases "fs_list_heads s ! i")
    case None
    then show ?thesis using assms Some i fallback block_sizes(1,3)
      by (auto simp: fsb_alloc_def fallback_alloc_def outer_def outcome_simps idx_def unwrap_def)
  next
    case (Some node)
    with assms \<open>list_index l = Some i\<close> i show ?thesis
      using reuse [of i] by (auto simp: fsb_alloc_def idx_def)
  qed
qed

lemma fsb_alloc_inv:
  assumes inv: "fsb_inv fb_inv s live" and l: "layout_ok l"
    and r: "fsb_alloc fb_alloc l s = Ret (p, s')" and p: "p \<noteq> 0"
  shows "(p, l) \<notin> live \<and> fsb_inv fb_inv s' (insert (p, l) live)"
proof -
  obtain frees where f: "lists_ok s frees" "live_ok live frees"
      "fb_inv (fs_fallback s) (free_blocks frees \<union> outer_blocks live)"
    using inv by (auto simp: fsb_inv_def)
  from f(1) have "length (fs_list_heads s) = 9" by (simp add: lists_ok_def)
  with r show ?thesis
  proof (cases rule: fsb_alloc_cases)
    case (reuse i)
    obtain qs where qs: "frees i = p # qs" "lists_ok s' (frees(i := qs))" "\<forall>j < 9. p \<notin> set ((frees(i := qs)) j)"
      using lists_ok_pop [OF f(1) reuse(2,3)] reuse(4) by auto
    have pl: "p \<notin> fst ` live" using f(2) qs(1) reuse(2) by (force simp: live_ok_def)
    have fr: "fst ` live \<inter> set (frees j) = {}" if "j < 9" for j using f(2) that by (simp add: live_ok_def)
    then have "fst ` live \<inter> set ((frees(i := qs)) j) = {}" if "j < 9" for j
      using fr [of i] fr [OF that] qs(1) reuse(2) by (auto split: if_splits)
    then have "live_ok (insert (p, l) live) (frees(i := qs))"
      using f(2) pl l qs(3) by (auto simp: live_ok_def)
    moreover have "free_blocks (frees(i := qs)) \<union> outer_blocks (insert (p, l) live)
        = free_blocks frees \<union> outer_blocks live"
    proof -
      have "frees = frees(i := p # qs)" using qs(1) by (simp add: fun_upd_idem)
      then have "free_blocks frees = insert (p, outer l) (free_blocks (frees(i := qs)))"
        using free_blocks_Cons [OF reuse(2)] outer_Some [OF reuse(1)] by metis
      then show ?thesis by (simp add: outer_insert)
    qed
    ultimately have "fsb_inv fb_inv s' (insert (p, l) live)"
      using qs(2) f(3) reuse(4) unfolding fsb_inv_def by (intro exI [of _ "frees(i := qs)"]) simp
    with pl show ?thesis by force
  next
    case (fallback fb)
    have n: "(p, outer l) \<notin> free_blocks frees \<union> outer_blocks live"
      and i: "fb_inv fb (insert (p, outer l) (free_blocks frees \<union> outer_blocks live))"
      using fallback.alloc_inv [OF f(3) outer_ok(1) [OF l] fallback(1) p] by simp_all
    note fresh = fallback_fresh [OF i n]
    have "live_ok (insert (p, l) live) frees" using f(2) fresh l by (auto simp: live_ok_def)
    then have "fsb_inv fb_inv s' (insert (p, l) live)"
      using f(1) i fallback(2) by (auto simp: fsb_inv_def outer_insert lists_ok_def)
    with fresh(1) show ?thesis by force
  qed
qed

lemma fsb_alloc_null_inv:
  assumes inv: "fsb_inv fb_inv s live" and l: "layout_ok l"
    and r: "fsb_alloc fb_alloc l s = Ret (0, s')"
  shows "fsb_inv fb_inv s' live"
proof -
  obtain frees where f: "lists_ok s frees" "live_ok live frees"
      "fb_inv (fs_fallback s) (free_blocks frees \<union> outer_blocks live)"
    using inv by (auto simp: fsb_inv_def)
  from f(1) have "length (fs_list_heads s) = 9" by (simp add: lists_ok_def)
  with r show ?thesis
  proof (cases rule: fsb_alloc_cases)
    case (reuse i)
    obtain qs where "frees i = 0 # qs" using lists_ok_pop [OF f(1) reuse(2,3)] by auto
    then have "(0, block_layout i) \<in> free_blocks frees" using reuse(2) by (auto simp: free_blocks_def)
    then show ?thesis using fallback.inv_safe [OF f(3)] by auto
  next
    case (fallback fb)
    then show ?thesis
      using fallback.alloc_null_inv [OF f(3) outer_ok(1) [OF l] fallback(1)] f(1,2)
      by (auto simp: fsb_inv_def lists_ok_def)
  qed
qed

lemma fsb_dealloc_inv:
  assumes inv: "fsb_inv fb_inv s live" and m: "(p, l) \<in> live"
  shows "\<exists>s'. fsb_dealloc fb_dealloc p l s = Ret s' \<and> fsb_inv fb_inv s' (live - {(p, l)})"
proof -
  obtain frees where f: "lists_ok s frees" "live_ok live frees"
      "fb_inv (fs_fallback s) (free_blocks frees \<union> outer_blocks live)"
    using inv by (auto simp: fsb_inv_def)
  have p: "p \<noteq> 0" using live_safe [OF f(2,3)] m by auto
  note rm = outer_remove [OF f(2) m]
  have pf: "\<forall>j < 9. p \<notin> set (frees j)" using f(2) m by (force simp: live_ok_def)
  have keep: "live_ok (live - {(p, l)}) frees" using f(2) by (auto simp: live_ok_def inj_on_diff)
  have pm: "(p, outer l) \<in> free_blocks frees \<union> outer_blocks live" using outer_mem [OF m] by simp
  have nf: "(p, outer l) \<notin> free_blocks frees" using pf by (auto simp: free_blocks_def)
  show ?thesis
  proof (cases "list_index l")
    case None
    obtain fb where fb: "fb_dealloc p l (fs_fallback s) = Ret fb"
        "fb_inv fb (free_blocks frees \<union> outer_blocks live - {(p, l)})"
      using fallback.dealloc_inv [OF f(3), of p l] pm None by (auto simp: outer_def)
    have "free_blocks frees \<union> outer_blocks live - {(p, l)} = free_blocks frees \<union> outer_blocks (live - {(p, l)})"
      using rm(1) nf None by (auto simp: outer_def)
    then show ?thesis
      using None p fb keep f(1) by (auto simp: fsb_dealloc_def fsb_inv_def lists_ok_def)
  next
    case (Some i)
    have i: "i < 9" using list_index_Some(1) [OF Some] .
    let ?s = "s\<lparr>fs_list_heads := (fs_list_heads s)[i := Some p], fs_next := (fs_next s)(p := fs_list_heads s ! i)\<rparr>"
    have r: "fsb_dealloc fb_dealloc p l s = Ret ?s"
      using Some i f(1) block_sizes(1,4) by (simp add: fsb_dealloc_def lists_ok_def idx_def)
    have "free_blocks (frees(i := p # frees i)) = insert (p, outer l) (free_blocks frees)"
      using free_blocks_Cons [OF i, of frees p "frees i"] outer_Some [OF Some] by simp
    then have "free_blocks (frees(i := p # frees i)) \<union> outer_blocks (live - {(p, l)}) = free_blocks frees \<union> outer_blocks live"
      using rm(1) pm nf by auto
    moreover have "live_ok (live - {(p, l)}) (frees(i := p # frees i))"
      using keep rm(2) by (auto simp: live_ok_def)
    ultimately have "fsb_inv fb_inv ?s (live - {(p, l)})"
      using lists_ok_push [OF f(1) i pf] f(3) unfolding fsb_inv_def
      by (intro exI [of _ "frees(i := p # frees i)"]) simp
    with r show ?thesis by blast
  qed
qed

end

sublocale fixed_block \<subseteq> fsb: heap_alloc "fsb_alloc fb_alloc" "fsb_dealloc fb_dealloc" "fsb_inv fb_inv"
proof (unfold_locales, goal_cases)
  case (1 s live)
  then show ?case unfolding fsb_inv_def using live_safe by blast
next
  case (2 s live l p s')
  then show ?case by (rule fsb_alloc_inv)
next
  case (3 s live l s')
  then show ?case by (rule fsb_alloc_null_inv)
next
  case (4 s live p l)
  then show ?case by (rule fsb_dealloc_inv)
qed


text \<open>A client may write what it likes into the blocks it holds. A write changes the node read at
  an address only where the node's eight bytes meet a live block, and no free node does.\<close>

definition writes_live :: "block set \<Rightarrow> (usize \<Rightarrow> usize option) \<Rightarrow> (usize \<Rightarrow> usize option) \<Rightarrow> bool" where
  "writes_live live m m' \<longleftrightarrow>
     (\<forall>a. {unat a..<unat a + unat NODE_SIZE} \<inter> \<Union> (cells ` live) = {} \<longrightarrow> m' a = m a)"

inductive fsb_run ::
    "(layout \<Rightarrow> 'f \<Rightarrow> (usize \<times> 'f) outcome) \<Rightarrow> (usize \<Rightarrow> layout \<Rightarrow> 'f \<Rightarrow> 'f outcome) \<Rightarrow> 'f fsb \<Rightarrow> 'f fsb \<Rightarrow> block set \<Rightarrow> bool"
  for al de s0 where
  run_start: "fsb_run al de s0 s0 {}"
| run_alloc: "fsb_run al de s0 s live \<Longrightarrow> layout_ok l \<Longrightarrow> fsb_alloc al l s = Ret (p, s') \<Longrightarrow>
    fsb_run al de s0 s' (if p = 0 then live else insert (p, l) live)"
| run_dealloc: "fsb_run al de s0 s live \<Longrightarrow> (p, l) \<in> live \<Longrightarrow> fsb_dealloc de p l s = Ret s' \<Longrightarrow>
    fsb_run al de s0 s' (live - {(p, l)})"
| run_write: "fsb_run al de s0 s live \<Longrightarrow> writes_live live (fs_next s) m \<Longrightarrow>
    fsb_run al de s0 (s\<lparr>fs_next := m\<rparr>) live"

lemma chain_cong: "(\<And>p. p \<in> set ps \<Longrightarrow> m p = m' p) \<Longrightarrow> chain m h ps = chain m' h ps"
  by (induction ps arbitrary: h) auto

context fixed_block
begin

lemma free_node_untouched:
  assumes "live_ok live frees" and "fb_inv fb (free_blocks frees \<union> outer_blocks live)"
    and "writes_live live m m'" and "i < 9" and "p \<in> set (frees i)"
  shows "m' p = m p"
proof -
  have sf: "safe (free_blocks frees \<union> outer_blocks live)" using fallback.inv_safe [OF assms(2)] by simp
  have pf: "(p, block_layout i) \<in> free_blocks frees" using assms(4,5) by (auto simp: free_blocks_def)
  have "cells (p, block_layout i) \<inter> cells (q, l) = {}" if m: "(q, l) \<in> live" for q l
  proof -
    have "q \<noteq> p" using assms(1,4,5) m by (force simp: live_ok_def)
    then have "cells (p, block_layout i) \<inter> cells (q, outer l) = {}"
      using sf pf outer_mem [OF m] by (auto simp: safe_def)
    moreover have "layout_ok l" using assms(1) m by (force simp: live_ok_def)
    ultimately show ?thesis using cells_outer by blast
  qed
  moreover have "{unat p..<unat p + unat NODE_SIZE} \<subseteq> cells (p, block_layout i)"
    using block_sizes(4) [OF assms(4)] by (auto simp: cells_def block_layout_def word_le_nat_alt)
  ultimately have "{unat p..<unat p + unat NODE_SIZE} \<inter> \<Union> (cells ` live) = {}" by fast
  with assms(3) show ?thesis by (simp add: writes_live_def)
qed

lemma write_inv:
  assumes "fsb_inv fb_inv s live" and "writes_live live (fs_next s) m"
  shows "fsb_inv fb_inv (s\<lparr>fs_next := m\<rparr>) live"
proof -
  obtain frees where f: "lists_ok s frees" "live_ok live frees"
      "fb_inv (fs_fallback s) (free_blocks frees \<union> outer_blocks live)"
    using assms(1) by (auto simp: fsb_inv_def)
  have "chain m (fs_list_heads s ! i) (frees i) = chain (fs_next s) (fs_list_heads s ! i) (frees i)" if "i < 9" for i
    by (rule chain_cong) (use free_node_untouched [OF f(2,3) assms(2) that] in simp)
  then have "lists_ok (s\<lparr>fs_next := m\<rparr>) frees" using f(1) by (simp add: lists_ok_def)
  with f(2,3) show ?thesis by (auto simp: fsb_inv_def)
qed

lemma run_inv: "fsb_run fb_alloc fb_dealloc s0 s live \<Longrightarrow> fsb_inv fb_inv s0 {} \<Longrightarrow> fsb_inv fb_inv s live"
proof (induction rule: fsb_run.induct)
  case (run_dealloc s live p l s')
  then show ?case using fsb_dealloc_inv [of s live p l] by auto
qed (auto intro: write_inv fsb_alloc_null_inv dest: fsb_alloc_inv)

lemma init_inv:
  assumes "fb_inv fb {}"
  shows "fsb_inv fb_inv (fsb_new fb mem) {}"
  unfolding fsb_inv_def
proof (intro exI conjI)
  show "lists_ok (fsb_new fb mem) (\<lambda>_. [])"
    by (simp add: lists_ok_def fsb_new_def block_sizes(1))
qed (use assms in \<open>simp_all add: live_ok_def free_blocks_def outer_blocks_def fsb_new_def\<close>)

lemma fsb_new_init:
  "fsb_init ini hs sz (fsb_new fb mem) = fsb_new (ini hs sz fb) mem"
  by (simp add: fsb_init_def fsb_new_def)

lemma run_safe:
  assumes "fb_inv (ini hs sz fb) {}"
    and "fsb_run fb_alloc fb_dealloc (fsb_init ini hs sz (fsb_new fb mem)) s live"
  shows "safe live" and "(p, l) \<in> live \<Longrightarrow> \<exists>s'. fsb_dealloc fb_dealloc p l s = Ret s'"
proof -
  have i: "fsb_inv fb_inv s live" using run_inv [OF assms(2)] init_inv [OF assms(1)] by (simp add: fsb_new_init)
  show "safe live" using fsb.inv_safe [OF i] by simp
  show "\<exists>s'. fsb_dealloc fb_dealloc p l s = Ret s'" if "(p, l) \<in> live" using fsb.dealloc_inv [OF i that] by blast
qed

end

text \<open>The bump allocator keeps the fallback's contract, so the blocks can be carved from it.\<close>

interpretation on_bump: fixed_block bump_alloc bump_dealloc bump_inv
  by unfold_locales

text \<open>C6: over any fallback that keeps the allocator contract, the blocks a client holds are
  aligned to their layout, pairwise disjoint and can be freed without a panic, after any sequence
  of allocations, frees and writes into its own blocks.\<close>

theorem block_allocator_safe:
  assumes "heap_alloc fb_alloc fb_dealloc fb_inv" and "fb_inv (fb_init hs sz fb) {}"
    and "fsb_run fb_alloc fb_dealloc (fsb_init fb_init hs sz (fsb_new fb mem)) s live"
  shows "safe live \<and> (\<forall>(p, l) \<in> live. \<exists>s'. fsb_dealloc fb_dealloc p l s = Ret s')"
proof -
  note fb = fixed_block.run_safe [OF fixed_block.intro [OF assms(1)], OF assms(2,3)]
  show ?thesis using fb by blast
qed

text \<open>C20: a freed block is the next one handed out for its size class, whatever the layout within
  the class, and the fallback is not touched.\<close>

theorem freed_block_reused:
  assumes "fsb_dealloc de p l s = Ret s'" and "list_index l = Some i" and "list_index k = Some i"
  shows "\<exists>s''. fsb_alloc al k s' = Ret (p, s'') \<and> fs_list_heads s'' = fs_list_heads s
    \<and> fs_fallback s'' = fs_fallback s \<and> fs_next s'' = (fs_next s)(p := None)"
  using assms
  by (auto simp: fsb_dealloc_def fsb_alloc_def outcome_simps idx_def split: if_splits)


text \<open>Concrete instances over the bump allocator.\<close>

definition demo_layout :: layout where "demo_layout = \<lparr>l_size = 10, l_align = 4\<rparr>"

definition demo_heap :: "bump fsb" where
  "demo_heap = fsb_init (\<lambda>hs sz _. \<lparr>b_heap_start = hs, b_heap_end = hs + sz, b_next = hs, b_allocations = 0\<rparr>)
     4096 4096 (fsb_new bump_new (\<lambda>_. None))"

definition demo_heap' :: "bump fsb" where
  "demo_heap' = demo_heap\<lparr>fs_fallback := \<lparr>b_heap_start = 4096, b_heap_end = 8192, b_next = 4112, b_allocations = 1\<rparr>\<rparr>"

lemma demo_layout_facts: "layout_ok demo_layout" "list_index demo_layout = Some 1"
  by (auto simp: layout_ok_def demo_layout_def list_index_def BLOCK_SIZES_def intro!: exI [of _ 2])

lemma demo_bump_alloc:
  "bump_alloc \<lparr>l_size = 16, l_align = 16\<rparr> \<lparr>b_heap_start = 4096, b_heap_end = 8192, b_next = 4096, b_allocations = 0\<rparr>
    = Ret (4096, \<lparr>b_heap_start = 4096, b_heap_end = 8192, b_next = 4112, b_allocations = 1\<rparr>)"
  by (simp add: bump_alloc_def align_up_def add_chk_def sub_chk_def checked_add_def)

lemma demo_heap_alloc: "fsb_alloc bump_alloc demo_layout demo_heap = Ret (4096, demo_heap')"
  using demo_layout_facts(2) block_sizes(1) block_sizes(3) [of 1]
  by (simp add: fsb_alloc_def demo_heap'_def demo_heap_def fsb_init_def fsb_new_def idx_def unwrap_def fallback_alloc_def
      block_layout_def BLOCK_SIZES_def demo_bump_alloc)

theorem block_allocator_safe_witness:
  "safe {(4096, demo_layout)} \<and> (\<exists>s'. fsb_dealloc bump_dealloc 4096 demo_layout demo_heap' = Ret s')"
proof -
  let ?ini = "\<lambda>hs sz (_ :: bump). \<lparr>b_heap_start = hs, b_heap_end = hs + sz, b_next = hs, b_allocations = 0\<rparr>"
  have "fsb_run bump_alloc bump_dealloc demo_heap demo_heap' (if (4096 :: usize) = 0 then {} else insert (4096, demo_layout) {})"
    by (rule run_alloc [OF run_start demo_layout_facts(1) demo_heap_alloc])
  then have r: "fsb_run bump_alloc bump_dealloc (fsb_init ?ini 4096 4096 (fsb_new bump_new (\<lambda>_. None))) demo_heap' {(4096, demo_layout)}"
    by (simp add: demo_heap_def)
  have "bump_inv (?ini 4096 4096 bump_new) {}" by (simp add: bump_inv_def safe_def)
  from block_allocator_safe [OF bump.heap_alloc_axioms, of ?ini, OF this r] show ?thesis by simp
qed

theorem freed_block_reused_witness:
  "\<exists>s' s''. fsb_dealloc bump_dealloc 4096 demo_layout demo_heap' = Ret s'
     \<and> fsb_alloc bump_alloc \<lparr>l_size = 16, l_align = 8\<rparr> s' = Ret (4096, s'')
     \<and> fs_list_heads s'' = fs_list_heads demo_heap' \<and> fs_fallback s'' = fs_fallback demo_heap'"
proof -
  have "\<exists>s'. fsb_dealloc bump_dealloc 4096 demo_layout demo_heap' = Ret s'"
    using demo_layout_facts(2) block_sizes(1)
    by (simp add: fsb_dealloc_def demo_heap'_def demo_heap_def fsb_init_def fsb_new_def idx_def BLOCK_SIZES_def NODE_SIZE_def)
  then obtain s' where s': "fsb_dealloc bump_dealloc 4096 demo_layout demo_heap' = Ret s'" by blast
  have "list_index \<lparr>l_size = 16, l_align = 8\<rparr> = Some 1" by (simp add: list_index_def BLOCK_SIZES_def)
  from freed_block_reused [OF s' demo_layout_facts(2) this] s' show ?thesis by blast
qed

end
