(* ===== verification/Memory.thy ===== *)
theory Memory
  imports FixedBlock
begin

section \<open>Frames, page mapping and the two heaps (kernel/src/allocator, vm/memory.rs, main.rs)\<close>

text \<open>
  The frame allocator hands out the frames of the usable memory regions in order. The x86_64
  crate's address, page and frame types and its page table mapper are parameters, collected in a
  record; a mapping operation gets the frame allocator and may take frames from it for page
  tables. The two calls of \<open>prepare_pages\<close> at boot map the kernel heap and the code heap.
\<close>

datatype region_kind = Usable | OtherKind nat

record region =
  r_start :: u64
  r_end :: u64
  r_kind :: region_kind

record frame_allocator =
  fa_memory_map :: "region list"
  fa_next :: usize

definition frame_allocator_init :: "region list \<Rightarrow> frame_allocator" where
  "frame_allocator_init memory_map = \<lparr>fa_memory_map = memory_map, fa_next = 0\<rparr>"

text \<open>\<open>(start..end).step_by(4096)\<close>.\<close>

definition step_range :: "u64 \<Rightarrow> u64 \<Rightarrow> u64 list" where
  "step_range s e = map (\<lambda>i. s + of_nat (4096 * i)) [0..<(unat e - unat s + 4095) div 4096]"

definition usable_addresses :: "region list \<Rightarrow> u64 list" where
  "usable_addresses regions =
     concat (map (\<lambda>r. step_range (r_start r) (r_end r)) (filter (\<lambda>r. r_kind r = Usable) regions))"

datatype page_flag = Present | Writable

record ('m, 'pg, 'fr, 'e) paging =
  pg_phys_frame :: "u64 \<Rightarrow> 'fr outcome"
  pg_virt_addr :: "u64 \<Rightarrow> u64 outcome"
  pg_virt_add :: "u64 \<Rightarrow> u64 \<Rightarrow> u64 outcome"
  pg_virt_sub :: "u64 \<Rightarrow> u64 \<Rightarrow> u64 outcome"
  pg_page_of :: "u64 \<Rightarrow> 'pg"
  pg_range_inclusive :: "'pg \<Rightarrow> 'pg \<Rightarrow> 'pg list"
  pg_map_to :: "'pg \<Rightarrow> 'fr \<Rightarrow> page_flag set \<Rightarrow> 'm \<times> frame_allocator \<Rightarrow> (('e + unit) \<times> 'm \<times> frame_allocator) outcome"
  pg_no_frame :: 'e

text \<open>\<open>usable_frames().nth(next)\<close>: the iterator builds each frame up to the one asked for.\<close>

primrec nth_frame :: "(u64 \<Rightarrow> 'fr outcome) \<Rightarrow> u64 list \<Rightarrow> nat \<Rightarrow> 'fr option outcome" where
  "nth_frame f [] n = Ret None"
| "nth_frame f (a # as) n = obind (f a) (\<lambda>fr. case n of 0 \<Rightarrow> Ret (Some fr) | Suc m \<Rightarrow> nth_frame f as m)"

definition allocate_frame :: "('m, 'pg, 'fr, 'e) paging \<Rightarrow> frame_allocator \<Rightarrow> ('fr option \<times> frame_allocator) outcome" where
  "allocate_frame P fa =
     obind (nth_frame (pg_phys_frame P) (usable_addresses (fa_memory_map fa)) (unat (fa_next fa))) (\<lambda>frame.
     obind (add_chk (fa_next fa) 1) (\<lambda>n. Ret (frame, fa\<lparr>fa_next := n\<rparr>)))"

primrec map_pages ::
    "('m, 'pg, 'fr, 'e) paging \<Rightarrow> 'pg list \<Rightarrow> 'm \<times> frame_allocator \<Rightarrow> (('e + unit) \<times> 'm \<times> frame_allocator) outcome" where
  "map_pages P [] s = Ret (Inr (), s)"
| "map_pages P (page # pages) s =
     obind (allocate_frame P (snd s)) (\<lambda>(frame, fa).
     case frame of
       None \<Rightarrow> Ret (Inl (pg_no_frame P), fst s, fa)
     | Some frame \<Rightarrow>
         obind (pg_map_to P page frame {Present, Writable} (fst s, fa)) (\<lambda>(r, s).
         case r of Inl e \<Rightarrow> Ret (Inl e, s) | Inr _ \<Rightarrow> map_pages P pages s))"

definition page_range :: "('m, 'pg, 'fr, 'e) paging \<Rightarrow> usize \<Rightarrow> usize \<Rightarrow> 'pg list outcome" where
  "page_range P heap_start heap_size =
     obind (pg_virt_addr P heap_start) (\<lambda>s.
     obind (pg_virt_add P s heap_size) (\<lambda>e.
     obind (pg_virt_sub P e 1) (\<lambda>e.
     Ret (pg_range_inclusive P (pg_page_of P s) (pg_page_of P e)))))"

definition prepare_pages ::
    "('m, 'pg, 'fr, 'e) paging \<Rightarrow> usize \<Rightarrow> usize \<Rightarrow> 'm \<times> frame_allocator \<Rightarrow> (('e + unit) \<times> 'm \<times> frame_allocator) outcome" where
  "prepare_pages P heap_start heap_size s =
     obind (page_range P heap_start heap_size) (\<lambda>pages. map_pages P pages s)"

definition HEAP_START :: usize where "HEAP_START = 0x444444440000"
definition HEAP_SIZE :: usize where "HEAP_SIZE = 2000 * 1024"
definition CODE_HEAP_START :: usize where "CODE_HEAP_START = 0x666666660000"
definition CODE_HEAP_SIZE :: usize where "CODE_HEAP_SIZE = 2000 * 1024"
definition PAGE_SIZE :: usize where "PAGE_SIZE = 4096"

text \<open>The global allocator and the code heap's manager, over the linked_list_allocator crate.\<close>

record ('m, 'f) boot_state =
  bs_mapper :: 'm
  bs_frames :: frame_allocator
  bs_allocator :: "'f fsb"
  bs_code_heap :: "'f option"

definition init_heap ::
    "('m, 'pg, 'fr, 'e) paging \<Rightarrow> (usize \<Rightarrow> usize \<Rightarrow> 'f \<Rightarrow> 'f) \<Rightarrow> ('m, 'f) boot_state \<Rightarrow> (('e + unit) \<times> ('m, 'f) boot_state) outcome" where
  "init_heap P fb_init b =
     obind (prepare_pages P HEAP_START HEAP_SIZE (bs_mapper b, bs_frames b)) (\<lambda>(r, m, fa).
     let b = b\<lparr>bs_mapper := m, bs_frames := fa\<rparr> in
     case r of
       Inl e \<Rightarrow> Ret (Inl e, b)
     | Inr _ \<Rightarrow> Ret (Inr (), b\<lparr>bs_allocator := fsb_init fb_init HEAP_START HEAP_SIZE (bs_allocator b)\<rparr>))"

definition init_code_heap ::
    "('m, 'pg, 'fr, 'e) paging \<Rightarrow> (usize \<Rightarrow> usize \<Rightarrow> 'f) \<Rightarrow> ('m, 'f) boot_state \<Rightarrow> (('e + unit) \<times> ('m, 'f) boot_state) outcome" where
  "init_code_heap P fb_new b =
     obind (prepare_pages P CODE_HEAP_START CODE_HEAP_SIZE (bs_mapper b, bs_frames b)) (\<lambda>(r, m, fa).
     let b = b\<lparr>bs_mapper := m, bs_frames := fa\<rparr> in
     case r of
       Inl e \<Rightarrow> Ret (Inl e, b)
     | Inr _ \<Rightarrow> Ret (Inr (), b\<lparr>bs_code_heap := Some (fb_new CODE_HEAP_START CODE_HEAP_SIZE)\<rparr>))"

text \<open>\<open>init_memory\<close>: the mapper is the bootloader's page table.\<close>

definition init_memory ::
    "('m, 'pg, 'fr, 'e) paging \<Rightarrow> (usize \<Rightarrow> usize \<Rightarrow> 'f \<Rightarrow> 'f) \<Rightarrow> (usize \<Rightarrow> usize \<Rightarrow> 'f) \<Rightarrow> 'f \<Rightarrow> (usize \<Rightarrow> usize option) \<Rightarrow>
     'm \<Rightarrow> region list \<Rightarrow> ('m, 'f) boot_state outcome" where
  "init_memory P fb_init fb_new fb mem m regions =
     obind (init_heap P fb_init \<lparr>bs_mapper = m, bs_frames = frame_allocator_init regions,
              bs_allocator = fsb_new fb mem, bs_code_heap = None\<rparr>) (\<lambda>(r, b).
     case r of
       Inl _ \<Rightarrow> Panic (PanicMsg ''heap initialization failed'')
     | Inr _ \<Rightarrow>
         obind (init_code_heap P fb_new b) (\<lambda>(r, b).
         case r of
           Inl _ \<Rightarrow> Panic (PanicMsg ''vm heap initialization failed'')
         | Inr _ \<Rightarrow> Ret b))"

subsection \<open>The code heap's memory manager (vm/memory.rs)\<close>

definition layout_from_size :: "usize \<Rightarrow> layout outcome" where
  "layout_from_size size' = (case from_size_align size' PAGE_SIZE of None \<Rightarrow> Panic UnwrapOnErr | Some l \<Rightarrow> Ret l)"

definition manager_page_size :: usize where "manager_page_size = PAGE_SIZE"

definition alloc_page_aligned :: "(layout \<Rightarrow> 'f \<Rightarrow> (usize \<times> 'f) outcome) \<Rightarrow> usize \<Rightarrow> 'f \<Rightarrow> (usize \<times> 'f) outcome" where
  "alloc_page_aligned fb_alloc size' fb =
     obind (layout_from_size size') (\<lambda>l.
     obind (fb_alloc l fb) (\<lambda>(p, fb). if p = 0 then Panic UnwrapOnErr else Ret (p, fb)))"

definition manager_dealloc :: "(usize \<Rightarrow> layout \<Rightarrow> 'f \<Rightarrow> 'f outcome) \<Rightarrow> usize \<Rightarrow> usize \<Rightarrow> 'f \<Rightarrow> 'f outcome" where
  "manager_dealloc fb_dealloc p size' fb =
     (if p = 0 then Panic UnwrapOnNone
      else obind (layout_from_size size') (\<lambda>l. fb_dealloc p l fb))"


subsection \<open>Usable frames\<close>

text \<open>The memory map as the bootloader builds it: usable regions start on a page boundary and do
  not overlap.\<close>

fun regions_ok :: "region list \<Rightarrow> bool" where
  "regions_ok [] \<longleftrightarrow> True"
| "regions_ok (r # rs) \<longleftrightarrow> regions_ok rs \<and> (r_kind r = Usable \<longrightarrow> unat (r_start r) mod 4096 = 0
     \<and> (\<forall>q \<in> set rs. r_kind q = Usable \<longrightarrow> unat (r_end q) \<le> unat (r_start r) \<or> unat (r_end r) \<le> unat (r_start q)))"

lemma step_range_nth:
  assumes "i < length (step_range s e)"
  shows "unat (step_range s e ! i) = unat s + 4096 * i" and "unat s + 4096 * i < unat e"
proof -
  have i: "i < (unat e - unat s + 4095) div 4096" using assms by (simp add: step_range_def)
  then show b: "unat s + 4096 * i < unat e" by linarith
  have "unat e < 2 ^ 64" using unsigned_less [of e, where ?'a = nat] by simp
  then have "unat s + 4096 * i < 2 ^ 64" "4096 * i < 2 ^ 64" using b by linarith+
  moreover from this(2) have "unat (of_nat (4096 * i) :: u64) = 4096 * i"
    by (simp add: unsigned_of_nat take_bit_nat_eq_self del: of_nat_mult)
  ultimately have "unat (s + of_nat (4096 * i)) = unat s + 4096 * i" by (simp add: unat_add_no_overflow del: of_nat_mult)
  moreover define n where "n = (unat e - unat s + 4095) div 4096"
  have "step_range s e ! i = s + of_nat (4096 * i)" using i unfolding step_range_def n_def [symmetric] by simp
  ultimately show "unat (step_range s e ! i) = unat s + 4096 * i" by metis
qed

lemma step_range_bounds:
  assumes "a \<in> set (step_range s e)"
  shows "unat s \<le> unat a" and "unat a < unat e" and "unat s mod 4096 = 0 \<Longrightarrow> unat a mod 4096 = 0"
proof -
  obtain i where i: "i < length (step_range s e)" "a = step_range s e ! i" using assms by (metis in_set_conv_nth)
  note n = step_range_nth [OF i(1)]
  show "unat s \<le> unat a" and "unat a < unat e" using n i(2) by simp_all
  show "unat a mod 4096 = 0" if "unat s mod 4096 = 0" using n(1) i(2) that by simp
qed

lemma step_range_distinct: "distinct (step_range s e)"
proof (unfold distinct_conv_nth, intro allI impI)
  fix i j assume ij: "i < length (step_range s e)" "j < length (step_range s e)" "i \<noteq> j"
  show "step_range s e ! i \<noteq> step_range s e ! j"
  proof
    assume "step_range s e ! i = step_range s e ! j"
    then have "unat s + 4096 * i = unat s + 4096 * j" using step_range_nth(1) ij(1,2) by metis
    then show False using ij(3) by simp
  qed
qed

lemma usable_addresses_Cons:
  "usable_addresses (r # rs) = (if r_kind r = Usable then step_range (r_start r) (r_end r) else []) @ usable_addresses rs"
  by (simp add: usable_addresses_def)

lemma usable_address_region:
  "a \<in> set (usable_addresses rs) \<Longrightarrow> \<exists>q \<in> set rs. r_kind q = Usable \<and> unat (r_start q) \<le> unat a \<and> unat a < unat (r_end q)"
  using step_range_bounds by (fastforce simp: usable_addresses_def)

lemma usable_addresses_ok:
  assumes "regions_ok rs"
  shows "distinct (usable_addresses rs)" and "\<forall>a \<in> set (usable_addresses rs). unat a mod 4096 = 0"
  using assms
proof (induction rs)
  case (Cons r rs)
  {
    case 1
    have "set (step_range (r_start r) (r_end r)) \<inter> set (usable_addresses rs) = {}" if "r_kind r = Usable"
      using usable_address_region step_range_bounds(1,2) 1 that by fastforce
    then show ?case using Cons 1 by (auto simp: usable_addresses_Cons step_range_distinct)
  next
    case 2
    then show ?case using Cons step_range_bounds(3) by (auto simp: usable_addresses_Cons)
  }
qed (simp_all add: usable_addresses_def)

lemma nth_frame_Some:
  "nth_frame f as n = Ret (Some fr) \<Longrightarrow> n < length as \<and> f (as ! n) = Ret fr"
proof (induction as arbitrary: n)
  case (Cons a as)
  then show ?case by (cases n) (auto simp: outcome_simps)
qed simp

lemma allocate_frame_Some:
  assumes "allocate_frame P fa = Ret (Some fr, fa')"
  shows "unat (fa_next fa) < length (usable_addresses (fa_memory_map fa))"
    and "pg_phys_frame P (usable_addresses (fa_memory_map fa) ! unat (fa_next fa)) = Ret fr"
    and "fa_memory_map fa' = fa_memory_map fa" and "unat (fa_next fa') = unat (fa_next fa) + 1"
  using assms nth_frame_Some
  by (fastforce simp: allocate_frame_def outcome_simps unat_add_no_overflow)+

subsection \<open>Mapping pages\<close>

lemma init_heap_Ok:
  assumes "init_heap P fb_init b = Ret (Inr u, b')"
  shows "prepare_pages P HEAP_START HEAP_SIZE (bs_mapper b, bs_frames b) = Ret (Inr (), bs_mapper b', bs_frames b')"
proof -
  obtain r m fa where 1: "prepare_pages P HEAP_START HEAP_SIZE (bs_mapper b, bs_frames b) = Ret (r, m, fa)"
    using assms by (auto simp: init_heap_def outcome_simps)
  then show ?thesis using assms by (cases r) (auto simp: init_heap_def Let_def)
qed

lemma init_code_heap_Ok:
  assumes "init_code_heap P fb_new b = Ret (Inr u, b')"
  shows "prepare_pages P CODE_HEAP_START CODE_HEAP_SIZE (bs_mapper b, bs_frames b) = Ret (Inr (), bs_mapper b', bs_frames b')"
proof -
  obtain r m fa where 1: "prepare_pages P CODE_HEAP_START CODE_HEAP_SIZE (bs_mapper b, bs_frames b) = Ret (r, m, fa)"
    using assms by (auto simp: init_code_heap_def outcome_simps)
  then show ?thesis using assms by (cases r) (auto simp: init_code_heap_def Let_def)
qed

text \<open>What the code relies on of the mapper: \<open>map_to\<close> succeeds only on an unmapped page, adds just
  that mapping, and uses the frame allocator only to take further frames; and two addresses of the
  same frame lie in the same page of memory.\<close>

locale page_mapper =
  fixes P :: "('m, 'pg, 'fr, 'e) paging"
    and table :: "'m \<Rightarrow> 'pg \<Rightarrow> ('fr \<times> page_flag set) option"
  assumes map_to_ok: "pg_map_to P pg fr fl (m, fa) = Ret (Inr (), m', fa') \<Longrightarrow>
      table m pg = None \<and> table m' = (table m)(pg \<mapsto> (fr, fl)) \<and> fa_memory_map fa' = fa_memory_map fa
      \<and> unat (fa_next fa) \<le> unat (fa_next fa')"
    and frame_page: "pg_phys_frame P a = Ret fr \<Longrightarrow> pg_phys_frame P b = Ret fr \<Longrightarrow> unat a div 4096 = unat b div 4096"
begin

text \<open>\<open>mapped_by ix ps\<close>: the pages \<open>ps\<close> were mapped, page \<open>p\<close> to usable frame number \<open>ix p\<close>.\<close>

definition mapped_by :: "region list \<Rightarrow> ('pg \<Rightarrow> nat) \<Rightarrow> 'pg set \<Rightarrow> nat \<Rightarrow> nat \<Rightarrow> 'm \<Rightarrow> 'm \<Rightarrow> bool" where
  "mapped_by rs ix ps n n' m m' \<longleftrightarrow>
     (\<forall>p \<in> ps. n \<le> ix p \<and> ix p < n' \<and> ix p < length (usable_addresses rs)
        \<and> (\<exists>fr. pg_phys_frame P (usable_addresses rs ! ix p) = Ret fr \<and> table m' p = Some (fr, {Present, Writable})))
     \<and> inj_on ix ps \<and> (\<forall>q. q \<notin> ps \<longrightarrow> table m' q = table m q) \<and> (\<forall>p \<in> ps. table m p = None) \<and> n \<le> n'"

lemma map_pages_mapped:
  assumes "map_pages P ps (m, fa) = Ret (Inr (), m', fa')"
  shows "fa_memory_map fa' = fa_memory_map fa \<and> (\<exists>ix. mapped_by (fa_memory_map fa) ix (set ps) (unat (fa_next fa)) (unat (fa_next fa')) m m')"
  using assms
proof (induction ps arbitrary: m fa)
  case Nil
  then show ?case by (auto simp: mapped_by_def)
next
  case (Cons p ps)
  obtain fr fa1 m2 fa2 where s: "allocate_frame P fa = Ret (Some fr, fa1)"
      "pg_map_to P p fr {Present, Writable} (m, fa1) = Ret (Inr (), m2, fa2)" "map_pages P ps (m2, fa2) = Ret (Inr (), m', fa')"
  proof -
    obtain fo fa1 where 1: "allocate_frame P fa = Ret (fo, fa1)" using Cons.prems by (auto simp: outcome_simps)
    then obtain fr where 2: "fo = Some fr" using Cons.prems by (cases fo) auto
    obtain r m2 fa2 where 3: "pg_map_to P p fr {Present, Writable} (m, fa1) = Ret (r, m2, fa2)"
      using Cons.prems 1 2 by (auto simp: outcome_simps)
    then have "r = Inr ()" using Cons.prems 1 2 by (cases r) auto
    then show thesis using that Cons.prems 1 2 3 by simp
  qed
  note a = allocate_frame_Some [OF s(1)] and mt = map_to_ok [OF s(2)]
  have mm: "fa_memory_map fa2 = fa_memory_map fa" using a(3) mt by simp
  obtain ix where ix: "mapped_by (fa_memory_map fa) ix (set ps) (unat (fa_next fa2)) (unat (fa_next fa')) m2 m'"
      "fa_memory_map fa' = fa_memory_map fa"
    using Cons.IH [OF s(3)] mm by auto
  have pn: "p \<notin> set ps" using ix(1) mt by (auto simp: mapped_by_def)
  have n: "unat (fa_next fa) < unat (fa_next fa2)" using a(4) mt by simp
  have tp: "table m' p = Some (fr, {Present, Writable})" using ix(1) pn mt by (simp add: mapped_by_def)
  have none: "table m q = None" if "q \<in> set ps" for q
  proof -
    have "table m2 q = None" "q \<noteq> p" using ix(1) pn that by (auto simp: mapped_by_def)
    then show ?thesis using mt by simp
  qed
  have "mapped_by (fa_memory_map fa) (ix(p := unat (fa_next fa))) (set (p # ps)) (unat (fa_next fa)) (unat (fa_next fa')) m m'"
    using ix(1) pn n tp a(1,2) mt none unfolding mapped_by_def
    by (auto simp: inj_on_def)
  with ix(2) show ?case by blast
qed

lemma mapped_by_trans:
  assumes "mapped_by rs ix ps n n' m m'" and "mapped_by rs ix' qs n' n'' m' m''"
  shows "mapped_by rs (\<lambda>p. if p \<in> ps then ix p else ix' p) (ps \<union> qs) n n'' m m''" and "ps \<inter> qs = {}"
proof -
  show d: "ps \<inter> qs = {}" using assms unfolding mapped_by_def by fastforce
  show "mapped_by rs (\<lambda>p. if p \<in> ps then ix p else ix' p) (ps \<union> qs) n n'' m m''"
    unfolding mapped_by_def
  proof (intro conjI)
    show "inj_on (\<lambda>p. if p \<in> ps then ix p else ix' p) (ps \<union> qs)"
    proof (rule inj_onI)
      fix p q assume pq: "p \<in> ps \<union> qs" "q \<in> ps \<union> qs" "(if p \<in> ps then ix p else ix' p) = (if q \<in> ps then ix q else ix' q)"
      have lo: "ix x < n'" if "x \<in> ps" for x using assms(1) that by (simp add: mapped_by_def)
      have hi: "n' \<le> ix' x" if "x \<in> qs" for x using assms(2) that by (simp add: mapped_by_def)
      have "inj_on ix ps" "inj_on ix' qs" using assms by (simp_all add: mapped_by_def)
      then show "p = q"
        using pq lo [of p] lo [of q] hi [of p] hi [of q] by (cases "p \<in> ps"; cases "q \<in> ps") (auto dest: inj_onD)
    qed
  qed (use assms d in \<open>auto simp: mapped_by_def\<close>)
qed

lemma mapped_by_frames:
  assumes "mapped_by rs ix ps n n' m m'" and "regions_ok rs"
  shows "inj_on (table m') ps"
    and "p \<in> ps \<Longrightarrow> \<exists>a \<in> set (usable_addresses rs). \<exists>fr. pg_phys_frame P a = Ret fr \<and> table m' p = Some (fr, {Present, Writable})"
proof -
  let ?as = "usable_addresses rs"
  show "p \<in> ps \<Longrightarrow> \<exists>a \<in> set ?as. \<exists>fr. pg_phys_frame P a = Ret fr \<and> table m' p = Some (fr, {Present, Writable})"
    using assms(1) unfolding mapped_by_def by (metis nth_mem)
  show "inj_on (table m') ps"
  proof (rule inj_onI)
    fix p q assume pq: "p \<in> ps" "q \<in> ps" "table m' p = table m' q"
    then obtain fr where fr: "pg_phys_frame P (?as ! ix p) = Ret fr" "pg_phys_frame P (?as ! ix q) = Ret fr"
        "ix p < length ?as" "ix q < length ?as"
      using assms(1) unfolding mapped_by_def by (metis option.inject prod.inject)
    have "unat (?as ! ix p) div 4096 = unat (?as ! ix q) div 4096" using frame_page fr(1,2) .
    moreover have "unat (?as ! ix p) mod 4096 = 0" "unat (?as ! ix q) mod 4096 = 0"
      using usable_addresses_ok(2) [OF assms(2)] fr(3,4) by simp_all
    ultimately have "unat (?as ! ix p) = unat (?as ! ix q)" by (metis div_mult_mod_eq)
    then have "?as ! ix p = ?as ! ix q" by (rule unsigned_word_eqI)
    then have "ix p = ix q" using usable_addresses_ok(1) [OF assms(2)] fr(3,4) by (simp add: nth_eq_iff_index_eq)
    then show "p = q" using assms(1) pq(1,2) by (auto simp: mapped_by_def inj_on_def)
  qed
qed

lemma prepare_pages_Ok:
  assumes "prepare_pages P hs sz (m, fa) = Ret (Inr (), m', fa')"
  shows "\<exists>ps. page_range P hs sz = Ret ps \<and> fa_memory_map fa' = fa_memory_map fa
    \<and> (\<exists>ix. mapped_by (fa_memory_map fa) ix (set ps) (unat (fa_next fa)) (unat (fa_next fa')) m m')"
  using assms map_pages_mapped by (auto simp: prepare_pages_def outcome_simps)

lemma init_memory_maps:
  assumes "init_memory P fb_init fb_new fb mem m regions = Ret b" and "regions_ok regions"
  shows "\<exists>hp cp. page_range P HEAP_START HEAP_SIZE = Ret hp \<and> page_range P CODE_HEAP_START CODE_HEAP_SIZE = Ret cp
    \<and> set hp \<inter> set cp = {} \<and> inj_on (table (bs_mapper b)) (set hp \<union> set cp)
    \<and> (\<forall>p \<in> set hp \<union> set cp. table m p = None
          \<and> (\<exists>a \<in> set (usable_addresses regions). \<exists>fr. pg_phys_frame P a = Ret fr
               \<and> table (bs_mapper b) p = Some (fr, {Present, Writable})))
    \<and> (\<forall>p. p \<notin> set hp \<union> set cp \<longrightarrow> table (bs_mapper b) p = table m p)"
proof -
  obtain m1 fa1 m2 fa2 where s: "prepare_pages P HEAP_START HEAP_SIZE (m, frame_allocator_init regions) = Ret (Inr (), m1, fa1)"
      "prepare_pages P CODE_HEAP_START CODE_HEAP_SIZE (m1, fa1) = Ret (Inr (), m2, fa2)" "bs_mapper b = m2"
  proof -
    obtain r b1 where 1: "init_heap P fb_init \<lparr>bs_mapper = m, bs_frames = frame_allocator_init regions,
        bs_allocator = fsb_new fb mem, bs_code_heap = None\<rparr> = Ret (r, b1)"
      using assms(1) by (auto simp: init_memory_def outcome_simps)
    have "\<exists>u. r = Inr u" using assms(1) 1 by (cases r) (auto simp: init_memory_def)
    then have r: "r = Inr ()" by simp
    obtain q b2 where 2: "init_code_heap P fb_new b1 = Ret (q, b2)"
      using assms(1) 1 r by (auto simp: init_memory_def outcome_simps)
    have "\<exists>u. q = Inr u" using assms(1) 1 2 r by (cases q) (auto simp: init_memory_def)
    then have "q = Inr ()" "b2 = b" using assms(1) 1 2 r by (auto simp: init_memory_def)
    then show thesis
      using that init_heap_Ok [OF 1 [unfolded r]] init_code_heap_Ok [where b = b1 and b' = b and P = P and fb_new = fb_new] 2 by (auto simp: frame_allocator_init_def)
  qed
  obtain hp ix where h: "page_range P HEAP_START HEAP_SIZE = Ret hp" "fa_memory_map fa1 = regions"
      "mapped_by regions ix (set hp) 0 (unat (fa_next fa1)) m m1"
    using prepare_pages_Ok [OF s(1)] by (auto simp: frame_allocator_init_def)
  obtain cp ix' where c: "page_range P CODE_HEAP_START CODE_HEAP_SIZE = Ret cp"
      "mapped_by regions ix' (set cp) (unat (fa_next fa1)) (unat (fa_next fa2)) m1 m2"
    using prepare_pages_Ok [OF s(2)] h(2) by auto
  note t = mapped_by_trans [OF h(3) c(2)]
  note fr = mapped_by_frames [OF t(1) assms(2)]
  have "\<forall>p \<in> set hp \<union> set cp. table m p = None" "\<forall>p. p \<notin> set hp \<union> set cp \<longrightarrow> table m2 p = table m p"
    using t(1) by (simp_all add: mapped_by_def)
  then show ?thesis
    using h(1) c(1) t(2) fr unfolding s(3) by (intro exI [of _ hp] exI [of _ cp] conjI) simp_all
qed

end

text \<open>A flat page table meets the mapper's contract.\<close>

definition flat_paging :: "(nat \<rightharpoonup> nat \<times> page_flag set, nat, nat, nat) paging" where
  "flat_paging = \<lparr>pg_phys_frame = (\<lambda>a. if unat a < 2 ^ 52 then Ret (unat a div 4096) else Panic AssertFailed),
     pg_virt_addr = Ret, pg_virt_add = add_chk, pg_virt_sub = sub_chk, pg_page_of = (\<lambda>a. unat a div 4096),
     pg_range_inclusive = (\<lambda>p q. [p..<Suc q]),
     pg_map_to = (\<lambda>p fr fl (m, fa). if m p = None then Ret (Inr (), m(p \<mapsto> (fr, fl)), fa) else Ret (Inl 1, m, fa)),
     pg_no_frame = 0\<rparr>"

interpretation flat: page_mapper flat_paging "\<lambda>m. m"
  by unfold_locales (auto simp: flat_paging_def split: if_splits)


lemma flat_frame:
  assumes "n < length as" and "\<forall>a \<in> set as. unat a < 2 ^ 52"
  shows "nth_frame (pg_phys_frame flat_paging) as n = Ret (Some (unat (as ! n) div 4096))"
  using assms
proof (induction as arbitrary: n)
  case (Cons a as)
  then show ?case by (cases n) (auto simp: flat_paging_def)
qed simp

lemma flat_map_pages:
  assumes "\<forall>a \<in> set (usable_addresses (fa_memory_map fa)). unat a < 2 ^ 52"
    and "unat (fa_next fa) + length ps \<le> length (usable_addresses (fa_memory_map fa))" and "unat (fa_next fa) + length ps < 2 ^ 64"
    and "distinct ps" and "\<forall>p \<in> set ps. m p = None"
  shows "\<exists>m' fa'. map_pages flat_paging ps (m, fa) = Ret (Inr (), m', fa') \<and> dom m' = dom m \<union> set ps
    \<and> fa_memory_map fa' = fa_memory_map fa \<and> unat (fa_next fa') = unat (fa_next fa) + length ps"
  using assms
proof (induction ps arbitrary: m fa)
  case (Cons p ps)
  let ?as = "usable_addresses (fa_memory_map fa)" and ?fa = "fa\<lparr>fa_next := fa_next fa + 1\<rparr>"
  let ?m = "m(p \<mapsto> (unat (?as ! unat (fa_next fa)) div 4096, {Present, Writable}))"
  have n: "unat (fa_next fa + 1) = unat (fa_next fa) + 1" using Cons.prems(3) by (simp add: unat_add_no_overflow)
  have "allocate_frame flat_paging fa = Ret (Some (unat (?as ! unat (fa_next fa)) div 4096), ?fa)"
    using flat_frame [of "unat (fa_next fa)" ?as] Cons.prems(1-3) by (simp add: allocate_frame_def add_chk_def)
  then have s: "map_pages flat_paging (p # ps) (m, fa) = map_pages flat_paging ps (?m, ?fa)"
    using Cons.prems(5) by (simp add: flat_paging_def)
  have d: "dom ?m = insert p (dom m)" by simp
  have "\<exists>m' fa'. map_pages flat_paging ps (?m, ?fa) = Ret (Inr (), m', fa') \<and> dom m' = dom ?m \<union> set ps
    \<and> fa_memory_map fa' = fa_memory_map ?fa \<and> unat (fa_next fa') = unat (fa_next ?fa) + length ps"
    by (rule Cons.IH) (use Cons.prems n in auto)
  then show ?case unfolding s d using n by auto
qed simp

lemma flat_prepare_pages:
  assumes "\<forall>a \<in> set (usable_addresses (fa_memory_map fa)). unat a < 2 ^ 52"
    and "page_range flat_paging hs sz = Ret [p..<p + n]" and "\<forall>q \<in> {p..<p + n}. m q = None"
    and "unat (fa_next fa) + n \<le> length (usable_addresses (fa_memory_map fa))" and "unat (fa_next fa) + n < 2 ^ 64"
  shows "\<exists>m' fa'. prepare_pages flat_paging hs sz (m, fa) = Ret (Inr (), m', fa') \<and> dom m' = dom m \<union> {p..<p + n}
    \<and> fa_memory_map fa' = fa_memory_map fa \<and> unat (fa_next fa') = unat (fa_next fa) + n"
  using flat_map_pages [of fa "[p..<p + n]" m] assms by (simp add: prepare_pages_def)

definition demo_regions :: "region list" where
  "demo_regions = [\<lparr>r_start = 0, r_end = 0x1000, r_kind = OtherKind 1\<rparr>, \<lparr>r_start = 0x1000, r_end = 0x801000, r_kind = Usable\<rparr>]"

lemma demo_regions_facts:
  "regions_ok demo_regions" "length (usable_addresses demo_regions) = 2048"
  "\<forall>a \<in> set (usable_addresses demo_regions). unat a < 2 ^ 52"
proof -
  show "regions_ok demo_regions" by (simp add: demo_regions_def)
  have u: "usable_addresses demo_regions = step_range 0x1000 0x801000" by (simp add: demo_regions_def usable_addresses_def)
  then show "length (usable_addresses demo_regions) = 2048" by (simp add: step_range_def)
  show "\<forall>a \<in> set (usable_addresses demo_regions). unat a < 2 ^ 52"
    using step_range_bounds(2) [of _ "0x1000" "0x801000"] u by fastforce
qed

lemma flat_ranges:
  "page_range flat_paging HEAP_START HEAP_SIZE = Ret [0x444444440..<0x444444440 + 500]"
  "page_range flat_paging CODE_HEAP_START CODE_HEAP_SIZE = Ret [0x666666660..<0x666666660 + 500]"
  by (simp_all add: page_range_def flat_paging_def HEAP_START_def HEAP_SIZE_def CODE_HEAP_START_def CODE_HEAP_SIZE_def
      add_chk_def sub_chk_def del: upt_Suc)



subsection \<open>The code heap\<close>

text \<open>Over an allocator that keeps the contract, the manager's blocks are page-aligned and disjoint
  from the live ones.\<close>

lemma layout_from_size_ok:
  assumes "0 < unat size'" and "unat size' + 4096 \<le> 2 ^ 63"
  shows "layout_from_size size' = Ret \<lparr>l_size = size', l_align = PAGE_SIZE\<rparr>" and "layout_ok \<lparr>l_size = size', l_align = PAGE_SIZE\<rparr>"
proof -
  have "size' \<le> -1 - (PAGE_SIZE - 1)" using assms(2) by (simp add: PAGE_SIZE_def word_le_nat_alt)
  then show "layout_from_size size' = Ret \<lparr>l_size = size', l_align = PAGE_SIZE\<rparr>"
    by (simp add: layout_from_size_def from_size_align_def PAGE_SIZE_def)
  have "\<exists>k < 63. unat PAGE_SIZE = 2 ^ k" by (rule exI [of _ 12]) (simp add: PAGE_SIZE_def)
  then show "layout_ok \<lparr>l_size = size', l_align = PAGE_SIZE\<rparr>" using assms by (simp add: layout_ok_def PAGE_SIZE_def)
qed

lemma code_heap_alloc:
  assumes "heap_alloc fb_alloc fb_dealloc fb_inv" and "fb_inv fb live"
    and "0 < unat size'" and "unat size' + 4096 \<le> 2 ^ 63" and "alloc_page_aligned fb_alloc size' fb = Ret (p, fb')"
  shows "unat p mod 4096 = 0 \<and> fb_inv fb' (insert (p, \<lparr>l_size = size', l_align = PAGE_SIZE\<rparr>) live)
    \<and> (\<forall>b \<in> live. cells b \<inter> cells (p, \<lparr>l_size = size', l_align = PAGE_SIZE\<rparr>) = {})"
proof -
  let ?l = "\<lparr>l_size = size', l_align = PAGE_SIZE\<rparr>"
  note lo = layout_from_size_ok [OF assms(3,4)]
  have a: "fb_alloc ?l fb = Ret (p, fb')" "p \<noteq> 0"
    using assms(5) lo(1) by (auto simp: alloc_page_aligned_def outcome_simps split: if_splits)
  have n: "(p, ?l) \<notin> live" and i: "fb_inv fb' (insert (p, ?l) live)"
    using heap_alloc.alloc_inv [OF assms(1,2) lo(2) a] by simp_all
  have s: "safe (insert (p, ?l) live)" using heap_alloc.inv_safe [OF assms(1) i] by simp
  have "unat p mod 4096 = 0" using safe_block(2) [OF s, of p ?l] by (simp add: PAGE_SIZE_def)
  moreover have "cells b \<inter> cells (p, ?l) = {}" if "b \<in> live" for b
    using s n that by (auto simp: safe_def)
  ultimately show ?thesis using i by blast
qed

end
