(* ===== verification/Graphics.thy ===== *)
theory Graphics
  imports Prelude
begin

section \<open>Drawing on the framebuffer (kernel/src/graphics/mod.rs)\<close>

text \<open>
  The framebuffer is the byte slice the bootloader maps, with its geometry. The global
  \<open>FRAMEBUFFER\<close> cell is the state: \<open>None\<close> until \<open>init_graphics\<close> has run. All offsets are
  64-bit and checked, as are the slice accesses. The specification reads a byte's position as
  (row, column, channel) and says which bytes a rectangle sets.
\<close>

record rgb =
  red :: u8
  green :: u8
  blue :: u8

definition rgb_from :: "u8 \<Rightarrow> u8 \<Rightarrow> u8 \<Rightarrow> rgb" where
  "rgb_from r g b = \<lparr>red = r, green = g, blue = b\<rparr>"

definition rgb_hex :: "u32 \<Rightarrow> rgb" where
  "rgb_hex hex = \<lparr>red = ucast (drop_bit 16 hex), green = ucast (drop_bit 8 hex), blue = ucast hex\<rparr>"

record framebuffer =
  fb_buffer :: "u8 list"
  fb_height :: usize
  fb_width :: usize
  fb_stride :: usize
  fb_bpp :: usize

text \<open>What the bootloader tells about the screen.\<close>

record framebuffer_info =
  horizontal_resolution :: usize
  vertical_resolution :: usize
  info_stride :: usize
  info_bytes_per_pixel :: usize

definition obtain_buffer :: "framebuffer option \<Rightarrow> framebuffer outcome" where
  "obtain_buffer g = unwrap g"

definition set_pixel :: "u8 list \<Rightarrow> usize \<Rightarrow> rgb \<Rightarrow> u8 list outcome" where
  "set_pixel buf offset color =
     obind (upd buf (unat offset) (blue color)) (\<lambda>buf.
     obind (add_chk offset 1) (\<lambda>o1.
     obind (upd buf (unat o1) (green color)) (\<lambda>buf.
     obind (add_chk offset 2) (\<lambda>o2.
     upd buf (unat o2) (red color)))))"

definition pixel_offset :: "framebuffer \<Rightarrow> usize \<Rightarrow> usize \<Rightarrow> usize outcome" where
  "pixel_offset buf x y =
     obind (mul_chk y (fb_stride buf)) (\<lambda>a. obind (mul_chk x (fb_bpp buf)) (\<lambda>b. add_chk a b))"

definition draw_pixel :: "usize \<Rightarrow> usize \<Rightarrow> rgb \<Rightarrow> framebuffer option \<Rightarrow> framebuffer option outcome" where
  "draw_pixel x y color g =
     obind (obtain_buffer g) (\<lambda>buf.
     obind (pixel_offset buf x y) (\<lambda>offset.
     obind (set_pixel (fb_buffer buf) offset color) (\<lambda>bs. Ret (Some (buf\<lparr>fb_buffer := bs\<rparr>)))))"

primrec line_loop :: "nat \<Rightarrow> usize \<Rightarrow> usize \<Rightarrow> rgb \<Rightarrow> u8 list \<Rightarrow> u8 list outcome" where
  "line_loop 0 bpp offset color bs = Ret bs"
| "line_loop (Suc n) bpp offset color bs =
     obind (set_pixel bs offset color) (\<lambda>bs.
     obind (add_chk offset bpp) (\<lambda>offset.
     line_loop n bpp offset color bs))"

definition draw_hori_line :: "usize \<Rightarrow> usize \<Rightarrow> usize \<Rightarrow> rgb \<Rightarrow> framebuffer option \<Rightarrow> framebuffer option outcome" where
  "draw_hori_line x y len color g =
     obind (obtain_buffer g) (\<lambda>buf.
     obind (add_chk x len) (\<lambda>e.
     if \<not> e \<le> fb_width buf then Panic AssertFailed else
     obind (pixel_offset buf x y) (\<lambda>offset.
     obind (line_loop (unat len) (fb_bpp buf) offset color (fb_buffer buf)) (\<lambda>bs.
     Ret (Some (buf\<lparr>fb_buffer := bs\<rparr>))))))"

primrec rect_loop :: "nat \<Rightarrow> nat \<Rightarrow> usize \<Rightarrow> usize \<Rightarrow> usize \<Rightarrow> rgb \<Rightarrow> u8 list \<Rightarrow> u8 list outcome" where
  "rect_loop 0 w bpp stride line_offset color bs = Ret bs"
| "rect_loop (Suc h) w bpp stride line_offset color bs =
     obind (line_loop w bpp line_offset color bs) (\<lambda>bs.
     obind (add_chk line_offset stride) (\<lambda>line_offset.
     rect_loop h w bpp stride line_offset color bs))"

definition draw_rect ::
    "usize \<Rightarrow> usize \<Rightarrow> usize \<Rightarrow> usize \<Rightarrow> rgb \<Rightarrow> framebuffer option \<Rightarrow> framebuffer option outcome" where
  "draw_rect x y w h color g =
     obind (obtain_buffer g) (\<lambda>buf.
     obind (add_chk x w) (\<lambda>xe.
     if \<not> xe \<le> fb_width buf then Panic AssertFailed else
     obind (add_chk y h) (\<lambda>ye.
     if \<not> ye \<le> fb_width buf then Panic AssertFailed else
     obind (pixel_offset buf x y) (\<lambda>line_offset.
     obind (rect_loop (unat h) (unat w) (fb_bpp buf) (fb_stride buf) line_offset color (fb_buffer buf)) (\<lambda>bs.
     Ret (Some (buf\<lparr>fb_buffer := bs\<rparr>)))))))"

text \<open>\<open>init_once\<close> keeps a cell that is already initialised.\<close>

definition init_graphics :: "framebuffer_info \<Rightarrow> u8 list \<Rightarrow> framebuffer option \<Rightarrow> framebuffer option outcome" where
  "init_graphics info buffer g =
     obind (case g of
              Some fb \<Rightarrow> Ret (Some fb)
            | None \<Rightarrow> obind (mul_chk (info_stride info) (info_bytes_per_pixel info)) (\<lambda>stride.
                Ret (Some \<lparr>fb_buffer = buffer, fb_height = vertical_resolution info,
                  fb_width = horizontal_resolution info, fb_stride = stride,
                  fb_bpp = info_bytes_per_pixel info\<rparr>)))
       (\<lambda>g. draw_rect 0 0 (horizontal_resolution info) (vertical_resolution info) (rgb_hex 0x111111) g)"

text \<open>The function the kernel gives to the programs of the virtual machine (kernel/src/vm/mod.rs):
  the casts from \<open>i64\<close> keep the bits.\<close>

definition test_draw_rect ::
    "64 word \<Rightarrow> 64 word \<Rightarrow> 64 word \<Rightarrow> 64 word \<Rightarrow> framebuffer option \<Rightarrow> framebuffer option outcome" where
  "test_draw_rect x y w h g = draw_rect x y w h (rgb_from 81 45 168) g"

subsection \<open>Bytes of a line and of a rectangle\<close>

definition channel :: "rgb \<Rightarrow> nat \<Rightarrow> u8" where
  "channel c i = (if i = 0 then blue c else if i = 1 then green c else red c)"

definition paint_line :: "nat \<Rightarrow> nat \<Rightarrow> nat \<Rightarrow> rgb \<Rightarrow> u8 list \<Rightarrow> u8 list" where
  "paint_line n B off c bs =
     map (\<lambda>k. if off \<le> k \<and> (k - off) div B < n \<and> (k - off) mod B < 3
              then channel c ((k - off) mod B) else bs ! k) [0..<length bs]"

text \<open>The specification: row, column and channel of byte \<open>k\<close> are \<open>k div S\<close>,
  \<open>k mod S div B\<close> and \<open>k mod S mod B\<close>.\<close>

definition paint_rect :: "nat \<Rightarrow> nat \<Rightarrow> nat \<Rightarrow> nat \<Rightarrow> nat \<Rightarrow> nat \<Rightarrow> rgb \<Rightarrow> u8 list \<Rightarrow> u8 list" where
  "paint_rect S B x y w h c bs =
     map (\<lambda>k. let row = k div S; col = k mod S div B; ch = k mod S mod B in
              if y \<le> row \<and> row < y + h \<and> x \<le> col \<and> col < x + w \<and> ch < 3
              then channel c ch else bs ! k) [0..<length bs]"

lemma paint_line_length [simp]: "length (paint_line n B off c bs) = length bs"
  by (simp add: paint_line_def)

lemma paint_rect_length [simp]: "length (paint_rect S B x y w h c bs) = length bs"
  by (simp add: paint_rect_def)

lemma set_pixel_Ret:
  assumes "unat off + 2 < length bs" and "length bs < 2 ^ 63"
  shows "set_pixel bs off c = Ret (bs[unat off := blue c, unat off + 1 := green c, unat off + 2 := red c])"
proof -
  have "unat (off + 1) = unat off + 1" "unat (off + 2) = unat off + 2"
    using assms by (simp_all add: unat_add_no_overflow)
  then show ?thesis using assms by (simp add: set_pixel_def add_chk_def)
qed

lemma paint_line_Suc:
  assumes "3 \<le> B" and "off + 2 < length bs"
  shows "paint_line n B (off + B) c (bs[off := blue c, off + 1 := green c, off + 2 := red c])
       = paint_line (Suc n) B off c bs"
proof (rule nth_equalityI)
  fix k assume "k < length (paint_line n B (off + B) c (bs[off := blue c, off + 1 := green c, off + 2 := red c]))"
  then have k: "k < length bs" by simp
  consider "k < off" | "off \<le> k" "k < off + B" | "off + B \<le> k" by linarith
  then show "paint_line n B (off + B) c (bs[off := blue c, off + 1 := green c, off + 2 := red c]) ! k
      = paint_line (Suc n) B off c bs ! k"
  proof cases
    case 1
    then show ?thesis using k by (simp add: paint_line_def)
  next
    case 2
    then have "(k - off) div B = 0" "(k - off) mod B = k - off" by simp_all
    moreover have "k - off = 0 \<and> k = off \<or> k - off = 1 \<and> k = off + 1 \<or> k - off = 2 \<and> k = off + 2 \<or> 3 \<le> k - off \<and> off + 3 \<le> k"
      using 2 by linarith
    ultimately show ?thesis using 2 k assms(2) by (auto simp: paint_line_def channel_def)
  next
    case 3
    then obtain d where d: "k = off + B + d" using le_Suc_ex by blast
    moreover have "B \<noteq> 0" using assms(1) by auto
    then have "(d + B) div B = Suc (d div B)" by (simp add: div_add_self2)
    ultimately have "(k - off) div B = Suc ((k - (off + B)) div B)" "(k - off) mod B = (k - (off + B)) mod B"
      by (simp_all add: add.commute)
    then show ?thesis using 3 k assms by (simp add: paint_line_def)
  qed
qed simp

lemma line_loop_Ret:
  assumes "unat off + n * unat bpp \<le> length bs" and "length bs < 2 ^ 63" and "3 \<le> unat bpp"
  shows "line_loop n bpp off c bs = Ret (paint_line n (unat bpp) (unat off) c bs)"
  using assms
proof (induction n arbitrary: off bs)
  case 0
  then show ?case by (auto simp: paint_line_def intro: nth_equalityI)
next
  case (Suc n)
  have fit: "unat off + unat bpp + n * unat bpp \<le> length bs" using Suc.prems(1) by (simp add: algebra_simps)
  have o2: "unat off + 2 < length bs" using fit Suc.prems(3) by linarith
  have nov: "unat off + unat bpp < 2 ^ 64" using order.strict_trans1 [OF fit Suc.prems(2)] by simp
  then have ob: "unat (off + bpp) = unat off + unat bpp" by (simp add: unat_add_no_overflow)
  show ?case
    using Suc.IH [of "off + bpp" "bs[unat off := blue c, unat off + 1 := green c, unat off + 2 := red c]"]
      set_pixel_Ret [OF o2 Suc.prems(2)] fit nov Suc.prems(2,3) paint_line_Suc [OF Suc.prems(3) o2] ob
    by (simp add: add_chk_def)
qed


lemma paint_rect_empty: "h = 0 \<or> w = 0 \<Longrightarrow> paint_rect S B x y w h c bs = bs"
  by (rule nth_equalityI) (auto simp: paint_rect_def Let_def)

lemma line_in_rect:
  fixes B S x y w k :: nat
  assumes "3 \<le> B" and "(x + w) * B \<le> S" and "0 < w"
  shows "y * S + x * B \<le> k \<and> (k - (y * S + x * B)) div B < w \<and> (k - (y * S + x * B)) mod B < 3
     \<longleftrightarrow> k div S = y \<and> x \<le> k mod S div B \<and> k mod S div B < x + w \<and> k mod S mod B < 3"
    and "k div S = y \<Longrightarrow> x \<le> k mod S div B \<Longrightarrow> (k - (y * S + x * B)) mod B = k mod S mod B"
proof -
  define q r where qr: "q = k div S" "r = k mod S"
  have "0 < (x + w) * B" using assms by (simp add: mult_pos_pos)
  then have "0 < S" using assms(2) by linarith
  then have S: "0 < S" "x * B + w * B \<le> S" using assms(2) by (simp_all add: algebra_simps)
  have k: "k = q * S + r" "r < S" using S(1) by (simp_all add: qr)
  have same: "(k - (y * S + x * B)) div B = r div B - x \<and> (k - (y * S + x * B)) mod B = r mod B \<and> x * B \<le> r"
    if "q = y" "x \<le> r div B"
  proof -
    have "x * B \<le> r div B * B" using that(2) by simp
    also have "\<dots> \<le> r" by simp
    finally have le: "x * B \<le> r" .
    then obtain d where d: "r = x * B + d" using le_Suc_ex by blast
    moreover have "r div B = x + d div B" "r mod B = d mod B" using assms(1) d by simp_all
    ultimately show ?thesis using k(1) that(1) by simp
  qed
  have lt: "\<not> y * S + x * B \<le> k" if "q < y"
  proof -
    have "Suc q * S \<le> y * S" using that by (intro mult_le_mono1) simp
    then show ?thesis using k by simp
  qed
  have gt: "\<not> (k - (y * S + x * B)) div B < w" if "y < q"
  proof -
    have "Suc y * S \<le> q * S" using that by (intro mult_le_mono1) simp
    then have "w * B \<le> k - (y * S + x * B)" using k(1) S(2) by simp
    then show ?thesis using assms(1) by (simp add: less_eq_div_iff_mult_less_eq not_less)
  qed
  have small: "\<not> y * S + x * B \<le> k" if "q = y" "\<not> x \<le> r div B"
  proof -
    have "r < x * B" using that(2) assms(1) by (simp add: div_less_iff_less_mult not_le)
    then show ?thesis using k that(1) by simp
  qed
  show "y * S + x * B \<le> k \<and> (k - (y * S + x * B)) div B < w \<and> (k - (y * S + x * B)) mod B < 3
     \<longleftrightarrow> k div S = y \<and> x \<le> k mod S div B \<and> k mod S div B < x + w \<and> k mod S mod B < 3"
    unfolding qr [symmetric]
    using same lt gt small k(1) by (cases q y rule: linorder_cases; cases "x \<le> r div B") auto
  show "k div S = y \<Longrightarrow> x \<le> k mod S div B \<Longrightarrow> (k - (y * S + x * B)) mod B = k mod S mod B"
    unfolding qr [symmetric] using same by simp
qed

lemma paint_rect_Suc:
  assumes "3 \<le> B" and "(x + w) * B \<le> S" and "0 < w"
  shows "paint_rect S B x (Suc y) w h c (paint_line w B (y * S + x * B) c bs) = paint_rect S B x y w (Suc h) c bs"
proof (rule nth_equalityI)
  fix k assume "k < length (paint_rect S B x (Suc y) w h c (paint_line w B (y * S + x * B) c bs))"
  then have k: "k < length bs" by simp
  note l = line_in_rect(1) [OF assms, of y k]
  have e: "paint_line w B (y * S + x * B) c bs ! k =
      (if k div S = y \<and> x \<le> k mod S div B \<and> k mod S div B < x + w \<and> k mod S mod B < 3
       then channel c (k mod S mod B) else bs ! k)"
    using k l line_in_rect(2) [OF assms, of k y] by (auto simp: paint_line_def)
  show "paint_rect S B x (Suc y) w h c (paint_line w B (y * S + x * B) c bs) ! k = paint_rect S B x y w (Suc h) c bs ! k"
    using k e by (auto simp: paint_rect_def Let_def)
qed simp

lemma rect_loop_Ret:
  assumes "unat lo = y * unat S + x * unat B" and "(y + h) * unat S \<le> length bs" and "length bs < 2 ^ 63"
    and "3 \<le> unat B" and "(x + w) * unat B \<le> unat S" and "0 < w"
  shows "rect_loop h w B S lo c bs = Ret (paint_rect (unat S) (unat B) x y w h c bs)"
  using assms
proof (induction h arbitrary: lo y bs)
  case 0
  then show ?case by (simp add: paint_rect_empty)
next
  case (Suc h)
  define s b where sb: "s = unat S" "b = unat B"
  have xs: "x * b + w * b \<le> s" using Suc.prems(5) by (simp add: sb algebra_simps)
  have fit: "y * s + s + h * s \<le> length bs" using Suc.prems(2) by (simp add: sb algebra_simps)
  have lo: "unat lo = y * s + x * b" using Suc.prems(1) by (simp add: sb)
  have l: "line_loop w B lo c bs = Ret (paint_line w b (unat lo) c bs)"
    using line_loop_Ret [of lo w B bs] Suc.prems(3,4) xs fit lo by (simp add: sb)
  have "unat lo + s \<le> 2 * length bs" using xs fit lo by simp
  also have "\<dots> < 2 ^ 64" using Suc.prems(3) by simp
  finally have nov: "unat lo + s < 2 ^ 64" .
  then have "unat (lo + S) = Suc y * s + x * b" using lo by (simp add: sb unat_add_no_overflow)
  moreover have "(Suc y + h) * s \<le> length (paint_line w b (unat lo) c bs)" using fit by (simp add: algebra_simps)
  ultimately have "rect_loop h w B S (lo + S) c (paint_line w b (unat lo) c bs)
      = Ret (paint_rect s b x (Suc y) w h c (paint_line w b (unat lo) c bs))"
    using Suc.IH [of "lo + S" "Suc y" "paint_line w b (unat lo) c bs"] Suc.prems(3-6) by (simp add: sb)
  then show ?case
    using l nov lo paint_rect_Suc [of b x w s y h c bs] Suc.prems(4-6) by (simp add: add_chk_def sb)
qed


lemma set_pixel_bound: "set_pixel bs off c = Ret bs' \<Longrightarrow> length bs' = length bs \<and> unat off + 2 < length bs"
  by (auto simp: set_pixel_def upd_def outcome_simps unat_add_no_overflow split: if_splits)

lemma line_loop_bound:
  "line_loop n bpp off c bs = Ret bs' \<Longrightarrow> length bs' = length bs \<and> (0 < n \<longrightarrow> unat off + 2 < length bs)"
  by (induction n arbitrary: off bs) (auto simp: outcome_simps dest!: set_pixel_bound)

lemma rect_loop_bound:
  "rect_loop h w bpp S lo c bs = Ret bs' \<Longrightarrow> 0 < w \<Longrightarrow> 0 < h \<Longrightarrow>
     unat lo + (h - 1) * unat S + 2 < length bs"
proof (induction h arbitrary: lo bs)
  case (Suc h)
  obtain b1 where b1: "line_loop w bpp lo c bs = Ret b1" "unat lo + unat S < 2 ^ 64"
      "rect_loop h w bpp S (lo + S) c b1 = Ret bs'"
    using Suc.prems(1) by (auto simp: outcome_simps)
  have l: "length b1 = length bs" "unat lo + 2 < length bs" using line_loop_bound [OF b1(1)] Suc.prems(2) by auto
  show ?case
  proof (cases h)
    case 0
    then show ?thesis using l by simp
  next
    case (Suc m)
    have "unat (lo + S) + (h - 1) * unat S + 2 < length b1" using Suc.IH [OF b1(3) \<open>0 < w\<close>] Suc by simp
    then show ?thesis using l b1(2) Suc by (simp add: unat_add_no_overflow)
  qed
qed simp

text \<open>A screen as the bootloader describes it: at least three bytes per pixel, lines at least as
  long as their pixels, and a slice of \<open>height\<close> lines.\<close>

definition screen_ok :: "framebuffer \<Rightarrow> bool" where
  "screen_ok fb \<longleftrightarrow> 3 \<le> unat (fb_bpp fb) \<and> unat (fb_width fb) * unat (fb_bpp fb) \<le> unat (fb_stride fb)
     \<and> length (fb_buffer fb) = unat (fb_height fb) * unat (fb_stride fb) \<and> length (fb_buffer fb) < 2 ^ 63"

definition fits :: "framebuffer \<Rightarrow> usize \<Rightarrow> usize \<Rightarrow> usize \<Rightarrow> usize \<Rightarrow> bool" where
  "fits fb x y w h \<longleftrightarrow> unat x + unat w \<le> unat (fb_width fb)
     \<and> unat y + unat h \<le> unat (fb_width fb) \<and> unat y + unat h \<le> unat (fb_height fb)"

lemma fits_offset:
  assumes ok: "screen_ok fb" and f: "fits fb x y w h" and h: "0 < unat h"
  shows "\<exists>lo. pixel_offset fb x y = Ret lo \<and> unat lo = unat y * unat (fb_stride fb) + unat x * unat (fb_bpp fb)"
    and "(unat x + unat w) * unat (fb_bpp fb) \<le> unat (fb_stride fb)"
    and "(unat y + unat h) * unat (fb_stride fb) \<le> length (fb_buffer fb)"
proof -
  define s b where sb: "s = unat (fb_stride fb)" "b = unat (fb_bpp fb)"
  show xw: "(unat x + unat w) * unat (fb_bpp fb) \<le> unat (fb_stride fb)"
    using ok f by (meson fits_def mult_le_mono1 order_trans screen_ok_def)
  show yh: "(unat y + unat h) * unat (fb_stride fb) \<le> length (fb_buffer fb)"
    using ok f by (simp add: fits_def screen_ok_def)
  have len: "length (fb_buffer fb) < 2 ^ 63" using ok by (simp add: screen_ok_def)
  have "unat x * b + unat w * b \<le> s" using xw by (simp add: sb algebra_simps)
  then have x: "unat x * b \<le> s" by simp
  obtain m where m: "unat h = Suc m" using h by (cases "unat h") auto
  have "unat y * s + s + m * s \<le> length (fb_buffer fb)" using yh m by (simp add: sb algebra_simps)
  then have "unat y * s + unat x * b < 2 ^ 63" using x len by linarith
  then have lt: "unat y * s + unat x * b < 2 ^ 64" "unat y * s < 2 ^ 64" "unat x * b < 2 ^ 64" by simp_all
  have u: "unat (y * fb_stride fb) = unat y * s" "unat (x * fb_bpp fb) = unat x * b"
    using lt(2,3) by (simp_all add: sb unat_word_ariths)
  show "\<exists>lo. pixel_offset fb x y = Ret lo \<and> unat lo = unat y * unat (fb_stride fb) + unat x * unat (fb_bpp fb)"
    using lt u by (simp add: pixel_offset_def mul_chk_def add_chk_def sb unat_add_no_overflow)
qed

lemma draw_rect_paints:
  assumes ok: "screen_ok fb" and f: "fits fb x y w h" and w: "0 < w" and h: "0 < h"
  shows "draw_rect x y w h c (Some fb) = Ret (Some (fb\<lparr>fb_buffer :=
     paint_rect (unat (fb_stride fb)) (unat (fb_bpp fb)) (unat x) (unat y) (unat w) (unat h) c (fb_buffer fb)\<rparr>))"
proof -
  have pos: "0 < unat w" "0 < unat h" using w h by (simp_all add: word_less_nat_alt)
  note o = fits_offset [OF ok f pos(2)]
  obtain lo where lo: "pixel_offset fb x y = Ret lo"
      "unat lo = unat y * unat (fb_stride fb) + unat x * unat (fb_bpp fb)" using o(1) by blast
  have len: "length (fb_buffer fb) < 2 ^ 63" "3 \<le> unat (fb_bpp fb)" using ok by (simp_all add: screen_ok_def)
  have "unat x + unat w < 2 ^ 64" "unat y + unat h < 2 ^ 64"
    using f unsigned_less [of "fb_width fb", where ?'a = nat] by (auto simp: fits_def)
  then have "add_chk x w = Ret (x + w)" "add_chk y h = Ret (y + h)" "x + w \<le> fb_width fb" "y + h \<le> fb_width fb"
    using f by (simp_all add: add_chk_def word_le_nat_alt unat_add_no_overflow fits_def)
  then show ?thesis
    using rect_loop_Ret [OF lo(2) o(3) len o(2) pos(1)] lo(1)
    by (simp add: draw_rect_def obtain_buffer_def)
qed

text \<open>C23: drawing a rectangle that fits on the screen returns, and sets the three colour bytes of
  exactly the pixels inside it; every other byte of the buffer keeps its value.\<close>

theorem draw_rect_exact:
  assumes "screen_ok fb" and "fits fb x y w h" and "0 < w" and "0 < h"
  shows "draw_rect x y w h c (Some fb) = Ret (Some (fb\<lparr>fb_buffer :=
     paint_rect (unat (fb_stride fb)) (unat (fb_bpp fb)) (unat x) (unat y) (unat w) (unat h) c (fb_buffer fb)\<rparr>))"
  using assms by (rule draw_rect_paints)


definition demo_screen :: framebuffer where
  "demo_screen = \<lparr>fb_buffer = replicate 24 0, fb_height = 2, fb_width = 3, fb_stride = 12, fb_bpp = 4\<rparr>"

theorem draw_rect_exact_witness:
  "draw_rect 1 0 2 2 (rgb_hex 0x0A0B0C) (Some demo_screen) = Ret (Some (demo_screen\<lparr>fb_buffer :=
     [0, 0, 0, 0, 12, 11, 10, 0, 12, 11, 10, 0, 0, 0, 0, 0, 12, 11, 10, 0, 12, 11, 10, 0]\<rparr>))"
proof -
  have "screen_ok demo_screen" "fits demo_screen 1 0 2 2" by (simp_all add: screen_ok_def fits_def demo_screen_def)
  from draw_rect_exact [OF this, of "rgb_hex 0x0A0B0C"] show ?thesis
    by (simp add: demo_screen_def paint_rect_def rgb_hex_def channel_def upt_rec [of _ "numeral _"] Let_def)
qed


end
