(* ===== verification/Sched.thy ===== *)
theory Sched
  imports Prelude
begin

section \<open>Tasks, wakers, interrupts and the executor (kernel/src/scheduling, drivers/keyboard.rs, drivers/interrupts)\<close>

text \<open>
  The executor polls tasks whose identifiers stand in a bounded queue; wakers push identifiers
  into it, also from the keyboard interrupt handler. The kernel state holds the executor, the
  keyboard driver's static cells, the interrupt flag and the interrupts still to arrive: a list
  of batches, one for each point of the code at which the processor may take interrupts. The
  functions call \<open>interrupts_here\<close> at these points, so a statement over all lists of batches
  covers every interleaving of the code with its interrupt handlers.

  The crates crossbeam-queue (\<open>ArrayQueue\<close>) and futures-util (\<open>AtomicWaker\<close>) are parameters, a
  record of their operations; the locales below state their documented behaviour. The
  key decoder and the shell are one parameter that consumes scancodes.
\<close>

datatype task_id = TaskId u64

instantiation task_id :: linorder
begin

definition less_eq_task_id :: "task_id \<Rightarrow> task_id \<Rightarrow> bool" where
  "less_eq_task_id a b = (case (a, b) of (TaskId x, TaskId y) \<Rightarrow> x \<le> y)"

definition less_task_id :: "task_id \<Rightarrow> task_id \<Rightarrow> bool" where
  "less_task_id a b = (case (a, b) of (TaskId x, TaskId y) \<Rightarrow> x < y)"

instance
  by standard (auto simp: less_eq_task_id_def less_task_id_def split: task_id.splits)

end

text \<open>The counter \<open>NEXT_ID\<close> wraps, as \<open>fetch_add\<close> does.\<close>

definition task_id_new :: "u64 \<Rightarrow> task_id \<times> u64" where
  "task_id_new next_id = (TaskId next_id, next_id + 1)"

record 'f task =
  t_id :: task_id
  t_future :: 'f

definition task_new :: "'f \<Rightarrow> u64 \<Rightarrow> 'f task \<times> u64" where
  "task_new future next_id =
     (let (i, next_id) = task_id_new next_id in (\<lparr>t_id = i, t_future = future\<rparr>, next_id))"

text \<open>A waker; the queue it pushes to is the executor's.\<close>

record waker =
  w_task_id :: task_id

definition waker_new :: "task_id \<Rightarrow> waker" where
  "waker_new i = \<lparr>w_task_id = i\<rparr>"

subsection \<open>Operations of the crates\<close>

record ('a, 'q) array_queue_ops =
  aq_new :: "nat \<Rightarrow> 'q"
  aq_push :: "'a \<Rightarrow> 'q \<Rightarrow> 'q option"
  aq_pop :: "'q \<Rightarrow> ('a \<times> 'q) option"
  aq_is_empty :: "'q \<Rightarrow> bool"

record ('tq, 'sq, 'aw) crate_ops =
  c_tasks :: "(task_id, 'tq) array_queue_ops"
  c_scancodes :: "(u8, 'sq) array_queue_ops"
  c_aw_new :: 'aw
  c_aw_register :: "waker \<Rightarrow> 'aw \<Rightarrow> 'aw"
  c_aw_take :: "'aw \<Rightarrow> waker option \<times> 'aw"

subsection \<open>The kernel state\<close>

datatype irq = TimerIrq | KeyIrq u8
datatype warning = QueueFull | QueueUninitialized
datatype interrupt_index = Timer | Keyboard

record ('tq, 'sq, 'aw, 'h, 'f) kernel =
  k_tasks :: "task_id \<rightharpoonup> 'f task"
  k_task_queue :: 'tq
  k_waker_cache :: "task_id \<rightharpoonup> waker"
  k_scancode_queue :: "'sq option"
  k_waker :: 'aw
  k_console :: 'h
  k_interrupts :: bool
  k_pending :: "irq list list"
  k_halted :: bool
  k_warnings :: "warning list"
  k_eoi :: "u8 list"

subsection \<open>Wakers and interrupt handlers\<close>

definition wake_task :: "('tq, 'sq, 'aw) crate_ops \<Rightarrow> waker \<Rightarrow> ('tq, 'sq, 'aw, 'h, 'f) kernel \<Rightarrow> ('tq, 'sq, 'aw, 'h, 'f) kernel outcome" where
  "wake_task C w k =
     (case aq_push (c_tasks C) (w_task_id w) (k_task_queue k) of
        None \<Rightarrow> Panic (PanicMsg ''task_queue full'')
      | Some q \<Rightarrow> Ret (k\<lparr>k_task_queue := q\<rparr>))"

text \<open>\<open>WAKER.wake()\<close>: wakes the waker registered last, if any.\<close>

definition waker_wake :: "('tq, 'sq, 'aw) crate_ops \<Rightarrow> ('tq, 'sq, 'aw, 'h, 'f) kernel \<Rightarrow> ('tq, 'sq, 'aw, 'h, 'f) kernel outcome" where
  "waker_wake C k =
     (case c_aw_take C (k_waker k) of
        (None, a) \<Rightarrow> Ret (k\<lparr>k_waker := a\<rparr>)
      | (Some w, a) \<Rightarrow> wake_task C w (k\<lparr>k_waker := a\<rparr>))"

definition add_scancode :: "('tq, 'sq, 'aw) crate_ops \<Rightarrow> u8 \<Rightarrow> ('tq, 'sq, 'aw, 'h, 'f) kernel \<Rightarrow> ('tq, 'sq, 'aw, 'h, 'f) kernel outcome" where
  "add_scancode C scancode k =
     (case k_scancode_queue k of
        Some queue \<Rightarrow>
          (case aq_push (c_scancodes C) scancode queue of
             Some q \<Rightarrow> waker_wake C (k\<lparr>k_scancode_queue := Some q\<rparr>)
           | None \<Rightarrow> Ret (k\<lparr>k_warnings := k_warnings k @ [QueueFull]\<rparr>))
      | None \<Rightarrow> Ret (k\<lparr>k_warnings := k_warnings k @ [QueueUninitialized]\<rparr>))"

definition PIC_1_OFFSET :: u8 where "PIC_1_OFFSET = 32"

definition index_as_u8 :: "interrupt_index \<Rightarrow> u8" where
  "index_as_u8 i = (case i of Timer \<Rightarrow> PIC_1_OFFSET | Keyboard \<Rightarrow> PIC_1_OFFSET + 1)"

definition end_interrupt :: "interrupt_index \<Rightarrow> ('tq, 'sq, 'aw, 'h, 'f) kernel \<Rightarrow> ('tq, 'sq, 'aw, 'h, 'f) kernel" where
  "end_interrupt i k = k\<lparr>k_eoi := k_eoi k @ [index_as_u8 i]\<rparr>"

definition timer_interrupt_handler :: "('tq, 'sq, 'aw, 'h, 'f) kernel \<Rightarrow> ('tq, 'sq, 'aw, 'h, 'f) kernel" where
  "timer_interrupt_handler k = end_interrupt Timer k"

definition keyboard_interrupt_handler ::
    "('tq, 'sq, 'aw) crate_ops \<Rightarrow> u8 \<Rightarrow> ('tq, 'sq, 'aw, 'h, 'f) kernel \<Rightarrow> ('tq, 'sq, 'aw, 'h, 'f) kernel outcome" where
  "keyboard_interrupt_handler C scancode k =
     obind (add_scancode C scancode k) (\<lambda>k. Ret (end_interrupt Keyboard k))"

definition handle_irq :: "('tq, 'sq, 'aw) crate_ops \<Rightarrow> irq \<Rightarrow> ('tq, 'sq, 'aw, 'h, 'f) kernel \<Rightarrow> ('tq, 'sq, 'aw, 'h, 'f) kernel outcome" where
  "handle_irq C i k =
     (case i of TimerIrq \<Rightarrow> Ret (timer_interrupt_handler k) | KeyIrq c \<Rightarrow> keyboard_interrupt_handler C c k)"

text \<open>A point at which the processor takes the interrupts that have arrived, if they are enabled.\<close>

definition interrupts_here :: "('tq, 'sq, 'aw) crate_ops \<Rightarrow> ('tq, 'sq, 'aw, 'h, 'f) kernel \<Rightarrow> ('tq, 'sq, 'aw, 'h, 'f) kernel outcome" where
  "interrupts_here C k =
     (if k_interrupts k
      then (case k_pending k of [] \<Rightarrow> Ret k | b # bs \<Rightarrow> ofold (handle_irq C) b (k\<lparr>k_pending := bs\<rparr>))
      else Ret k)"

subsection \<open>The scancode stream and the keyboard task\<close>

definition scancode_stream_new :: "('tq, 'sq, 'aw) crate_ops \<Rightarrow> ('tq, 'sq, 'aw, 'h, 'f) kernel \<Rightarrow> ('tq, 'sq, 'aw, 'h, 'f) kernel outcome" where
  "scancode_stream_new C k =
     (case k_scancode_queue k of
        Some _ \<Rightarrow> Panic (PanicMsg ''ScancodeStream::new should only be called once'')
      | None \<Rightarrow> Ret (k\<lparr>k_scancode_queue := Some (aq_new (c_scancodes C) 100)\<rparr>))"

definition pop_scancode :: "('tq, 'sq, 'aw) crate_ops \<Rightarrow> ('tq, 'sq, 'aw, 'h, 'f) kernel \<Rightarrow> (u8 option \<times> ('tq, 'sq, 'aw, 'h, 'f) kernel) outcome" where
  "pop_scancode C k =
     (case k_scancode_queue k of
        None \<Rightarrow> Panic (PanicMsg ''scancode queue not initialized'')
      | Some queue \<Rightarrow>
          (case aq_pop (c_scancodes C) queue of
             None \<Rightarrow> Ret (None, k)
           | Some (c, q) \<Rightarrow> Ret (Some c, k\<lparr>k_scancode_queue := Some q\<rparr>)))"

text \<open>The result is \<open>Some c\<close> for \<open>Poll::Ready(Some(c))\<close> and \<open>None\<close> for \<open>Poll::Pending\<close>.\<close>

definition poll_next :: "('tq, 'sq, 'aw) crate_ops \<Rightarrow> waker \<Rightarrow> ('tq, 'sq, 'aw, 'h, 'f) kernel \<Rightarrow> (u8 option \<times> ('tq, 'sq, 'aw, 'h, 'f) kernel) outcome" where
  "poll_next C w k =
     obind (interrupts_here C k) (\<lambda>k.
     obind (pop_scancode C k) (\<lambda>(r, k).
     case r of
       Some scancode \<Rightarrow> Ret (Some scancode, k)
     | None \<Rightarrow>
         obind (interrupts_here C k) (\<lambda>k.
         obind (interrupts_here C (k\<lparr>k_waker := c_aw_register C w (k_waker k)\<rparr>)) (\<lambda>k.
         obind (pop_scancode C k) (\<lambda>(r, k).
         case r of
           Some scancode \<Rightarrow>
             obind (interrupts_here C k) (\<lambda>k. Ret (Some scancode, k\<lparr>k_waker := snd (c_aw_take C (k_waker k))\<rparr>))
         | None \<Rightarrow> Ret (None, k))))))"

text \<open>The keyboard task's future: not started, or waiting in the loop of \<open>process_keypresses\<close>.\<close>

datatype kb_future = KbStart | KbLoop

partial_function (option) process_loop ::
    "('tq, 'sq, 'aw) crate_ops \<Rightarrow> (u8 \<Rightarrow> 'h \<Rightarrow> 'h outcome) \<Rightarrow> waker \<Rightarrow> ('tq, 'sq, 'aw, 'h, 'f) kernel \<Rightarrow> ('tq, 'sq, 'aw, 'h, 'f) kernel run" where
  "process_loop C key w k =
     rbind (Some (poll_next C w k)) (\<lambda>rk.
     case fst rk of
       None \<Rightarrow> rret (snd rk)
     | Some scancode \<Rightarrow>
         rbind (Some (key scancode (k_console (snd rk)))) (\<lambda>h.
         process_loop C key w ((snd rk)\<lparr>k_console := h\<rparr>)))"

definition process_keypresses ::
    "('tq, 'sq, 'aw) crate_ops \<Rightarrow> ('h \<Rightarrow> 'h outcome) \<Rightarrow> (u8 \<Rightarrow> 'h \<Rightarrow> 'h outcome) \<Rightarrow> kb_future \<Rightarrow> waker \<Rightarrow>
     ('tq, 'sq, 'aw, 'h, kb_future) kernel \<Rightarrow> (bool \<times> kb_future \<times> ('tq, 'sq, 'aw, 'h, kb_future) kernel) run" where
  "process_keypresses C open_shell key f w k =
     rbind (case f of
              KbLoop \<Rightarrow> rret k
            | KbStart \<Rightarrow>
                rbind (Some (scancode_stream_new C k)) (\<lambda>k.
                rbind (Some (open_shell (k_console k))) (\<lambda>h. rret (k\<lparr>k_console := h\<rparr>)))) (\<lambda>k.
     rbind (process_loop C key w k) (\<lambda>k. rret (False, KbLoop, k)))"

subsection \<open>The executor\<close>

definition executor_new :: "('tq, 'sq, 'aw) crate_ops \<Rightarrow> 'h \<Rightarrow> irq list list \<Rightarrow> ('tq, 'sq, 'aw, 'h, 'f) kernel" where
  "executor_new C h irqs =
     \<lparr>k_tasks = Map.empty, k_task_queue = aq_new (c_tasks C) 100, k_waker_cache = Map.empty,
      k_scancode_queue = None, k_waker = c_aw_new C, k_console = h, k_interrupts = True, k_pending = irqs,
      k_halted = False, k_warnings = [], k_eoi = []\<rparr>"

definition spawn :: "('tq, 'sq, 'aw) crate_ops \<Rightarrow> 'f task \<Rightarrow> ('tq, 'sq, 'aw, 'h, 'f) kernel \<Rightarrow> ('tq, 'sq, 'aw, 'h, 'f) kernel outcome" where
  "spawn C t k =
     (if k_tasks k (t_id t) \<noteq> None then Panic (PanicMsg ''task with same ID already in tasks'')
      else case aq_push (c_tasks C) (t_id t) (k_task_queue k) of
             None \<Rightarrow> Panic (PanicMsg ''queue full'')
           | Some q \<Rightarrow> Ret (k\<lparr>k_tasks := (k_tasks k)(t_id t \<mapsto> t), k_task_queue := q\<rparr>))"

definition cached_waker :: "task_id \<Rightarrow> ('tq, 'sq, 'aw, 'h, 'f) kernel \<Rightarrow> waker \<times> ('tq, 'sq, 'aw, 'h, 'f) kernel" where
  "cached_waker i k =
     (case k_waker_cache k i of
        Some w \<Rightarrow> (w, k)
      | None \<Rightarrow> (waker_new i, k\<lparr>k_waker_cache := (k_waker_cache k)(i \<mapsto> waker_new i)\<rparr>))"

partial_function (option) run_ready_tasks ::
    "('tq, 'sq, 'aw) crate_ops \<Rightarrow>
     ('f \<Rightarrow> waker \<Rightarrow> ('tq, 'sq, 'aw, 'h, 'f) kernel \<Rightarrow> (bool \<times> 'f \<times> ('tq, 'sq, 'aw, 'h, 'f) kernel) run) \<Rightarrow>
     ('tq, 'sq, 'aw, 'h, 'f) kernel \<Rightarrow> ('tq, 'sq, 'aw, 'h, 'f) kernel run" where
  "run_ready_tasks C poll k =
     rbind (Some (interrupts_here C k)) (\<lambda>k.
     case aq_pop (c_tasks C) (k_task_queue k) of
       None \<Rightarrow> rret k
     | Some iq \<Rightarrow>
         (let k = k\<lparr>k_task_queue := snd iq\<rparr> in
          case k_tasks k (fst iq) of
            None \<Rightarrow> run_ready_tasks C poll k
          | Some t \<Rightarrow>
              (let wk = cached_waker (fst iq) k in
               rbind (poll (t_future t) (fst wk) (snd wk)) (\<lambda>rfk.
               let k = snd (snd rfk) in
               run_ready_tasks C poll
                 (if fst rfk
                  then k\<lparr>k_tasks := (k_tasks k)(fst iq := None), k_waker_cache := (k_waker_cache k)(fst iq := None)\<rparr>
                  else k\<lparr>k_tasks := (k_tasks k)(fst iq \<mapsto> t\<lparr>t_future := fst (snd rfk)\<rparr>)\<rparr>)))))"

text \<open>\<open>enable_and_hlt\<close>: interrupts are enabled and the processor halts until the next one.\<close>

definition enable_and_hlt :: "('tq, 'sq, 'aw) crate_ops \<Rightarrow> ('tq, 'sq, 'aw, 'h, 'f) kernel \<Rightarrow> ('tq, 'sq, 'aw, 'h, 'f) kernel outcome" where
  "enable_and_hlt C k =
     (case dropWhile (\<lambda>b. b = []) (k_pending k) of
        [] \<Rightarrow> Ret (k\<lparr>k_interrupts := True, k_pending := [], k_halted := True\<rparr>)
      | b # bs \<Rightarrow> ofold (handle_irq C) b (k\<lparr>k_interrupts := True, k_pending := bs\<rparr>))"

definition sleep_if_idle :: "('tq, 'sq, 'aw) crate_ops \<Rightarrow> ('tq, 'sq, 'aw, 'h, 'f) kernel \<Rightarrow> ('tq, 'sq, 'aw, 'h, 'f) kernel outcome" where
  "sleep_if_idle C k =
     obind (interrupts_here C k) (\<lambda>k.
     let k = k\<lparr>k_interrupts := False\<rparr> in
     if aq_is_empty (c_tasks C) (k_task_queue k)
     then obind (interrupts_here C k) (enable_and_hlt C)
     else Ret (k\<lparr>k_interrupts := True\<rparr>))"

text \<open>\<open>run\<close> loops forever; this is its first \<open>n\<close> turns, up to a halt that nothing ends.\<close>

primrec executor_run ::
    "nat \<Rightarrow> ('tq, 'sq, 'aw) crate_ops \<Rightarrow>
     ('f \<Rightarrow> waker \<Rightarrow> ('tq, 'sq, 'aw, 'h, 'f) kernel \<Rightarrow> (bool \<times> 'f \<times> ('tq, 'sq, 'aw, 'h, 'f) kernel) run) \<Rightarrow>
     ('tq, 'sq, 'aw, 'h, 'f) kernel \<Rightarrow> ('tq, 'sq, 'aw, 'h, 'f) kernel run" where
  "executor_run 0 C poll k = rret k"
| "executor_run (Suc n) C poll k =
     (if k_halted k then rret k
      else rbind (run_ready_tasks C poll k) (\<lambda>k.
           rbind (Some (sleep_if_idle C k)) (executor_run n C poll)))"

end
