(* ===== verification/SchedProps.thy ===== *)
theory SchedProps
  imports Sched
begin

section \<open>No keypress is lost: contracts of the crates and the run of the executor\<close>

text \<open>
  The documented behaviour of \<open>ArrayQueue\<close> (a bounded first-in first-out queue) and of
  \<open>AtomicWaker\<close> (a cell for the waker registered last), as locales; the invariant that ties the
  two queues, the registered waker and the scancodes still to come; and the theorem that the
  executor handles every scancode, whatever the interleaving with the interrupt handlers.
\<close>

locale array_queue =
  fixes Q :: "('a, 'q) array_queue_ops"
    and contents :: "'q \<Rightarrow> 'a list"
    and cap :: "'q \<Rightarrow> nat"
  assumes new_empty: "contents (aq_new Q n) = []"
    and new_cap: "cap (aq_new Q n) = n"
    and push_ok: "length (contents q) < cap q \<Longrightarrow>
      \<exists>q'. aq_push Q x q = Some q' \<and> contents q' = contents q @ [x] \<and> cap q' = cap q"
    and push_full: "cap q \<le> length (contents q) \<Longrightarrow> aq_push Q x q = None"
    and pop_none: "contents q = [] \<Longrightarrow> aq_pop Q q = None"
    and pop_some: "contents q = x # xs \<Longrightarrow> \<exists>q'. aq_pop Q q = Some (x, q') \<and> contents q' = xs \<and> cap q' = cap q"
    and empty_iff: "aq_is_empty Q q \<longleftrightarrow> contents q = []"

locale kernel_crates = tq: array_queue "c_tasks C" tqc tcap + sq: array_queue "c_scancodes C" sqc scap
  for C :: "('tq, 'sq, 'aw) crate_ops" and tqc tcap sqc scap +
  fixes awc :: "'aw \<Rightarrow> waker option"
  assumes aw_new: "awc (c_aw_new C) = None"
    and aw_register: "awc (c_aw_register C w a) = Some w"
    and aw_take: "fst (c_aw_take C a) = awc a" and aw_taken: "awc (snd (c_aw_take C a)) = None"

primrec batch_keys :: "irq list \<Rightarrow> u8 list" where
  "batch_keys [] = []"
| "batch_keys (i # is) = (case i of TimerIrq \<Rightarrow> batch_keys is | KeyIrq c \<Rightarrow> c # batch_keys is)"

definition keys_of :: "irq list list \<Rightarrow> u8 list" where
  "keys_of bs = concat (map batch_keys bs)"

lemma keys_of_simps [simp]: "keys_of [] = []" "keys_of (b # bs) = batch_keys b @ keys_of bs"
  by (simp_all add: keys_of_def)

lemma keys_of_dropWhile: "keys_of (dropWhile (\<lambda>b. b = []) bs) = keys_of bs"
  by (induction bs) auto

context kernel_crates
begin

definition tasks_in :: "('tq, 'sq, 'aw, 'h, 'f) kernel \<Rightarrow> task_id list" where
  "tasks_in k = tqc (k_task_queue k)"

definition codes_in :: "('tq, 'sq, 'aw, 'h, 'f) kernel \<Rightarrow> u8 list" where
  "codes_in k = (case k_scancode_queue k of None \<Rightarrow> [] | Some q \<Rightarrow> sqc q)"

definition armed :: "('tq, 'sq, 'aw, 'h, 'f) kernel \<Rightarrow> bool" where
  "armed k \<longleftrightarrow> tasks_in k \<noteq> [] \<or> awc (k_waker k) \<noteq> None"

definition awake :: "('tq, 'sq, 'aw, 'h, 'f) kernel \<Rightarrow> bool" where
  "awake k \<longleftrightarrow> tasks_in k \<noteq> [] \<or> awc (k_waker k) \<noteq> None \<and> codes_in k = []"

text \<open>The invariant: \<open>ks\<close> are all scancodes, \<open>xs\<close> those still to arrive, \<open>held\<close> one taken from the
  queue and not yet handled. The first \<open>lost\<close> arrived before the queue existed.\<close>

definition sched_inv ::
    "(u8 \<Rightarrow> 'h \<Rightarrow> 'h outcome) \<Rightarrow> 'h \<Rightarrow> 'h \<Rightarrow> task_id \<Rightarrow> u8 list \<Rightarrow> u8 list \<Rightarrow> u8 list \<Rightarrow> ('tq, 'sq, 'aw, 'h, 'f) kernel \<Rightarrow> bool" where
  "sched_inv key h0 h1 i ks held xs k \<longleftrightarrow>
     tcap (k_task_queue k) = 100 \<and> set (tasks_in k) \<subseteq> {i} \<and> length (tasks_in k) + length xs \<le> 100
     \<and> awc (k_waker k) \<in> {None, Some (waker_new i)} \<and> length ks \<le> 99
     \<and> (\<exists>lost handled. length lost = length (k_warnings k) \<and> ks = lost @ handled @ held @ codes_in k @ xs
          \<and> (case k_scancode_queue k of
               None \<Rightarrow> handled = [] \<and> held = [] \<and> k_console k = h0
             | Some q \<Rightarrow> scap q = 100 \<and> ofold key handled h1 = Ret (k_console k)))"

lemma sched_invI:
  assumes "k_scancode_queue k = Some q" and "tcap (k_task_queue k) = 100" and "set (tasks_in k) \<subseteq> {i}"
    and "length (tasks_in k) + length xs \<le> 100" and "awc (k_waker k) \<in> {None, Some (waker_new i)}"
    and "length ks \<le> 99" and "length lost = length (k_warnings k)" and "ks = lost @ handled @ held @ sqc q @ xs"
    and "scap q = 100" and "ofold key handled h1 = Ret (k_console k)"
  shows "sched_inv key h0 h1 i ks held xs k"
proof -
  have "\<exists>lost handled. length lost = length (k_warnings k) \<and> ks = lost @ handled @ held @ codes_in k @ xs
      \<and> (case k_scancode_queue k of
           None \<Rightarrow> handled = [] \<and> held = [] \<and> k_console k = h0
         | Some q \<Rightarrow> scap q = 100 \<and> ofold key handled h1 = Ret (k_console k))"
    using assms by (intro exI [of _ lost] exI [of _ handled]) (simp add: codes_in_def)
  with assms(2-6) show ?thesis unfolding sched_inv_def by blast
qed

text \<open>What a step that takes interrupts may change.\<close>

definition irq_step :: "u8 list \<Rightarrow> ('tq, 'sq, 'aw, 'h, 'f) kernel \<Rightarrow> u8 list \<Rightarrow> ('tq, 'sq, 'aw, 'h, 'f) kernel \<Rightarrow> bool" where
  "irq_step xs k xs' k' \<longleftrightarrow>
     k_tasks k' = k_tasks k \<and> k_waker_cache k' = k_waker_cache k \<and> k_interrupts k' = k_interrupts k
     \<and> k_halted k' = k_halted k \<and> (k_scancode_queue k' = None \<longleftrightarrow> k_scancode_queue k = None)
     \<and> (tasks_in k \<noteq> [] \<longrightarrow> tasks_in k' \<noteq> []) \<and> (armed k \<longrightarrow> armed k') \<and> (awake k \<longrightarrow> awake k')
     \<and> length (tasks_in k') + length xs' \<le> length (tasks_in k) + length xs
     \<and> length (codes_in k') + length xs' \<le> length (codes_in k) + length xs"

lemma irq_step_refl [simp]: "irq_step xs k xs k"
  by (simp add: irq_step_def)

lemma irq_step_trans: "irq_step xs k ys k' \<Longrightarrow> irq_step ys k' zs k'' \<Longrightarrow> irq_step xs k zs k''"
  by (auto simp: irq_step_def)

lemma add_scancode_inv:
  assumes inv: "sched_inv key h0 h1 i ks held (c # xs) k"
  shows "\<exists>k'. add_scancode C c k = Ret k' \<and> sched_inv key h0 h1 i ks held xs k' \<and> irq_step (c # xs) k xs k'
    \<and> k_pending k' = k_pending k"
proof (cases "k_scancode_queue k")
  case None
  let ?k = "k\<lparr>k_warnings := k_warnings k @ [QueueUninitialized]\<rparr>"
  obtain lost where l: "length lost = length (k_warnings k)" "ks = lost @ c # xs"
    using inv None by (auto simp: sched_inv_def codes_in_def)
  then have "length (lost @ [c]) = length (k_warnings ?k) \<and> ks = (lost @ [c]) @ [] @ held @ codes_in ?k @ xs"
    using inv None by (auto simp: sched_inv_def codes_in_def)
  then have "sched_inv key h0 h1 i ks held xs ?k"
    using inv None by (auto simp: sched_inv_def tasks_in_def codes_in_def intro!: exI [of _ "lost @ [c]"])
  moreover have "irq_step (c # xs) k xs ?k"
    by (simp add: irq_step_def tasks_in_def codes_in_def armed_def awake_def)
  ultimately show ?thesis using None by (simp add: add_scancode_def)
next
  case (Some q)
  obtain lost handled where l: "length lost = length (k_warnings k)" "ks = lost @ handled @ held @ sqc q @ c # xs"
      "scap q = 100" "ofold key handled h1 = Ret (k_console k)"
    using inv Some by (auto simp: sched_inv_def codes_in_def)
  have "length (sqc q) < 100" using l(2) inv by (simp add: sched_inv_def)
  then obtain q' where q': "aq_push (c_scancodes C) c q = Some q'" "sqc q' = sqc q @ [c]" "scap q' = 100"
    using sq.push_ok [of q c] l(3) by auto
  have room: "length (tasks_in k) < 100" and ids: "set (tasks_in k) \<subseteq> {i}" and tc: "tcap (k_task_queue k) = 100"
    using inv by (auto simp: sched_inv_def)
  have ks: "ks = lost @ handled @ held @ sqc q' @ xs" using l(2) q'(2) by simp
  show ?thesis
  proof (cases "awc (k_waker k)")
    case None
    let ?k = "k\<lparr>k_scancode_queue := Some q', k_waker := snd (c_aw_take C (k_waker k))\<rparr>"
    have "add_scancode C c k = Ret ?k"
      using Some q'(1) None aw_take [of "k_waker k"] by (cases "c_aw_take C (k_waker k)") (simp add: add_scancode_def waker_wake_def)
    moreover have "sched_inv key h0 h1 i ks held xs ?k"
      by (rule sched_invI [where q = q' and lost = lost and handled = handled])
        (use inv l(1,4) ks q'(3) aw_taken in \<open>simp_all add: sched_inv_def tasks_in_def\<close>)
    moreover have "irq_step (c # xs) k xs ?k"
      using Some None q'(2) by (auto simp: irq_step_def tasks_in_def codes_in_def armed_def awake_def)
    ultimately show ?thesis by simp
  next
    case w: (Some w)
    have wi: "w = waker_new i" using inv w by (auto simp: sched_inv_def)
    obtain t' where t': "aq_push (c_tasks C) i (k_task_queue k) = Some t'" "tqc t' = tasks_in k @ [i]" "tcap t' = 100"
      using tq.push_ok [of "k_task_queue k" i] room tc by (auto simp: tasks_in_def)
    let ?k = "k\<lparr>k_scancode_queue := Some q', k_waker := snd (c_aw_take C (k_waker k)), k_task_queue := t'\<rparr>"
    have "add_scancode C c k = Ret ?k"
      using Some q'(1) w wi t'(1) aw_take [of "k_waker k"]
      by (cases "c_aw_take C (k_waker k)") (simp add: add_scancode_def waker_wake_def wake_task_def waker_new_def)
    moreover have "sched_inv key h0 h1 i ks held xs ?k"
      by (rule sched_invI [where q = q' and lost = lost and handled = handled])
        (use inv l(1,4) ks q'(3) aw_taken t' ids in \<open>simp_all add: sched_inv_def tasks_in_def\<close>)
    moreover have "irq_step (c # xs) k xs ?k"
      using Some q'(2) t'(2) by (auto simp: irq_step_def tasks_in_def codes_in_def armed_def awake_def)
    ultimately show ?thesis by simp
  qed
qed

lemma inv_eoi: "sched_inv key h0 h1 i ks held xs (k\<lparr>k_eoi := e\<rparr>) \<longleftrightarrow> sched_inv key h0 h1 i ks held xs k"
  "irq_step xs k ys (k'\<lparr>k_eoi := e\<rparr>) \<longleftrightarrow> irq_step xs k ys k'"
  by (cases "k_scancode_queue k"; simp add: sched_inv_def tasks_in_def codes_in_def)
    (simp add: irq_step_def tasks_in_def codes_in_def armed_def awake_def)

lemma inv_pending: "sched_inv key h0 h1 i ks held xs (k\<lparr>k_pending := p\<rparr>) \<longleftrightarrow> sched_inv key h0 h1 i ks held xs k"
  "sched_inv key h0 h1 i ks held xs (k\<lparr>k_interrupts := f\<rparr>) \<longleftrightarrow> sched_inv key h0 h1 i ks held xs k"
  by (cases "k_scancode_queue k"; simp add: sched_inv_def tasks_in_def codes_in_def)+

lemma handle_batch_inv:
  "sched_inv key h0 h1 i ks held (batch_keys b @ xs) k \<Longrightarrow>
   \<exists>k'. ofold (handle_irq C) b k = Ret k' \<and> sched_inv key h0 h1 i ks held xs k'
     \<and> irq_step (batch_keys b @ xs) k xs k' \<and> k_pending k' = k_pending k"
proof (induction b arbitrary: k)
  case Nil
  then show ?case by simp
next
  case (Cons j b)
  have "\<exists>k1. handle_irq C j k = Ret k1 \<and> sched_inv key h0 h1 i ks held (batch_keys b @ xs) k1
     \<and> irq_step (batch_keys (j # b) @ xs) k (batch_keys b @ xs) k1 \<and> k_pending k1 = k_pending k"
  proof (cases j)
    case TimerIrq
    then show ?thesis
      using Cons.prems by (simp add: handle_irq_def timer_interrupt_handler_def end_interrupt_def inv_eoi)
  next
    case (KeyIrq c)
    then show ?thesis
      using add_scancode_inv [of key h0 h1 i ks held c "batch_keys b @ xs" k] Cons.prems
      by (auto simp: handle_irq_def keyboard_interrupt_handler_def end_interrupt_def inv_eoi)
  qed
  then obtain k1 where k1: "handle_irq C j k = Ret k1" "sched_inv key h0 h1 i ks held (batch_keys b @ xs) k1"
     "irq_step (batch_keys (j # b) @ xs) k (batch_keys b @ xs) k1" "k_pending k1 = k_pending k" by blast
  with Cons.IH [OF k1(2)] show ?case by (auto dest: irq_step_trans)
qed

text \<open>The invariant with the scancodes of the pending interrupts as those to come.\<close>

definition kinv ::
    "(u8 \<Rightarrow> 'h \<Rightarrow> 'h outcome) \<Rightarrow> 'h \<Rightarrow> 'h \<Rightarrow> task_id \<Rightarrow> u8 list \<Rightarrow> u8 list \<Rightarrow> ('tq, 'sq, 'aw, 'h, 'f) kernel \<Rightarrow> bool" where
  "kinv key h0 h1 i ks held k \<longleftrightarrow> sched_inv key h0 h1 i ks held (keys_of (k_pending k)) k"

definition kstep :: "('tq, 'sq, 'aw, 'h, 'f) kernel \<Rightarrow> ('tq, 'sq, 'aw, 'h, 'f) kernel \<Rightarrow> bool" where
  "kstep k k' \<longleftrightarrow> irq_step (keys_of (k_pending k)) k (keys_of (k_pending k')) k'
     \<and> length (k_pending k') \<le> length (k_pending k)"

lemma kstep_refl [simp]: "kstep k k"
  by (simp add: kstep_def)

lemma kstep_trans: "kstep k k' \<Longrightarrow> kstep k' k'' \<Longrightarrow> kstep k k''"
  by (auto simp: kstep_def dest: irq_step_trans)

lemma interrupts_here_inv:
  assumes "kinv key h0 h1 i ks held k"
  shows "\<exists>k'. interrupts_here C k = Ret k' \<and> kinv key h0 h1 i ks held k' \<and> kstep k k'
    \<and> (k_interrupts k \<longrightarrow> length (k_pending k') = length (k_pending k) - 1)"
proof (cases "k_interrupts k \<and> k_pending k \<noteq> []")
  case True
  then obtain b bs where p: "k_pending k = b # bs" by (cases "k_pending k") auto
  let ?k = "k\<lparr>k_pending := bs\<rparr>"
  have "sched_inv key h0 h1 i ks held (batch_keys b @ keys_of bs) ?k"
    using assms p by (simp add: kinv_def inv_pending)
  from handle_batch_inv [OF this] obtain k' where k': "ofold (handle_irq C) b ?k = Ret k'"
      "sched_inv key h0 h1 i ks held (keys_of bs) k'" "irq_step (batch_keys b @ keys_of bs) ?k (keys_of bs) k'" "k_pending k' = bs"
    by auto
  have "irq_step (keys_of (k_pending k)) k (keys_of (k_pending k')) k'"
    using k'(3,4) p by (simp add: irq_step_def tasks_in_def codes_in_def armed_def awake_def)
  then show ?thesis using k' p True by (auto simp: interrupts_here_def kinv_def kstep_def)
next
  case False
  then show ?thesis using assms by (auto simp: interrupts_here_def split: list.split)
qed

text \<open>What polling the keyboard task leaves alone.\<close>

definition poll_frame :: "('tq, 'sq, 'aw, 'h, 'f) kernel \<Rightarrow> ('tq, 'sq, 'aw, 'h, 'f) kernel \<Rightarrow> bool" where
  "poll_frame k k' \<longleftrightarrow> k_tasks k' = k_tasks k \<and> k_waker_cache k' = k_waker_cache k \<and> k_interrupts k' = k_interrupts k
     \<and> k_halted k' = k_halted k \<and> (k_scancode_queue k' = None \<longleftrightarrow> k_scancode_queue k = None)
     \<and> length (k_pending k') \<le> length (k_pending k)
     \<and> length (tasks_in k') + length (keys_of (k_pending k')) \<le> length (tasks_in k) + length (keys_of (k_pending k))"

lemma poll_frame_refl [simp]: "poll_frame k k"
  by (simp add: poll_frame_def)

lemma poll_frame_trans: "poll_frame k k' \<Longrightarrow> poll_frame k' k'' \<Longrightarrow> poll_frame k k''"
  by (auto simp: poll_frame_def)

lemma kstep_frame: "kstep k k' \<Longrightarrow> poll_frame k k'"
  by (auto simp: kstep_def irq_step_def poll_frame_def)

definition backlog :: "('tq, 'sq, 'aw, 'h, 'f) kernel \<Rightarrow> nat" where
  "backlog k = length (codes_in k) + length (keys_of (k_pending k))"

lemma kstep_backlog: "kstep k k' \<Longrightarrow> backlog k' \<le> backlog k"
  by (simp add: kstep_def irq_step_def backlog_def)

lemma pop_inv:
  assumes "kinv key h0 h1 i ks [] k" and "k_scancode_queue k \<noteq> None"
  obtains (none) "pop_scancode C k = Ret (None, k)" "codes_in k = []"
    | (code) c k' where "pop_scancode C k = Ret (Some c, k')" "kinv key h0 h1 i ks [c] k'" "poll_frame k k'"
        "backlog k = Suc (backlog k')" "k_waker k' = k_waker k"
proof -
  obtain q where q: "k_scancode_queue k = Some q" using assms(2) by blast
  show thesis
  proof (cases "sqc q")
    case Nil
    then show thesis using none q sq.pop_none [OF Nil] by (simp add: pop_scancode_def codes_in_def)
  next
    case (Cons c cs)
    obtain q' where q': "aq_pop (c_scancodes C) q = Some (c, q')" "sqc q' = cs" "scap q' = scap q"
      using sq.pop_some [OF Cons] by blast
    let ?k = "k\<lparr>k_scancode_queue := Some q'\<rparr>"
    have "kinv key h0 h1 i ks [c] ?k"
      using assms(1) q q' Cons by (auto simp: kinv_def sched_inv_def codes_in_def tasks_in_def)
    moreover have "poll_frame k ?k" using q by (simp add: poll_frame_def tasks_in_def)
    moreover have "backlog k = Suc (backlog ?k)" using q q'(2) Cons by (simp add: backlog_def codes_in_def)
    ultimately show thesis using code [of c ?k] q q'(1) by (simp add: pop_scancode_def)
  qed
qed

lemma kinv_waker:
  "kinv key h0 h1 i ks held k \<Longrightarrow> awc a \<in> {None, Some (waker_new i)} \<Longrightarrow> kinv key h0 h1 i ks held (k\<lparr>k_waker := a\<rparr>)"
  by (cases "k_scancode_queue k") (auto simp: kinv_def sched_inv_def codes_in_def tasks_in_def)

lemma poll_next_inv:
  assumes inv: "kinv key h0 h1 i ks [] k" and s: "k_scancode_queue k \<noteq> None"
  obtains (pending) k' where "poll_next C (waker_new i) k = Ret (None, k')" "kinv key h0 h1 i ks [] k'"
      "poll_frame k k'" "awake k'"
    | (ready) c k' where "poll_next C (waker_new i) k = Ret (Some c, k')" "kinv key h0 h1 i ks [c] k'"
      "poll_frame k k'" "backlog k' < backlog k"
proof -
  obtain k1 where k1: "interrupts_here C k = Ret k1" "kinv key h0 h1 i ks [] k1" "kstep k k1"
    using interrupts_here_inv [OF inv] by blast
  have s1: "k_scancode_queue k1 \<noteq> None" using k1(3) s by (simp add: kstep_def irq_step_def)
  from k1(2) s1 show thesis
  proof (cases rule: pop_inv)
    case (code c k2)
    then show thesis
      using ready [of c k2] k1 kstep_frame [OF k1(3)] poll_frame_trans kstep_backlog [OF k1(3)]
      by (simp add: poll_next_def) blast
  next
    case none
    obtain k2 where k2: "interrupts_here C k1 = Ret k2" "kinv key h0 h1 i ks [] k2" "kstep k1 k2"
      using interrupts_here_inv [OF k1(2)] by blast
    let ?k3 = "k2\<lparr>k_waker := c_aw_register C (waker_new i) (k_waker k2)\<rparr>"
    have r3: "kinv key h0 h1 i ks [] ?k3" using kinv_waker [OF k2(2)] aw_register by simp
    obtain k4 where k4: "interrupts_here C ?k3 = Ret k4" "kinv key h0 h1 i ks [] k4" "kstep ?k3 k4"
      using interrupts_here_inv [OF r3] by blast
    have "armed ?k3" by (simp add: armed_def aw_register)
    then have a4: "armed k4" using k4(3) by (simp add: kstep_def irq_step_def)
    have f3: "poll_frame k2 ?k3" "backlog ?k3 = backlog k2"
      by (simp_all add: poll_frame_def tasks_in_def backlog_def codes_in_def)
    have f4: "poll_frame k k4" "backlog k4 \<le> backlog k"
      using kstep_frame [OF k1(3)] kstep_frame [OF k2(3)] f3(1) kstep_frame [OF k4(3)] poll_frame_trans apply blast
      using kstep_backlog [OF k1(3)] kstep_backlog [OF k2(3)] f3(2) kstep_backlog [OF k4(3)] by linarith
    have s4: "k_scancode_queue k4 \<noteq> None" using f4(1) s by (simp add: poll_frame_def)
    from k4(2) s4 show thesis
    proof (cases rule: pop_inv)
      case none
      then have "awake k4" using a4 by (auto simp: awake_def armed_def)
      then show thesis
        using pending [of k4] \<open>pop_scancode C k1 = Ret (None, k1)\<close> none k1(1) k2(1) k4(1,2) f4(1)
        by (simp add: poll_next_def)
    next
      case (code c k5)
      obtain k6 where k6: "interrupts_here C k5 = Ret k6" "kinv key h0 h1 i ks [c] k6" "kstep k5 k6"
        using interrupts_here_inv [OF code(2)] by blast
      let ?k7 = "k6\<lparr>k_waker := snd (c_aw_take C (k_waker k6))\<rparr>"
      have "kinv key h0 h1 i ks [c] ?k7" using kinv_waker [OF k6(2)] aw_taken by simp
      moreover have "poll_frame k6 ?k7" "backlog ?k7 = backlog k6"
        by (simp_all add: poll_frame_def tasks_in_def backlog_def codes_in_def)
      moreover have "poll_frame k k6" using f4(1) code(3) kstep_frame [OF k6(3)] poll_frame_trans by blast
      moreover have "backlog k6 < backlog k" using f4(2) code(4) kstep_backlog [OF k6(3)] by linarith
      ultimately show thesis
        using ready [of c ?k7] \<open>pop_scancode C k1 = Ret (None, k1)\<close> code(1) k1(1) k2(1) k4(1) k6(1) poll_frame_trans
        by (simp add: poll_next_def) blast
    qed
  qed
qed

lemma process_loop_ends:
  assumes "kinv key h0 h1 i ks [] k" and "k_scancode_queue k \<noteq> None" and "\<forall>c h. \<exists>h'. key c h = Ret h'"
  shows "\<exists>k'. process_loop C key (waker_new i) k = rret k' \<and> kinv key h0 h1 i ks [] k' \<and> poll_frame k k' \<and> awake k'"
  using assms(1,2)
proof (induction "backlog k" arbitrary: k rule: less_induct)
  case less
  from less.prems show ?case
  proof (cases rule: poll_next_inv)
    case (pending k')
    then show ?thesis by (subst process_loop.simps) simp
  next
    case (ready c k')
    obtain h where h: "key c (k_console k') = Ret h" using assms(3) by blast
    let ?k = "k'\<lparr>k_console := h\<rparr>"
    have s: "k_scancode_queue k' \<noteq> None" using ready(3) less.prems(2) by (simp add: poll_frame_def)
    then obtain q where q: "k_scancode_queue k' = Some q" by blast
    obtain lost handled where l: "length lost = length (k_warnings k')"
        "ks = lost @ handled @ [c] @ codes_in k' @ keys_of (k_pending k')" "ofold key handled h1 = Ret (k_console k')"
      using ready(2) q by (auto simp: kinv_def sched_inv_def)
    have "ofold key (handled @ [c]) h1 = Ret h" using l(3) h by (simp add: ofold_append)
    then have kinv: "kinv key h0 h1 i ks [] ?k"
      unfolding kinv_def
      by (intro sched_invI [where q = q and lost = lost and handled = "handled @ [c]"])
        (use ready(2) l(1,2) q in \<open>auto simp: kinv_def sched_inv_def tasks_in_def codes_in_def\<close>)
    have fr: "poll_frame k ?k" "backlog ?k < backlog k" "k_scancode_queue ?k \<noteq> None"
      using ready(3,4) s by (auto simp: poll_frame_def tasks_in_def backlog_def codes_in_def)
    from less.hyps [OF fr(2) kinv fr(3)] obtain k'' where k'': "process_loop C key (waker_new i) ?k = rret k''"
        "kinv key h0 h1 i ks [] k''" "poll_frame ?k k''" "awake k''" by blast
    then show ?thesis
      using ready(1) h poll_frame_trans [OF fr(1)] by (subst process_loop.simps) auto
  qed
qed

text \<open>The invariant at the head of the executor's loops: the keyboard task is either queued for its
  first poll, or queued again, or its waker is registered and no scancode waits.\<close>

definition loop_inv ::
    "(u8 \<Rightarrow> 'h \<Rightarrow> 'h outcome) \<Rightarrow> 'h \<Rightarrow> 'h \<Rightarrow> task_id \<Rightarrow> u8 list \<Rightarrow> ('tq, 'sq, 'aw, 'h, kb_future) kernel \<Rightarrow> bool" where
  "loop_inv key h0 h1 i ks k \<longleftrightarrow>
     kinv key h0 h1 i ks [] k \<and> k_interrupts k \<and> k_waker_cache k i \<in> {None, Some (waker_new i)}
     \<and> (\<exists>t. k_tasks k = [i \<mapsto> t]
          \<and> (t_future t = KbStart \<and> k_scancode_queue k = None \<and> tasks_in k \<noteq> []
             \<or> t_future t = KbLoop \<and> k_scancode_queue k \<noteq> None \<and> awake k))"

lemma loop_inv_step:
  "loop_inv key h0 h1 i ks k \<Longrightarrow> irq_step xs k ys k' \<Longrightarrow> kinv key h0 h1 i ks [] k' \<Longrightarrow> loop_inv key h0 h1 i ks k'"
  by (auto simp: loop_inv_def irq_step_def)

lemma interrupts_here_loop:
  assumes "loop_inv key h0 h1 i ks k"
  shows "\<exists>k'. interrupts_here C k = Ret k' \<and> loop_inv key h0 h1 i ks k' \<and> kstep k k'
    \<and> length (k_pending k') = length (k_pending k) - 1"
proof -
  have k: "kinv key h0 h1 i ks [] k" "k_interrupts k" using assms by (simp_all add: loop_inv_def)
  obtain k' where "interrupts_here C k = Ret k'" "kinv key h0 h1 i ks [] k'" "kstep k k'"
      "length (k_pending k') = length (k_pending k) - 1"
    using interrupts_here_inv [OF k(1)] k(2) by blast
  then show ?thesis using loop_inv_step [OF assms] by (auto simp: kstep_def)
qed

lemma process_keypresses_inv:
  assumes inv: "kinv key h0 h1 i ks [] k" and key: "\<forall>c h. \<exists>h'. key c h = Ret h'" and sh: "open_shell h0 = Ret h1"
    and f: "f = KbStart \<and> k_scancode_queue k = None \<or> f = KbLoop \<and> k_scancode_queue k \<noteq> None"
  shows "\<exists>k'. process_keypresses C open_shell key f (waker_new i) k = rret (False, KbLoop, k')
    \<and> kinv key h0 h1 i ks [] k' \<and> awake k' \<and> k_scancode_queue k' \<noteq> None
    \<and> k_tasks k' = k_tasks k \<and> k_waker_cache k' = k_waker_cache k \<and> k_interrupts k' = k_interrupts k \<and> k_halted k' = k_halted k
    \<and> length (k_pending k') \<le> length (k_pending k)
    \<and> length (tasks_in k') + length (keys_of (k_pending k')) \<le> length (tasks_in k) + length (keys_of (k_pending k))"
proof (cases "f = KbStart")
  case False
  then have "f = KbLoop" "k_scancode_queue k \<noteq> None" using f by auto
  with process_loop_ends [OF inv _ key] show ?thesis by (auto simp: process_keypresses_def poll_frame_def)
next
  case True
  let ?k = "k\<lparr>k_scancode_queue := Some (aq_new (c_scancodes C) 100), k_console := h1\<rparr>"
  have n: "k_scancode_queue k = None" using True f by auto
  obtain lost where l: "length lost = length (k_warnings k)" "ks = lost @ keys_of (k_pending k)" "k_console k = h0"
    using inv n by (auto simp: kinv_def sched_inv_def codes_in_def)
  have "kinv key h0 h1 i ks [] ?k"
    unfolding kinv_def
    by (intro sched_invI [where q = "aq_new (c_scancodes C) 100" and lost = lost and handled = "[]"])
      (use inv n l sq.new_empty sq.new_cap in \<open>auto simp: kinv_def sched_inv_def tasks_in_def\<close>)
  from process_loop_ends [OF this _ key] show ?thesis
    using True n l(3) sh
    by (auto simp: process_keypresses_def scancode_stream_new_def poll_frame_def tasks_in_def)
qed

lemma run_ready_ends:
  assumes "loop_inv key h0 h1 i ks k" and key: "\<forall>c h. \<exists>h'. key c h = Ret h'" and sh: "open_shell h0 = Ret h1"
  shows "\<exists>k'. run_ready_tasks C (process_keypresses C open_shell key) k = rret k' \<and> loop_inv key h0 h1 i ks k'
    \<and> k_halted k' = k_halted k \<and> tasks_in k' = [] \<and> length (k_pending k') \<le> length (k_pending k) - 1"
  using assms(1)
proof (induction "length (tasks_in k) + length (keys_of (k_pending k))" arbitrary: k rule: less_induct)
  case less
  obtain k1 where k1: "interrupts_here C k = Ret k1" "loop_inv key h0 h1 i ks k1" "kstep k k1"
      "length (k_pending k1) = length (k_pending k) - 1"
    using interrupts_here_loop [OF less.prems] by blast
  have h1k: "k_halted k1 = k_halted k" using k1(3) by (simp add: kstep_def irq_step_def)
  have m1: "length (tasks_in k1) + length (keys_of (k_pending k1)) \<le> length (tasks_in k) + length (keys_of (k_pending k))"
    using k1(3) by (simp add: kstep_def irq_step_def)
  show ?case
  proof (cases "tasks_in k1")
    case Nil
    then have "aq_pop (c_tasks C) (k_task_queue k1) = None" using tq.pop_none by (simp add: tasks_in_def)
    then show ?thesis using k1 Nil h1k by (subst run_ready_tasks.simps) simp
  next
    case (Cons j js)
    have kinv1: "kinv key h0 h1 i ks [] k1" using k1(2) by (simp add: loop_inv_def)
    then have ji: "j = i" "set js \<subseteq> {i}" using Cons by (auto simp: kinv_def sched_inv_def)
    obtain q where q: "aq_pop (c_tasks C) (k_task_queue k1) = Some (i, q)" "tqc q = js" "tcap q = tcap (k_task_queue k1)"
      using tq.pop_some [of "k_task_queue k1" i js] Cons ji(1) by (auto simp: tasks_in_def)
    let ?k2 = "k1\<lparr>k_task_queue := q\<rparr>"
    obtain t where t: "k_tasks k1 = [i \<mapsto> t]" "t_future t = KbStart \<and> k_scancode_queue k1 = None
        \<or> t_future t = KbLoop \<and> k_scancode_queue k1 \<noteq> None"
      using k1(2) by (auto simp: loop_inv_def)
    let ?k3 = "k1\<lparr>k_task_queue := q, k_waker_cache := (k_waker_cache k1)(i \<mapsto> waker_new i)\<rparr>"
    have c3: "cached_waker i ?k2 = (waker_new i, ?k3)"
    proof (cases "k_waker_cache k1 i")
      case (Some w)
      moreover have "w = waker_new i" using Some k1(2) by (auto simp: loop_inv_def)
      moreover have "(k_waker_cache k1)(i \<mapsto> waker_new i) = k_waker_cache k1" using calculation by (simp add: fun_upd_idem)
      ultimately show ?thesis by (simp add: cached_waker_def)
    qed (simp add: cached_waker_def)
    have "kinv key h0 h1 i ks [] ?k3"
      using kinv1 q(2,3) ji(2) Cons by (cases "k_scancode_queue k1") (auto simp: kinv_def sched_inv_def tasks_in_def codes_in_def)
    from process_keypresses_inv [where open_shell = open_shell, OF this key sh, of "t_future t"] t(2) obtain k4 where
      k4: "process_keypresses C open_shell key (t_future t) (waker_new i) ?k3 = rret (False, KbLoop, k4)"
        "kinv key h0 h1 i ks [] k4" "awake k4" "k_scancode_queue k4 \<noteq> None" "k_tasks k4 = [i \<mapsto> t]"
        "k_waker_cache k4 i = Some (waker_new i)" "k_interrupts k4 = k_interrupts k1" "k_halted k4 = k_halted k1"
        "length (k_pending k4) \<le> length (k_pending k1)"
        "length (tasks_in k4) + length (keys_of (k_pending k4)) \<le> length js + length (keys_of (k_pending k1))"
      using q(2) t(1) by (auto simp: tasks_in_def)
    let ?k5 = "k4\<lparr>k_tasks := [i \<mapsto> t\<lparr>t_future := KbLoop\<rparr>]\<rparr>"
    have "kinv key h0 h1 i ks [] ?k5"
      using k4(2) by (cases "k_scancode_queue k4") (auto simp: kinv_def sched_inv_def tasks_in_def codes_in_def)
    then have l5: "loop_inv key h0 h1 i ks ?k5"
      using k4(3,4,6,7) k1(2) by (auto simp: loop_inv_def awake_def tasks_in_def codes_in_def)
    have "length (tasks_in ?k5) + length (keys_of (k_pending ?k5)) < length (tasks_in k) + length (keys_of (k_pending k))"
      using k4(10) m1 Cons by (simp add: tasks_in_def)
    from less.hyps [OF this l5] obtain k6 where
      k6: "run_ready_tasks C (process_keypresses C open_shell key) ?k5 = rret k6" "loop_inv key h0 h1 i ks k6"
        "k_halted k6 = k_halted ?k5" "tasks_in k6 = []" "length (k_pending k6) \<le> length (k_pending ?k5) - 1" by blast
    have "k_tasks ?k2 i = Some t" "(k_tasks k4)(i \<mapsto> t\<lparr>t_future := KbLoop\<rparr>) = [i \<mapsto> t\<lparr>t_future := KbLoop\<rparr>]"
      using t(1) k4(5) by simp_all
    then have "run_ready_tasks C (process_keypresses C open_shell key) k = rret k6"
      using k1(1) q(1) c3 k4(1) k6(1) by (subst run_ready_tasks.simps) (simp add: Let_def)
    then show ?thesis using k6 k4(8,9) k1(4) h1k by auto
  qed
qed

definition idle_done ::
    "(u8 \<Rightarrow> 'h \<Rightarrow> 'h outcome) \<Rightarrow> 'h \<Rightarrow> 'h \<Rightarrow> task_id \<Rightarrow> u8 list \<Rightarrow> ('tq, 'sq, 'aw, 'h, kb_future) kernel \<Rightarrow> bool" where
  "idle_done key h0 h1 i ks k \<longleftrightarrow> k_halted k \<and> k_pending k = [] \<and> k_scancode_queue k \<noteq> None \<and> codes_in k = []
     \<and> kinv key h0 h1 i ks [] k"

lemma sleep_inv:
  assumes "loop_inv key h0 h1 i ks k" and "\<not> k_halted k"
  shows "\<exists>k'. sleep_if_idle C k = Ret k'
    \<and> (idle_done key h0 h1 i ks k'
       \<or> loop_inv key h0 h1 i ks k' \<and> \<not> k_halted k' \<and> length (k_pending k') \<le> length (k_pending k)
          \<and> (tasks_in k \<noteq> [] \<or> k_pending k \<noteq> []))"
proof -
  obtain k1 where k1: "interrupts_here C k = Ret k1" "loop_inv key h0 h1 i ks k1" "kstep k k1"
      "length (k_pending k1) = length (k_pending k) - 1"
    using interrupts_here_loop [OF assms(1)] by blast
  have nh: "\<not> k_halted k1" "k_interrupts k1" using k1(2,3) assms(2) by (simp_all add: kstep_def irq_step_def loop_inv_def)
  have kinv1: "kinv key h0 h1 i ks [] k1" using k1(2) by (simp add: loop_inv_def)
  show ?thesis
  proof (cases "tasks_in k1 = []")
    case False
    have k1i: "k1\<lparr>k_interrupts := True\<rparr> = k1" using nh(2) by simp
    have ne: "tasks_in k \<noteq> [] \<or> k_pending k \<noteq> []"
    proof (rule ccontr)
      assume "\<not> (tasks_in k \<noteq> [] \<or> k_pending k \<noteq> [])"
      then have "tasks_in k = []" "k_pending k = []" by simp_all
      then have "k1 = k" using k1(1) by (simp add: interrupts_here_def split: if_splits)
      then show False using False \<open>tasks_in k = []\<close> by simp
    qed
    have "sleep_if_idle C k = Ret k1"
      using k1(1) False tq.empty_iff k1i by (simp add: sleep_if_idle_def tasks_in_def Let_def)
    then show ?thesis using k1(2,4) nh(1) ne by auto
  next
    case True
    let ?k2 = "k1\<lparr>k_interrupts := False\<rparr>"
    have s: "sleep_if_idle C k = enable_and_hlt C ?k2"
      using k1(1) True tq.empty_iff by (simp add: sleep_if_idle_def tasks_in_def Let_def interrupts_here_def)
    have aw: "k_scancode_queue k1 \<noteq> None" "codes_in k1 = []" using k1(2) True by (auto simp: loop_inv_def awake_def)
    show ?thesis
    proof (cases "dropWhile (\<lambda>b. b = []) (k_pending k1)")
      case Nil
      let ?k = "k1\<lparr>k_interrupts := True, k_pending := [], k_halted := True\<rparr>"
      have "keys_of (k_pending k1) = []" using Nil keys_of_dropWhile by (metis keys_of_simps(1))
      then have "kinv key h0 h1 i ks [] ?k"
        using kinv1 aw(1) by (cases "k_scancode_queue k1") (auto simp: kinv_def sched_inv_def tasks_in_def codes_in_def)
      then have "idle_done key h0 h1 i ks ?k" using aw by (simp add: idle_done_def codes_in_def)
      then show ?thesis using s Nil by (simp add: enable_and_hlt_def)
    next
      case (Cons b bs)
      let ?k3 = "k1\<lparr>k_interrupts := True, k_pending := bs\<rparr>"
      have keys: "keys_of (k_pending k1) = batch_keys b @ keys_of bs"
        using Cons keys_of_dropWhile [of "k_pending k1"] by simp
      have len: "length bs \<le> length (k_pending k1)" "k_pending k1 \<noteq> []"
        using Cons length_dropWhile_le [of "\<lambda>b. b = []" "k_pending k1"] by auto
      have "sched_inv key h0 h1 i ks [] (batch_keys b @ keys_of bs) ?k3"
        using kinv1 keys by (simp add: kinv_def inv_pending)
      from handle_batch_inv [OF this] obtain k4 where k4: "ofold (handle_irq C) b ?k3 = Ret k4"
          "sched_inv key h0 h1 i ks [] (keys_of bs) k4" "irq_step (batch_keys b @ keys_of bs) ?k3 (keys_of bs) k4" "k_pending k4 = bs"
        by auto
      have st: "irq_step (keys_of (k_pending k1)) k1 (keys_of bs) k4"
        using k4(3) keys nh(2) by (simp add: irq_step_def tasks_in_def codes_in_def armed_def awake_def)
      have "loop_inv key h0 h1 i ks k4"
        by (rule loop_inv_step [OF k1(2) st]) (use k4(2,4) in \<open>simp add: kinv_def\<close>)
      moreover have "\<not> k_halted k4" using st nh(1) by (simp add: irq_step_def)
      moreover have "length (k_pending k4) \<le> length (k_pending k)" "k_pending k \<noteq> []" using len k4(4) k1(4) by auto
      ultimately show ?thesis using s Cons k4(1) by (simp add: enable_and_hlt_def)
    qed
  qed
qed

lemma executor_run_ends:
  assumes "loop_inv key h0 h1 i ks k" and "\<not> k_halted k" and "length (k_pending k) < n"
    and key: "\<forall>c h. \<exists>h'. key c h = Ret h'" and sh: "open_shell h0 = Ret h1"
  shows "\<exists>k'. executor_run n C (process_keypresses C open_shell key) k = rret k' \<and> idle_done key h0 h1 i ks k'"
  using assms(1-3)
proof (induction n arbitrary: k)
  case (Suc n)
  obtain k1 where k1: "run_ready_tasks C (process_keypresses C open_shell key) k = rret k1" "loop_inv key h0 h1 i ks k1"
      "k_halted k1 = k_halted k" "tasks_in k1 = []" "length (k_pending k1) \<le> length (k_pending k) - 1"
    using run_ready_ends [where open_shell = open_shell, OF Suc.prems(1) key sh] by blast
  have nh: "\<not> k_halted k1" using k1(3) Suc.prems(2) by simp
  obtain k2 where k2: "sleep_if_idle C k1 = Ret k2" "idle_done key h0 h1 i ks k2
       \<or> loop_inv key h0 h1 i ks k2 \<and> \<not> k_halted k2 \<and> length (k_pending k2) \<le> length (k_pending k1) \<and> k_pending k1 \<noteq> []"
    using sleep_inv [OF k1(2) nh] k1(4) by blast
  have r: "executor_run (Suc n) C (process_keypresses C open_shell key) k
      = executor_run n C (process_keypresses C open_shell key) k2"
    using k1(1) k2(1) Suc.prems(2) by simp
  show ?case
  proof (cases "k_halted k2")
    case True
    then have "executor_run n C (process_keypresses C open_shell key) k2 = rret k2" by (cases n) simp_all
    then show ?thesis using r k2(2) True by auto
  next
    case False
    then have l: "loop_inv key h0 h1 i ks k2" "length (k_pending k2) \<le> length (k_pending k1)" "k_pending k1 \<noteq> []"
      using k2(2) by (auto simp: idle_done_def)
    have "length (k_pending k2) < n"
      using l(2,3) k1(5) Suc.prems(3) by (cases "k_pending k1") auto
    with Suc.IH [OF l(1) False this] r show ?thesis by simp
  qed
qed simp

lemma boot_inv:
  assumes "length (keys_of irqs) \<le> 99"
  shows "\<exists>k. spawn C \<lparr>t_id = i, t_future = KbStart\<rparr> (executor_new C h0 irqs) = Ret k
    \<and> loop_inv key h0 h1 i (keys_of irqs) k \<and> \<not> k_halted k \<and> k_pending k = irqs"
proof -
  obtain q where q: "aq_push (c_tasks C) i (aq_new (c_tasks C) 100) = Some q" "tqc q = [i]" "tcap q = 100"
    using tq.push_ok [of "aq_new (c_tasks C) 100" i] tq.new_empty tq.new_cap by auto
  let ?k = "(executor_new C h0 irqs)\<lparr>k_tasks := [i \<mapsto> \<lparr>t_id = i, t_future = KbStart\<rparr>], k_task_queue := q\<rparr>"
  have "spawn C \<lparr>t_id = i, t_future = KbStart\<rparr> (executor_new C h0 irqs) = Ret ?k"
    using q(1) by (simp add: spawn_def executor_new_def)
  moreover have "loop_inv key h0 h1 i (keys_of irqs) ?k"
    using q(2,3) assms aw_new
    by (auto simp: loop_inv_def kinv_def sched_inv_def tasks_in_def codes_in_def executor_new_def
        intro!: exI [of _ "\<lparr>t_id = i, t_future = KbStart\<rparr>"])
  ultimately show ?thesis by (simp add: executor_new_def)
qed

lemma all_keys_handled:
  assumes "length (keys_of irqs) \<le> 99" and key: "\<forall>c h. \<exists>h'. key c h = Ret h'" and sh: "open_shell h0 = Ret h1"
  shows "\<exists>k0 k lost handled. spawn C \<lparr>t_id = i, t_future = KbStart\<rparr> (executor_new C h0 irqs) = Ret k0
    \<and> executor_run (length irqs + 1) C (process_keypresses C open_shell key) k0 = rret k
    \<and> k_halted k \<and> keys_of irqs = lost @ handled \<and> length lost = length (k_warnings k)
    \<and> ofold key handled h1 = Ret (k_console k)"
proof -
  obtain k0 where k0: "spawn C \<lparr>t_id = i, t_future = KbStart\<rparr> (executor_new C h0 irqs) = Ret k0"
      "loop_inv key h0 h1 i (keys_of irqs) k0" "\<not> k_halted k0" "k_pending k0 = irqs"
    using boot_inv [OF assms(1), where i = i and key = key and ?h0.0 = h0 and ?h1.0 = h1] by blast
  have "length (k_pending k0) < length irqs + 1" using k0(4) by simp
  from executor_run_ends [where open_shell = open_shell, OF k0(2,3) this key sh] obtain k where
    k: "executor_run (length irqs + 1) C (process_keypresses C open_shell key) k0 = rret k" "idle_done key h0 h1 i (keys_of irqs) k"
    by blast
  obtain lost handled where "length lost = length (k_warnings k)" "keys_of irqs = lost @ handled"
      "ofold key handled h1 = Ret (k_console k)"
    using k(2) by (auto simp: idle_done_def kinv_def sched_inv_def)
  with k0(1) k show ?thesis unfolding idle_done_def by blast
qed

end

text \<open>The contracts can be met: queues as lists with a capacity, the waker cell as an option.\<close>

definition list_queue :: "('a, 'a list \<times> nat) array_queue_ops" where
  "list_queue = \<lparr>aq_new = (\<lambda>n. ([], n)),
     aq_push = (\<lambda>x (xs, n). if length xs < n then Some (xs @ [x], n) else None),
     aq_pop = (\<lambda>(xs, n). case xs of [] \<Rightarrow> None | y # ys \<Rightarrow> Some (y, (ys, n))),
     aq_is_empty = (\<lambda>(xs, n). xs = [])\<rparr>"

definition list_crates :: "(task_id list \<times> nat, u8 list \<times> nat, waker option) crate_ops" where
  "list_crates = \<lparr>c_tasks = list_queue, c_scancodes = list_queue, c_aw_new = None,
     c_aw_register = (\<lambda>w _. Some w), c_aw_take = (\<lambda>a. (a, None))\<rparr>"

interpretation list_array_queue: array_queue list_queue fst snd
  by unfold_locales (auto simp: list_queue_def split: list.split)

interpretation list_kernel: kernel_crates list_crates fst snd fst snd "\<lambda>a. a"
  by unfold_locales (auto simp: list_crates_def list_queue_def split: list.split)



text \<open>The bound is needed: every scancode that arrives between the registration and the second
  pop wakes the task once more while it is still being polled, and each wake pushes its identifier
  again. The 101st such keypress within one poll finds the queue full and panics.\<close>

primrec flood :: "nat \<Rightarrow> irq list list" where
  "flood 0 = []"
| "flood (Suc n) = [] # [] # [KeyIrq 30] # [] # flood n"

lemma flood_round:
  assumes "k_task_queue k = (ts, 100)" and "length ts + n = 100" and "k_scancode_queue k = Some ([], 100)"
    and "k_interrupts k" and "k_pending k = flood (Suc n)"
  shows "process_loop list_crates (\<lambda>c h. Ret h) w k = Some (Panic (PanicMsg ''task_queue full''))"
  using assms
proof (induction n arbitrary: k ts)
  case 0
  then show ?case
    by (subst process_loop.simps)
      (simp add: poll_next_def interrupts_here_def pop_scancode_def list_crates_def list_queue_def handle_irq_def
        keyboard_interrupt_handler_def add_scancode_def waker_wake_def wake_task_def)
next
  case (Suc n)
  let ?k = "k\<lparr>k_task_queue := (ts @ [w_task_id w], 100), k_scancode_queue := Some ([], 100), k_waker := None,
    k_pending := flood (Suc n), k_eoi := k_eoi k @ [33]\<rparr>"
  have "poll_next list_crates w k = Ret (Some 30, ?k)"
    using Suc.prems
    by (simp add: poll_next_def interrupts_here_def pop_scancode_def list_crates_def list_queue_def handle_irq_def
        keyboard_interrupt_handler_def add_scancode_def waker_wake_def wake_task_def end_interrupt_def index_as_u8_def PIC_1_OFFSET_def)
  moreover have "process_loop list_crates (\<lambda>c h. Ret h) w ?k = Some (Panic (PanicMsg ''task_queue full''))"
    by (rule Suc.IH [of _ "ts @ [w_task_id w]"]) (use Suc.prems in simp_all)
  ultimately show ?case by (subst process_loop.simps) simp
qed

lemma flood_panics:
  "obind (spawn list_crates (fst (task_new KbStart 0)) (executor_new list_crates h ([] # flood 101))) (\<lambda>k.
     the (executor_run 1 list_crates (process_keypresses list_crates Ret (\<lambda>c h. Ret h)) k))
   = Panic (PanicMsg ''task_queue full'')"
proof -
  let ?i = "TaskId 0"
  let ?k = "\<lparr>k_tasks = [?i \<mapsto> \<lparr>t_id = ?i, t_future = KbStart\<rparr>], k_task_queue = ([], 100),
     k_waker_cache = [?i \<mapsto> waker_new ?i], k_scancode_queue = Some ([], 100), k_waker = None, k_console = h,
     k_interrupts = True, k_pending = flood 101, k_halted = False, k_warnings = [], k_eoi = []\<rparr>"
  have "process_loop list_crates (\<lambda>c h. Ret h) (waker_new ?i) ?k = Some (Panic (PanicMsg ''task_queue full''))"
    by (rule flood_round [of _ "[]" 100]) (simp_all add: eval_nat_numeral)
  then have "process_keypresses list_crates Ret (\<lambda>c h. Ret h) KbStart (waker_new ?i) (?k\<lparr>k_scancode_queue := None\<rparr>)
      = Some (Panic (PanicMsg ''task_queue full''))"
    by (simp add: process_keypresses_def scancode_stream_new_def list_crates_def list_queue_def)
  then show ?thesis
    by (simp add: spawn_def executor_new_def task_new_def task_id_new_def list_crates_def list_queue_def
        run_ready_tasks.simps interrupts_here_def cached_waker_def Let_def del: flood.simps)
qed

end
