(* ===== verification/Interrupts.thy ===== *)
theory Interrupts
  imports Sched "HOL-Library.Sublist"
begin

section \<open>Exceptions and the serial port (drivers/interrupts/interrupts.rs, drivers/serial.rs)\<close>

text \<open>
  The interrupt descriptor table, the handlers of the processor's exceptions, and printing to the
  serial port, which every one of them does. The port stands behind a spin lock that is taken with
  interrupts off. \<open>send\<close> is the byte output of uart_16550's \<open>SerialPort\<close>, whose \<open>fmt::Write\<close> never
  fails; what the crates print of their own types are parameters too.
\<close>

subsection \<open>The serial port\<close>

record 'p serial =
  sp_port :: 'p
  sp_locked :: bool
  sp_interrupts :: bool

text \<open>\<open>_print\<close>: in a section without interrupts the lock is taken, the text written and the lock
  released. Taking a lock that is held spins for ever.\<close>

definition serial_print :: "(char \<Rightarrow> 'p \<Rightarrow> 'p) \<Rightarrow> string \<Rightarrow> 'p serial \<Rightarrow> 'p serial option" where
  "serial_print send args m =
     (let saved = sp_interrupts m; m = m\<lparr>sp_interrupts := False\<rparr>
      in if sp_locked m then None
         else
           (let m = m\<lparr>sp_locked := True\<rparr>; m = m\<lparr>sp_port := fold send args (sp_port m)\<rparr>; m = m\<lparr>sp_locked := False\<rparr>
            in Some (if saved then m\<lparr>sp_interrupts := True\<rparr> else m)))"

definition newline :: char where "newline = CHR 0x0A"

definition kprintln :: "(char \<Rightarrow> 'p \<Rightarrow> 'p) \<Rightarrow> string \<Rightarrow> 'p serial \<Rightarrow> 'p serial option" where
  "kprintln send s m = serial_print send (s @ [newline]) m"

subsection \<open>The handlers\<close>

text \<open>How a handler ends: it returns to the interrupted code, or halts the processor for good.\<close>

datatype 'p fault_end = Returned "'p serial" | Halted "'p serial"

text \<open>What the x86_64 crate prints of its types, and \<open>core\<close> of a panic with its place.\<close>

record ('fr, 'ec) printers =
  show_frame :: "'fr \<Rightarrow> string"
  show_code :: "'ec \<Rightarrow> string"
  show_virt :: "u64 \<Rightarrow> string"
  show_info :: "string \<Rightarrow> string"

fun display_nat :: "nat \<Rightarrow> string" where
  "display_nat n = (if n < 10 then [char_of (48 + n)] else display_nat (n div 10) @ [char_of (48 + n mod 10)])"

declare display_nat.simps [simp del]

definition generic_fault :: "(char \<Rightarrow> 'p \<Rightarrow> 'p) \<Rightarrow> ('fr, 'ec) printers \<Rightarrow> string \<Rightarrow> 'fr \<Rightarrow> 'p serial \<Rightarrow> 'p fault_end option" where
  "generic_fault send S name stack_frame m =
     map_option Returned (kprintln send (''EXCEPTION: '' @ name @ [newline] @ show_frame S stack_frame) m)"

definition generic_fault_code :: "(char \<Rightarrow> 'p \<Rightarrow> 'p) \<Rightarrow> ('fr, 'ec) printers \<Rightarrow> string \<Rightarrow> 'fr \<Rightarrow> u64 \<Rightarrow> 'p serial \<Rightarrow> 'p fault_end option" where
  "generic_fault_code send S name stack_frame code m =
     map_option Returned (kprintln send (''EXCEPTION: '' @ name @ [newline] @ show_frame S stack_frame @ [newline]
       @ ''CODE: '' @ display_nat (unat code)) m)"

text \<open>\<open>cr2\<close> is the address the processor leaves in its register.\<close>

definition page_fault_handler :: "(char \<Rightarrow> 'p \<Rightarrow> 'p) \<Rightarrow> ('fr, 'ec) printers \<Rightarrow> u64 \<Rightarrow> 'fr \<Rightarrow> 'ec \<Rightarrow> 'p serial \<Rightarrow> 'p fault_end option" where
  "page_fault_handler send S cr2 stack_frame error_code m =
     Option.bind (kprintln send ''EXCEPTION: PAGE FAULT'' m) (\<lambda>m.
     Option.bind (kprintln send (''Accessed Address: '' @ show_virt S cr2) m) (\<lambda>m.
     Option.bind (kprintln send (''Error Code: '' @ show_code S error_code) m) (\<lambda>m.
     Option.bind (kprintln send (show_frame S stack_frame) m) (\<lambda>m.
     Some (Halted m)))))"

text \<open>The panic handler of the kernel.\<close>

definition panic_handler :: "(char \<Rightarrow> 'p \<Rightarrow> 'p) \<Rightarrow> ('fr, 'ec) printers \<Rightarrow> string \<Rightarrow> 'p serial \<Rightarrow> 'p fault_end option" where
  "panic_handler send S msg m = map_option Halted (kprintln send (show_info S msg) m)"

definition double_fault_handler :: "(char \<Rightarrow> 'p \<Rightarrow> 'p) \<Rightarrow> ('fr, 'ec) printers \<Rightarrow> 'fr \<Rightarrow> u64 \<Rightarrow> 'p serial \<Rightarrow> 'p fault_end option" where
  "double_fault_handler send S stack_frame error_code m =
     panic_handler send S (''EXCEPTION: DOUBLE FAULT'' @ [newline] @ show_frame S stack_frame) m"

subsection \<open>The table\<close>

text \<open>The entries of the table the source sets: fields of the crate's table by name, interrupts of
  the controller by index.\<close>

datatype idt_entry =
    Divide_error | Debug_trap | Non_maskable_interrupt | Breakpoint | Overflow | Bound_range_exceeded | Invalid_opcode
  | Device_not_available | Double_fault | Invalid_tss | Segment_not_present | Stack_segment_fault | General_protection_fault
  | Page_fault | Alignment_check | Simd_floating_point | Virtualization | Security_exception | Entry nat

datatype fault_handler = Generic_fault string | Generic_fault_code string | Page_fault_handler | Double_fault_handler

datatype handler = Fault fault_handler | Timer_interrupt_handler | Keyboard_interrupt_handler

definition DOUBLE_FAULT_IST_INDEX :: u16 where "DOUBLE_FAULT_IST_INDEX = 0"

definition index_as_usize :: "interrupt_index \<Rightarrow> nat" where
  "index_as_usize i = unat (index_as_u8 i)"

text \<open>A handler, with the stack it runs on if it is not the current one.\<close>

definition IDT :: "idt_entry \<rightharpoonup> handler \<times> u16 option" where
  "IDT = Map.empty
     (Page_fault \<mapsto> (Fault Page_fault_handler, None),
      Double_fault \<mapsto> (Fault Double_fault_handler, Some DOUBLE_FAULT_IST_INDEX),
      Entry (index_as_usize Timer) \<mapsto> (Timer_interrupt_handler, None),
      Entry (index_as_usize Keyboard) \<mapsto> (Keyboard_interrupt_handler, None),
      Breakpoint \<mapsto> (Fault (Generic_fault ''BREAKPOINT''), None),
      Divide_error \<mapsto> (Fault (Generic_fault ''DIVIDE ERROR''), None),
      Debug_trap \<mapsto> (Fault (Generic_fault ''DEBUG''), None),
      Non_maskable_interrupt \<mapsto> (Fault (Generic_fault ''NON MASKABLE INTERRUPT''), None),
      Overflow \<mapsto> (Fault (Generic_fault ''OVERFLOW''), None),
      Bound_range_exceeded \<mapsto> (Fault (Generic_fault ''BOUND RANGE EXCEEDED''), None),
      Invalid_opcode \<mapsto> (Fault (Generic_fault ''INVALID OPCODE''), None),
      Device_not_available \<mapsto> (Fault (Generic_fault ''DEVICE NOT AVAILABLE''), None),
      Invalid_tss \<mapsto> (Fault (Generic_fault_code ''INVALID TSS''), None),
      Segment_not_present \<mapsto> (Fault (Generic_fault_code ''SEGMENT NOT PRESENT''), None),
      Stack_segment_fault \<mapsto> (Fault (Generic_fault_code ''STACK SEGMENT FAULT''), None),
      General_protection_fault \<mapsto> (Fault (Generic_fault_code ''GENERAL PROTECTION FAULT''), None),
      Alignment_check \<mapsto> (Fault (Generic_fault_code ''ALIGNMENT CHECK''), None),
      Simd_floating_point \<mapsto> (Fault (Generic_fault ''SIMD FLOATING POINT''), None),
      Virtualization \<mapsto> (Fault (Generic_fault ''VIRTUALIZATION''), None),
      Security_exception \<mapsto> (Fault (Generic_fault_code ''SECURITY EXCEPTION''), None))"

text \<open>An exception, with what the processor hands to its handler. The interrupts of the controller
  are in \<open>handle_irq\<close>.\<close>

record ('fr, 'ec) trap =
  tr_frame :: 'fr
  tr_code :: u64
  tr_page_code :: 'ec
  tr_cr2 :: u64

definition run_fault :: "(char \<Rightarrow> 'p \<Rightarrow> 'p) \<Rightarrow> ('fr, 'ec) printers \<Rightarrow> fault_handler \<Rightarrow> ('fr, 'ec) trap \<Rightarrow> 'p serial \<Rightarrow> 'p fault_end option" where
  "run_fault send S h t m =
     (case h of
        Generic_fault name \<Rightarrow> generic_fault send S name (tr_frame t) m
      | Generic_fault_code name \<Rightarrow> generic_fault_code send S name (tr_frame t) (tr_code t) m
      | Page_fault_handler \<Rightarrow> page_fault_handler send S (tr_cr2 t) (tr_frame t) (tr_page_code t) m
      | Double_fault_handler \<Rightarrow> double_fault_handler send S (tr_frame t) (tr_code t) m)"

subsection \<open>Interrupts while printing\<close>

text \<open>
  The steps of \<open>_print\<close> one by one, with interrupts between any two of them. A step
  relation over the state of the port and the position in the print under way: the flag saved on
  entry and the text still to be written. An interrupt is taken only while interrupts are on; the
  processor turns them off for the handler, which prints messages of its own, and on again when the
  handler returns.
\<close>

datatype at_print = Idle | Entered bool string | Holding bool string | Released bool

primrec handler_prints :: "(char \<Rightarrow> 'p \<Rightarrow> 'p) \<Rightarrow> string list \<Rightarrow> 'p serial \<Rightarrow> 'p serial option" where
  "handler_prints send [] m = Some m"
| "handler_prints send (s # ss) m = Option.bind (serial_print send s m) (handler_prints send ss)"

text \<open>The third part of a state are the messages in the order in which they took the lock.\<close>

inductive print_step :: "(char \<Rightarrow> 'p \<Rightarrow> 'p) \<Rightarrow> at_print \<times> 'p serial \<times> string list \<Rightarrow> at_print \<times> 'p serial \<times> string list \<Rightarrow> bool" for send where
  enter: "print_step send (Idle, m, l) (Entered (sp_interrupts m) s, m\<lparr>sp_interrupts := False\<rparr>, l)"
| lock: "\<not> sp_locked m \<Longrightarrow> print_step send (Entered b s, m, l) (Holding b s, m\<lparr>sp_locked := True\<rparr>, l @ [s])"
| put_byte: "print_step send (Holding b (c # s), m, l) (Holding b s, m\<lparr>sp_port := send c (sp_port m)\<rparr>, l)"
| unlock: "print_step send (Holding b [], m, l) (Released b, m\<lparr>sp_locked := False\<rparr>, l)"
| leave: "print_step send (Released b, m, l) (Idle, if b then m\<lparr>sp_interrupts := True\<rparr> else m, l)"
| interrupt: "sp_interrupts m \<Longrightarrow> handler_prints send ss (m\<lparr>sp_interrupts := False\<rparr>) = Some m' \<Longrightarrow>
    print_step send (p, m, l) (p, m'\<lparr>sp_interrupts := True\<rparr>, l @ ss)"

fun unwritten :: "at_print \<Rightarrow> string" where
  "unwritten (Holding b s) = s"
| "unwritten _ = []"

fun holding :: "at_print \<Rightarrow> bool" where
  "holding (Holding b s) = True"
| "holding _ = False"

text \<open>The lock is held exactly while a print is writing, and interrupts are off whenever a print is
  under way.\<close>

fun print_inv :: "(char \<Rightarrow> 'p \<Rightarrow> 'p) \<Rightarrow> 'p \<Rightarrow> at_print \<times> 'p serial \<times> string list \<Rightarrow> bool" where
  "print_inv send p0 (p, m, l) \<longleftrightarrow> sp_locked m = holding p \<and> (p \<noteq> Idle \<longrightarrow> \<not> sp_interrupts m)
     \<and> fold send (unwritten p) (sp_port m) = fold send (concat l) p0"

lemma handler_prints_unlocked:
  assumes "\<not> sp_locked m" and "\<not> sp_interrupts m"
  shows "handler_prints send ss m = Some (m\<lparr>sp_port := fold send (concat ss) (sp_port m)\<rparr>)"
  using assms by (induction ss arbitrary: m) (simp_all add: serial_print_def Let_def)

lemma print_inv_step: "print_step send x y \<Longrightarrow> print_inv send p0 x \<Longrightarrow> print_inv send p0 y"
proof (induction rule: print_step.induct)
  case (interrupt m ss m' p l)
  then have "p = Idle" by auto
  with interrupt show ?case by (auto simp: handler_prints_unlocked)
qed auto

lemma print_progress: "print_inv send p0 (p, m, l) \<Longrightarrow> \<exists>y. print_step send (p, m, l) y"
proof (cases p)
  case (Holding b s)
  then show ?thesis by (cases s) (auto intro: print_step.intros)
next
  case (Entered b s)
  moreover assume "print_inv send p0 (p, m, l)"
  ultimately show ?thesis using print_step.lock [of m send b s l] by auto
qed (auto intro: print_step.intros)

subsection \<open>Exceptions\<close>

text \<open>The names under which exceptions are reported.\<close>

fun entry_name :: "idt_entry \<Rightarrow> string" where
  "entry_name Divide_error = ''DIVIDE ERROR''"
| "entry_name Debug_trap = ''DEBUG''"
| "entry_name Non_maskable_interrupt = ''NON MASKABLE INTERRUPT''"
| "entry_name Breakpoint = ''BREAKPOINT''"
| "entry_name Overflow = ''OVERFLOW''"
| "entry_name Bound_range_exceeded = ''BOUND RANGE EXCEEDED''"
| "entry_name Invalid_opcode = ''INVALID OPCODE''"
| "entry_name Device_not_available = ''DEVICE NOT AVAILABLE''"
| "entry_name Double_fault = ''DOUBLE FAULT''"
| "entry_name Invalid_tss = ''INVALID TSS''"
| "entry_name Segment_not_present = ''SEGMENT NOT PRESENT''"
| "entry_name Stack_segment_fault = ''STACK SEGMENT FAULT''"
| "entry_name General_protection_fault = ''GENERAL PROTECTION FAULT''"
| "entry_name Page_fault = ''PAGE FAULT''"
| "entry_name Alignment_check = ''ALIGNMENT CHECK''"
| "entry_name Simd_floating_point = ''SIMD FLOATING POINT''"
| "entry_name Virtualization = ''VIRTUALIZATION''"
| "entry_name Security_exception = ''SECURITY EXCEPTION''"
| "entry_name (Entry i) = []"

lemma kprintln_unlocked:
  "kprintln send s m = (if sp_locked m then None else Some (m\<lparr>sp_port := fold send (s @ [newline]) (sp_port m)\<rparr>))"
  by (cases m) (simp add: kprintln_def serial_print_def Let_def)

text \<open>What a handler prints, as one text.\<close>

definition fault_text :: "('fr, 'ec) printers \<Rightarrow> fault_handler \<Rightarrow> ('fr, 'ec) trap \<Rightarrow> string" where
  "fault_text S h t =
     (case h of
        Generic_fault name \<Rightarrow> ''EXCEPTION: '' @ name @ [newline] @ show_frame S (tr_frame t) @ [newline]
      | Generic_fault_code name \<Rightarrow> ''EXCEPTION: '' @ name @ [newline] @ show_frame S (tr_frame t) @ [newline]
          @ ''CODE: '' @ display_nat (unat (tr_code t)) @ [newline]
      | Page_fault_handler \<Rightarrow> ''EXCEPTION: PAGE FAULT'' @ [newline] @ ''Accessed Address: '' @ show_virt S (tr_cr2 t) @ [newline]
          @ ''Error Code: '' @ show_code S (tr_page_code t) @ [newline] @ show_frame S (tr_frame t) @ [newline]
      | Double_fault_handler \<Rightarrow> show_info S (''EXCEPTION: DOUBLE FAULT'' @ [newline] @ show_frame S (tr_frame t)) @ [newline])"

lemma run_fault_prints:
  "run_fault send S h t m = (if sp_locked m then None else
     Some ((if h \<in> {Page_fault_handler, Double_fault_handler} then Halted else Returned) (m\<lparr>sp_port := fold send (fault_text S h t) (sp_port m)\<rparr>)))"
  by (cases h) (simp_all add: run_fault_def generic_fault_def generic_fault_code_def page_fault_handler_def double_fault_handler_def
      panic_handler_def kprintln_unlocked fault_text_def)

lemma IDT_faults:
  assumes "IDT e = Some (Fault h, ist)"
  shows "case h of Generic_fault name \<Rightarrow> name = entry_name e \<and> ist = None \<and> e \<notin> {Page_fault, Double_fault}
    | Generic_fault_code name \<Rightarrow> name = entry_name e \<and> ist = None \<and> e \<notin> {Page_fault, Double_fault}
    | Page_fault_handler \<Rightarrow> e = Page_fault \<and> ist = None
    | Double_fault_handler \<Rightarrow> e = Double_fault \<and> ist = Some DOUBLE_FAULT_IST_INDEX"
  using assms by (cases e) (auto simp: IDT_def split: if_splits)

subsection \<open>Properties\<close>

text \<open>
  C18: messages on the serial port are never torn and printing never deadlocks with interrupts.
  Whatever interrupts arrive between the steps of the prints, each with a handler that prints
  messages of its own, the port has been sent the messages whole and in the order in which they
  took the lock, up to the part of the last one that is still being written; a handler that an
  interrupt starts always finds the lock free; and the next step can always be taken.
\<close>

theorem prints_whole:
  assumes "(print_step send)\<^sup>*\<^sup>* (Idle, m0, []) (p, m, l)" and "\<not> sp_locked m0"
  shows "fold send (unwritten p) (sp_port m) = fold send (concat l) (sp_port m0)
    \<and> (sp_interrupts m \<longrightarrow> (\<forall>ss. handler_prints send ss (m\<lparr>sp_interrupts := False\<rparr>) \<noteq> None))
    \<and> (\<exists>y. print_step send (p, m, l) y)"
proof -
  have inv: "print_inv send (sp_port m0) (p, m, l)"
    using assms(1) by (induction rule: rtranclp_induct) (use assms(2) in \<open>auto dest: print_inv_step\<close>)
  have "\<exists>y. print_step send (p, m, l) y" by (rule print_progress [OF inv])
  moreover have "\<not> sp_locked m" if "sp_interrupts m" using that inv by auto
  ultimately show ?thesis using inv by (auto simp: handler_prints_unlocked)
qed

text \<open>An interrupt prints before a line, which is then half written.\<close>

theorem prints_whole_witness:
  "fold (\<lambda>c p. p @ [c]) ''i'' ''okh'' = fold (\<lambda>c p. p @ [c]) (concat [''ok'', ''hi'']) []"
proof -
  let ?m = "\<lambda>p b l. \<lparr>sp_port = p, sp_locked = l, sp_interrupts = b\<rparr> :: string serial"
  let ?s = "\<lambda>c (p :: string). p @ [c]"
  have "print_step ?s (Idle, ?m [] True False, []) (Idle, ?m ''ok'' True False, [''ok''])"
    using print_step.interrupt [of "?m [] True False" ?s "[''ok'']" "?m ''ok'' False False" Idle "[]"] by (simp add: serial_print_def)
  moreover have "print_step ?s (Idle, ?m ''ok'' True False, [''ok'']) (Entered True ''hi'', ?m ''ok'' False False, [''ok''])"
    using print_step.enter [of ?s "?m ''ok'' True False" "[''ok'']" "''hi''"] by simp
  moreover have "print_step ?s (Entered True ''hi'', ?m ''ok'' False False, [''ok'']) (Holding True ''hi'', ?m ''ok'' False True, [''ok'', ''hi''])"
    using print_step.lock [of "?m ''ok'' False False" ?s True "''hi''" "[''ok'']"] by simp
  moreover have "print_step ?s (Holding True ''hi'', ?m ''ok'' False True, [''ok'', ''hi'']) (Holding True ''i'', ?m ''okh'' False True, [''ok'', ''hi''])"
    using print_step.put_byte [of ?s True "CHR ''h''" "''i''" "?m ''ok'' False True" "[''ok'', ''hi'']"] by simp
  ultimately have "(print_step ?s)\<^sup>*\<^sup>* (Idle, ?m [] True False, []) (Holding True ''i'', ?m ''okh'' False True, [''ok'', ''hi''])"
    by (blast intro: converse_rtranclp_into_rtranclp)
  from prints_whole [OF this] show ?thesis by simp
qed

text \<open>
  C27: the exceptions the table has handlers for. If the port is free, each handler reports its own
  exception by name and then returns to the interrupted code, but for page faults and double
  faults, which halt the processor; only double faults get a stack of their own. If the exception
  strikes while a print holds the lock, every handler spins for ever.
\<close>

theorem exceptions_reported:
  assumes "IDT e = Some (Fault h, ist)"
  shows "run_fault send S h t m = (if sp_locked m then None
      else Some ((if e \<in> {Page_fault, Double_fault} then Halted else Returned) (m\<lparr>sp_port := fold send (fault_text S h t) (sp_port m)\<rparr>)))
    \<and> (e \<noteq> Double_fault \<longrightarrow> prefix (''EXCEPTION: '' @ entry_name e @ [newline]) (fault_text S h t))
    \<and> (ist \<noteq> None \<longleftrightarrow> e = Double_fault)"
  using IDT_faults [OF assms] by (cases h) (auto simp: run_fault_prints fault_text_def)

theorem exceptions_reported_witness:
  "run_fault (\<lambda>c p. p @ [c]) \<lparr>show_frame = (\<lambda>_. ''frame''), show_code = (\<lambda>_. []), show_virt = (\<lambda>_. []), show_info = (\<lambda>s. s)\<rparr>
     (Generic_fault ''BREAKPOINT'') \<lparr>tr_frame = (), tr_code = 0, tr_page_code = (), tr_cr2 = 0\<rparr>
     \<lparr>sp_port = [], sp_locked = False, sp_interrupts = False\<rparr>
   = Some (Returned \<lparr>sp_port = ''EXCEPTION: BREAKPOINT'' @ [newline] @ ''frame'' @ [newline], sp_locked = False, sp_interrupts = False\<rparr>)"
proof -
  have "IDT Breakpoint = Some (Fault (Generic_fault ''BREAKPOINT''), None)" by (simp add: IDT_def)
  from exceptions_reported [OF this, of "\<lambda>c p. p @ [c]" "\<lparr>show_frame = (\<lambda>_. ''frame''), show_code = (\<lambda>_. []), show_virt = (\<lambda>_. []), show_info = (\<lambda>s. s)\<rparr>"
      "\<lparr>tr_frame = (), tr_code = 0, tr_page_code = (), tr_cr2 = 0\<rparr>" "\<lparr>sp_port = [], sp_locked = False, sp_interrupts = False\<rparr>"]
  show ?thesis by (simp add: fault_text_def)
qed

end
