(* ===== verification/Vga.thy ===== *)
theory Vga
  imports Prelude
begin

section \<open>The text screen (kernel/src/drivers/vga_buffer.rs)\<close>

text \<open>
  The screen is a grid of 25 rows of 80 character cells: 24 rows of scrolling text and the
  shell's row. The writer always writes the last text row and scrolls the text rows up on a
  new line. Bytes sent to the cursor ports are recorded in order. The specification is a
  terminal with an unbounded list of rows, of which the screen shows the last 24.
\<close>

datatype vga_color =
    Black | Blue | Green | Cyan | Red | Magenta | Brown | LightGray | DarkGray | LightBlue
  | LightGreen | LightCyan | LightRed | Pink | Yellow | White

definition color_value :: "vga_color \<Rightarrow> u8" where
  "color_value c = (case c of Black \<Rightarrow> 0 | Blue \<Rightarrow> 1 | Green \<Rightarrow> 2 | Cyan \<Rightarrow> 3 | Red \<Rightarrow> 4 | Magenta \<Rightarrow> 5
     | Brown \<Rightarrow> 6 | LightGray \<Rightarrow> 7 | DarkGray \<Rightarrow> 8 | LightBlue \<Rightarrow> 9 | LightGreen \<Rightarrow> 10 | LightCyan \<Rightarrow> 11
     | LightRed \<Rightarrow> 12 | Pink \<Rightarrow> 13 | Yellow \<Rightarrow> 14 | White \<Rightarrow> 15)"

definition color_code_new :: "vga_color \<Rightarrow> vga_color \<Rightarrow> u8" where
  "color_code_new foreground background = push_bit 4 (color_value background) OR color_value foreground"

record screen_char =
  ascii_character :: u8
  color_code :: u8

definition BUFFER_HEIGHT :: nat where "BUFFER_HEIGHT = 25"
definition TEXT_HEIGHT :: nat where "TEXT_HEIGHT = BUFFER_HEIGHT - 1"
definition SHELL_ROW :: nat where "SHELL_ROW = BUFFER_HEIGHT - 1"
definition BUFFER_WIDTH :: nat where "BUFFER_WIDTH = 80"

lemmas screen_size = BUFFER_HEIGHT_def TEXT_HEIGHT_def SHELL_ROW_def BUFFER_WIDTH_def

type_synonym grid = "screen_char list list"

record vga_writer =
  row_position :: nat
  column_position :: nat
  w_color_code :: u8
  w_buffer :: grid
  w_cursor :: "(u16 \<times> u8) list"

definition cell_read :: "grid \<Rightarrow> nat \<Rightarrow> nat \<Rightarrow> screen_char outcome" where
  "cell_read g row col = obind (idx g row) (\<lambda>r. idx r col)"

definition cell_write :: "nat \<Rightarrow> nat \<Rightarrow> screen_char \<Rightarrow> grid \<Rightarrow> grid outcome" where
  "cell_write row col c g = obind (idx g row) (\<lambda>r. obind (upd r col c) (\<lambda>r. upd g row r))"

definition clear_row :: "nat \<Rightarrow> nat \<Rightarrow> vga_writer \<Rightarrow> vga_writer outcome" where
  "clear_row row start w =
     (let blank = \<lparr>ascii_character = 0x20, color_code = w_color_code w\<rparr> in
      obind (ofold (\<lambda>col. cell_write row col blank) [start..<BUFFER_WIDTH] (w_buffer w)) (\<lambda>g.
      Ret (w\<lparr>w_buffer := g\<rparr>)))"

definition scroll_row :: "nat \<Rightarrow> grid \<Rightarrow> grid outcome" where
  "scroll_row row = ofold (\<lambda>col g.
     obind (cell_read g row col) (\<lambda>character. cell_write (row - 1) col character g)) [0..<BUFFER_WIDTH]"

definition new_line :: "vga_writer \<Rightarrow> vga_writer outcome" where
  "new_line w =
     obind (ofold scroll_row [1..<TEXT_HEIGHT] (w_buffer w)) (\<lambda>g.
     obind (clear_row (TEXT_HEIGHT - 1) 0 (w\<lparr>w_buffer := g\<rparr>)) (\<lambda>w.
     Ret (w\<lparr>column_position := 0\<rparr>)))"

definition write_byte :: "u8 \<Rightarrow> vga_writer \<Rightarrow> vga_writer outcome" where
  "write_byte byte w =
     (if byte = 0x0A then new_line w
      else obind (if BUFFER_WIDTH \<le> column_position w then new_line w else Ret w) (\<lambda>w.
           obind (cell_write (row_position w) (column_position w)
                    \<lparr>ascii_character = byte, color_code = w_color_code w\<rparr> (w_buffer w)) (\<lambda>g.
           Ret (w\<lparr>w_buffer := g, column_position := column_position w + 1\<rparr>))))"

definition shown_byte :: "u8 \<Rightarrow> u8" where
  "shown_byte byte = (if 0x20 \<le> byte \<and> byte \<le> 0x7E \<or> byte = 0x0A then byte else 0xFE)"

definition write_string :: "u8 list \<Rightarrow> vga_writer \<Rightarrow> vga_writer outcome" where
  "write_string s = ofold (\<lambda>byte. write_byte (shown_byte byte)) s"

definition set_cursor_x :: "usize \<Rightarrow> vga_writer \<Rightarrow> vga_writer outcome" where
  "set_cursor_x x w =
     obind (add_chk (of_nat (TEXT_HEIGHT * BUFFER_WIDTH)) x) (\<lambda>p.
     obind (add_chk p 2) (\<lambda>position.
     Ret (w\<lparr>w_cursor := w_cursor w @
       [(0x3D4, 0x0F), (0x3D5, ucast (position AND 0xFF)),
        (0x3D4, 0x0E), (0x3D5, ucast (drop_bit 8 position AND 0xFF))]\<rparr>)))"

definition init_shell :: "vga_writer \<Rightarrow> vga_writer outcome" where
  "init_shell w =
     obind (cell_write SHELL_ROW 0 \<lparr>ascii_character = 0x3E, color_code = color_code_new Blue Black\<rparr> (w_buffer w)) (\<lambda>g.
     set_cursor_x 0 (w\<lparr>w_buffer := g\<rparr>))"

definition write_shell_line :: "u8 list \<Rightarrow> vga_writer \<Rightarrow> vga_writer outcome" where
  "write_shell_line txt w =
     obind (clear_row SHELL_ROW 2 w) (\<lambda>w.
     let row = row_position w; col = column_position w in
     obind (write_string txt (w\<lparr>row_position := SHELL_ROW, column_position := 2\<rparr>)) (\<lambda>w.
     Ret (w\<lparr>row_position := row, column_position := col\<rparr>)))"

definition set_color :: "vga_color \<Rightarrow> vga_writer \<Rightarrow> vga_writer" where
  "set_color color w = w\<lparr>w_color_code := color_code_new color Black\<rparr>"

definition reset_color :: "vga_writer \<Rightarrow> vga_writer" where
  "reset_color w = set_color Magenta w"

text \<open>The initial writer over the memory found at the buffer's address.\<close>

definition writer_init :: "grid \<Rightarrow> vga_writer" where
  "writer_init g = \<lparr>row_position = TEXT_HEIGHT - 1, column_position = 0,
     w_color_code = color_code_new Magenta Black, w_buffer = g, w_cursor = []\<rparr>"

subsection \<open>Rows\<close>

definition grid_ok :: "grid \<Rightarrow> bool" where
  "grid_ok g \<longleftrightarrow> length g = 25 \<and> (\<forall>r \<in> set g. length r = 80)"

lemma grid_ok_row: "grid_ok g \<Longrightarrow> i < 25 \<Longrightarrow> length (g ! i) = 80"
  by (simp add: grid_ok_def)

lemma grid_ok_upd: "grid_ok g \<Longrightarrow> length r = 80 \<Longrightarrow> grid_ok (g[i := r])"
  by (auto simp: grid_ok_def dest!: set_update_subset_insert [THEN subsetD])

lemma cell_write_Ret:
  "grid_ok g \<Longrightarrow> row < 25 \<Longrightarrow> col < 80 \<Longrightarrow> cell_write row col c g = Ret (g[row := (g ! row)[col := c]])"
  by (simp add: cell_write_def grid_ok_def)

lemma clear_cols:
  assumes "grid_ok g" and "row < 25" and "start \<le> n" and "n \<le> 80"
  shows "ofold (\<lambda>col. cell_write row col b) [start..<n] g
       = Ret (g[row := take start (g ! row) @ replicate (n - start) b @ drop n (g ! row)])"
  using assms(3,4)
proof (induction n rule: dec_induct)
  case base
  then show ?case by simp
next
  case (step n)
  let ?r = "take start (g ! row) @ replicate (n - start) b @ drop n (g ! row)"
  have l: "length (g ! row) = 80" "row < length g" using assms(1,2) by (simp_all add: grid_ok_def)
  have "length ?r = 80" using l step by simp
  then have ok: "grid_ok (g[row := ?r])" using assms(1) by (rule grid_ok_upd [rotated])
  have "?r[n := b] = take start (g ! row) @ replicate (Suc n - start) b @ drop (Suc n) (g ! row)"
    using step l by (simp add: list_update_append Suc_diff_le replicate_append_same [symmetric] Cons_nth_drop_Suc [symmetric])
  then show ?case
    using step l cell_write_Ret [OF ok, of row n b] assms(2)
    by (simp add: ofold_append upt_Suc_append)
qed

lemma scroll_row_Ret:
  assumes "grid_ok g" and "Suc row < 25"
  shows "scroll_row (Suc row) g = Ret (g[row := g ! Suc row])"
proof -
  have len: "length g = 25" using assms(1) by (simp add: grid_ok_def)
  have l: "length (g ! row) = 80" "length (g ! Suc row) = 80" using assms by (simp_all add: grid_ok_def)
  have "n \<le> 80 \<Longrightarrow> ofold (\<lambda>col g. obind (cell_read g (Suc row) col) (\<lambda>c. cell_write (Suc row - 1) col c g)) [0..<n] g
      = Ret (g[row := take n (g ! Suc row) @ drop n (g ! row)])" for n
  proof (induction n)
    case 0
    then show ?case by simp
  next
    case (Suc n)
    let ?r = "take n (g ! Suc row) @ drop n (g ! row)"
    have ok: "grid_ok (g[row := ?r])" using assms(1) l Suc.prems by (intro grid_ok_upd) simp_all
    have "?r[n := g ! Suc row ! n] = take (Suc n) (g ! Suc row) @ drop (Suc n) (g ! row)"
      using l Suc.prems by (simp add: list_update_append take_Suc_conv_app_nth Cons_nth_drop_Suc [symmetric])
    then show ?case
      using Suc l len assms(2) cell_write_Ret [OF ok, of row n]
      by (simp add: ofold_append cell_read_def)
  qed
  from this [of 80] l show ?thesis by (simp add: scroll_row_def screen_size)
qed

lemma scroll_Ret:
  assumes "grid_ok g" and "n \<le> 24"
  shows "ofold scroll_row [1..<Suc n] g = Ret (take n (tl g) @ drop n g)"
  using assms(2)
proof (induction n)
  case 0
  then show ?case by simp
next
  case (Suc n)
  have len: "length g = 25" and rows: "\<forall>r \<in> set g. length r = 80" using assms(1) by (simp_all add: grid_ok_def)
  let ?g = "take n (tl g) @ drop n g"
  have ok: "grid_ok ?g"
    using len rows Suc.prems by (auto simp: grid_ok_def dest!: in_set_takeD in_set_dropD in_set_tlD)
  have "?g[n := ?g ! Suc n] = take (Suc n) (tl g) @ drop (Suc n) g"
    using len Suc.prems
    by (simp add: list_update_append take_Suc_conv_app_nth nth_append nth_tl Cons_nth_drop_Suc [symmetric])
  then show ?case
    using Suc scroll_row_Ret [OF ok, of n] by (simp add: ofold_append upt_Suc_append)
qed

lemma new_line_Ret:
  assumes "grid_ok (w_buffer w)"
  shows "new_line w = Ret (w\<lparr>w_buffer := tl (take 24 (w_buffer w))
       @ [replicate 80 \<lparr>ascii_character = 0x20, color_code = w_color_code w\<rparr>, w_buffer w ! 24], column_position := 0\<rparr>)"
proof -
  let ?g = "w_buffer w"
  have len: "length ?g = 25" and rows: "\<forall>r \<in> set ?g. length r = 80" using assms by (simp_all add: grid_ok_def)
  have s: "ofold scroll_row [1..<24] ?g = Ret (take 23 (tl ?g) @ drop 23 ?g)"
    using scroll_Ret [OF assms, of 23] by simp
  have d: "drop 23 ?g = [?g ! 23, ?g ! 24]" "drop 24 ?g = [?g ! 24]"
    using len by (simp_all add: Cons_nth_drop_Suc [symmetric])
  have t: "take 23 (tl ?g) = tl (take 24 ?g)" by (cases ?g) simp_all
  have g1: "take 23 (tl ?g) @ drop 23 ?g = tl (take 24 ?g) @ [?g ! 23, ?g ! 24]" using d t by simp
  have ok: "grid_ok (tl (take 24 ?g) @ [?g ! 23, ?g ! 24])"
    using len rows by (auto simp: grid_ok_def dest!: in_set_tlD in_set_takeD)
  have "ofold (\<lambda>col. cell_write 23 col b) [0..<80] (tl (take 24 ?g) @ [?g ! 23, ?g ! 24])
      = Ret (tl (take 24 ?g) @ [replicate 80 b, ?g ! 24])" for b
    using clear_cols [OF ok, of 23 0 80 b] grid_ok_row [OF ok, of 23] len by (simp add: list_update_append)
  then show ?thesis
    using s g1 by (simp add: new_line_def clear_row_def screen_size Let_def)
qed


subsection \<open>The terminal the writer implements\<close>

record terminal =
  t_rows :: grid
  t_col :: nat
  t_color :: u8

definition t_new_line :: "terminal \<Rightarrow> terminal" where
  "t_new_line t = t\<lparr>t_rows := t_rows t @ [replicate 80 \<lparr>ascii_character = 0x20, color_code = t_color t\<rparr>], t_col := 0\<rparr>"

definition t_put :: "u8 \<Rightarrow> terminal \<Rightarrow> terminal" where
  "t_put b t = t\<lparr>t_rows := butlast (t_rows t) @ [(last (t_rows t))[t_col t := \<lparr>ascii_character = b, color_code = t_color t\<rparr>]],
     t_col := t_col t + 1\<rparr>"

definition t_byte :: "u8 \<Rightarrow> terminal \<Rightarrow> terminal" where
  "t_byte b t = (if b = 0x0A then t_new_line t else t_put b (if t_col t < 80 then t else t_new_line t))"

definition t_string :: "u8 list \<Rightarrow> terminal \<Rightarrow> terminal" where
  "t_string s t = foldl (\<lambda>t b. t_byte (shown_byte b) t) t s"

definition shows_terminal :: "terminal \<Rightarrow> vga_writer \<Rightarrow> bool" where
  "shows_terminal t w \<longleftrightarrow> grid_ok (w_buffer w) \<and> row_position w = 23 \<and> 24 \<le> length (t_rows t)
     \<and> take 24 (w_buffer w) = drop (length (t_rows t) - 24) (t_rows t)
     \<and> column_position w = t_col t \<and> t_col t \<le> 80 \<and> w_color_code w = t_color t"

text \<open>What every operation on the text rows leaves alone: the shell's row and the cursor.\<close>

definition same_shell :: "vga_writer \<Rightarrow> vga_writer \<Rightarrow> bool" where
  "same_shell w w' \<longleftrightarrow> w_buffer w' ! 24 = w_buffer w ! 24 \<and> w_cursor w' = w_cursor w"

lemma new_line_shows:
  assumes "shows_terminal t w"
  shows "\<exists>w'. new_line w = Ret w' \<and> shows_terminal (t_new_line t) w' \<and> same_shell w w'"
proof -
  let ?g = "w_buffer w" and ?b = "replicate 80 \<lparr>ascii_character = 0x20, color_code = w_color_code w\<rparr>"
  have g: "grid_ok ?g" "length ?g = 25" and rows: "\<forall>r \<in> set ?g. length r = 80"
    using assms by (simp_all add: shows_terminal_def grid_ok_def)
  have t: "take 24 ?g = drop (length (t_rows t) - 24) (t_rows t)" "24 \<le> length (t_rows t)" "w_color_code w = t_color t"
    using assms by (simp_all add: shows_terminal_def)
  have "grid_ok (tl (take 24 ?g) @ [?b, ?g ! 24])"
    using g rows by (auto simp: grid_ok_def dest!: in_set_tlD in_set_takeD)
  moreover have "tl (take 24 ?g) @ [?b] = drop (Suc (length (t_rows t)) - 24) (t_rows t @ [?b])"
    using t(1,2) Suc_diff_le [OF t(2)] by (simp add: tl_drop drop_Suc [symmetric])
  ultimately show ?thesis
    using assms g t(3) by (simp add: new_line_Ret shows_terminal_def t_new_line_def same_shell_def nth_append)
qed

lemma put_shows:
  assumes "shows_terminal t w" and "t_col t < 80"
  shows "\<exists>g. cell_write (row_position w) (column_position w) \<lparr>ascii_character = b, color_code = w_color_code w\<rparr> (w_buffer w) = Ret g
    \<and> shows_terminal (t_put b t) (w\<lparr>w_buffer := g, column_position := column_position w + 1\<rparr>)
    \<and> same_shell w (w\<lparr>w_buffer := g, column_position := column_position w + 1\<rparr>)"
proof -
  let ?g = "w_buffer w" and ?c = "\<lparr>ascii_character = b, color_code = w_color_code w\<rparr>"
  have g: "grid_ok ?g" "length ?g = 25" "row_position w = 23" "column_position w = t_col t" "w_color_code w = t_color t"
    and t: "take 24 ?g = drop (length (t_rows t) - 24) (t_rows t)" "24 \<le> length (t_rows t)"
    using assms by (simp_all add: shows_terminal_def grid_ok_def)
  have ne: "t_rows t \<noteq> []" using t(2) by auto
  have l: "?g ! 23 = last (t_rows t)"
  proof -
    have "take 24 ?g \<noteq> []" "length (take 24 ?g) = 24" using g(2) by auto
    then have "?g ! 23 = last (take 24 ?g)" by (simp add: last_conv_nth)
    also have "\<dots> = last (t_rows t)" using t ne by simp
    finally show ?thesis .
  qed
  have "take 24 (?g[23 := r]) = butlast (take 24 ?g) @ [r]" for r
    using g(2) take_update_last [of 23 ?g r] by (simp add: butlast_take)
  moreover have "butlast (take 24 ?g) = drop (length (t_rows t) - 24) (butlast (t_rows t))"
    using t by (simp add: butlast_drop)
  ultimately have "take 24 (?g[23 := r]) = drop (length (t_rows t) - 24) (butlast (t_rows t) @ [r])" for r
    using t(2) by simp
  moreover have "grid_ok (?g[23 := (?g ! 23)[t_col t := ?c]])"
    using g(1) grid_ok_row [OF g(1), of 23] by (intro grid_ok_upd) simp_all
  ultimately show ?thesis
    using g assms(2) l t(2) cell_write_Ret [OF g(1), of 23 "t_col t" ?c]
    by (simp add: shows_terminal_def t_put_def same_shell_def)
qed

lemma write_byte_shows:
  assumes "shows_terminal t w"
  shows "\<exists>w'. write_byte b w = Ret w' \<and> shows_terminal (t_byte b t) w' \<and> same_shell w w'"
proof (cases "b = 0x0A")
  case True
  then show ?thesis using new_line_shows [OF assms] by (simp add: write_byte_def t_byte_def)
next
  case False
  obtain w1 where w1: "(if BUFFER_WIDTH \<le> column_position w then new_line w else Ret w) = Ret w1"
      "shows_terminal (if t_col t < 80 then t else t_new_line t) w1" "same_shell w w1"
    using new_line_shows [OF assms] assms
    by (cases "t_col t < 80") (auto simp: screen_size shows_terminal_def same_shell_def)
  have "t_col (if t_col t < 80 then t else t_new_line t) < 80" by (simp add: t_new_line_def)
  from put_shows [OF w1(2) this, of b] show ?thesis
    using w1 False by (auto simp: write_byte_def t_byte_def same_shell_def)
qed

lemma write_string_shows:
  "shows_terminal t w \<Longrightarrow> \<exists>w'. write_string s w = Ret w' \<and> shows_terminal (t_string s t) w' \<and> same_shell w w'"
proof (induction s arbitrary: t w)
  case Nil
  then show ?case by (simp add: write_string_def t_string_def same_shell_def)
next
  case (Cons b s)
  obtain w1 where "write_byte (shown_byte b) w = Ret w1" "shows_terminal (t_byte (shown_byte b) t) w1" "same_shell w w1"
    using write_byte_shows [OF Cons.prems] by blast
  with Cons.IH [of "t_byte (shown_byte b) t" w1] show ?case
    by (auto simp: write_string_def t_string_def same_shell_def)
qed


text \<open>C25: printing text on the screen acts as a terminal with an unbounded scrollback: it never
  panics, the screen shows the terminal's last 24 rows after it, lines wrap at 80 columns, bytes
  outside printable ASCII show as a block, and the shell's row and the cursor stay as they are.\<close>

theorem write_string_refines:
  assumes "shows_terminal t w"
  shows "\<exists>w'. write_string s w = Ret w' \<and> shows_terminal (t_string s t) w' \<and> same_shell w w'"
  using assms by (rule write_string_shows)

lemma writer_init_shows:
  "grid_ok g \<Longrightarrow> shows_terminal \<lparr>t_rows = take 24 g, t_col = 0, t_color = color_code_new Magenta Black\<rparr> (writer_init g)"
  by (simp add: shows_terminal_def writer_init_def screen_size grid_ok_def)

definition blank_grid :: grid where
  "blank_grid = replicate 25 (replicate 80 \<lparr>ascii_character = 0x20, color_code = 0\<rparr>)"

lemma blank_grid_ok: "grid_ok blank_grid"
  by (simp add: grid_ok_def blank_grid_def)

theorem write_string_refines_witness:
  "\<exists>w'. write_string [0x68, 0x69, 0x0A] (writer_init blank_grid) = Ret w'
     \<and> shows_terminal (t_string [0x68, 0x69, 0x0A]
          \<lparr>t_rows = take 24 blank_grid, t_col = 0, t_color = color_code_new Magenta Black\<rparr>) w'
     \<and> same_shell (writer_init blank_grid) w'"
  by (rule write_string_refines [OF writer_init_shows [OF blank_grid_ok]])

subsection \<open>The shell's row\<close>

lemma shell_text:
  assumes "grid_ok (w_buffer w)" and "row_position w = 24" and "column_position w + length s \<le> 80"
    and "\<forall>b \<in> set s. b \<noteq> 0x0A"
  shows "write_string s w = Ret (w\<lparr>w_buffer := (w_buffer w)[24 :=
      take (column_position w) (w_buffer w ! 24)
      @ map (\<lambda>b. \<lparr>ascii_character = shown_byte b, color_code = w_color_code w\<rparr>) s
      @ drop (column_position w + length s) (w_buffer w ! 24)], column_position := column_position w + length s\<rparr>)"
  using assms
proof (induction s arbitrary: w)
  case Nil
  then show ?case by (simp add: write_string_def)
next
  case (Cons b s)
  let ?g = "w_buffer w" and ?k = "column_position w"
  let ?c = "\<lparr>ascii_character = shown_byte b, color_code = w_color_code w\<rparr>"
  let ?w = "w\<lparr>w_buffer := ?g[24 := (?g ! 24)[?k := ?c]], column_position := ?k + 1\<rparr>"
  have l: "length ?g = 25" "length (?g ! 24) = 80" using Cons.prems(1) by (simp_all add: grid_ok_def)
  have "shown_byte b \<noteq> 0x0A" using Cons.prems(4) by (simp add: shown_byte_def)
  then have wb: "write_byte (shown_byte b) w = Ret ?w"
    using Cons.prems cell_write_Ret [OF Cons.prems(1), of 24 ?k ?c] by (simp add: write_byte_def screen_size)
  have "grid_ok (w_buffer ?w)" using grid_ok_upd [OF Cons.prems(1)] l by simp
  then have ih: "write_string s ?w = Ret (?w\<lparr>w_buffer := (w_buffer ?w)[24 :=
      take (?k + 1) (w_buffer ?w ! 24) @ map (\<lambda>b. \<lparr>ascii_character = shown_byte b, color_code = w_color_code w\<rparr>) s
      @ drop (?k + 1 + length s) (w_buffer ?w ! 24)], column_position := ?k + 1 + length s\<rparr>)"
    using Cons.IH [of ?w] Cons.prems by simp
  show ?case
    using wb ih l Cons.prems(3)
    by (simp add: write_string_def take_update_last [of ?k "?g ! 24"])
qed

lemma write_shell_line_ok:
  assumes "grid_ok (w_buffer w)" and "length s \<le> 78" and "\<forall>b \<in> set s. b \<noteq> 0x0A"
  shows "write_shell_line s w = Ret (w\<lparr>w_buffer := (w_buffer w)[24 :=
      take 2 (w_buffer w ! 24)
      @ map (\<lambda>b. \<lparr>ascii_character = shown_byte b, color_code = w_color_code w\<rparr>) s
      @ replicate (78 - length s) \<lparr>ascii_character = 0x20, color_code = w_color_code w\<rparr>]\<rparr>)"
proof -
  let ?g = "w_buffer w" and ?b = "\<lparr>ascii_character = 0x20, color_code = w_color_code w\<rparr>"
  let ?r = "take 2 (?g ! 24) @ replicate 78 ?b"
  have l: "length ?g = 25" "length (?g ! 24) = 80" using assms(1) by (simp_all add: grid_ok_def)
  have c: "clear_row SHELL_ROW 2 w = Ret (w\<lparr>w_buffer := ?g[24 := ?r]\<rparr>)"
    using clear_cols [OF assms(1), of 24 2 80 ?b] l by (simp add: clear_row_def screen_size Let_def)
  have ok: "grid_ok (?g[24 := ?r])" using l by (intro grid_ok_upd [OF assms(1)]) simp
  let ?w = "w\<lparr>w_buffer := ?g[24 := ?r], row_position := 24, column_position := 2\<rparr>"
  have "write_string s ?w = Ret (?w\<lparr>w_buffer := (w_buffer ?w)[24 := take 2 ?r
      @ map (\<lambda>b. \<lparr>ascii_character = shown_byte b, color_code = w_color_code w\<rparr>) s @ drop (2 + length s) ?r],
      column_position := 2 + length s\<rparr>)"
    using shell_text [of ?w s] assms(2,3) ok l by simp
  then show ?thesis
    using c l assms(2) by (simp add: write_shell_line_def screen_size Let_def)
qed


text \<open>C26: redrawing the shell's row with a command of at most 78 printable bytes keeps the two
  cells of the prompt, shows the command after them and blanks the rest of the row; the text rows
  and the position in them are untouched.\<close>

theorem write_shell_line_exact:
  assumes "grid_ok (w_buffer w)" and "length s \<le> 78" and "\<forall>b \<in> set s. b \<noteq> 0x0A"
  shows "write_shell_line s w = Ret (w\<lparr>w_buffer := (w_buffer w)[24 :=
      take 2 (w_buffer w ! 24)
      @ map (\<lambda>b. \<lparr>ascii_character = shown_byte b, color_code = w_color_code w\<rparr>) s
      @ replicate (78 - length s) \<lparr>ascii_character = 0x20, color_code = w_color_code w\<rparr>]\<rparr>)"
  using assms by (rule write_shell_line_ok)

theorem write_shell_line_exact_witness:
  "write_shell_line [0x6C, 0x73] (writer_init blank_grid) = Ret ((writer_init blank_grid)\<lparr>w_buffer := blank_grid[24 :=
      replicate 2 \<lparr>ascii_character = 0x20, color_code = 0\<rparr>
      @ [\<lparr>ascii_character = 0x6C, color_code = 5\<rparr>, \<lparr>ascii_character = 0x73, color_code = 5\<rparr>]
      @ replicate 76 \<lparr>ascii_character = 0x20, color_code = 5\<rparr>]\<rparr>)"
proof -
  have "w_buffer (writer_init blank_grid) = blank_grid" "w_color_code (writer_init blank_grid) = 5"
    "take 2 (blank_grid ! 24) = replicate 2 \<lparr>ascii_character = 0x20, color_code = 0\<rparr>"
    by (simp_all add: writer_init_def color_code_new_def color_value_def blank_grid_def)
  with write_shell_line_exact [of "writer_init blank_grid" "[0x6C, 0x73]"] blank_grid_ok show ?thesis
    by (simp add: shown_byte_def)
qed

text \<open>A command longer than the row scrolls the text rows and overwrites the prompt: the 79th
  byte calls \<open>new_line\<close>, which moves the text rows, and is written in column 0 of the shell's row.\<close>

lemma long_command_scrolls:
  assumes "grid_ok (w_buffer w)" and "length s = 78" and "\<forall>b \<in> set s. b \<noteq> 0x0A" and "b \<noteq> 0x0A"
  shows "\<exists>w'. write_shell_line (s @ [b]) w = Ret w' \<and> take 23 (w_buffer w') = tl (take 24 (w_buffer w))
     \<and> w_buffer w' ! 24 ! 0 = \<lparr>ascii_character = shown_byte b, color_code = w_color_code w\<rparr>"
proof -
  let ?g = "w_buffer w" and ?b = "\<lparr>ascii_character = 0x20, color_code = w_color_code w\<rparr>"
  let ?r = "take 2 (?g ! 24) @ replicate 78 ?b"
  let ?c = "\<lparr>ascii_character = shown_byte b, color_code = w_color_code w\<rparr>"
  have l: "length ?g = 25" "length (?g ! 24) = 80" using assms(1) by (simp_all add: grid_ok_def)
  have c: "clear_row SHELL_ROW 2 w = Ret (w\<lparr>w_buffer := ?g[24 := ?r]\<rparr>)"
    using clear_cols [OF assms(1), of 24 2 80 ?b] l by (simp add: clear_row_def screen_size Let_def)
  have ok: "grid_ok (?g[24 := ?r])" using l by (intro grid_ok_upd [OF assms(1)]) simp
  let ?w = "w\<lparr>w_buffer := ?g[24 := ?r], row_position := 24, column_position := 2\<rparr>"
  define r' where "r' = take 2 ?r @ map (\<lambda>b. \<lparr>ascii_character = shown_byte b, color_code = w_color_code w\<rparr>) s @ drop (2 + length s) ?r"
  have r': "length r' = 80" using l assms(2) by (simp add: r'_def)
  let ?w1 = "?w\<lparr>w_buffer := ?g[24 := r'], column_position := 80\<rparr>"
  have w1: "write_string s ?w = Ret ?w1"
    using shell_text [of ?w s] assms(2,3) ok l by (simp add: r'_def)
  have ok1: "grid_ok (w_buffer ?w1)" using r' grid_ok_upd [OF assms(1)] by simp
  let ?g2 = "tl (take 24 ?g) @ [replicate 80 ?b, r']"
  have ok2: "grid_ok ?g2"
    using l r' assms(1) by (auto simp: grid_ok_def dest!: in_set_tlD in_set_takeD)
  have nl: "new_line ?w1 = Ret (?w1\<lparr>w_buffer := ?g2, column_position := 0\<rparr>)"
    using new_line_Ret [OF ok1] l by simp
  have "shown_byte b \<noteq> 0x0A" using assms(4) by (simp add: shown_byte_def)
  then have wb: "write_byte (shown_byte b) ?w1 = Ret (?w1\<lparr>w_buffer := ?g2[24 := (?g2 ! 24)[0 := ?c]], column_position := 1\<rparr>)"
    using nl cell_write_Ret [OF ok2, of 24 0 ?c] by (simp add: write_byte_def screen_size)
  have "take 23 (?g2[24 := q]) = tl (take 24 ?g)" and "?g2[24 := q] ! 24 = q" for q using l by (simp_all add: list_update_append nth_append)
  moreover have "?g2 ! 24 = r'" using l by (simp add: nth_append)
  ultimately show ?thesis
    using c w1 wb r' by (simp add: write_shell_line_def write_string_def ofold_append screen_size Let_def)
qed

end
