(* ===== verification/Shell.thy ===== *)
theory Shell
  imports Vga Ata
begin

section \<open>The shell (kernel/src/shell)\<close>

text \<open>
  Strings are lists of Unicode scalar values; the byte positions the code uses are those of
  their UTF-8 encoding. The FAT file system (the fatfs crate), the scanner logos generates for
  commands and the language's \<open>execute_module\<close> are parameters. What the shell prints is the
  list of lines it passes to \<open>println!\<close>, in order; the shell's own row goes to the text screen.
\<close>

type_synonym ustring = "u32 list"

subsection \<open>UTF-8 strings of the standard library\<close>

definition utf8_len :: "u32 \<Rightarrow> nat" where
  "utf8_len c = (if c < 0x80 then 1 else if c < 0x800 then 2 else if c < 0x10000 then 3 else 4)"

definition utf8_char :: "u32 \<Rightarrow> u8 list" where
  "utf8_char c =
     (let cont = \<lambda>n. ucast (drop_bit n c AND 0x3F OR 0x80) in
      if c < 0x80 then [ucast c]
      else if c < 0x800 then [ucast (drop_bit 6 c OR 0xC0), cont 0]
      else if c < 0x10000 then [ucast (drop_bit 12 c OR 0xE0), cont 6, cont 0]
      else [ucast (drop_bit 18 c OR 0xF0), cont 12, cont 6, cont 0])"

definition as_bytes :: "ustring \<Rightarrow> u8 list" where
  "as_bytes s = concat (map utf8_char s)"

definition str_len :: "ustring \<Rightarrow> nat" where
  "str_len s = sum_list (map utf8_len s)"

text \<open>Splitting at a byte position; \<open>None\<close> when it is not a character boundary.\<close>

fun split_at_byte :: "nat \<Rightarrow> ustring \<Rightarrow> (ustring \<times> ustring) option" where
  "split_at_byte n [] = (if n = 0 then Some ([], []) else None)"
| "split_at_byte n (c # s) =
     (if n = 0 then Some ([], c # s)
      else if utf8_len c \<le> n then map_option (\<lambda>(a, b). (c # a, b)) (split_at_byte (n - utf8_len c) s)
      else None)"

definition str_insert :: "nat \<Rightarrow> u32 \<Rightarrow> ustring \<Rightarrow> ustring outcome" where
  "str_insert i c s = (case split_at_byte i s of None \<Rightarrow> Panic AssertFailed | Some (a, b) \<Rightarrow> Ret (a @ c # b))"

definition str_remove :: "nat \<Rightarrow> ustring \<Rightarrow> ustring outcome" where
  "str_remove i s = (case split_at_byte i s of
     Some (a, c # b) \<Rightarrow> Ret (a @ b)
   | _ \<Rightarrow> Panic IndexOutOfBounds)"

definition is_scalar :: "u32 \<Rightarrow> bool" where
  "is_scalar c \<longleftrightarrow> c < 0xD800 \<or> 0xDFFF < c \<and> c < 0x110000"

definition lead_len :: "u8 \<Rightarrow> nat" where
  "lead_len b = (if b < 0x80 then 1 else if b < 0xE0 then 2 else if b < 0xF0 then 3 else 4)"

definition read_char :: "u8 list \<Rightarrow> u32" where
  "read_char bs =
     (let cont = \<lambda>i. ucast (bs ! i AND 0x3F) in
      case length bs of
        Suc 0 \<Rightarrow> ucast (bs ! 0)
      | Suc (Suc 0) \<Rightarrow> push_bit 6 (ucast (bs ! 0 AND 0x1F)) OR cont 1
      | Suc (Suc (Suc 0)) \<Rightarrow> push_bit 12 (ucast (bs ! 0 AND 0x0F)) OR push_bit 6 (cont 1) OR cont 2
      | _ \<Rightarrow> push_bit 18 (ucast (bs ! 0 AND 0x07)) OR push_bit 12 (cont 1) OR push_bit 6 (cont 2) OR cont 3)"

text \<open>\<open>String::from_utf8\<close>: a sequence is accepted when it is the encoding of a scalar value, so
  overlong forms and surrogates are errors.\<close>

function from_utf8 :: "u8 list \<Rightarrow> ustring option" where
  "from_utf8 [] = Some []"
| "from_utf8 (b # bs) =
     (let n = lead_len b; c = read_char (take n (b # bs)) in
      if utf8_char c = take n (b # bs) \<and> is_scalar c then map_option (Cons c) (from_utf8 (drop n (b # bs)))
      else None)"
  by pat_completeness auto
termination
  by (relation "measure length") (auto simp: lead_len_def)

subsection \<open>Commands (command.rs)\<close>

datatype shell_command =
    Ls "ustring option"
  | Cat ustring
  | Cd ustring
  | Mkdir ustring
  | Put ustring ustring
  | Exec ustring
  | Exit

datatype shell_token =
    TLs | TCat | TCd | TMkdir | TPut | TExec | TExit | TWord | TPath | TQuote | TInt | TFloat | TError

text \<open>A scanner state: the tokens left with their slices, and the slice of the token returned
  last. After the last token the slice is empty.\<close>

record lexer_state =
  lx_rest :: "(shell_token \<times> ustring) list"
  lx_slice :: ustring

datatype arg_error = ExpectedPath ustring | ExpectedCommand ustring "shell_token option"

definition lx_next :: "lexer_state \<Rightarrow> shell_token option \<times> lexer_state" where
  "lx_next l = (case lx_rest l of
     [] \<Rightarrow> (None, l\<lparr>lx_slice := []\<rparr>)
   | (t, s) # r \<Rightarrow> (Some t, \<lparr>lx_rest = r, lx_slice = s\<rparr>))"

text \<open>\<open>slice()[1..slice().len() - 1]\<close> of a quoted token: the slice starts and ends with a quote,
  which is one byte.\<close>

definition unquote :: "ustring \<Rightarrow> ustring outcome" where
  "unquote s = (case split_at_byte 1 s of
     None \<Rightarrow> Panic IndexOutOfBounds
   | Some (_, r) \<Rightarrow> (case split_at_byte (str_len s - 2) r of
        None \<Rightarrow> Panic IndexOutOfBounds
      | Some (m, _) \<Rightarrow> if str_len s < 2 then Panic IndexOutOfBounds else Ret m))"

definition path_arg :: "lexer_state \<Rightarrow> ((arg_error + ustring) \<times> lexer_state) outcome" where
  "path_arg l =
     (let (t, l) = lx_next l in
      case t of
        Some TQuote \<Rightarrow> obind (unquote (lx_slice l)) (\<lambda>s. Ret (Inr s, l))
      | Some t \<Rightarrow> if t = TWord \<or> t = TPath \<or> t = TInt then Ret (Inr (lx_slice l), l) else Ret (Inl (ExpectedPath (lx_slice l)), l)
      | None \<Rightarrow> Ret (Inl (ExpectedPath (lx_slice l)), l))"

definition optional_path_arg :: "lexer_state \<Rightarrow> ((arg_error + ustring option) \<times> lexer_state) outcome" where
  "optional_path_arg l =
     (let (t, l) = lx_next l in
      case t of
        None \<Rightarrow> Ret (Inr None, l)
      | Some TQuote \<Rightarrow> obind (unquote (lx_slice l)) (\<lambda>s. Ret (Inr (Some s), l))
      | Some t \<Rightarrow> if t = TWord \<or> t = TPath \<or> t = TInt then Ret (Inr (Some (lx_slice l)), l) else Ret (Inl (ExpectedPath (lx_slice l)), l))"

definition with_path :: "(ustring \<Rightarrow> shell_command) \<Rightarrow> lexer_state \<Rightarrow> (arg_error + shell_command option) outcome" where
  "with_path f l = obind (path_arg l) (\<lambda>(r, l). Ret (case r of Inl e \<Rightarrow> Inl e | Inr p \<Rightarrow> Inr (Some (f p))))"

definition command_from :: "(shell_token \<times> ustring) list \<Rightarrow> (arg_error + shell_command option) outcome" where
  "command_from toks =
     (let (cmd, l) = lx_next \<lparr>lx_rest = toks, lx_slice = []\<rparr> in
      case cmd of
        Some TLs \<Rightarrow> obind (optional_path_arg l) (\<lambda>(r, l). Ret (case r of Inl e \<Rightarrow> Inl e | Inr p \<Rightarrow> Inr (Some (Ls p))))
      | Some TCat \<Rightarrow> with_path Cat l
      | Some TCd \<Rightarrow> with_path Cd l
      | Some TMkdir \<Rightarrow> with_path Mkdir l
      | Some TPut \<Rightarrow> obind (path_arg l) (\<lambda>(r, l). case r of Inl e \<Rightarrow> Ret (Inl e) | Inr file \<Rightarrow> with_path (Put file) l)
      | Some TExec \<Rightarrow> with_path Exec l
      | Some TExit \<Rightarrow> Ret (Inr (Some Exit))
      | None \<Rightarrow> Ret (Inr None)
      | _ \<Rightarrow> Ret (Inl (ExpectedCommand (lx_slice l) cmd)))"


subsection \<open>The shell and its files (mod.rs)\<close>

record ('fs, 'dir, 'file, 'e) fat_ops =
  fo_root_dir :: "'fs \<Rightarrow> 'dir"
  fo_open_dir :: "'dir \<Rightarrow> ustring \<Rightarrow> 'fs \<Rightarrow> ('e + 'dir) \<times> 'fs"
  fo_iter :: "'dir \<Rightarrow> 'fs \<Rightarrow> ('e + ustring) list \<times> 'fs"
  fo_create_dir :: "'dir \<Rightarrow> ustring \<Rightarrow> 'fs \<Rightarrow> ('e + 'dir) \<times> 'fs"
  fo_create_file :: "'dir \<Rightarrow> ustring \<Rightarrow> 'fs \<Rightarrow> ('e + 'file) \<times> 'fs"
  fo_open_file :: "'dir \<Rightarrow> ustring \<Rightarrow> 'fs \<Rightarrow> ('e + 'file) \<times> 'fs"
  fo_write_all :: "'file \<Rightarrow> u8 list \<Rightarrow> 'fs \<Rightarrow> ('e + unit) \<times> 'fs"
  fo_seek :: "'file \<Rightarrow> seek_from \<Rightarrow> 'fs \<Rightarrow> ('e + u64 \<times> 'file) \<times> 'fs"
  fo_read :: "'file \<Rightarrow> u8 list \<Rightarrow> 'fs \<Rightarrow> ('e + usize \<times> u8 list) \<times> 'fs"
  fo_unmount :: "'fs \<Rightarrow> 'e + unit"

datatype key_code = ArrowLeft | ArrowRight | OtherKey nat
datatype decoded_key = KUnicode u32 | KRaw key_code

datatype ('e, 'r) shell_output =
    OutEcho ustring
  | OutKey key_code
  | OutParseError arg_error
  | OutName ustring
  | OutTotal nat
  | OutFile ustring nat ustring
  | OutExecuting ustring nat
  | OutResult 'r
  | OutMessage string
  | OutError string 'e
  | OutBlank

record ('fs, 'e, 'r) shell =
  sh_filesystem :: "'fs option"
  sh_working_dir :: "ustring option"
  sh_current_command :: ustring
  sh_cursor_pos :: usize
  sh_writer :: vga_writer
  sh_out :: "('e, 'r) shell_output list"

text \<open>\<open>exit_qemu\<close> does not return.\<close>

datatype 'a flow = Continue 'a | Exited

definition println :: "('e, 'r) shell_output \<Rightarrow> ('fs, 'e, 'r) shell \<Rightarrow> ('fs, 'e, 'r) shell" where
  "println x sh = sh\<lparr>sh_out := sh_out sh @ [x]\<rparr>"

text \<open>An operation on the mounted file system.\<close>

definition on_fs :: "('fs \<Rightarrow> 'a \<times> 'fs) \<Rightarrow> ('fs, 'e, 'r) shell \<Rightarrow> ('a \<times> ('fs, 'e, 'r) shell) outcome" where
  "on_fs f sh = obind (unwrap (sh_filesystem sh)) (\<lambda>fs. Ret (fst (f fs), sh\<lparr>sh_filesystem := Some (snd (f fs))\<rparr>))"

definition unwrap_sum :: "'e + 'a \<Rightarrow> 'a outcome" where
  "unwrap_sum r = (case r of Inl _ \<Rightarrow> Panic UnwrapOnErr | Inr x \<Rightarrow> Ret x)"

definition workdir :: "('fs, 'dir, 'file, 'e) fat_ops \<Rightarrow> ('fs, 'e, 'r) shell \<Rightarrow> ('dir \<times> ('fs, 'e, 'r) shell) outcome" where
  "workdir F sh =
     (case sh_working_dir sh of
        Some name \<Rightarrow>
          obind (on_fs (\<lambda>fs. fo_open_dir F (fo_root_dir F fs) name fs) sh) (\<lambda>(r, sh).
          obind (unwrap_sum r) (\<lambda>d. Ret (d, sh)))
      | None \<Rightarrow> on_fs (\<lambda>fs. (fo_root_dir F fs, fs)) sh)"

text \<open>\<open>junk n\<close> is what the \<open>n\<close> bytes of the buffer hold after \<open>set_len\<close>.\<close>

definition read_file ::
    "('fs, 'dir, 'file, 'e) fat_ops \<Rightarrow> (nat \<Rightarrow> u8 list) \<Rightarrow> ustring \<Rightarrow> ('fs, 'e, 'r) shell \<Rightarrow> (ustring option \<times> ('fs, 'e, 'r) shell) outcome" where
  "read_file F junk rel_path sh =
     obind (workdir F sh) (\<lambda>(dir, sh).
     obind (on_fs (fo_open_file F dir rel_path) sh) (\<lambda>(obj, sh).
     case obj of
       Inl _ \<Rightarrow> Ret (None, println (OutMessage ''error: file does not exist'') sh)
     | Inr obj \<Rightarrow>
         obind (on_fs (fo_seek F obj (SeekEnd 0)) sh) (\<lambda>(r, sh).
         obind (unwrap_sum r) (\<lambda>(size', obj).
         obind (on_fs (fo_seek F obj (SeekStart 0)) sh) (\<lambda>(r, sh).
         obind (unwrap_sum r) (\<lambda>(_, obj).
         obind (on_fs (fo_read F obj (junk (unat size'))) sh) (\<lambda>(r, sh).
         case r of
           Inl err \<Rightarrow> Ret (None, println (OutError ''failed to read file'' err) sh)
         | Inr (_, buf) \<Rightarrow>
             (case from_utf8 buf of
                Some s \<Rightarrow> Ret (Some s, sh)
              | None \<Rightarrow> Ret (None, println (OutMessage ''error: file is not valid UTF-8'') sh)))))))))"

definition list_entries :: "('e + ustring) list \<Rightarrow> ('fs, 'e, 'r) shell \<Rightarrow> ('fs, 'e, 'r) shell outcome" where
  "list_entries es sh =
     obind (ofold (\<lambda>r sh. obind (unwrap_sum r) (\<lambda>name. Ret (println (OutName name) sh))) es sh) (\<lambda>sh.
     Ret (println (OutTotal (length es)) sh))"

definition execute_command ::
    "('fs, 'dir, 'file, 'e) fat_ops \<Rightarrow> (nat \<Rightarrow> u8 list) \<Rightarrow> (ustring \<Rightarrow> 'r) \<Rightarrow> shell_command \<Rightarrow> ('fs, 'e, 'r) shell \<Rightarrow> ('fs, 'e, 'r) shell flow outcome" where
  "execute_command F junk exec_module cmd sh =
     (let done = \<lambda>sh. Ret (Continue (println OutBlank sh)) in
      case cmd of
        Ls directory \<Rightarrow>
          obind (workdir F sh) (\<lambda>(wd, sh).
          obind (case directory of
                   Some d \<Rightarrow> on_fs (fo_open_dir F wd d) sh
                 | None \<Rightarrow> Ret (Inr wd, sh)) (\<lambda>(dir, sh).
          case dir of
            Inr dir \<Rightarrow> obind (on_fs (fo_iter F dir) sh) (\<lambda>(es, sh). obind (list_entries es sh) done)
          | Inl _ \<Rightarrow> done (println (OutMessage ''ls: unknown directory'') sh)))
      | Cat file \<Rightarrow>
          obind (read_file F junk file sh) (\<lambda>(content, sh).
          done (case content of Some c \<Rightarrow> println (OutFile file (str_len c) c) sh | None \<Rightarrow> sh))
      | Cd directory \<Rightarrow>
          obind (workdir F sh) (\<lambda>(wd, sh).
          obind (on_fs (fo_open_dir F wd directory) sh) (\<lambda>(r, sh).
          done (case (r, sh_working_dir sh) of
                  (Inr _, Some workd) \<Rightarrow> sh\<lparr>sh_working_dir := Some (workd @ [0x2F] @ directory)\<rparr>
                | (Inr _, None) \<Rightarrow> sh\<lparr>sh_working_dir := Some directory\<rparr>
                | _ \<Rightarrow> println (OutMessage ''cd: unknown directory'') sh)))
      | Mkdir directory \<Rightarrow>
          obind (workdir F sh) (\<lambda>(wd, sh).
          obind (on_fs (fo_create_dir F wd directory) sh) (\<lambda>(r, sh).
          done (case r of Inl err \<Rightarrow> println (OutError ''mkdir: failed to create directory'' err) sh | Inr _ \<Rightarrow> sh)))
      | Put file txt \<Rightarrow>
          obind (workdir F sh) (\<lambda>(wd, sh).
          obind (on_fs (fo_create_file F wd file) sh) (\<lambda>(f, sh).
          case f of
            Inr f \<Rightarrow>
              obind (on_fs (fo_write_all F f (as_bytes txt)) sh) (\<lambda>(r, sh).
              done (case r of Inl err \<Rightarrow> println (OutError ''put: failed to write file'' err) sh | Inr _ \<Rightarrow> sh))
          | Inl _ \<Rightarrow> done (println (OutMessage ''put: failed to open file'') sh)))
      | Exec file \<Rightarrow>
          obind (read_file F junk file sh) (\<lambda>(content, sh).
          done (case content of
                  Some c \<Rightarrow> println (OutResult (exec_module c)) (println (OutExecuting c (str_len c)) sh)
                | None \<Rightarrow> sh))
      | Exit \<Rightarrow>
          obind (unwrap (sh_filesystem sh)) (\<lambda>fs.
          obind (unwrap_sum (fo_unmount F fs)) (\<lambda>_. Ret Exited)))"

definition enter_pressed ::
    "('fs, 'dir, 'file, 'e) fat_ops \<Rightarrow> (nat \<Rightarrow> u8 list) \<Rightarrow> (ustring \<Rightarrow> 'r) \<Rightarrow> (ustring \<Rightarrow> (shell_token \<times> ustring) list) \<Rightarrow>
     ('fs, 'e, 'r) shell \<Rightarrow> ('fs, 'e, 'r) shell flow outcome" where
  "enter_pressed F junk exec_module scan sh =
     (let sh = sh\<lparr>sh_writer := set_color Yellow (sh_writer sh)\<rparr>;
          sh = println (OutEcho (sh_current_command sh)) sh;
          sh = sh\<lparr>sh_writer := reset_color (sh_writer sh)\<rparr> in
      obind (command_from (scan (sh_current_command sh))) (\<lambda>command.
      obind (case command of
               Inr (Some command) \<Rightarrow> execute_command F junk exec_module command sh
             | Inr None \<Rightarrow> Ret (Continue sh)
             | Inl msg \<Rightarrow> Ret (Continue (println (OutParseError msg) sh))) (\<lambda>r.
      Ret (case r of
             Exited \<Rightarrow> Exited
           | Continue sh \<Rightarrow> Continue (sh\<lparr>sh_current_command := [], sh_cursor_pos := 0\<rparr>)))))"

definition cursor_at_end :: "('fs, 'e, 'r) shell \<Rightarrow> bool" where
  "cursor_at_end sh \<longleftrightarrow> unat (sh_cursor_pos sh) = str_len (sh_current_command sh)"

definition redraw :: "('fs, 'e, 'r) shell \<Rightarrow> ('fs, 'e, 'r) shell outcome" where
  "redraw sh =
     obind (set_cursor_x (sh_cursor_pos sh) (sh_writer sh)) (\<lambda>w.
     obind (write_shell_line (as_bytes (sh_current_command sh)) w) (\<lambda>w.
     Ret (sh\<lparr>sh_writer := w\<rparr>)))"

definition backspace_pressed :: "('fs, 'e, 'r) shell \<Rightarrow> ('fs, 'e, 'r) shell outcome" where
  "backspace_pressed sh =
     obind (if cursor_at_end sh then Ret (butlast (sh_current_command sh))
            else obind (sub_chk (sh_cursor_pos sh) 1) (\<lambda>i. str_remove (unat i) (sh_current_command sh))) (\<lambda>s.
     obind (sub_chk (sh_cursor_pos sh) 1) (\<lambda>c.
     Ret (sh\<lparr>sh_current_command := s, sh_cursor_pos := c\<rparr>)))"

definition char_pressed :: "u32 \<Rightarrow> ('fs, 'e, 'r) shell \<Rightarrow> ('fs, 'e, 'r) shell outcome" where
  "char_pressed character sh =
     obind (if cursor_at_end sh then Ret (sh_current_command sh @ [character])
            else str_insert (unat (sh_cursor_pos sh)) character (sh_current_command sh)) (\<lambda>s.
     obind (add_chk (sh_cursor_pos sh) 1) (\<lambda>c.
     Ret (sh\<lparr>sh_current_command := s, sh_cursor_pos := c\<rparr>)))"

definition key_pressed ::
    "('fs, 'dir, 'file, 'e) fat_ops \<Rightarrow> (nat \<Rightarrow> u8 list) \<Rightarrow> (ustring \<Rightarrow> 'r) \<Rightarrow> (ustring \<Rightarrow> (shell_token \<times> ustring) list) \<Rightarrow>
     decoded_key \<Rightarrow> ('fs, 'e, 'r) shell \<Rightarrow> ('fs, 'e, 'r) shell flow outcome" where
  "key_pressed F junk exec_module scan key sh =
     obind (case key of
              KUnicode c \<Rightarrow>
                if c = 0x08 then obind (backspace_pressed sh) (\<lambda>sh. Ret (Continue sh))
                else if c = 0x0A then enter_pressed F junk exec_module scan sh
                else obind (char_pressed c sh) (\<lambda>sh. Ret (Continue sh))
            | KRaw ArrowLeft \<Rightarrow>
                Ret (Continue (sh\<lparr>sh_cursor_pos := (if sh_cursor_pos sh = 0 then sh_cursor_pos sh else sh_cursor_pos sh - 1)\<rparr>))
            | KRaw ArrowRight \<Rightarrow>
                obind (add_chk (sh_cursor_pos sh) 1) (\<lambda>c. Ret (Continue (sh\<lparr>sh_cursor_pos := min 78 c\<rparr>)))
            | KRaw k \<Rightarrow> Ret (Continue (println (OutKey k) sh))) (\<lambda>r.
     case r of
       Exited \<Rightarrow> Ret Exited
     | Continue sh \<Rightarrow> obind (redraw sh) (\<lambda>sh. Ret (Continue sh)))"

definition shell_new :: "'fs \<Rightarrow> vga_writer \<Rightarrow> ('e, 'r) shell_output list \<Rightarrow> ('fs, 'e, 'r) shell outcome" where
  "shell_new filesystem w out =
     obind (init_shell w) (\<lambda>w.
     Ret \<lparr>sh_filesystem = Some filesystem, sh_working_dir = None, sh_current_command = [], sh_cursor_pos = 0,
       sh_writer = w, sh_out = out\<rparr>)"

end
