(* ===== verification/ShellProps.thy ===== *)
theory ShellProps
  imports Shell
begin

section \<open>Properties of the shell\<close>

text \<open>
  Commands: every spelling of a command is read back as that command. Editing: on a line of
  ASCII text the keys act as on a pair of the text before and after the cursor, and the shell's
  row shows the line. The keys that leave this regime panic.
\<close>

subsection \<open>Commands\<close>

definition spells :: "ustring \<Rightarrow> shell_token \<times> ustring \<Rightarrow> bool" where
  "spells p t \<longleftrightarrow> fst t \<in> {TWord, TPath, TInt} \<and> snd t = p \<or> fst t = TQuote \<and> snd t = 0x22 # p @ [0x22]"

fun spelled :: "shell_command \<Rightarrow> (shell_token \<times> ustring) list \<Rightarrow> bool" where
  "spelled (Ls None) ts \<longleftrightarrow> map fst ts = [TLs]"
| "spelled (Ls (Some p)) ts \<longleftrightarrow> (\<exists>s a r. ts = (TLs, s) # a # r \<and> spells p a)"
| "spelled (Cat p) ts \<longleftrightarrow> (\<exists>s a r. ts = (TCat, s) # a # r \<and> spells p a)"
| "spelled (Cd p) ts \<longleftrightarrow> (\<exists>s a r. ts = (TCd, s) # a # r \<and> spells p a)"
| "spelled (Mkdir p) ts \<longleftrightarrow> (\<exists>s a r. ts = (TMkdir, s) # a # r \<and> spells p a)"
| "spelled (Put p q) ts \<longleftrightarrow> (\<exists>s a b r. ts = (TPut, s) # a # b # r \<and> spells p a \<and> spells q b)"
| "spelled (Exec p) ts \<longleftrightarrow> (\<exists>s a r. ts = (TExec, s) # a # r \<and> spells p a)"
| "spelled Exit ts \<longleftrightarrow> (\<exists>s r. ts = (TExit, s) # r)"

lemma split_at_0 [simp]: "split_at_byte 0 s = Some ([], s)"
  by (cases s) simp_all

lemma split_at_len: "split_at_byte (str_len s) (s @ r) = Some (s, r)"
  by (induction s) (auto simp: str_len_def utf8_len_def)

lemma unquote_quoted: "unquote (0x22 # p @ [0x22]) = Ret p"
proof -
  have "str_len (0x22 # p @ [0x22]) = str_len p + 2" by (simp add: str_len_def utf8_len_def)
  moreover have "split_at_byte 1 (0x22 # p @ [0x22]) = Some ([0x22], p @ [0x22])" by (simp add: utf8_len_def)
  ultimately show ?thesis using split_at_len [of p "[0x22]"] by (simp add: unquote_def)
qed

lemma optional_path_arg_end: "optional_path_arg \<lparr>lx_rest = [], lx_slice = s\<rparr> = Ret (Inr None, \<lparr>lx_rest = [], lx_slice = []\<rparr>)"
  by (simp add: optional_path_arg_def lx_next_def)

lemma path_arg_spells:
  "spells p a \<Longrightarrow> path_arg \<lparr>lx_rest = a # r, lx_slice = s\<rparr> = Ret (Inr p, \<lparr>lx_rest = r, lx_slice = snd a\<rparr>)"
  "spells p a \<Longrightarrow> optional_path_arg \<lparr>lx_rest = a # r, lx_slice = s\<rparr> = Ret (Inr (Some p), \<lparr>lx_rest = r, lx_slice = snd a\<rparr>)"
  by (cases a; auto simp: spells_def path_arg_def optional_path_arg_def lx_next_def unquote_quoted)+

text \<open>C29: every spelling of a command, its arguments as words, paths, numbers or in quotes, is
  read back as that command; tokens after the last argument are ignored.\<close>

theorem command_roundtrip:
  assumes "spelled c ts"
  shows "command_from ts = Ret (Inr (Some c))"
  using assms
  by (cases "(c, ts)" rule: spelled.cases)
    (auto simp: command_from_def lx_next_def with_path_def path_arg_spells optional_path_arg_end)


theorem command_roundtrip_witness:
  "command_from [(TPut, [112]), (TWord, [97]), (TQuote, [0x22, 104, 105, 0x22])] = Ret (Inr (Some (Put [97] [104, 105])))"
  by (rule command_roundtrip) (simp add: spells_def)

subsection \<open>Editing a line\<close>

text \<open>The line as the text before and after the cursor.\<close>

definition ascii :: "ustring \<Rightarrow> bool" where
  "ascii s \<longleftrightarrow> (\<forall>c \<in> set s. c < 0x80 \<and> c \<noteq> 0x0A)"

definition editing :: "ustring \<Rightarrow> ustring \<Rightarrow> ('fs, 'e, 'r) shell \<Rightarrow> bool" where
  "editing l r sh \<longleftrightarrow> ascii (l @ r) \<and> length (l @ r) \<le> 78 \<and> grid_ok (w_buffer (sh_writer sh))
     \<and> sh_current_command sh = l @ r \<and> unat (sh_cursor_pos sh) = length l"

text \<open>What the keys do, where they may be pressed.\<close>

fun edit_key :: "decoded_key \<Rightarrow> ustring \<times> ustring \<Rightarrow> (ustring \<times> ustring) option" where
  "edit_key (KUnicode c) (l, r) =
     (if c = 0x08 then if l = [] then None else Some (butlast l, r)
      else if c \<noteq> 0x0A \<and> c < 0x80 \<and> length (l @ r) < 78 then Some (l @ [c], r) else None)"
| "edit_key (KRaw ArrowLeft) (l, r) = (if l = [] then Some (l, r) else Some (butlast l, last l # r))"
| "edit_key (KRaw ArrowRight) (l, r) = (case r of [] \<Rightarrow> None | c # r \<Rightarrow> Some (l @ [c], r))"
| "edit_key (KRaw (OtherKey n)) (l, r) = Some (l, r)"

text \<open>The shell's row shows the prompt cells and the line.\<close>

definition shows_line :: "ustring \<Rightarrow> vga_writer \<Rightarrow> vga_writer \<Rightarrow> bool" where
  "shows_line s w w' \<longleftrightarrow> w_buffer w' = (w_buffer w)[24 := take 2 (w_buffer w ! 24)
      @ map (\<lambda>c. \<lparr>ascii_character = shown_byte (ucast c), color_code = w_color_code w\<rparr>) s
      @ replicate (78 - length s) \<lparr>ascii_character = 0x20, color_code = w_color_code w\<rparr>]"

lemma ascii_facts:
  assumes "ascii s"
  shows "str_len s = length s" and "as_bytes s = map ucast s"
    and "n \<le> length s \<Longrightarrow> split_at_byte n s = Some (take n s, drop n s)"
  using assms
proof (induction s arbitrary: n)
  case (Cons c s)
  {
    case 1
    then show ?case using Cons by (simp add: ascii_def str_len_def utf8_len_def)
  next
    case 2
    then show ?case using Cons by (simp add: ascii_def as_bytes_def utf8_char_def)
  next
    case 3
    then show ?case using Cons by (cases n) (auto simp: ascii_def utf8_len_def)
  }
qed (simp_all add: str_len_def as_bytes_def)

lemma ascii_bytes_no_newline:
  assumes "ascii s" and "b \<in> set (map ucast s :: u8 list)"
  shows "b \<noteq> 0x0A"
proof -
  obtain c where c: "c \<in> set s" "b = ucast c" "c < 0x80" "c \<noteq> 0x0A" using assms by (auto simp: ascii_def)
  have "unat c < 128" using c(3) by (simp add: word_less_nat_alt)
  then have "unat b = unat c" using c(2) by (simp add: unsigned_ucast_eq take_bit_nat_eq_self)
  moreover have "unat c \<noteq> 10" using c(4) unsigned_word_eqI [of c 10, where ?'a = nat] by auto
  ultimately show ?thesis by auto
qed


definition cursor_cmds :: "usize \<Rightarrow> (u16 \<times> u8) list" where
  "cursor_cmds p = [(0x3D4, 0x0F), (0x3D5, ucast (p AND 0xFF)),
     (0x3D4, 0x0E), (0x3D5, ucast (drop_bit 8 p AND 0xFF))]"

lemma set_cursor_small:
  assumes "unat x \<le> 100"
  shows "set_cursor_x x w = Ret (w\<lparr>w_cursor := w_cursor w @ cursor_cmds (1922 + x)\<rparr>)"
proof -
  have u: "unat (1920 + x) = 1920 + unat x" using assms by (simp add: unat_add_no_overflow)
  have "1920 + x + 2 = 1922 + x" by simp
  then show ?thesis
    using assms u by (simp add: set_cursor_x_def add_chk_def screen_size cursor_cmds_def)
qed

lemma redraw_shows:
  assumes "editing l r sh"
  shows "\<exists>w. redraw sh = Ret (sh\<lparr>sh_writer := w\<rparr>) \<and> shows_line (l @ r) (sh_writer sh) w \<and> grid_ok (w_buffer w)
    \<and> w_cursor w = w_cursor (sh_writer sh) @ cursor_cmds (1922 + sh_cursor_pos sh)"
proof -
  let ?w = "sh_writer sh" and ?x = "sh_cursor_pos sh"
  have e: "ascii (l @ r)" "length (l @ r) \<le> 78" "grid_ok (w_buffer ?w)" "sh_current_command sh = l @ r" "unat ?x = length l"
    using assms by (simp_all add: editing_def)
  have len: "length (w_buffer ?w) = 25" "length (w_buffer ?w ! 24) = 80" using e(3) by (simp_all add: grid_ok_def)
  have c: "set_cursor_x ?x ?w = Ret (?w\<lparr>w_cursor := w_cursor ?w @ cursor_cmds (1922 + ?x)\<rparr>)"
    by (rule set_cursor_small) (use e(2,5) in simp)
  have b: "as_bytes (l @ r) = map ucast (l @ r)" using ascii_facts(2) [OF e(1)] .
  let ?w1 = "?w\<lparr>w_cursor := w_cursor ?w @ cursor_cmds (1922 + ?x)\<rparr>"
  have "write_shell_line (map ucast (l @ r)) ?w1 = Ret (?w1\<lparr>w_buffer := (w_buffer ?w)[24 := take 2 (w_buffer ?w ! 24)
      @ map (\<lambda>b. \<lparr>ascii_character = shown_byte b, color_code = w_color_code ?w\<rparr>) (map ucast (l @ r))
      @ replicate (78 - length (l @ r)) \<lparr>ascii_character = 0x20, color_code = w_color_code ?w\<rparr>]\<rparr>)"
    using write_shell_line_ok [of ?w1 "map ucast (l @ r)"] e(1-3) ascii_bytes_no_newline [OF e(1)] by (simp del: map_append)
  moreover define g where "g = (w_buffer ?w)[24 := take 2 (w_buffer ?w ! 24)
      @ map (\<lambda>c. \<lparr>ascii_character = shown_byte (ucast c), color_code = w_color_code ?w\<rparr>) (l @ r)
      @ replicate (78 - length (l @ r)) \<lparr>ascii_character = 0x20, color_code = w_color_code ?w\<rparr>]"
  ultimately have r: "redraw sh = Ret (sh\<lparr>sh_writer := ?w1\<lparr>w_buffer := g\<rparr>\<rparr>)"
    using c b e(4) by (simp add: redraw_def comp_def del: map_append)
  have "grid_ok g" unfolding g_def by (rule grid_ok_upd [OF e(3)]) (use len e(2) in simp)
  with r show ?thesis
    by (intro exI [of _ "?w1\<lparr>w_buffer := g\<rparr>"]) (simp add: shows_line_def g_def)
qed

lemma at_end: "editing l r sh \<Longrightarrow> cursor_at_end sh \<longleftrightarrow> r = []"
  using ascii_facts(1) [of "l @ r"] by (auto simp: editing_def cursor_at_end_def)

lemma char_edits:
  assumes "editing l r sh" and "c < 0x80" and "c \<noteq> 0x0A" and "length (l @ r) < 78"
  shows "\<exists>sh'. char_pressed c sh = Ret sh' \<and> editing (l @ [c]) r sh' \<and> sh_writer sh' = sh_writer sh"
proof -
  let ?sh = "sh\<lparr>sh_current_command := l @ c # r, sh_cursor_pos := sh_cursor_pos sh + 1\<rparr>"
  have e: "ascii (l @ r)" "sh_current_command sh = l @ r" "unat (sh_cursor_pos sh) = length l"
    using assms(1) by (simp_all add: editing_def)
  have u: "unat (sh_cursor_pos sh + 1) = length l + 1" using e(3) assms(4) by (simp add: unat_add_no_overflow)
  have "(if cursor_at_end sh then Ret (sh_current_command sh @ [c])
            else str_insert (unat (sh_cursor_pos sh)) c (sh_current_command sh)) = Ret (l @ c # r)"
    using at_end [OF assms(1)] e ascii_facts(3) [OF e(1), of "length l"] by (simp add: str_insert_def)
  then have "char_pressed c sh = Ret ?sh"
    using e(3) assms(4) by (simp add: char_pressed_def add_chk_def)
  moreover have "editing (l @ [c]) r ?sh"
    using assms u by (auto simp: editing_def ascii_def)
  ultimately show ?thesis by simp
qed

lemma backspace_edits:
  assumes "editing l r sh" and "l \<noteq> []"
  shows "\<exists>sh'. backspace_pressed sh = Ret sh' \<and> editing (butlast l) r sh' \<and> sh_writer sh' = sh_writer sh"
proof -
  let ?sh = "sh\<lparr>sh_current_command := butlast l @ r, sh_cursor_pos := sh_cursor_pos sh - 1\<rparr>"
  obtain l' c where l: "l = l' @ [c]" using assms(2) by (cases l rule: rev_cases) auto
  have e: "ascii (l @ r)" "sh_current_command sh = l @ r" "unat (sh_cursor_pos sh) = length l"
    using assms(1) by (simp_all add: editing_def)
  have s: "sub_chk (sh_cursor_pos sh) 1 = Ret (sh_cursor_pos sh - 1)" using e(3) l by (simp add: sub_chk_def)
  have u: "unat (sh_cursor_pos sh - 1) = length l'" using e(3) l by (simp add: unat_sub_no_overflow)
  have "str_remove (length l') (l' @ c # r) = Ret (l' @ r)"
    using ascii_facts(3) [OF e(1), of "length l'"] l by (simp add: str_remove_def)
  then have "(if cursor_at_end sh then Ret (butlast (sh_current_command sh))
      else obind (sub_chk (sh_cursor_pos sh) 1) (\<lambda>i. str_remove (unat i) (sh_current_command sh))) = Ret (l' @ r)"
    using at_end [OF assms(1)] e(2) s u l by simp
  then have "backspace_pressed sh = Ret ?sh" using s l by (simp add: backspace_pressed_def)
  moreover have "editing l' r ?sh" using assms(1) u l by (auto simp: editing_def ascii_def)
  ultimately show ?thesis using l by simp
qed

lemma left_edits:
  assumes "editing l r sh"
  shows "editing (butlast l) (if l = [] then r else last l # r)
    (sh\<lparr>sh_cursor_pos := (if sh_cursor_pos sh = 0 then sh_cursor_pos sh else sh_cursor_pos sh - 1)\<rparr>)"
proof (cases l rule: rev_cases)
  case Nil
  then have "sh_cursor_pos sh = 0" using assms by (simp add: editing_def unat_eq_0)
  then show ?thesis using assms Nil by (simp add: editing_def)
next
  case (snoc l' c)
  have e: "unat (sh_cursor_pos sh) = Suc (length l')" using assms snoc by (simp add: editing_def)
  then have "sh_cursor_pos sh \<noteq> 0" by auto
  moreover have "unat (sh_cursor_pos sh - 1) = length l'" using e by (simp add: unat_sub_no_overflow)
  ultimately show ?thesis using assms snoc by (auto simp: editing_def ascii_def)
qed

lemma right_edits:
  assumes "editing l (c # r) sh"
  shows "add_chk (sh_cursor_pos sh) 1 = Ret (sh_cursor_pos sh + 1)
    \<and> editing (l @ [c]) r (sh\<lparr>sh_cursor_pos := min 78 (sh_cursor_pos sh + 1)\<rparr>)"
proof -
  have e: "unat (sh_cursor_pos sh) = length l" "length l < 78" using assms by (simp_all add: editing_def)
  have u: "unat (sh_cursor_pos sh + 1) = length l + 1" using e by (simp add: unat_add_no_overflow)
  then have "sh_cursor_pos sh + 1 \<le> 78" using e(2) by (simp add: word_le_nat_alt)
  then have "min 78 (sh_cursor_pos sh + 1) = sh_cursor_pos sh + 1" by (rule min_absorb2)
  then show ?thesis using e u assms by (simp add: editing_def add_chk_def)
qed


text \<open>C28: on a line of up to 78 ASCII characters the keys edit the text around the cursor as
  \<open>edit_key\<close> says: a character is inserted at the cursor, backspace removes the one before it and
  the arrows move over one. After each key the shell's row shows the prompt and the line, and the
  hardware cursor is placed behind the prompt at the cursor's column.\<close>

theorem line_editing:
  assumes "editing l r sh" and "edit_key key (l, r) = Some (l', r')"
  shows "\<exists>sh'. key_pressed F junk exec_module scan key sh = Ret (Continue sh') \<and> editing l' r' sh'
    \<and> shows_line (l' @ r') (sh_writer sh) (sh_writer sh')
    \<and> w_cursor (sh_writer sh') = w_cursor (sh_writer sh) @ cursor_cmds (1922 + of_nat (length l'))"
proof -
  have "\<exists>sh1. key_pressed F junk exec_module scan key sh = obind (redraw sh1) (\<lambda>sh. Ret (Continue sh))
      \<and> editing l' r' sh1 \<and> sh_writer sh1 = sh_writer sh"
  proof (cases key)
    case (KUnicode c)
    then show ?thesis
      using assms char_edits [OF assms(1), of c] backspace_edits [OF assms(1)]
      by (auto simp: key_pressed_def split: if_splits)
  next
    case (KRaw k)
    show ?thesis
    proof (cases k)
      case ArrowLeft
      then show ?thesis using assms KRaw left_edits [OF assms(1)] by (auto simp: key_pressed_def split: if_splits)
    next
      case ArrowRight
      then obtain c r0 where "r = c # r0" using assms(2) KRaw by (auto split: list.splits)
      then show ?thesis using assms KRaw ArrowRight right_edits [of l c r0 sh] by (auto simp: key_pressed_def)
    next
      case (OtherKey n)
      then show ?thesis using assms KRaw by (auto simp: key_pressed_def println_def editing_def)
    qed
  qed
  then obtain sh1 where sh1: "key_pressed F junk exec_module scan key sh = obind (redraw sh1) (\<lambda>sh. Ret (Continue sh))"
      "editing l' r' sh1" "sh_writer sh1 = sh_writer sh" by blast
  obtain w where w: "redraw sh1 = Ret (sh1\<lparr>sh_writer := w\<rparr>)" "shows_line (l' @ r') (sh_writer sh1) w" "grid_ok (w_buffer w)"
      "w_cursor w = w_cursor (sh_writer sh1) @ cursor_cmds (1922 + sh_cursor_pos sh1)"
    using redraw_shows [OF sh1(2)] by blast
  have "sh_cursor_pos sh1 = of_nat (length l')" 
    by (rule unsigned_word_eqI [where ?'a = nat]) (use sh1(2) in \<open>simp add: editing_def unsigned_of_nat take_bit_nat_eq_self\<close>)
  then show ?thesis using sh1 w by (auto simp: editing_def)
qed

text \<open>C40: the right arrow moves the cursor past the end of the line, and the next character then
  panics: the cursor is no position in the text. Backspace at the start of the line panics too.\<close>

theorem cursor_leaves_line:
  assumes "editing l [] sh" and "length l < 78" and "c \<noteq> 0x08" and "c \<noteq> 0x0A"
  shows "(\<exists>sh'. key_pressed F junk exec_module scan (KRaw ArrowRight) sh = Ret (Continue sh')
      \<and> key_pressed F junk exec_module scan (KUnicode c) sh' = Panic AssertFailed)
    \<and> key_pressed F junk exec_module scan (KUnicode 0x08) (sh\<lparr>sh_current_command := [], sh_cursor_pos := 0\<rparr>) = Panic ArithOverflow"
proof -
  have e: "ascii l" "sh_current_command sh = l" "unat (sh_cursor_pos sh) = length l" "grid_ok (w_buffer (sh_writer sh))"
    using assms(1) by (simp_all add: editing_def)
  let ?p = "sh_cursor_pos sh + 1"
  let ?sh = "sh\<lparr>sh_cursor_pos := ?p\<rparr>"
  have u: "unat ?p = length l + 1" using e(3) assms(2) by (simp add: unat_add_no_overflow)
  then have "?p \<le> 78" using assms(2) by (simp add: word_le_nat_alt)
  then have m: "min 78 ?p = ?p" by (rule min_absorb2)
  obtain w where w: "set_cursor_x ?p (sh_writer sh) = Ret w" "w_buffer w = w_buffer (sh_writer sh)"
    using set_cursor_small [of ?p] u assms(2) by simp
  obtain w' where w': "write_shell_line (as_bytes l) w = Ret w'"
    using write_shell_line_ok [of w "map ucast l"] w(2) e(4) assms(2) ascii_facts(2) [OF e(1)]
      ascii_bytes_no_newline [OF e(1)] by auto
  let ?sh' = "?sh\<lparr>sh_writer := w'\<rparr>"
  have r: "key_pressed F junk exec_module scan (KRaw ArrowRight) sh = Ret (Continue ?sh')"
    using m u e w w' assms(2) by (simp add: key_pressed_def add_chk_def redraw_def)
  have "split_at_byte (length s + 1) s = None" if "ascii s" for s
    using that by (induction s) (auto simp: ascii_def utf8_len_def)
  then have "char_pressed c ?sh' = Panic AssertFailed"
    using e u ascii_facts(1) [OF e(1)] by (simp add: char_pressed_def cursor_at_end_def str_insert_def)
  then have "key_pressed F junk exec_module scan (KUnicode c) ?sh' = Panic AssertFailed"
    using assms(3,4) by (simp add: key_pressed_def)
  with r show ?thesis
    by (auto simp: key_pressed_def backspace_pressed_def cursor_at_end_def str_len_def sub_chk_def)
qed


text \<open>A file system with an empty root directory in which nothing can be created.\<close>

definition empty_fat :: "(nat, nat, nat, nat) fat_ops" where
  "empty_fat = \<lparr>fo_root_dir = (\<lambda>_. 0), fo_open_dir = (\<lambda>_ _ fs. (Inl 0, fs)), fo_iter = (\<lambda>_ fs. ([], fs)),
     fo_create_dir = (\<lambda>_ _ fs. (Inl 1, fs)), fo_create_file = (\<lambda>_ _ fs. (Inl 1, fs)),
     fo_open_file = (\<lambda>_ _ fs. (Inl 0, fs)), fo_write_all = (\<lambda>_ _ fs. (Inl 1, fs)),
     fo_seek = (\<lambda>_ _ fs. (Inl 2, fs)), fo_read = (\<lambda>_ _ fs. (Inl 2, fs)), fo_unmount = (\<lambda>_. Inr ())\<rparr>"

definition demo_shell :: "(nat, nat, nat) shell" where
  "demo_shell = \<lparr>sh_filesystem = Some 0, sh_working_dir = None, sh_current_command = [108], sh_cursor_pos = 1,
     sh_writer = writer_init blank_grid, sh_out = []\<rparr>"

lemma demo_shell_editing: "editing [108] [] demo_shell"
  using blank_grid_ok by (simp add: editing_def demo_shell_def ascii_def writer_init_def)

theorem line_editing_witness:
  "\<exists>sh'. key_pressed empty_fat (\<lambda>n. []) (\<lambda>_. 0) (\<lambda>_. []) (KUnicode 115) demo_shell = Ret (Continue sh')
    \<and> editing [108, 115] [] sh' \<and> shows_line [108, 115] (sh_writer demo_shell) (sh_writer sh')
    \<and> w_cursor (sh_writer sh') = w_cursor (sh_writer demo_shell) @ cursor_cmds 1924"
  using line_editing [OF demo_shell_editing, of "KUnicode 115" "[108, 115]" "[]"] by simp

theorem cursor_leaves_line_witness:
  "(\<exists>sh'. key_pressed empty_fat (\<lambda>n. []) (\<lambda>_. 0) (\<lambda>_. []) (KRaw ArrowRight) demo_shell = Ret (Continue sh')
      \<and> key_pressed empty_fat (\<lambda>n. []) (\<lambda>_. 0) (\<lambda>_. []) (KUnicode 115) sh' = Panic AssertFailed)
    \<and> key_pressed empty_fat (\<lambda>n. []) (\<lambda>_. 0) (\<lambda>_. []) (KUnicode 0x08)
        (demo_shell\<lparr>sh_current_command := [], sh_cursor_pos := 0\<rparr>) = Panic ArithOverflow"
  by (rule cursor_leaves_line [OF demo_shell_editing]) simp_all

end
