(* ===== verification/Vm.thy ===== *)
theory Vm
  imports ModuleCompiler
begin

section \<open>The translation to machine code (lang/src/vm)\<close>

text \<open>
  Each function of a module becomes a Cranelift function. Cranelift (a git submodule) is a
  parameter: the record \<open>clif\<close> holds the operations the translator calls, on a state \<open>'b\<close> for the
  function under construction with its builder and context and a state \<open>'m\<close> for the JIT module.
  Values, blocks and function references are opaque. \<open>ins\<close> is \<open>builder.ins()\<close> with the
  instruction as data; it returns the results of the instruction.

  The class graph may be cyclic, so \<open>translate_type\<close> may not return, and the translator works in
  \<open>run\<close>. Asking an expression for its type fills type cells; no later answer depends on that
  (\<open>e_typ_correct\<close>), so only the answer is kept here.
\<close>

datatype cty = B1 | CI64 | CF64

definition CLIF_PTR :: cty where "CLIF_PTR = CI64"

datatype intcc = IntEqual | IntNotEqual | SignedGreaterThan | SignedGreaterThanOrEqual
  | SignedLessThan | SignedLessThanOrEqual

datatype floatcc = FloatEqual | FloatNotEqual | FloatGreaterThan | FloatGreaterThanOrEqual
  | FloatLessThan | FloatLessThanOrEqual

datatype binop = Iadd | Isub | Imul | Udiv | Icmp intcc | Fadd | Fsub | Fmul | Fdiv | Fcmp floatcc

datatype ('v, 'k, 'r) inst =
    Bin binop 'v 'v
  | Bconst cty bool
  | Iconst cty i64
  | F64const f64
  | Brz 'v 'k "'v list"
  | Jump 'k "'v list"
  | Call 'r "'v list"
  | Return "'v list"

record signature =
  sig_params :: "cty list"
  sig_returns :: "cty list"

datatype linkage = Import | Export

datatype func_or_data = FuncId nat | DataId nat

record ('b, 'v, 'k, 'r) frontend =
  builder_new :: "'b \<Rightarrow> 'b outcome"
  create_block :: "'b \<Rightarrow> ('k \<times> 'b) outcome"
  switch_to_block :: "'k \<Rightarrow> 'b \<Rightarrow> 'b outcome"
  seal_block :: "'k \<Rightarrow> 'b \<Rightarrow> 'b outcome"
  append_block_params_for_function_params :: "'k \<Rightarrow> 'b \<Rightarrow> 'b outcome"
  append_block_param :: "'k \<Rightarrow> cty \<Rightarrow> 'b \<Rightarrow> ('v \<times> 'b) outcome"
  block_params :: "'k \<Rightarrow> 'b \<Rightarrow> 'v list outcome"
  declare_var :: "nat \<Rightarrow> cty \<Rightarrow> 'b \<Rightarrow> 'b outcome"
  def_var :: "nat \<Rightarrow> 'v \<Rightarrow> 'b \<Rightarrow> 'b outcome"
  use_var :: "nat \<Rightarrow> 'b \<Rightarrow> ('v \<times> 'b) outcome"
  ins :: "('v, 'k, 'r) inst \<Rightarrow> 'b \<Rightarrow> ('v list \<times> 'b) outcome"
  finalize :: "'b \<Rightarrow> 'b outcome"
  block_with_number :: "nat \<Rightarrow> 'k option"

record ('b, 'v, 'k, 'r, 'm) clif = "('b, 'v, 'k, 'r) frontend" +
  make_signature :: "'m \<Rightarrow> signature"
  signature_of :: "'b \<Rightarrow> signature"
  set_signature :: "signature \<Rightarrow> 'b \<Rightarrow> 'b"
  module_declare_function :: "string \<Rightarrow> linkage \<Rightarrow> signature \<Rightarrow> 'm \<Rightarrow> nat option \<times> 'm"
  declare_func_in_func :: "nat \<Rightarrow> 'm \<Rightarrow> 'b \<Rightarrow> ('r \<times> 'b) outcome"
  define_function :: "nat \<Rightarrow> 'b \<Rightarrow> 'm \<Rightarrow> (bool \<times> 'b \<times> 'm) outcome"
  clear_context :: "'m \<Rightarrow> 'b \<Rightarrow> 'b"
  finalize_definitions :: "'m \<Rightarrow> 'm outcome"
  get_name :: "string \<Rightarrow> 'm \<Rightarrow> func_or_data option"
  get_finalized_function :: "nat \<Rightarrow> 'm \<Rightarrow> u64 outcome"

subsection \<open>Types (typesys.rs)\<close>

text \<open>The calls of the closure \<open>adder\<close>, in order, and the count.\<close>

type_synonym adder_calls = "(nat \<times> cty) list \<times> nat"

fun translate_scalar :: "ty \<Rightarrow> adder_calls" where
  "translate_scalar TBool = ([(0, B1)], 1)"
| "translate_scalar TF64 = ([(0, CF64)], 1)"
| "translate_scalar TI64 = ([(0, CI64)], 1)"
| "translate_scalar (TFunction _) = ([(0, CLIF_PTR)], 1)"
| "translate_scalar _ = ([], 0)"

definition resolve_class :: "(nat \<Rightarrow> ir_module) \<Rightarrow> class_ref \<Rightarrow> ir_class outcome" where
  "resolve_class M r = idx (irm_classes (M (cr_module r))) (cr_index r)"

definition resolve_func :: "(nat \<Rightarrow> ir_module) \<Rightarrow> func_ref \<Rightarrow> ir_function outcome" where
  "resolve_func M r = idx (irm_funcs (M (fr_module r))) (fr_index r)"

partial_function (option) translate_members ::
    "(nat \<Rightarrow> ir_module) \<Rightarrow> class_content list \<Rightarrow> adder_calls run" where
  "translate_members M cs =
     (case cs of
        [] \<Rightarrow> rret ([], 0)
      | c # rest \<Rightarrow>
          (case c of
             CCMember v \<Rightarrow>
               rbind (case vs_ty v of
                        TClass r \<Rightarrow> rbind (Some (resolve_class M r)) (\<lambda>k. translate_members M (map snd (irc_content k)))
                      | t \<Rightarrow> rret (translate_scalar t)) (\<lambda>(xs, m).
               rbind (translate_members M rest) (\<lambda>(ys, n). rret (xs @ ys, m + n)))
           | _ \<Rightarrow> rret ([], 0)))"

definition translate_type :: "(nat \<Rightarrow> ir_module) \<Rightarrow> ty \<Rightarrow> adder_calls run" where
  "translate_type M t =
     (case t of
        TClass r \<Rightarrow> rbind (Some (resolve_class M r)) (\<lambda>k. translate_members M (map snd (irc_content k)))
      | _ \<Rightarrow> rret (translate_scalar t))"

subsection \<open>Declaring functions (vm/mod.rs)\<close>

definition get_linkage :: "ir_function \<Rightarrow> linkage" where
  "get_linkage f = (if fn_body (irf_ast f) = None then Import else Export)"

primrec push_params :: "(nat \<Rightarrow> ir_module) \<Rightarrow> var_store list \<Rightarrow> signature \<Rightarrow> signature run" where
  "push_params M [] g = rret g"
| "push_params M (p # ps) g =
     rbind (translate_type M (vs_ty p)) (\<lambda>(cs, _).
     push_params M ps (g\<lparr>sig_params := sig_params g @ map snd cs\<rparr>))"

definition make_fn_sig :: "(nat \<Rightarrow> ir_module) \<Rightarrow> ir_function \<Rightarrow> signature \<Rightarrow> signature run" where
  "make_fn_sig M f g =
     rbind (push_params M (irf_params f) g) (\<lambda>g.
     rbind (translate_type M (irf_ret_type f)) (\<lambda>(cs, _).
     rret (g\<lparr>sig_returns := sig_returns g @ map snd cs\<rparr>)))"

definition set_ir :: "func_ref \<Rightarrow> nat \<Rightarrow> (nat \<Rightarrow> ir_module) \<Rightarrow> (nat \<Rightarrow> ir_module)" where
  "set_ir r fid M =
     (let x = M (fr_module r); k = fr_index r
      in M(fr_module r := x\<lparr>irm_funcs := (irm_funcs x)[k := (irm_funcs x ! k)\<lparr>irf_ir := Some fid\<rparr>]\<rparr>))"

definition declare_ir_function ::
    "('b, 'v, 'k, 'r, 'm) clif \<Rightarrow> func_ref \<Rightarrow> signature \<Rightarrow> (nat \<Rightarrow> ir_module) \<times> 'm \<Rightarrow> (nat \<times> (nat \<Rightarrow> ir_module) \<times> 'm) run" where
  "declare_ir_function C r g = (\<lambda>(M, jm).
     rbind (Some (resolve_func M r)) (\<lambda>f.
     case irf_ir f of
       Some fid \<Rightarrow> rret (fid, M, jm)
     | None \<Rightarrow>
         (let (res, jm) = module_declare_function C (irf_name f) (get_linkage f) g jm
          in case res of
               None \<Rightarrow> Some (Panic UnwrapOnErr)
             | Some fid \<Rightarrow> rret (fid, set_ir r fid M, jm))))"

definition get_or_declare_ir_fn ::
    "('b, 'v, 'k, 'r, 'm) clif \<Rightarrow> func_ref \<Rightarrow> (nat \<Rightarrow> ir_module) \<times> 'm \<Rightarrow> (nat \<times> (nat \<Rightarrow> ir_module) \<times> 'm) run" where
  "get_or_declare_ir_fn C r = (\<lambda>(M, jm).
     rbind (Some (resolve_func M r)) (\<lambda>f.
     case irf_ir f of
       Some fid \<Rightarrow> rret (fid, M, jm)
     | None \<Rightarrow>
         rbind (make_fn_sig M f (make_signature C jm)) (\<lambda>g.
         let (res, jm) = module_declare_function C (irf_name f) (get_linkage f) g jm
         in case res of
              None \<Rightarrow> Some (Panic UnwrapOnErr)
            | Some fid \<Rightarrow> rret (fid, set_ir r fid M, jm))))"

subsection \<open>The function translator (function/mod.rs)\<close>

record ('b, 'k, 'm) translator =
  tr_mods :: "nat \<Rightarrow> ir_module"
  tr_ir_module :: 'm
  tr_cl :: 'b
  tr_local_offsets :: "nat list"
  tr_blocks :: "'k list"
  tr_current_block :: 'k

text \<open>Calls on the builder \<open>self.cl\<close>, with and without a result.\<close>

definition on_cl :: "('b \<Rightarrow> ('x \<times> 'b) outcome) \<Rightarrow> ('b, 'k, 'm) translator \<Rightarrow> ('x \<times> ('b, 'k, 'm) translator) run" where
  "on_cl f s = Some (obind (f (tr_cl s)) (\<lambda>(x, b). Ret (x, s\<lparr>tr_cl := b\<rparr>)))"

definition do_cl :: "('b \<Rightarrow> 'b outcome) \<Rightarrow> ('b, 'k, 'm) translator \<Rightarrow> ('b, 'k, 'm) translator run" where
  "do_cl f s = Some (obind (f (tr_cl s)) (\<lambda>b. Ret (s\<lparr>tr_cl := b\<rparr>)))"

text \<open>An instruction emitted for its effect, and one whose single result is the value of the
  builder method.\<close>

definition emit :: "('b, 'v, 'k, 'r, 'm) clif \<Rightarrow> ('v, 'k, 'r) inst \<Rightarrow> ('b, 'k, 'm) translator \<Rightarrow> ('b, 'k, 'm) translator run" where
  "emit C i s = rbind (on_cl (ins C i) s) (\<lambda>(_, s). rret s)"

definition emit_value :: "('b, 'v, 'k, 'r, 'm) clif \<Rightarrow> ('v, 'k, 'r) inst \<Rightarrow> ('b, 'k, 'm) translator \<Rightarrow> ('v \<times> ('b, 'k, 'm) translator) run" where
  "emit_value C i s = rbind (on_cl (ins C i) s) (\<lambda>(vs, s). rbind (Some (idx vs 0)) (\<lambda>v. rret (v, s)))"

definition new_block :: "('b, 'v, 'k, 'r, 'm) clif \<Rightarrow> ('b, 'k, 'm) translator \<Rightarrow> ('k \<times> ('b, 'k, 'm) translator) run" where
  "new_block C s =
     rbind (on_cl (create_block C) s) (\<lambda>(k, s). rret (k, s\<lparr>tr_blocks := tr_blocks s @ [k]\<rparr>))"

definition switch_block :: "('b, 'v, 'k, 'r, 'm) clif \<Rightarrow> 'k \<Rightarrow> ('b, 'k, 'm) translator \<Rightarrow> ('b, 'k, 'm) translator run" where
  "switch_block C k s = rbind (do_cl (switch_to_block C k) s) (\<lambda>s. rret (s\<lparr>tr_current_block := k\<rparr>))"

definition switch_new_block :: "('b, 'v, 'k, 'r, 'm) clif \<Rightarrow> ('b, 'k, 'm) translator \<Rightarrow> ('k \<times> ('b, 'k, 'm) translator) run" where
  "switch_new_block C s =
     rbind (new_block C s) (\<lambda>(k, s). rbind (switch_block C k s) (\<lambda>s. rret (k, s)))"

text \<open>A loop of calls on the translator's state.\<close>

primrec rfold :: "('x \<Rightarrow> 's \<Rightarrow> 's run) \<Rightarrow> 'x list \<Rightarrow> 's \<Rightarrow> 's run" where
  "rfold f [] s = rret s"
| "rfold f (x # xs) s = rbind (f x s) (rfold f xs)"

definition declare_local :: "('b, 'v, 'k, 'r, 'm) clif \<Rightarrow> var_store \<Rightarrow> ('b, 'k, 'm) translator \<Rightarrow> ('b, 'k, 'm) translator run" where
  "declare_local C var s =
     rbind (Some (idx (tr_local_offsets s) (vs_index var))) (\<lambda>last_len.
     rbind (translate_type (tr_mods s) (vs_ty var)) (\<lambda>(cs, len).
     rbind (rfold (\<lambda>(i, local). do_cl (declare_var C (last_len + i) local)) cs s) (\<lambda>s.
     rret (s\<lparr>tr_local_offsets := tr_local_offsets s @ [last_len + len]\<rparr>))))"

definition define_local :: "('b, 'v, 'k, 'r, 'm) clif \<Rightarrow> var_store \<Rightarrow> 'v list \<Rightarrow> ('b, 'k, 'm) translator \<Rightarrow> ('b, 'k, 'm) translator run" where
  "define_local C var vals s =
     rbind (Some (idx (tr_local_offsets s) (vs_index var))) (\<lambda>offset.
     rbind (translate_type (tr_mods s) (vs_ty var)) (\<lambda>(cs, _).
     rfold (\<lambda>(i, _) s. rbind (Some (idx vals (offset + i))) (\<lambda>v.
       do_cl (def_var C (offset + i) v) s)) cs s))"

text \<open>\<open>&params[from..]\<close>\<close>

definition slice_from :: "'a list \<Rightarrow> nat \<Rightarrow> 'a list outcome" where
  "slice_from xs i = (if i \<le> length xs then Ret (drop i xs) else Panic IndexOutOfBounds)"

definition declare_variables :: "('b, 'v, 'k, 'r, 'm) clif \<Rightarrow> ir_function \<Rightarrow> ('b, 'k, 'm) translator \<Rightarrow> ('b, 'k, 'm) translator run" where
  "declare_variables C func s =
     rbind (Some (idx (tr_blocks s) 0)) (\<lambda>entry_block.
     rbind (Some (block_params C entry_block (tr_cl s))) (\<lambda>params.
     rbind (rfold (\<lambda>var s.
              rbind (declare_local C var s) (\<lambda>s.
              rbind (Some (idx (tr_local_offsets s) (vs_index var))) (\<lambda>from.
              rbind (Some (slice_from params from)) (\<lambda>vals.
              define_local C var vals s)))) (irf_params func) s) (\<lambda>s.
     rfold (declare_local C) (irf_locals func) s)))"

definition translator_init :: "('b, 'v, 'k, 'r, 'm) clif \<Rightarrow> ir_function \<Rightarrow> ('b, 'k, 'm) translator \<Rightarrow> ('b, 'k, 'm) translator run" where
  "translator_init C func s =
     rbind (switch_new_block C s) (\<lambda>(entry, s).
     rbind (do_cl (append_block_params_for_function_params C entry) s) (\<lambda>s.
     rbind (do_cl (seal_block C entry) s) (declare_variables C func)))"

definition translator_new :: "('b, 'v, 'k, 'r, 'm) clif \<Rightarrow> (nat \<Rightarrow> ir_module) \<Rightarrow> 'm \<Rightarrow> 'b \<Rightarrow> ('b, 'k, 'm) translator run" where
  "translator_new C M jm b =
     rbind (Some (builder_new C b)) (\<lambda>cl.
     rbind (Some (unwrap (block_with_number C 0))) (\<lambda>k.
     rret \<lparr>tr_mods = M, tr_ir_module = jm, tr_cl = cl, tr_local_offsets = [0], tr_blocks = [],
           tr_current_block = k\<rparr>))"

subsection \<open>Expressions (function/exprs.rs)\<close>

type_synonym ('v, 'b, 'k, 'm) trans = "('b, 'k, 'm) translator \<Rightarrow> ('v list \<times> ('b, 'k, 'm) translator) run"

definition variable :: "nat \<Rightarrow> nat" where "variable index = index mod 2 ^ 32"

definition br :: "('b, 'v, 'k, 'r, 'm) clif \<Rightarrow> 'v \<Rightarrow> 'k \<Rightarrow> 'k \<Rightarrow> ('b, 'k, 'm) translator \<Rightarrow> ('b, 'k, 'm) translator run" where
  "br C cnd thn els s = rbind (emit C (Brz cnd els []) s) (emit C (Jump thn []))"

definition set_cont_params :: "('b, 'v, 'k, 'r, 'm) clif \<Rightarrow> bool \<Rightarrow> 'k \<Rightarrow> ty \<Rightarrow> ('b, 'k, 'm) translator \<Rightarrow> ('b, 'k, 'm) translator run" where
  "set_cont_params C phi cont t s =
     (if phi then
        rbind (translate_type (tr_mods s) t) (\<lambda>(cs, _).
        rfold (\<lambda>(_, ty) s. rbind (on_cl (append_block_param C cont ty) s) (\<lambda>(_, s). rret s)) cs s)
      else rret s)"

definition jump_cont :: "('b, 'v, 'k, 'r, 'm) clif \<Rightarrow> 'k \<Rightarrow> bool \<Rightarrow> 'v list \<Rightarrow> ('b, 'k, 'm) translator \<Rightarrow> ('b, 'k, 'm) translator run" where
  "jump_cont C cont phi vs = (if phi then emit C (Jump cont vs) else emit C (Jump cont []))"

definition intcmp :: "tkind \<Rightarrow> intcc outcome" where
  "intcmp k =
     (if k = TK_EqualEqual then Ret IntEqual
      else if k = TK_BangEqual then Ret IntNotEqual
      else if k = TK_Greater then Ret SignedGreaterThan
      else if k = TK_GreaterEqual then Ret SignedGreaterThanOrEqual
      else if k = TK_Less then Ret SignedLessThan
      else if k = TK_LessEqual then Ret SignedLessThanOrEqual
      else Panic (PanicMsg ''unknown comparison operator''))"

definition floatcmp :: "tkind \<Rightarrow> floatcc outcome" where
  "floatcmp k =
     (if k = TK_EqualEqual then Ret FloatEqual
      else if k = TK_BangEqual then Ret FloatNotEqual
      else if k = TK_Greater then Ret FloatGreaterThan
      else if k = TK_GreaterEqual then Ret FloatGreaterThanOrEqual
      else if k = TK_Less then Ret FloatLessThan
      else if k = TK_LessEqual then Ret FloatLessThanOrEqual
      else Panic (PanicMsg ''unknown comparison operator''))"

definition binary_op :: "bool \<Rightarrow> tkind \<Rightarrow> binop outcome" where
  "binary_op ints k =
     (if ints then
        (if k = TK_Plus then Ret Iadd else if k = TK_Minus then Ret Isub
         else if k = TK_Star then Ret Imul else if k = TK_Slash then Ret Udiv
         else obind (intcmp k) (\<lambda>cc. Ret (Icmp cc)))
      else
        (if k = TK_Plus then Ret Fadd else if k = TK_Minus then Ret Fsub
         else if k = TK_Star then Ret Fmul else if k = TK_Slash then Ret Fdiv
         else obind (floatcmp k) (\<lambda>cc. Ret (Fcmp cc))))"

definition expr_typ :: "ir_expr \<Rightarrow> ty outcome" where
  "expr_typ e = obind (e_typ e) (\<lambda>(t, _). Ret t)"

definition trans_binary :: "('b, 'v, 'k, 'r, 'm) clif \<Rightarrow> ('v, 'b, 'k, 'm) trans \<Rightarrow> ty outcome \<Rightarrow> tkind \<Rightarrow>
    ('v, 'b, 'k, 'm) trans \<Rightarrow> ('b, 'k, 'm) translator \<Rightarrow> ('v \<times> ('b, 'k, 'm) translator) run" where
  "trans_binary C left left_typ op right s =
     rbind (left s) (\<lambda>(ls, s). rbind (Some (idx ls 0)) (\<lambda>l.
     rbind (right s) (\<lambda>(rs, s). rbind (Some (idx rs 0)) (\<lambda>r.
     rbind (Some left_typ) (\<lambda>t.
     rbind (Some (binary_op (is_int t) op)) (\<lambda>bop. emit_value C (Bin bop l r) s))))))"

definition trans_constant :: "('b, 'v, 'k, 'r, 'm) clif \<Rightarrow> ir_constant \<Rightarrow> ('b, 'k, 'm) translator \<Rightarrow> ('v \<times> ('b, 'k, 'm) translator) run" where
  "trans_constant C k s =
     (case k of
        CBool b \<Rightarrow> emit_value C (Bconst B1 b) s
      | CInt i \<Rightarrow> emit_value C (Iconst CI64 i) s
      | CFloat f \<Rightarrow> emit_value C (F64const f) s
      | CString _ \<Rightarrow> Some (Panic Unimplemented)
      | CFunction _ \<Rightarrow> emit_value C (Iconst CI64 0) s
      | CClass _ \<Rightarrow> emit_value C (Iconst CI64 0) s)"

definition trans_if :: "('b, 'v, 'k, 'r, 'm) clif \<Rightarrow> ('v, 'b, 'k, 'm) trans \<Rightarrow> bool \<Rightarrow> ty outcome \<Rightarrow>
    ('v, 'b, 'k, 'm) trans \<Rightarrow> ('v, 'b, 'k, 'm) trans \<Rightarrow> ('v, 'b, 'k, 'm) trans" where
  "trans_if C cnd phi then_typ thn els s =
     rbind (cnd s) (\<lambda>(condition, s).
     rbind (new_block C s) (\<lambda>(then_b, s).
     rbind (new_block C s) (\<lambda>(else_b, s).
     rbind (new_block C s) (\<lambda>(cont_b, s).
     rbind (Some then_typ) (\<lambda>t.
     rbind (set_cont_params C phi cont_b t s) (\<lambda>s.
     rbind (Some (idx condition 0)) (\<lambda>c.
     rbind (br C c then_b else_b s) (\<lambda>s.
     rbind (switch_block C then_b s) (\<lambda>s.
     rbind (do_cl (seal_block C then_b) s) (\<lambda>s.
     rbind (thn s) (\<lambda>(then_val, s).
     rbind (jump_cont C cont_b phi then_val s) (\<lambda>s.
     rbind (switch_block C else_b s) (\<lambda>s.
     rbind (do_cl (seal_block C else_b) s) (\<lambda>s.
     rbind (els s) (\<lambda>(els_val, s).
     rbind (jump_cont C cont_b phi els_val s) (\<lambda>s.
     rbind (switch_block C cont_b s) (\<lambda>s.
     rbind (do_cl (seal_block C cont_b) s) (\<lambda>s.
     rbind (Some (block_params C cont_b (tr_cl s))) (\<lambda>vs.
     rret (vs, s))))))))))))))))))))"

definition trans_while :: "('b, 'v, 'k, 'r, 'm) clif \<Rightarrow> ('v, 'b, 'k, 'm) trans \<Rightarrow> ('v, 'b, 'k, 'm) trans \<Rightarrow>
    ('v, 'b, 'k, 'm) trans" where
  "trans_while C cnd body s =
     rbind (new_block C s) (\<lambda>(head_b, s).
     rbind (new_block C s) (\<lambda>(body_b, s).
     rbind (new_block C s) (\<lambda>(cont_b, s).
     rbind (emit C (Jump head_b []) s) (\<lambda>s.
     rbind (switch_block C head_b s) (\<lambda>s.
     rbind (cnd s) (\<lambda>(cs, s).
     rbind (Some (idx cs 0)) (\<lambda>condition_value.
     rbind (emit C (Brz condition_value cont_b []) s) (\<lambda>s.
     rbind (emit C (Jump body_b []) s) (\<lambda>s.
     rbind (switch_block C body_b s) (\<lambda>s.
     rbind (do_cl (seal_block C body_b) s) (\<lambda>s.
     rbind (body s) (\<lambda>(_, s).
     rbind (emit C (Jump head_b []) s) (\<lambda>s.
     rbind (do_cl (switch_to_block C cont_b) s) (\<lambda>s.
     rbind (do_cl (seal_block C head_b) s) (\<lambda>s.
     rbind (do_cl (seal_block C cont_b) s) (\<lambda>s.
     rbind (emit_value C (Iconst CI64 0) s) (\<lambda>(v, s). rret ([v], s))))))))))))))))))"

primrec use_vars :: "('b, 'v, 'k, 'r, 'm) clif \<Rightarrow> nat \<Rightarrow> (nat \<times> cty) list \<Rightarrow> ('v, 'b, 'k, 'm) trans" where
  "use_vars C offset [] s = rret ([], s)"
| "use_vars C offset (c # cs) s =
     rbind (on_cl (use_var C (variable (offset + fst c))) s) (\<lambda>(v, s).
     rbind (use_vars C offset cs s) (\<lambda>(vs, s). rret (v # vs, s)))"

definition variable_expr :: "('b, 'v, 'k, 'r, 'm) clif \<Rightarrow> nat \<Rightarrow> ty \<Rightarrow> ('v, 'b, 'k, 'm) trans" where
  "variable_expr C index t s =
     rbind (Some (idx (tr_local_offsets s) index)) (\<lambda>offset.
     rbind (translate_type (tr_mods s) t) (\<lambda>(cs, _). use_vars C offset cs s))"

definition assign_var :: "('b, 'v, 'k, 'r, 'm) clif \<Rightarrow> nat \<Rightarrow> ('v, 'b, 'k, 'm) trans \<Rightarrow> ty \<Rightarrow> ('v, 'b, 'k, 'm) trans" where
  "assign_var C index val t s =
     rbind (Some (idx (tr_local_offsets s) index)) (\<lambda>offset.
     rbind (val s) (\<lambda>(vs, s).
     rbind (translate_type (tr_mods s) t) (\<lambda>(cs, _).
     rbind (rfold (\<lambda>(i, _) s. rbind (Some (idx vs i)) (\<lambda>v.
              do_cl (def_var C (variable (offset + i)) v) s)) cs s) (\<lambda>s. rret (vs, s)))))"

definition trans_call :: "('b, 'v, 'k, 'r, 'm) clif \<Rightarrow> ty outcome \<Rightarrow> ('v, 'b, 'k, 'm) trans \<Rightarrow> ('v, 'b, 'k, 'm) trans" where
  "trans_call C callee_typ args s =
     rbind (Some (obind callee_typ into_fn)) (\<lambda>r.
     rbind (get_or_declare_ir_fn C r (tr_mods s, tr_ir_module s)) (\<lambda>(func_id, M, jm).
     let s = s\<lparr>tr_mods := M, tr_ir_module := jm\<rparr> in
     rbind (on_cl (declare_func_in_func C func_id jm) s) (\<lambda>(local_callee, s).
     rbind (args s) (\<lambda>(call_args, s).
     on_cl (ins C (Call local_callee call_args)) s))))"

fun trans_expr :: "('b, 'v, 'k, 'r, 'm) clif \<Rightarrow> ir_expr \<Rightarrow> ('v, 'b, 'k, 'm) trans"
  and trans_iexpr :: "('b, 'v, 'k, 'r, 'm) clif \<Rightarrow> iexpr \<Rightarrow> ('v, 'b, 'k, 'm) trans"
  and trans_block :: "('b, 'v, 'k, 'r, 'm) clif \<Rightarrow> ir_expr list \<Rightarrow> 'v list \<Rightarrow> ('v, 'b, 'k, 'm) trans"
  and trans_args :: "('b, 'v, 'k, 'r, 'm) clif \<Rightarrow> ir_expr list \<Rightarrow> 'v list \<Rightarrow> ('v, 'b, 'k, 'm) trans" where
  "trans_expr C (IrExpr i c) s = trans_iexpr C i s"
| "trans_iexpr C (IBinary l op r) s =
     rbind (trans_binary C (\<lambda>s. trans_expr C l s) (expr_typ l) (kind op) (\<lambda>s. trans_expr C r s) s)
       (\<lambda>(v, s). rret ([v], s))"
| "trans_iexpr C (IConstant k) s = rbind (trans_constant C k s) (\<lambda>(v, s). rret ([v], s))"
| "trans_iexpr C (IBlock es) s = trans_block C es [] s"
| "trans_iexpr C (IIf cnd t e phi) s =
     trans_if C (\<lambda>s. trans_expr C cnd s) phi (expr_typ t) (\<lambda>s. trans_expr C t s) (\<lambda>s. trans_expr C e s) s"
| "trans_iexpr C (IWhile cnd b) s = trans_while C (\<lambda>s. trans_expr C cnd s) (\<lambda>s. trans_expr C b s) s"
| "trans_iexpr C (IVariable index t) s = variable_expr C index t s"
| "trans_iexpr C (IAssign st v) s =
     (case inner st of
        IVariable index t \<Rightarrow> assign_var C index (\<lambda>s. trans_expr C v s) t s
      | _ \<Rightarrow> Some (Panic (PanicMsg ''Unknown assignment target!'')))"
| "trans_iexpr C (ICall callee args) s = trans_call C (expr_typ callee) (\<lambda>s. trans_args C args [] s) s"
| "trans_iexpr C IPoison s = Some (Panic (PanicMsg ''Cannot translate poison values!''))"
| "trans_block C [] val s = rret (val, s)"
| "trans_block C (e # es) val s = rbind (trans_expr C e s) (\<lambda>(v, s). trans_block C es v s)"
| "trans_args C [] acc s = rret (acc, s)"
| "trans_args C (e # es) acc s = rbind (trans_expr C e s) (\<lambda>(vs, s). trans_args C es (acc @ vs) s)"

definition translator_build :: "('b, 'v, 'k, 'r, 'm) clif \<Rightarrow> ir_function \<Rightarrow> ('b, 'k, 'm) translator \<Rightarrow> ('b, 'k, 'm) translator run" where
  "translator_build C func s =
     rbind (translator_init C func s) (\<lambda>s.
     rbind (trans_expr C (irf_body func) s) (\<lambda>(ret, s).
     rbind (emit C (Return ret) s) (do_cl (finalize C))))"

subsection \<open>The JIT (vm/mod.rs)\<close>

record ('b, 'm) jit =
  jit_ctx :: 'b
  jit_clif :: 'm

text \<open>One round of the loop of \<open>jit_module\<close>, for the function \<open>r\<close> of the module cells \<open>M\<close>.\<close>

definition jit_function :: "('b, 'v, 'k, 'r, 'm) clif \<Rightarrow> func_ref \<Rightarrow> (nat \<Rightarrow> ir_module) \<times> ('b, 'm) jit \<Rightarrow> ((nat \<Rightarrow> ir_module) \<times> ('b, 'm) jit) run" where
  "jit_function C r = (\<lambda>(M, j).
     rbind (Some (resolve_func M r)) (\<lambda>func.
     rbind (make_fn_sig M func (signature_of C (jit_ctx j))) (\<lambda>g.
     let ctx = set_signature C g (jit_ctx j) in
     rbind (declare_ir_function C r g (M, jit_clif j)) (\<lambda>(fid, M, jm).
     rbind (translator_new C M jm ctx) (\<lambda>t.
     rbind (translator_build C func t) (\<lambda>t.
     rbind (Some (define_function C fid (tr_cl t) (tr_ir_module t))) (\<lambda>(ok, ctx, jm).
     if ok then rret (tr_mods t, j\<lparr>jit_ctx := clear_context C jm ctx, jit_clif := jm\<rparr>)
     else Some (Panic UnwrapOnErr))))))))"

definition jit_module :: "('b, 'v, 'k, 'r, 'm) clif \<Rightarrow> nat \<Rightarrow> (nat \<Rightarrow> ir_module) \<times> ('b, 'm) jit \<Rightarrow> ((nat \<Rightarrow> ir_module) \<times> ('b, 'm) jit) run" where
  "jit_module C m = (\<lambda>(M, j).
     rbind (rfold (\<lambda>k. jit_function C \<lparr>fr_module = m, fr_index = k\<rparr>)
              (filter (\<lambda>k. fn_body (irf_ast (irm_funcs (M m) ! k)) \<noteq> None) [0..<length (irm_funcs (M m))])
              (M, j)) (\<lambda>(M, j).
     rbind (Some (finalize_definitions C (jit_clif j))) (\<lambda>jm. rret (M, j\<lparr>jit_clif := jm\<rparr>))))"

text \<open>\<open>exec\<close> looks the function up and calls the machine code at its address; what the call
  does is the parameter \<open>call_ptr\<close>.\<close>

definition exec :: "('b, 'v, 'k, 'r, 'm) clif \<Rightarrow> (u64 \<Rightarrow> 't run) \<Rightarrow> string \<Rightarrow> ('b, 'm) jit \<Rightarrow> 't run" where
  "exec C call_ptr name j =
     rbind (Some (unwrap (get_name C name (jit_clif j)))) (\<lambda>fd.
     case fd of
       DataId _ \<Rightarrow> Some (Panic (PanicMsg ''explicit panic''))
     | FuncId fid \<Rightarrow> rbind (Some (get_finalized_function C fid (jit_clif j))) call_ptr)"

end
