(* ===== verification/Clif.thy ===== *)
theory Clif
  imports Vm
begin

section \<open>What Cranelift promises\<close>

text \<open>
  The meaning of a function under construction. A view of the builder's state holds the blocks
  with the items appended to them: instructions with their result values, and the definitions and
  uses of variables. Definitions and uses act on mutable variables; this is what the builder's
  documentation promises its clients, whatever values the construction of SSA form picks. A use
  may return a value that exists already; it is then marked, and the promise is that this value
  holds the variable's contents whenever the use is reached.

  The machine runs the items of a view. All values are 64-bit words; floating-point arithmetic
  is a parameter, and so is what calling a symbol does.
\<close>

datatype ('v, 'k, 'r) item = Ins "('v, 'k, 'r) inst" "'v list" | Def nat 'v | Use nat 'v bool

record ('v, 'k, 'r) fview =
  fv_code :: "'k \<Rightarrow> ('v, 'k, 'r) item list"
  fv_params :: "'k \<Rightarrow> 'v list"
  fv_blocks :: "'k set"
  fv_sealed :: "'k set"
  fv_current :: "'k option"
  fv_entry :: "'k option"
  fv_sig :: signature
  fv_types :: "'v \<rightharpoonup> cty"
  fv_vars :: "nat \<rightharpoonup> cty"
  fv_callee :: "'r \<rightharpoonup> string \<times> signature"

fun terminator :: "('v, 'k, 'r) inst \<Rightarrow> bool" where
  "terminator (Jump _ _) = True"
| "terminator (Return _) = True"
| "terminator _ = False"

fun targets :: "('v, 'k, 'r) inst \<Rightarrow> 'k set" where
  "targets (Brz _ k _) = {k}"
| "targets (Jump k _) = {k}"
| "targets _ = {}"

fun bin_arg :: "binop \<Rightarrow> cty" where
  "bin_arg (Icmp _) = CI64"
| "bin_arg (Fcmp _) = CF64"
| "bin_arg bop = (if bop \<in> {Fadd, Fsub, Fmul, Fdiv} then CF64 else CI64)"

fun bin_result :: "binop \<Rightarrow> cty" where
  "bin_result (Icmp _) = B1"
| "bin_result (Fcmp _) = B1"
| "bin_result bop = bin_arg bop"

fun result_types :: "('r \<rightharpoonup> string \<times> signature) \<Rightarrow> ('v, 'k, 'r) inst \<Rightarrow> cty list" where
  "result_types G (Bin bop _ _) = [bin_result bop]"
| "result_types G (Bconst t _) = [t]"
| "result_types G (Iconst t _) = [t]"
| "result_types G (F64const _) = [CF64]"
| "result_types G (Call r _) = (case G r of Some (_, g) \<Rightarrow> sig_returns g | None \<Rightarrow> [])"
| "result_types G _ = []"

text \<open>The operands have the types the verifier asks for.\<close>

fun well_typed :: "('v, 'k, 'r) fview \<Rightarrow> ('v, 'k, 'r) inst \<Rightarrow> bool" where
  "well_typed v (Bin bop a b) \<longleftrightarrow> fv_types v a = Some (bin_arg bop) \<and> fv_types v b = Some (bin_arg bop)"
| "well_typed v (Brz c k vs) \<longleftrightarrow> fv_types v c \<in> {Some B1, Some CI64} \<and> map (fv_types v) vs = map (fv_types v) (fv_params v k)"
| "well_typed v (Jump k vs) \<longleftrightarrow> map (fv_types v) vs = map (fv_types v) (fv_params v k)"
| "well_typed v (Call r vs) \<longleftrightarrow> (\<exists>name g. fv_callee v r = Some (name, g) \<and> map (fv_types v) vs = map Some (sig_params g))"
| "well_typed v (Return vs) \<longleftrightarrow> map (fv_types v) vs = map Some (sig_returns (fv_sig v))"
| "well_typed v (Bconst t _) \<longleftrightarrow> t = B1"
| "well_typed v (Iconst t _) \<longleftrightarrow> t = CI64"
| "well_typed v (F64const _) = True"

text \<open>A block ends with a terminator; after a conditional branch only a jump may follow.\<close>

definition ended :: "('v, 'k, 'r) item list \<Rightarrow> bool" where
  "ended its \<longleftrightarrow> (\<exists>i rs. its \<noteq> [] \<and> last its = Ins i rs \<and> terminator i)"

definition branched :: "('v, 'k, 'r) item list \<Rightarrow> bool" where
  "branched its \<longleftrightarrow> (\<exists>c k vs rs. its \<noteq> [] \<and> last its = Ins (Brz c k vs) rs)"

abbreviation cur :: "('v, 'k, 'r) fview \<Rightarrow> 'k" where "cur v \<equiv> the (fv_current v)"
abbreviation cur_code :: "('v, 'k, 'r) fview \<Rightarrow> ('v, 'k, 'r) item list" where "cur_code v \<equiv> fv_code v (cur v)"

definition open_block :: "('v, 'k, 'r) fview \<Rightarrow> bool" where
  "open_block v \<longleftrightarrow> (\<exists>k \<in> fv_blocks v. fv_current v = Some k) \<and> \<not> ended (cur_code v)"

definition can_ins :: "('v, 'k, 'r) inst \<Rightarrow> ('v, 'k, 'r) fview \<Rightarrow> bool" where
  "can_ins i v \<longleftrightarrow> open_block v \<and> (branched (cur_code v) \<longrightarrow> (\<exists>k vs. i = Jump k vs))
     \<and> well_typed v i \<and> targets i \<subseteq> fv_blocks v - fv_sealed v"

definition v_create :: "'k \<Rightarrow> ('v, 'k, 'r) fview \<Rightarrow> ('v, 'k, 'r) fview" where
  "v_create k v = v\<lparr>fv_blocks := insert k (fv_blocks v), fv_code := (fv_code v)(k := []),
                     fv_params := (fv_params v)(k := [])\<rparr>"

definition v_param :: "'k \<Rightarrow> 'v list \<Rightarrow> cty list \<Rightarrow> ('v, 'k, 'r) fview \<Rightarrow> ('v, 'k, 'r) fview" where
  "v_param k xs ts v = v\<lparr>fv_params := (fv_params v)(k := fv_params v k @ xs), fv_types := fv_types v ++ map_of (zip xs ts)\<rparr>"

definition v_empty :: "signature \<Rightarrow> ('v, 'k, 'r) fview" where
  "v_empty g = \<lparr>fv_code = (\<lambda>_. []), fv_params = (\<lambda>_. []), fv_blocks = {}, fv_sealed = {}, fv_current = None,
                 fv_entry = None, fv_sig = g, fv_types = Map.empty, fv_vars = Map.empty, fv_callee = Map.empty\<rparr>"

definition v_switch :: "'k \<Rightarrow> ('v, 'k, 'r) fview \<Rightarrow> ('v, 'k, 'r) fview" where
  "v_switch k v = v\<lparr>fv_current := Some k,
                     fv_entry := (case fv_entry v of None \<Rightarrow> Some k | Some e \<Rightarrow> Some e)\<rparr>"

definition v_seal :: "'k \<Rightarrow> ('v, 'k, 'r) fview \<Rightarrow> ('v, 'k, 'r) fview" where
  "v_seal k v = v\<lparr>fv_sealed := insert k (fv_sealed v)\<rparr>"

definition v_item :: "('v, 'k, 'r) item \<Rightarrow> 'v list \<Rightarrow> cty list \<Rightarrow> ('v, 'k, 'r) fview \<Rightarrow> ('v, 'k, 'r) fview" where
  "v_item it rs ts v = v\<lparr>fv_code := (fv_code v)(cur v := cur_code v @ [it]), fv_types := fv_types v ++ map_of (zip rs ts)\<rparr>"

subsection \<open>Running a view\<close>

record fpu =
  f_add :: "f64 \<Rightarrow> f64 \<Rightarrow> f64"
  f_sub :: "f64 \<Rightarrow> f64 \<Rightarrow> f64"
  f_mul :: "f64 \<Rightarrow> f64 \<Rightarrow> f64"
  f_div :: "f64 \<Rightarrow> f64 \<Rightarrow> f64"
  f_cmp :: "floatcc \<Rightarrow> f64 \<Rightarrow> f64 \<Rightarrow> bool"

definition of_flag :: "bool \<Rightarrow> u64" where "of_flag b = (if b then 1 else 0)"

fun int_compare :: "intcc \<Rightarrow> u64 \<Rightarrow> u64 \<Rightarrow> bool" where
  "int_compare IntEqual x y \<longleftrightarrow> x = y"
| "int_compare IntNotEqual x y \<longleftrightarrow> x \<noteq> y"
| "int_compare SignedGreaterThan x y \<longleftrightarrow> sint x > sint y"
| "int_compare SignedGreaterThanOrEqual x y \<longleftrightarrow> sint x \<ge> sint y"
| "int_compare SignedLessThan x y \<longleftrightarrow> sint x < sint y"
| "int_compare SignedLessThanOrEqual x y \<longleftrightarrow> sint x \<le> sint y"

fun run_bin :: "fpu \<Rightarrow> binop \<Rightarrow> u64 \<Rightarrow> u64 \<Rightarrow> u64 option" where
  "run_bin P Iadd x y = Some (x + y)"
| "run_bin P Isub x y = Some (x - y)"
| "run_bin P Imul x y = Some (x * y)"
| "run_bin P Udiv x y = (if y = 0 then None else Some (x div y))"
| "run_bin P (Icmp cc) x y = Some (of_flag (int_compare cc x y))"
| "run_bin P Fadd x y = Some (f_add P x y)"
| "run_bin P Fsub x y = Some (f_sub P x y)"
| "run_bin P Fmul x y = Some (f_mul P x y)"
| "run_bin P Fdiv x y = Some (f_div P x y)"
| "run_bin P (Fcmp cc) x y = Some (of_flag (f_cmp P cc x y))"

text \<open>A configuration: the block and the position in it, the values, the variables, and the
  world the called symbols act on.\<close>

record ('v, 'k, 'w) config =
  c_block :: 'k
  c_pos :: nat
  c_vals :: "'v \<Rightarrow> u64"
  c_vars :: "nat \<Rightarrow> u64"
  c_world :: 'w

type_synonym 'w calls = "string \<Rightarrow> u64 list \<Rightarrow> 'w \<Rightarrow> (u64 list \<times> 'w) option"

primrec set_all :: "'v list \<Rightarrow> u64 list \<Rightarrow> ('v \<Rightarrow> u64) \<Rightarrow> ('v \<Rightarrow> u64)" where
  "set_all [] ys f = f"
| "set_all (x # xs) ys f = set_all xs (tl ys) (f(x := hd ys))"

definition next_pos :: "('v, 'k, 'w) config \<Rightarrow> ('v, 'k, 'w) config" where
  "next_pos c = c\<lparr>c_pos := Suc (c_pos c)\<rparr>"

definition put :: "'v list \<Rightarrow> u64 list \<Rightarrow> ('v, 'k, 'w) config \<Rightarrow> ('v, 'k, 'w) config option" where
  "put rs ys c = (if length rs = length ys then Some (next_pos c\<lparr>c_vals := set_all rs ys (c_vals c)\<rparr>) else None)"

definition goto :: "('v, 'k, 'r) fview \<Rightarrow> 'k \<Rightarrow> 'v list \<Rightarrow> ('v, 'k, 'w) config \<Rightarrow> ('v, 'k, 'w) config option" where
  "goto F k vs c =
     (if length (fv_params F k) = length vs
      then Some (c\<lparr>c_block := k, c_pos := 0, c_vals := set_all (fv_params F k) (map (c_vals c) vs) (c_vals c)\<rparr>)
      else None)"

fun run_item :: "fpu \<Rightarrow> 'w calls \<Rightarrow> ('v, 'k, 'r) fview \<Rightarrow> ('v, 'k, 'r) item \<Rightarrow> ('v, 'k, 'w) config \<Rightarrow> ('v, 'k, 'w) config option" where
  "run_item P X F (Def x v) c = Some (next_pos c\<lparr>c_vars := (c_vars c)(x := c_vals c v)\<rparr>)"
| "run_item P X F (Use x v old) c = put [v] [c_vars c x] c"
| "run_item P X F (Ins (Bin bop a b) rs) c =
     (case run_bin P bop (c_vals c a) (c_vals c b) of None \<Rightarrow> None | Some y \<Rightarrow> put rs [y] c)"
| "run_item P X F (Ins (Bconst t b) rs) c = put rs [of_flag b] c"
| "run_item P X F (Ins (Iconst t i) rs) c = put rs [i] c"
| "run_item P X F (Ins (F64const f) rs) c = put rs [f] c"
| "run_item P X F (Ins (Brz x k vs) rs) c = (if c_vals c x = 0 then goto F k vs c else Some (next_pos c))"
| "run_item P X F (Ins (Jump k vs) rs) c = goto F k vs c"
| "run_item P X F (Ins (Call r vs) rs) c =
     (case fv_callee F r of
        None \<Rightarrow> None
      | Some (name, _) \<Rightarrow>
          (case X name (map (c_vals c) vs) (c_world c) of
             None \<Rightarrow> None
           | Some (ys, w) \<Rightarrow> put rs ys (c\<lparr>c_world := w\<rparr>)))"
| "run_item P X F (Ins (Return vs) rs) c = None"

definition item_at :: "('v, 'k, 'r) fview \<Rightarrow> ('v, 'k, 'w) config \<Rightarrow> ('v, 'k, 'r) item option" where
  "item_at F c = (let its = fv_code F (c_block c) in if c_pos c < length its then Some (its ! c_pos c) else None)"

definition mstep :: "fpu \<Rightarrow> 'w calls \<Rightarrow> ('v, 'k, 'r) fview \<Rightarrow> ('v, 'k, 'w) config \<Rightarrow> ('v, 'k, 'w) config \<Rightarrow> bool" where
  "mstep P X F c c' \<longleftrightarrow> (\<exists>it. item_at F c = Some it \<and> run_item P X F it c = Some c')"

abbreviation msteps :: "fpu \<Rightarrow> 'w calls \<Rightarrow> ('v, 'k, 'r) fview \<Rightarrow> ('v, 'k, 'w) config \<Rightarrow> ('v, 'k, 'w) config \<Rightarrow> bool" where
  "msteps P X F \<equiv> (mstep P X F)\<^sup>*\<^sup>*"

text \<open>A call of the function: its entry block with the arguments in the block's parameters. The
  variables start with any contents.\<close>

definition entry_config :: "('v, 'k, 'r) fview \<Rightarrow> 'k \<Rightarrow> u64 list \<Rightarrow> ('v \<Rightarrow> u64) \<Rightarrow> (nat \<Rightarrow> u64) \<Rightarrow> 'w \<Rightarrow> ('v, 'k, 'w) config" where
  "entry_config F k args vals vars w =
     \<lparr>c_block = k, c_pos = 0, c_vals = set_all (fv_params F k) args vals, c_vars = vars, c_world = w\<rparr>"

text \<open>The function returns \<open>ys\<close> and leaves the world \<open>w'\<close>.\<close>

definition returns_from :: "fpu \<Rightarrow> 'w calls \<Rightarrow> ('v, 'k, 'r) fview \<Rightarrow> ('v, 'k, 'w) config \<Rightarrow> u64 list \<Rightarrow> 'w \<Rightarrow> bool" where
  "returns_from P X F c ys w' \<longleftrightarrow>
     (\<exists>c' vs rs. msteps P X F c c' \<and> item_at F c' = Some (Ins (Return vs) rs)
        \<and> map (c_vals c') vs = ys \<and> c_world c' = w')"

text \<open>Wherever an old value stands for a variable, it holds the variable's contents.\<close>

definition uses_sound :: "('v, 'k, 'r) fview \<Rightarrow> 'k \<Rightarrow> fpu \<Rightarrow> 'w calls \<Rightarrow> bool" where
  "uses_sound F k P X \<longleftrightarrow> (\<forall>args vals vars w c x v.
     length args = length (fv_params F k) \<longrightarrow> msteps P X F (entry_config F k args vals vars w) c \<longrightarrow> item_at F c = Some (Use x v True)
     \<longrightarrow> c_vals c v = c_vars c x)"

subsection \<open>The contract\<close>

text \<open>The documented behaviour of the operations: when one may be called (the builder asserts
  it) and what it does to the view. \<open>syms\<close> are the functions declared in the JIT module, with
  their symbol and signature.\<close>

definition complete :: "('v, 'k, 'r) fview \<Rightarrow> bool" where
  "complete v \<longleftrightarrow> fv_blocks v \<subseteq> fv_sealed v \<and> (\<forall>k \<in> fv_blocks v. ended (fv_code v k))"

locale clif_contract =
  fixes C :: "('b, 'v, 'k, 'r, 'm) clif"
    and view :: "'b \<Rightarrow> ('v, 'k, 'r) fview"
    and blank :: "'b \<Rightarrow> bool"
    and syms :: "'m \<Rightarrow> nat \<rightharpoonup> string \<times> signature"
    and P :: fpu and X :: "'w calls"
  assumes number_0: "block_with_number C 0 \<noteq> None"
    and blank_law: "blank b \<Longrightarrow> signature_of C b = \<lparr>sig_params = [], sig_returns = []\<rparr>
        \<and> (\<exists>b'. builder_new C (set_signature C g b) = Ret b' \<and> view b' = v_empty g)"
    and clear_law: "blank (clear_context C jm b)"
    and create_law: "\<exists>k b'. create_block C b = Ret (k, b') \<and> k \<notin> fv_blocks (view b) \<and> view b' = v_create k (view b)"
    and switch_law: "k \<in> fv_blocks (view b) \<Longrightarrow> \<not> ended (fv_code (view b) k) \<Longrightarrow>
        fv_current (view b) = None \<or> ended (cur_code (view b)) \<Longrightarrow>
        \<exists>b'. switch_to_block C k b = Ret b' \<and> view b' = v_switch k (view b)"
    and seal_law: "k \<in> fv_blocks (view b) \<Longrightarrow> k \<notin> fv_sealed (view b) \<Longrightarrow>
        \<exists>b'. seal_block C k b = Ret b' \<and> view b' = v_seal k (view b)"
    and fun_params_law: "k \<in> fv_blocks (view b) \<Longrightarrow> fv_code (view b) k = [] \<Longrightarrow> fv_params (view b) k = [] \<Longrightarrow>
        \<exists>b' xs. append_block_params_for_function_params C k b = Ret b'
          \<and> view b' = v_param k xs (sig_params (fv_sig (view b))) (view b)
          \<and> length xs = length (sig_params (fv_sig (view b))) \<and> distinct xs \<and> set xs \<inter> dom (fv_types (view b)) = {}"
    and param_law: "k \<in> fv_blocks (view b) \<Longrightarrow> fv_code (view b) k = [] \<Longrightarrow>
        \<exists>x b'. append_block_param C k t b = Ret (x, b') \<and> view b' = v_param k [x] [t] (view b) \<and> fv_types (view b) x = None"
    and params_law: "k \<in> fv_blocks (view b) \<Longrightarrow> fv_code (view b) k = [] \<Longrightarrow>
        block_params C k b = Ret (fv_params (view b) k)"
    and declare_law: "fv_vars (view b) x = None \<Longrightarrow>
        \<exists>b'. declare_var C x t b = Ret b' \<and> view b' = (view b)\<lparr>fv_vars := (fv_vars (view b))(x \<mapsto> t)\<rparr>"
    and def_law: "open_block (view b) \<Longrightarrow> \<not> branched (cur_code (view b)) \<Longrightarrow>
        fv_vars (view b) x = Some t \<Longrightarrow> fv_types (view b) v = Some t \<Longrightarrow>
        \<exists>b'. def_var C x v b = Ret b' \<and> view b' = v_item (Def x v) [] [] (view b)"
    and use_law: "open_block (view b) \<Longrightarrow> \<not> branched (cur_code (view b)) \<Longrightarrow> fv_vars (view b) x = Some t \<Longrightarrow>
        \<exists>v b'. use_var C x b = Ret (v, b') \<and> fv_types (view b) v \<in> {None, Some t}
          \<and> view b' = v_item (Use x v (fv_types (view b) v \<noteq> None)) [v] [t] (view b)"
    and ins_law: "can_ins i (view b) \<Longrightarrow>
        \<exists>rs b'. ins C i b = Ret (rs, b') \<and> view b' = v_item (Ins i rs) rs (result_types (fv_callee (view b)) i) (view b)
          \<and> length rs = length (result_types (fv_callee (view b)) i) \<and> distinct rs \<and> set rs \<inter> dom (fv_types (view b)) = {}"
    and finalize_law: "complete (view b) \<Longrightarrow> fv_entry (view b) = Some k \<Longrightarrow>
        \<exists>b'. finalize C b = Ret b' \<and> view b' = view b \<and> uses_sound (view b') k P X"
    and make_signature_law: "make_signature C jm = \<lparr>sig_params = [], sig_returns = []\<rparr>"
    and declare_function_law: "(\<And>fid g'. syms jm fid = Some (name, g') \<Longrightarrow> g' = g) \<Longrightarrow>
        \<exists>fid jm'. module_declare_function C name l g jm = (Some fid, jm') \<and> syms jm' = (syms jm)(fid \<mapsto> (name, g))
          \<and> syms jm fid \<in> {None, Some (name, g)}"
    and declare_in_func_law: "syms jm fid = Some (name, g) \<Longrightarrow>
        \<exists>r b'. declare_func_in_func C fid jm b = Ret (r, b')
          \<and> view b' = (view b)\<lparr>fv_callee := (fv_callee (view b))(r \<mapsto> (name, g))\<rparr>
          \<and> fv_callee (view b) r \<in> {None, Some (name, g)}"

text \<open>The JIT module: the symbols with a definition, and those that may get one. A symbol has one
  identifier. \<open>known\<close> are the symbols the JIT was created with or finds in the process;
  finalizing resolves every declared symbol to a definition or one of these.\<close>

locale jit_contract = clif_contract C view blank syms P X
  for C :: "('b, 'v, 'k, 'r, 'm) clif"
    and view :: "'b \<Rightarrow> ('v, 'k, 'r) fview"
    and blank :: "'b \<Rightarrow> bool"
    and syms :: "'m \<Rightarrow> nat \<rightharpoonup> string \<times> signature"
    and P :: fpu and X :: "'w calls" +
  fixes exported :: "'m \<Rightarrow> nat set"
    and defs :: "'m \<Rightarrow> nat \<rightharpoonup> ('v, 'k, 'r) fview"
    and known :: "string set"
  assumes names_unique: "syms jm i = Some (name, g) \<Longrightarrow> syms jm j = Some (name, g') \<Longrightarrow> i = j"
    and get_name_law: "syms jm fid = Some (name, g) \<Longrightarrow> get_name C name jm = Some (FuncId fid)"
    and declare_keeps: "module_declare_function C name l g jm = (Some fid, jm') \<Longrightarrow>
        syms jm' = (syms jm)(fid \<mapsto> (name, g)) \<and> syms jm fid \<in> {None, Some (name, g)}
          \<and> defs jm' = defs jm \<and> exported jm' = exported jm \<union> (if l = Export then {fid} else {})"
    and define_law: "syms jm fid = Some (name, fv_sig (view b)) \<Longrightarrow> fid \<in> exported jm \<Longrightarrow> defs jm fid = None \<Longrightarrow> complete (view b) \<Longrightarrow>
        \<exists>b' jm'. define_function C fid b jm = Ret (True, b', jm') \<and> syms jm' = syms jm \<and> exported jm' = exported jm
          \<and> defs jm' = (defs jm)(fid \<mapsto> view b)"
    and definitions_law: "(\<And>fid name g. syms jm fid = Some (name, g) \<Longrightarrow> defs jm fid \<noteq> None \<or> name \<in> known) \<Longrightarrow>
        \<exists>jm'. finalize_definitions C jm = Ret jm' \<and> syms jm' = syms jm \<and> exported jm' = exported jm \<and> defs jm' = defs jm"

end
