(* ===== verification/VmSem.thy ===== *)
theory VmSem
  imports Clif "HOL-Library.Sublist"
begin

section \<open>The meaning of typed expressions\<close>

text \<open>
  A reference evaluator for the typed trees, and the trees the translator can handle. The
  evaluator works on one word per variable and a world that called functions may change; \<open>n\<close>
  bounds the rounds of each loop. Integer division is only given a meaning on non-negative
  operands: the translator emits an unsigned division.
\<close>

definition int_bin :: "tkind \<Rightarrow> u64 \<Rightarrow> u64 \<Rightarrow> u64 option" where
  "int_bin k x y =
     (if k = TK_Plus then Some (word_of_int (sint x + sint y))
      else if k = TK_Minus then Some (word_of_int (sint x - sint y))
      else if k = TK_Star then Some (word_of_int (sint x * sint y))
      else if k = TK_Slash then (if 0 \<le> sint x \<and> 0 < sint y then Some (word_of_int (sint x div sint y)) else None)
      else if k = TK_EqualEqual then Some (of_flag (sint x = sint y))
      else if k = TK_BangEqual then Some (of_flag (sint x \<noteq> sint y))
      else if k = TK_Greater then Some (of_flag (sint x > sint y))
      else if k = TK_GreaterEqual then Some (of_flag (sint x \<ge> sint y))
      else if k = TK_Less then Some (of_flag (sint x < sint y))
      else if k = TK_LessEqual then Some (of_flag (sint x \<le> sint y))
      else None)"

definition float_bin :: "fpu \<Rightarrow> tkind \<Rightarrow> f64 \<Rightarrow> f64 \<Rightarrow> u64 option" where
  "float_bin P k x y =
     (if k = TK_Plus then Some (f_add P x y)
      else if k = TK_Minus then Some (f_sub P x y)
      else if k = TK_Star then Some (f_mul P x y)
      else if k = TK_Slash then Some (f_div P x y)
      else if k = TK_EqualEqual then Some (of_flag (f_cmp P FloatEqual x y))
      else if k = TK_BangEqual then Some (of_flag (f_cmp P FloatNotEqual x y))
      else if k = TK_Greater then Some (of_flag (f_cmp P FloatGreaterThan x y))
      else if k = TK_GreaterEqual then Some (of_flag (f_cmp P FloatGreaterThanOrEqual x y))
      else if k = TK_Less then Some (of_flag (f_cmp P FloatLessThan x y))
      else if k = TK_LessEqual then Some (of_flag (f_cmp P FloatLessThanOrEqual x y))
      else None)"

definition src_bin :: "fpu \<Rightarrow> ty option \<Rightarrow> tkind \<Rightarrow> u64 \<Rightarrow> u64 \<Rightarrow> u64 option" where
  "src_bin P t k x y =
     (if t = Some TI64 then int_bin k x y else if t = Some TF64 then float_bin P k x y else None)"

type_synonym 'w store = "(nat \<Rightarrow> u64) \<times> 'w"
type_synonym 'w sem = "'w store \<Rightarrow> (u64 list \<times> 'w store) option"

primrec loop :: "nat \<Rightarrow> 'w sem \<Rightarrow> 'w sem \<Rightarrow> 'w store \<Rightarrow> 'w store option" where
  "loop 0 cnd body st = None"
| "loop (Suc n) cnd body st =
     (case cnd st of
        Some ([x], st) \<Rightarrow>
          (if x = 0 then Some st
           else case body st of Some (_, st) \<Rightarrow> loop n cnd body st | None \<Rightarrow> None)
      | _ \<Rightarrow> None)"

definition word_ty :: "ty \<Rightarrow> bool" where
  "word_ty t \<longleftrightarrow> snd (translate_scalar t) = 1"

definition scalar_ty :: "ty \<Rightarrow> bool" where
  "scalar_ty t \<longleftrightarrow> (\<forall>r. t \<noteq> TClass r)"

definition ctys :: "ty \<Rightarrow> cty list" where
  "ctys t = map snd (fst (translate_scalar t))"

definition sem_var :: "nat \<Rightarrow> ty \<Rightarrow> 'w sem" where
  "sem_var i t st = Some (if word_ty t then [fst st i] else [], st)"

definition sem_store :: "nat \<Rightarrow> ty \<Rightarrow> u64 list \<Rightarrow> 'w store \<Rightarrow> 'w store" where
  "sem_store i t xs st = (if word_ty t then ((fst st)(i := hd xs), snd st) else st)"

fun sem_const :: "ir_constant \<Rightarrow> u64" where
  "sem_const (CBool b) = of_flag b"
| "sem_const (CInt i) = i"
| "sem_const (CFloat f) = f"
| "sem_const _ = 0"

text \<open>\<open>callee\<close> is the function a call's callee names by its type.\<close>

definition callee_of :: "ir_expr \<Rightarrow> func_ref option" where
  "callee_of e = (case ty_of e of Some (TFunction r) \<Rightarrow> Some r | _ \<Rightarrow> None)"

definition sem_bin :: "fpu \<Rightarrow> ty option \<Rightarrow> tkind \<Rightarrow> 'w sem \<Rightarrow> 'w sem \<Rightarrow> 'w sem" where
  "sem_bin P t k l r st =
     (case l st of
        Some ([x], st) \<Rightarrow>
          (case r st of
             Some ([y], st) \<Rightarrow> map_option (\<lambda>z. ([z], st)) (src_bin P t k x y)
           | _ \<Rightarrow> None)
      | _ \<Rightarrow> None)"

definition sem_if :: "'w sem \<Rightarrow> bool \<Rightarrow> 'w sem \<Rightarrow> 'w sem \<Rightarrow> 'w sem" where
  "sem_if cnd phi thn els st =
     (case cnd st of
        Some ([x], st) \<Rightarrow>
          map_option (\<lambda>(ys, st). (if phi then ys else [], st)) (if x = 0 then els st else thn st)
      | _ \<Rightarrow> None)"

definition sem_call :: "(func_ref \<Rightarrow> u64 list \<Rightarrow> 'w \<Rightarrow> (u64 list \<times> 'w) option) \<Rightarrow> func_ref option \<Rightarrow> 'w sem \<Rightarrow> 'w sem" where
  "sem_call Y r args st =
     (case r of
        None \<Rightarrow> None
      | Some r \<Rightarrow>
          (case args st of
             None \<Rightarrow> None
           | Some (xs, st) \<Rightarrow> map_option (\<lambda>(ys, w). (ys, fst st, w)) (Y r xs (snd st))))"

function (sequential) eval :: "fpu \<Rightarrow> (func_ref \<Rightarrow> u64 list \<Rightarrow> 'w \<Rightarrow> (u64 list \<times> 'w) option) \<Rightarrow> nat \<Rightarrow> ir_expr \<Rightarrow> 'w sem"
  and ieval :: "fpu \<Rightarrow> (func_ref \<Rightarrow> u64 list \<Rightarrow> 'w \<Rightarrow> (u64 list \<times> 'w) option) \<Rightarrow> nat \<Rightarrow> iexpr \<Rightarrow> 'w sem"
  and eval_block :: "fpu \<Rightarrow> (func_ref \<Rightarrow> u64 list \<Rightarrow> 'w \<Rightarrow> (u64 list \<times> 'w) option) \<Rightarrow> nat \<Rightarrow> ir_expr list \<Rightarrow> u64 list \<Rightarrow> 'w sem"
  and eval_args :: "fpu \<Rightarrow> (func_ref \<Rightarrow> u64 list \<Rightarrow> 'w \<Rightarrow> (u64 list \<times> 'w) option) \<Rightarrow> nat \<Rightarrow> ir_expr list \<Rightarrow> u64 list \<Rightarrow> 'w sem" where
  "eval P Y n (IrExpr i c) st = ieval P Y n i st"
| "ieval P Y n (IBinary l op r) st =
     sem_bin P (ty_of l) (kind op) (\<lambda>st. eval P Y n l st) (\<lambda>st. eval P Y n r st) st"
| "ieval P Y n (IConstant k) st = Some ([sem_const k], st)"
| "ieval P Y n (IBlock es) st = eval_block P Y n es [] st"
| "ieval P Y n (IIf cnd t e phi) st =
     sem_if (\<lambda>st. eval P Y n cnd st) phi (\<lambda>st. eval P Y n t st) (\<lambda>st. eval P Y n e st) st"
| "ieval P Y n (IWhile cnd b) st =
     map_option (\<lambda>st. ([0], st)) (loop n (\<lambda>st. eval P Y n cnd st) (\<lambda>st. eval P Y n b st) st)"
| "ieval P Y n (IVariable i t) st = sem_var i t st"
| "ieval P Y n (IAssign tgt v) st =
     (case inner tgt of
        IVariable i t \<Rightarrow> map_option (\<lambda>(xs, st). (xs, sem_store i t xs st)) (eval P Y n v st)
      | _ \<Rightarrow> None)"
| "ieval P Y n (ICall f as) st = sem_call Y (callee_of f) (\<lambda>st. eval_args P Y n as [] st) st"
| "ieval P Y n IPoison st = None"
| "eval_block P Y n [] val st = Some (val, st)"
| "eval_block P Y n (e # es) val st =
     (case eval P Y n e st of None \<Rightarrow> None | Some (v, st) \<Rightarrow> eval_block P Y n es v st)"
| "eval_args P Y n [] acc st = Some (acc, st)"
| "eval_args P Y n (e # es) acc st =
     (case eval P Y n e st of None \<Rightarrow> None | Some (vs, st) \<Rightarrow> eval_args P Y n es (acc @ vs) st)"
  by pat_completeness auto

termination
  by (relation "measure (\<lambda>x. case x of
        Inl (Inl (_, _, _, e, _)) \<Rightarrow> size e | Inl (Inr (_, _, _, i, _)) \<Rightarrow> size i
      | Inr (Inl (_, _, _, es, _)) \<Rightarrow> size_list size es | Inr (Inr (_, _, _, es, _)) \<Rightarrow> size_list size es)") auto

subsection \<open>The trees the translator handles\<close>

text \<open>\<open>vtypes\<close> gives the types of the values an expression translates to, where the translation
  is sound: operands of one machine type, assignments of the variable's type, arms that agree.\<close>

definition fn_sig :: "(nat \<Rightarrow> ir_module) \<Rightarrow> func_ref \<Rightarrow> signature option" where
  "fn_sig M r =
     (case resolve_func M r of
        Ret f \<Rightarrow> (case make_fn_sig M f \<lparr>sig_params = [], sig_returns = []\<rparr> of Some (Ret g) \<Rightarrow> Some g | _ \<Rightarrow> None)
      | Panic _ \<Rightarrow> None)"

record fenv =
  fe_mods :: "nat \<Rightarrow> ir_module"
  fe_tys :: "ty list"
  fe_offs :: "nat list"

definition vt_bin :: "ty option \<Rightarrow> tkind \<Rightarrow> cty list option \<Rightarrow> cty list option \<Rightarrow> cty list option" where
  "vt_bin t k l r =
     (case t of
        None \<Rightarrow> None
      | Some t \<Rightarrow>
          (case binary_op (is_int t) k of
             Ret bop \<Rightarrow> (if l = Some [bin_arg bop] \<and> r = Some [bin_arg bop] then Some [bin_result bop] else None)
           | Panic _ \<Rightarrow> None))"

definition vt_if :: "cty list option \<Rightarrow> bool \<Rightarrow> ty option \<Rightarrow> cty list option \<Rightarrow> cty list option \<Rightarrow> cty list option" where
  "vt_if c phi t a b =
     (if c \<in> {Some [B1], Some [CI64]} \<and> a \<noteq> None \<and> b \<noteq> None \<and> t \<noteq> None then
        (if \<not> phi then Some []
         else if scalar_ty (the t) \<and> a = Some (ctys (the t)) \<and> b = a then a else None)
      else None)"

definition vt_const :: "ir_constant \<Rightarrow> cty list option" where
  "vt_const k = (case k of CBool _ \<Rightarrow> Some [B1] | CInt _ \<Rightarrow> Some [CI64] | CFloat _ \<Rightarrow> Some [CF64]
                 | CFunction _ \<Rightarrow> Some [CI64] | _ \<Rightarrow> None)"

definition vt_var :: "fenv \<Rightarrow> nat \<Rightarrow> ty \<Rightarrow> cty list option" where
  "vt_var E i t = (if i < length (fe_tys E) \<and> fe_tys E ! i = t \<and> scalar_ty t then Some (ctys t) else None)"

definition vt_assign :: "cty list option \<Rightarrow> cty list option \<Rightarrow> cty list option" where
  "vt_assign t a = (if t = Some [] \<or> t = a then (case t of None \<Rightarrow> None | Some _ \<Rightarrow> a) else None)"

definition vt_call :: "signature option \<Rightarrow> cty list option \<Rightarrow> cty list option" where
  "vt_call g as = (case g of None \<Rightarrow> None | Some g \<Rightarrow> if as = Some (sig_params g) then Some (sig_returns g) else None)"

fun vtypes :: "fenv \<Rightarrow> ir_expr \<Rightarrow> cty list option"
  and vitypes :: "fenv \<Rightarrow> iexpr \<Rightarrow> cty list option"
  and vt_block :: "fenv \<Rightarrow> ir_expr list \<Rightarrow> cty list \<Rightarrow> cty list option"
  and vt_args :: "fenv \<Rightarrow> ir_expr list \<Rightarrow> cty list \<Rightarrow> cty list option" where
  "vtypes E (IrExpr i c) = vitypes E i"
| "vitypes E (IBinary l op r) = vt_bin (ty_of l) (kind op) (vtypes E l) (vtypes E r)"
| "vitypes E (IConstant k) = vt_const k"
| "vitypes E (IBlock es) = vt_block E es []"
| "vitypes E (IIf c t e phi) = vt_if (vtypes E c) phi (ty_of t) (vtypes E t) (vtypes E e)"
| "vitypes E (IWhile c b) =
     (if vtypes E c \<in> {Some [B1], Some [CI64]} \<and> vtypes E b \<noteq> None then Some [CI64] else None)"
| "vitypes E (IVariable i t) = vt_var E i t"
| "vitypes E (IAssign tgt v) =
     (case inner tgt of IVariable i t \<Rightarrow> vt_assign (vt_var E i t) (vtypes E v) | _ \<Rightarrow> None)"
| "vitypes E (ICall f as) =
     vt_call (case callee_of f of Some r \<Rightarrow> fn_sig (fe_mods E) r | None \<Rightarrow> None) (vt_args E as [])"
| "vitypes E IPoison = None"
| "vt_block E [] ts = Some ts"
| "vt_block E (e # es) ts = (case vtypes E e of None \<Rightarrow> None | Some ts \<Rightarrow> vt_block E es ts)"
| "vt_args E [] acc = Some acc"
| "vt_args E (e # es) acc = (case vtypes E e of None \<Rightarrow> None | Some ts \<Rightarrow> vt_args E es (acc @ ts))"

lemma uint_sint_nonneg: "0 \<le> sint w \<Longrightarrow> uint w = sint w" for w :: u64
  using sint_less [of w] by (simp add: uint_sint take_bit_int_eq_self)

lemma run_bin_src:
  assumes "src_bin P t k x y = Some z" and "binary_op (is_int (the t)) k = Ret bop"
  shows "run_bin P bop x y = Some z"
proof -
  consider "t = Some TI64" "int_bin k x y = Some z" | "t = Some TF64" "float_bin P k x y = Some z"
    using assms(1) by (auto simp: src_bin_def split: if_splits)
  then show ?thesis
  proof cases
    case 1
    have d: "x div y = word_of_int (sint x div sint y)" and "y \<noteq> 0" if "0 \<le> sint x" "0 < sint y"
    proof -
      have "sint x = uint x" "sint y = uint y" using that uint_sint_nonneg by simp_all
      then show "x div y = word_of_int (sint x div sint y)" by (simp add: word_div_def)
      show "y \<noteq> 0" using that(2) by auto
    qed
    have eq: "sint x = sint y \<longleftrightarrow> x = y" using scast_id [of x] scast_id [of y] by (metis scast_eq)
    from 1 assms(2) d eq show ?thesis
      by (auto simp: int_bin_def binary_op_def is_int_def intcmp_def split: if_splits
          simp flip: wi_homs)
  next
    case 2
    with assms(2) show ?thesis
      by (auto simp: float_bin_def binary_op_def is_int_def floatcmp_def split: if_splits)
  qed
qed

end
