(* ===== verification/VmView.thy ===== *)
theory VmView
  imports VmSem
begin

section \<open>How the view of a function grows\<close>

text \<open>
  \<open>extends v F\<close>: the final function \<open>F\<close> contains the view \<open>v\<close>. \<open>grows v v'\<close>: what translating an
  expression does to the view: it appends to the current block and to new blocks only, and
  leaves every new block but the current one complete. \<open>arm u u' k\<close>: the same for code that
  starts in the empty block \<open>k\<close> and ends with a terminator. \<open>runs v v'\<close> relates configurations at
  the ends of two views by steps of the machine that keep the values of \<open>v\<close>.
\<close>

definition extends :: "('v, 'k, 'r) fview \<Rightarrow> ('v, 'k, 'r) fview \<Rightarrow> bool" where
  "extends v F \<longleftrightarrow> fv_blocks v \<subseteq> fv_blocks F
     \<and> (\<forall>k \<in> fv_blocks v. prefix (fv_code v k) (fv_code F k) \<and> fv_params F k = fv_params v k)
     \<and> fv_callee v \<subseteq>\<^sub>m fv_callee F"

definition kept :: "('v, 'k, 'r) fview \<Rightarrow> ('v, 'k, 'r) fview \<Rightarrow> bool" where
  "kept v v' \<longleftrightarrow> extends v v' \<and> fv_types v \<subseteq>\<^sub>m fv_types v' \<and> fv_vars v' = fv_vars v \<and> fv_sig v' = fv_sig v
     \<and> fv_entry v' = fv_entry v"

text \<open>Every block of \<open>v'\<close> that is not in \<open>B\<close> is sealed and, but for the current one if \<open>c\<close>, ended.\<close>

definition finished :: "'k set \<Rightarrow> 'k set \<Rightarrow> ('v, 'k, 'r) fview \<Rightarrow> bool" where
  "finished B K v' \<longleftrightarrow> (\<forall>k \<in> fv_blocks v' - B. k \<in> fv_sealed v' \<and> (k \<notin> K \<longrightarrow> ended (fv_code v' k)))"

definition untouched :: "'k set \<Rightarrow> ('v, 'k, 'r) fview \<Rightarrow> ('v, 'k, 'r) fview \<Rightarrow> bool" where
  "untouched B v v' \<longleftrightarrow> (\<forall>k \<in> B. fv_code v' k = fv_code v k)"

definition same_seals :: "'k set \<Rightarrow> ('v, 'k, 'r) fview \<Rightarrow> ('v, 'k, 'r) fview \<Rightarrow> bool" where
  "same_seals B v v' \<longleftrightarrow> (\<forall>k \<in> B. k \<in> fv_sealed v' \<longleftrightarrow> k \<in> fv_sealed v)"

definition grows :: "('v, 'k, 'r) fview \<Rightarrow> ('v, 'k, 'r) fview \<Rightarrow> bool" where
  "grows v v' \<longleftrightarrow> kept v v' \<and> untouched (fv_blocks v - {cur v}) v v' \<and> same_seals (fv_blocks v) v v'
     \<and> finished (fv_blocks v) {cur v'} v'
     \<and> (cur v' = cur v \<or> cur v' \<notin> fv_blocks v \<and> ended (fv_code v' (cur v)))"

definition arm :: "('v, 'k, 'r) fview \<Rightarrow> ('v, 'k, 'r) fview \<Rightarrow> 'k \<Rightarrow> bool" where
  "arm u u' k \<longleftrightarrow> kept u u' \<and> untouched (fv_blocks u - {k}) u u' \<and> same_seals (fv_blocks u - {k}) u u'
     \<and> finished (fv_blocks u) {} u' \<and> ended (fv_code u' k) \<and> ended (cur_code u')"

lemma extends_refl [simp]: "extends v v"
  by (simp add: extends_def)

lemma extends_trans: "extends v v1 \<Longrightarrow> extends v1 v2 \<Longrightarrow> extends v v2"
  by (auto simp: extends_def intro: prefix_order.trans map_le_trans) (meson prefix_order.trans subset_iff)+

lemma kept_refl [simp]: "kept v v"
  by (simp add: kept_def)

lemma kept_trans: "kept v v1 \<Longrightarrow> kept v1 v2 \<Longrightarrow> kept v v2"
  by (auto simp: kept_def intro: extends_trans map_le_trans)

lemma kept_ext: "kept v v' \<Longrightarrow> extends v v'"
  by (simp add: kept_def)

lemma kept_blocks: "kept v v' \<Longrightarrow> fv_blocks v \<subseteq> fv_blocks v'"
  by (simp add: kept_def extends_def)

lemma kept_types: "kept v v' \<Longrightarrow> fv_types v x = Some t \<Longrightarrow> fv_types v' x = Some t"
  by (auto simp: kept_def map_le_def dom_def)

lemma kept_dom: "kept v v' \<Longrightarrow> dom (fv_types v) \<subseteq> dom (fv_types v')"
  using kept_types by (fastforce simp: dom_def)

lemma kept_params: "kept v v' \<Longrightarrow> k \<in> fv_blocks v \<Longrightarrow> fv_params v' k = fv_params v k"
  by (simp add: kept_def extends_def)

lemma grows_kept: "grows v v' \<Longrightarrow> kept v v'"
  by (simp add: grows_def)

lemma grows_refl [simp]: "grows v v"
  by (simp add: grows_def untouched_def same_seals_def finished_def)

lemma grows_trans:
  assumes a: "grows v v1" and b: "grows v1 v2" and c: "cur v \<in> fv_blocks v"
  shows "grows v v2"
proof -
  have B: "fv_blocks v \<subseteq> fv_blocks v1" using a kept_blocks grows_kept by blast
  have u1: "fv_code v1 k = fv_code v k" if "k \<in> fv_blocks v" "k \<noteq> cur v" for k
    using a that by (auto simp: grows_def untouched_def)
  have u2: "fv_code v2 k = fv_code v1 k" if "k \<in> fv_blocks v1" "k \<noteq> cur v1" for k
    using b that by (auto simp: grows_def untouched_def)
  have n: "k \<noteq> cur v1" if "k \<in> fv_blocks v" "k \<noteq> cur v" for k
    using a that by (auto simp: grows_def)
  have "kept v v2" using a b kept_trans grows_kept by blast
  moreover have "untouched (fv_blocks v - {cur v}) v v2"
    unfolding untouched_def
  proof
    fix k assume "k \<in> fv_blocks v - {cur v}"
    then have "k \<in> fv_blocks v" "k \<noteq> cur v" by auto
    then show "fv_code v2 k = fv_code v k" using u1 n u2 B by (metis subsetD)
  qed
  moreover have "same_seals (fv_blocks v) v v2"
    using a b B unfolding grows_def same_seals_def by blast
  moreover have "finished (fv_blocks v) {cur v2} v2"
    unfolding finished_def
  proof
    fix k assume k: "k \<in> fv_blocks v2 - fv_blocks v"
    show "k \<in> fv_sealed v2 \<and> (k \<notin> {cur v2} \<longrightarrow> ended (fv_code v2 k))"
    proof (cases "k \<in> fv_blocks v1")
      case True
      with k a b have "k \<in> fv_sealed v2" by (auto simp: grows_def finished_def same_seals_def)
      moreover have "ended (fv_code v2 k)" if "k \<noteq> cur v2"
        using that True k a b u2 [OF True] by (cases "k = cur v1") (auto simp: grows_def finished_def)
      ultimately show ?thesis by simp
    next
      case False
      with k b show ?thesis by (auto simp: grows_def finished_def)
    qed
  qed
  moreover have "cur v2 = cur v \<or> cur v2 \<notin> fv_blocks v \<and> ended (fv_code v2 (cur v))"
  proof (cases "cur v1 = cur v")
    case True
    with b B show ?thesis by (auto simp: grows_def)
  next
    case False
    with a have f: "ended (fv_code v1 (cur v))" "cur v1 \<notin> fv_blocks v" by (auto simp: grows_def)
    have "fv_code v2 (cur v) = fv_code v1 (cur v)" using u2 c B False by auto
    with f b B show ?thesis by (auto simp: grows_def)
  qed
  ultimately show ?thesis by (simp add: grows_def)
qed

subsection \<open>Single operations\<close>

lemma v_item_simps [simp]:
  "fv_blocks (v_item it rs ts v) = fv_blocks v" "fv_sealed (v_item it rs ts v) = fv_sealed v"
  "fv_params (v_item it rs ts v) = fv_params v" "fv_current (v_item it rs ts v) = fv_current v"
  "fv_entry (v_item it rs ts v) = fv_entry v" "fv_sig (v_item it rs ts v) = fv_sig v"
  "fv_vars (v_item it rs ts v) = fv_vars v" "fv_callee (v_item it rs ts v) = fv_callee v"
  "fv_types (v_item it rs ts v) = fv_types v ++ map_of (zip rs ts)"
  "fv_code (v_item it rs ts v) = (fv_code v)(cur v := cur_code v @ [it])"
  by (simp_all add: v_item_def)

lemma v_create_simps [simp]:
  "fv_blocks (v_create k v) = insert k (fv_blocks v)" "fv_sealed (v_create k v) = fv_sealed v"
  "fv_params (v_create k v) = (fv_params v)(k := [])" "fv_current (v_create k v) = fv_current v"
  "fv_entry (v_create k v) = fv_entry v" "fv_sig (v_create k v) = fv_sig v"
  "fv_vars (v_create k v) = fv_vars v" "fv_callee (v_create k v) = fv_callee v"
  "fv_types (v_create k v) = fv_types v" "fv_code (v_create k v) = (fv_code v)(k := [])"
  by (simp_all add: v_create_def)

lemma v_switch_simps [simp]:
  "fv_blocks (v_switch k v) = fv_blocks v" "fv_sealed (v_switch k v) = fv_sealed v"
  "fv_params (v_switch k v) = fv_params v" "fv_current (v_switch k v) = Some k"
  "fv_entry (v_switch k v) = (case fv_entry v of None \<Rightarrow> Some k | Some e \<Rightarrow> Some e)" "fv_sig (v_switch k v) = fv_sig v"
  "fv_vars (v_switch k v) = fv_vars v" "fv_callee (v_switch k v) = fv_callee v"
  "fv_types (v_switch k v) = fv_types v" "fv_code (v_switch k v) = fv_code v"
  by (simp_all add: v_switch_def)

lemma v_seal_simps [simp]:
  "fv_blocks (v_seal k v) = fv_blocks v" "fv_sealed (v_seal k v) = insert k (fv_sealed v)"
  "fv_params (v_seal k v) = fv_params v" "fv_current (v_seal k v) = fv_current v"
  "fv_entry (v_seal k v) = fv_entry v" "fv_sig (v_seal k v) = fv_sig v"
  "fv_vars (v_seal k v) = fv_vars v" "fv_callee (v_seal k v) = fv_callee v"
  "fv_types (v_seal k v) = fv_types v" "fv_code (v_seal k v) = fv_code v"
  by (simp_all add: v_seal_def)

lemma v_param_simps [simp]:
  "fv_blocks (v_param k xs ts v) = fv_blocks v" "fv_sealed (v_param k xs ts v) = fv_sealed v"
  "fv_params (v_param k xs ts v) = (fv_params v)(k := fv_params v k @ xs)" "fv_current (v_param k xs ts v) = fv_current v"
  "fv_entry (v_param k xs ts v) = fv_entry v" "fv_sig (v_param k xs ts v) = fv_sig v"
  "fv_vars (v_param k xs ts v) = fv_vars v" "fv_callee (v_param k xs ts v) = fv_callee v"
  "fv_types (v_param k xs ts v) = fv_types v ++ map_of (zip xs ts)" "fv_code (v_param k xs ts v) = fv_code v"
  by (simp_all add: v_param_def)

lemma ended_simps [simp]:
  "ended (its @ [Ins i rs]) = terminator i" "\<not> ended (its @ [Def x v])" "\<not> ended (its @ [Use x v b])" "\<not> ended []"
  by (auto simp: ended_def)

lemma branched_simps [simp]:
  "branched (its @ [Ins (Brz c k vs) rs])" "\<not> branched (its @ [Def x v])" "\<not> branched (its @ [Use x v b])" "\<not> branched []"
  "branched (its @ [Ins i rs]) \<longleftrightarrow> (\<exists>c k vs. i = Brz c k vs)"
  by (auto simp: branched_def)

text \<open>New values keep the types of the old ones.\<close>

lemma types_kept_fresh: "set rs \<inter> dom m = {} \<Longrightarrow> m \<subseteq>\<^sub>m m ++ map_of (zip rs ts)"
  by (auto simp: map_le_def map_add_def dom_def split: option.splits dest!: map_of_SomeD set_zip_leftD)

lemma types_of_fresh:
  "length rs = length ts \<Longrightarrow> distinct rs \<Longrightarrow> map (m ++ map_of (zip rs ts)) rs = map Some ts"
  by (intro nth_equalityI) (auto simp: map_add_def map_of_zip_nth)

lemma kept_item: "fv_types v \<subseteq>\<^sub>m fv_types v ++ map_of (zip rs ts) \<Longrightarrow> kept v (v_item it rs ts v)"
  by (simp add: kept_def extends_def)

lemma grows_item:
  "fv_types v \<subseteq>\<^sub>m fv_types v ++ map_of (zip rs ts) \<Longrightarrow> grows v (v_item it rs ts v)"
  by (simp add: grows_def kept_item untouched_def same_seals_def finished_def)

lemma kept_create: "k \<notin> fv_blocks v \<Longrightarrow> kept v (v_create k v)"
  by (auto simp: kept_def extends_def)

lemma kept_switch: "fv_entry v \<noteq> None \<Longrightarrow> kept v (v_switch k v)"
  by (auto simp: kept_def extends_def)

lemma kept_seal: "kept v (v_seal k v)"
  by (auto simp: kept_def extends_def)

subsection \<open>Steps\<close>

definition at_end :: "('v, 'k, 'r) fview \<Rightarrow> ('v, 'k, 'w) config \<Rightarrow> bool" where
  "at_end v c \<longleftrightarrow> c_block c = cur v \<and> c_pos c = length (cur_code v)"

definition runs :: "fpu \<Rightarrow> 'w calls \<Rightarrow> ('v, 'k, 'r) fview \<Rightarrow> ('v, 'k, 'r) fview \<Rightarrow> ('v, 'k, 'r) fview \<Rightarrow>
    ('v, 'k, 'w) config \<Rightarrow> ('v, 'k, 'w) config \<Rightarrow> bool" where
  "runs P X F v v' c c' \<longleftrightarrow> msteps P X F c c' \<and> at_end v' c' \<and> (\<forall>x \<in> dom (fv_types v). c_vals c' x = c_vals c x)"

lemma runs_refl: "at_end v c \<Longrightarrow> runs P X F u v c c"
  by (simp add: runs_def)

lemma runs_trans:
  "runs P X F v v1 c c1 \<Longrightarrow> runs P X F v1 v2 c1 c2 \<Longrightarrow> kept v v1 \<Longrightarrow> runs P X F v v2 c c2"
  unfolding runs_def using kept_dom [of v v1] by (metis rtranclp_trans subsetD)

text \<open>The item appended to a view is the one the machine finds there.\<close>

lemma item_at_end:
  assumes "extends (v_item it rs ts v) F" and "cur v \<in> fv_blocks v" and "at_end v c"
  shows "item_at F c = Some it"
proof -
  obtain z where "fv_code F (cur v) = (cur_code v @ [it]) @ z"
    using assms(1,2) unfolding extends_def prefix_def by fastforce
  with assms(3) show ?thesis by (simp add: item_at_def at_end_def)
qed

lemma step_item:
  assumes "extends (v_item it rs ts v) F" and "cur v \<in> fv_blocks v" and "at_end v c"
    and "run_item P X F it c = Some c'" and "c_block c' = c_block c" and "c_pos c' = Suc (c_pos c)"
    and "\<forall>x \<in> dom (fv_types v). c_vals c' x = c_vals c x"
  shows "runs P X F v (v_item it rs ts v) c c'"
proof -
  have "mstep P X F c c'" using item_at_end [OF assms(1-3)] assms(4) by (simp add: mstep_def)
  with assms(3,5-7) show ?thesis by (auto simp: runs_def at_end_def)
qed

lemma set_all_other: "x \<notin> set xs \<Longrightarrow> set_all xs ys f x = f x"
  by (induction xs arbitrary: ys f) auto

lemma map_set_all: "length xs = length ys \<Longrightarrow> distinct xs \<Longrightarrow> map (set_all xs ys f) xs = ys"
  by (induction xs ys arbitrary: f rule: list_induct2) (auto simp: set_all_other)

text \<open>An instruction with results that goes on to the next position.\<close>

lemma step_put:
  assumes e: "extends (v_item it rs ts v) F" "cur v \<in> fv_blocks v" "at_end v c"
    and r: "run_item P X F it c = put rs ys (c\<lparr>c_world := w\<rparr>)"
    and l: "length rs = length ys" "distinct rs" "set rs \<inter> dom (fv_types v) = {}"
  shows "\<exists>c'. runs P X F v (v_item it rs ts v) c c' \<and> c_vars c' = c_vars c \<and> c_world c' = w \<and> map (c_vals c') rs = ys"
proof -
  let ?c = "next_pos (c\<lparr>c_world := w\<rparr>)\<lparr>c_vals := set_all rs ys (c_vals c)\<rparr>"
  have "runs P X F v (v_item it rs ts v) c ?c"
    using step_item [OF e, of P X ?c] r l set_all_other [of _ rs ys "c_vals c"]
    by (auto simp: put_def next_pos_def)
  moreover have "map (c_vals ?c) rs = ys" using map_set_all [OF l(1,2)] by simp
  ultimately show ?thesis by (intro exI [of _ ?c]) (simp add: next_pos_def)
qed

text \<open>A jump to the start of a block.\<close>

lemma step_goto:
  assumes e: "extends (v_item it rs ts v) F" "cur v \<in> fv_blocks v" "at_end v c"
    and r: "run_item P X F it c = goto F k vs c"
    and l: "length (fv_params F k) = length vs" "distinct (fv_params F k)"
  shows "\<exists>c'. msteps P X F c c' \<and> c_block c' = k \<and> c_pos c' = 0 \<and> c_vars c' = c_vars c \<and> c_world c' = c_world c
     \<and> map (c_vals c') (fv_params F k) = map (c_vals c) vs \<and> (\<forall>x. x \<notin> set (fv_params F k) \<longrightarrow> c_vals c' x = c_vals c x)"
proof -
  let ?c = "c\<lparr>c_block := k, c_pos := 0, c_vals := set_all (fv_params F k) (map (c_vals c) vs) (c_vals c)\<rparr>"
  have "mstep P X F c ?c" using item_at_end [OF e] r l(1) by (simp add: mstep_def goto_def)
  moreover have "map (c_vals ?c) (fv_params F k) = map (c_vals c) vs"
    using map_set_all [of "fv_params F k" "map (c_vals c) vs" "c_vals c"] l by simp
  ultimately show ?thesis by (intro exI [of _ ?c]) (auto simp: set_all_other)
qed

end
