(* ===== verification/VmTrans.thy ===== *)
theory VmTrans
  imports VmView
begin

section \<open>The translation computes the meaning of expressions\<close>

text \<open>
  \<open>computes tr ts sem\<close>: from every state of the translator that satisfies its invariant, \<open>tr\<close>
  returns values of the types \<open>ts\<close>, the view grows, the invariant holds again, and in every
  complete function that contains the new view the machine runs from the end of the old view to
  the end of the new one as \<open>sem\<close> says. There is one rule per form of expression, proved from
  the contract of Cranelift.
\<close>

definition slots_hold :: "fenv \<Rightarrow> (nat \<Rightarrow> u64) \<Rightarrow> (nat \<Rightarrow> u64) \<Rightarrow> bool" where
  "slots_hold E \<sigma> vars \<longleftrightarrow> (\<forall>i < length (fe_tys E). word_ty (fe_tys E ! i) \<longrightarrow> \<sigma> i = vars (fe_offs E ! i))"

definition slots_ok :: "fenv \<Rightarrow> bool" where
  "slots_ok E \<longleftrightarrow> length (fe_tys E) \<le> length (fe_offs E)
     \<and> (\<forall>i < length (fe_tys E). word_ty (fe_tys E ! i) \<longrightarrow> fe_offs E ! i < 2 ^ 32
          \<and> (\<forall>j < length (fe_tys E). word_ty (fe_tys E ! j) \<longrightarrow> fe_offs E ! i = fe_offs E ! j \<longrightarrow> i = j))"

definition slots_declared :: "fenv \<Rightarrow> (nat \<rightharpoonup> cty) \<Rightarrow> bool" where
  "slots_declared E vars \<longleftrightarrow>
     (\<forall>i < length (fe_tys E). word_ty (fe_tys E ! i) \<longrightarrow> vars (fe_offs E ! i) = Some (hd (ctys (fe_tys E ! i))))"

definition no_ids :: "(nat \<Rightarrow> ir_module) \<Rightarrow> (nat \<Rightarrow> ir_module)" where
  "no_ids M m = (M m)\<lparr>irm_funcs := map (irf_ir_update (\<lambda>_. None)) (irm_funcs (M m))\<rparr>"

text \<open>Functions of one name have one signature.\<close>

definition names_agree :: "(nat \<Rightarrow> ir_module) \<Rightarrow> bool" where
  "names_agree M \<longleftrightarrow> (\<forall>r r' f f' g g'. resolve_func M r = Ret f \<longrightarrow> resolve_func M r' = Ret f' \<longrightarrow>
     irf_name f = irf_name f' \<longrightarrow> fn_sig M r = Some g \<longrightarrow> fn_sig M r' = Some g' \<longrightarrow> g = g')"

text \<open>The identifiers in the cells of the functions are those of their symbols, and the declared
  symbols have the signatures of the functions.\<close>

definition ids_ok :: "(nat \<Rightarrow> ir_module) \<Rightarrow> (nat \<Rightarrow> ir_module) \<Rightarrow> (nat \<rightharpoonup> string \<times> signature) \<Rightarrow> bool" where
  "ids_ok M0 M D \<longleftrightarrow>
     (\<forall>r f fid. resolve_func M r = Ret f \<longrightarrow> irf_ir f = Some fid \<longrightarrow>
        (\<exists>g. D fid = Some (irf_name f, g) \<and> (\<forall>g'. fn_sig M0 r = Some g' \<longrightarrow> g' = g)))
     \<and> (\<forall>fid name g r f g'. D fid = Some (name, g) \<longrightarrow> resolve_func M0 r = Ret f \<longrightarrow> irf_name f = name \<longrightarrow>
          fn_sig M0 r = Some g' \<longrightarrow> g' = g)"

definition good_view :: "('v, 'k, 'r) fview \<Rightarrow> bool" where
  "good_view v \<longleftrightarrow> open_block v \<and> \<not> branched (cur_code v) \<and> fv_sealed v \<subseteq> fv_blocks v \<and> fv_entry v \<noteq> None"

definition tinv :: "('b \<Rightarrow> ('v, 'k, 'r) fview) \<Rightarrow> ('m \<Rightarrow> nat \<rightharpoonup> string \<times> signature) \<Rightarrow> fenv \<Rightarrow> ('b, 'k, 'm) translator \<Rightarrow> bool" where
  "tinv view syms E s \<longleftrightarrow> good_view (view (tr_cl s))
     \<and> slots_ok E \<and> tr_local_offsets s = fe_offs E \<and> slots_declared E (fv_vars (view (tr_cl s)))
     \<and> names_agree (fe_mods E) \<and> no_ids (tr_mods s) = no_ids (fe_mods E)
     \<and> ids_ok (fe_mods E) (tr_mods s) (syms (tr_ir_module s))"

definition reached :: "fpu \<Rightarrow> 'w calls \<Rightarrow> ('v, 'k, 'r) fview \<Rightarrow> 'k \<Rightarrow> ('v, 'k, 'w) config \<Rightarrow> bool" where
  "reached P X F K c \<longleftrightarrow> (\<exists>args vals vars w. length args = length (fv_params F K)
     \<and> msteps P X F (entry_config F K args vals vars w) c)"

definition simulates :: "fpu \<Rightarrow> 'w calls \<Rightarrow> fenv \<Rightarrow> ('v, 'k, 'r) fview \<Rightarrow> ('v, 'k, 'r) fview \<Rightarrow> 'v list \<Rightarrow> 'w sem \<Rightarrow> bool" where
  "simulates P X E v v' vs sem \<longleftrightarrow> (\<forall>F K c \<sigma> rs \<sigma>' w'.
     extends v' F \<longrightarrow> uses_sound F K P X \<longrightarrow> reached P X F K c \<longrightarrow> at_end v c \<longrightarrow> slots_hold E \<sigma> (c_vars c) \<longrightarrow>
     sem (\<sigma>, c_world c) = Some (rs, \<sigma>', w') \<longrightarrow>
     (\<exists>c'. runs P X F v v' c c' \<and> c_world c' = w' \<and> slots_hold E \<sigma>' (c_vars c') \<and> map (c_vals c') vs = rs))"

definition computes :: "('b \<Rightarrow> ('v, 'k, 'r) fview) \<Rightarrow> ('m \<Rightarrow> nat \<rightharpoonup> string \<times> signature) \<Rightarrow> fpu \<Rightarrow> 'w calls \<Rightarrow> fenv \<Rightarrow>
    ('v, 'b, 'k, 'm) trans \<Rightarrow> cty list \<Rightarrow> (nat \<Rightarrow> 'w sem) \<Rightarrow> bool" where
  "computes view syms P X E tr ts sem \<longleftrightarrow> (\<forall>s. tinv view syms E s \<longrightarrow>
     (\<exists>vs s'. tr s = rret (vs, s') \<and> tinv view syms E s' \<and> grows (view (tr_cl s)) (view (tr_cl s'))
        \<and> map (fv_types (view (tr_cl s'))) vs = map Some ts
        \<and> (\<forall>n. simulates P X E (view (tr_cl s)) (view (tr_cl s')) vs (sem n))))"

subsection \<open>Using the definitions\<close>

lemma computesE:
  assumes "computes view syms P X E tr ts sem" and "tinv view syms E s"
  obtains vs s' where "tr s = rret (vs, s')" and "tinv view syms E s'"
    and "grows (view (tr_cl s)) (view (tr_cl s'))" and "map (fv_types (view (tr_cl s'))) vs = map Some ts"
    and "\<And>n. simulates P X E (view (tr_cl s)) (view (tr_cl s')) vs (sem n)"
  using assms unfolding computes_def by meson

lemma reached_runs: "reached P X F K c \<Longrightarrow> msteps P X F c c' \<Longrightarrow> reached P X F K c'"
  unfolding reached_def by (blast intro: rtranclp_trans)

lemma simulatesE:
  assumes "simulates P X E v v' vs sem" and "extends v' F" and "uses_sound F K P X" and "reached P X F K c"
    and "at_end v c" and "slots_hold E \<sigma> (c_vars c)" and "sem (\<sigma>, c_world c) = Some (rs, \<sigma>', w')"
  obtains c' where "runs P X F v v' c c'" and "c_world c' = w'" and "slots_hold E \<sigma>' (c_vars c')"
    and "map (c_vals c') vs = rs" and "reached P X F K c'"
proof -
  obtain c' where c': "runs P X F v v' c c'" "c_world c' = w'" "slots_hold E \<sigma>' (c_vars c')" "map (c_vals c') vs = rs"
    using assms unfolding simulates_def by meson
  moreover have "reached P X F K c'"
    using reached_runs [OF assms(4)] c'(1) by (simp add: runs_def)
  ultimately show ?thesis using that by blast
qed

lemma runs_end: "runs P X F v v' c c' \<Longrightarrow> at_end v' c'"
  by (simp add: runs_def)

lemma runs_vals: "runs P X F v v' c c' \<Longrightarrow> fv_types v x = Some t \<Longrightarrow> c_vals c' x = c_vals c x"
  by (auto simp: runs_def)

lemma good_view_cur: "good_view v \<Longrightarrow> cur v \<in> fv_blocks v \<and> fv_current v = Some (cur v)"
  by (auto simp: good_view_def open_block_def)

lemma tinv_cur: "tinv view syms E s \<Longrightarrow> cur (view (tr_cl s)) \<in> fv_blocks (view (tr_cl s))"
  unfolding tinv_def using good_view_cur by blast

text \<open>The invariant after an operation on the builder that keeps the declared variables.\<close>

lemma tinv_builder:
  "tinv view syms E s \<Longrightarrow> good_view (view b) \<Longrightarrow> fv_vars (view b) = fv_vars (view (tr_cl s)) \<Longrightarrow>
   tr_cl s' = b \<Longrightarrow> tr_mods s' = tr_mods s \<Longrightarrow> tr_ir_module s' = tr_ir_module s \<Longrightarrow>
   tr_local_offsets s' = tr_local_offsets s \<Longrightarrow> tinv view syms E s'"
  by (simp add: tinv_def)

lemma good_view_item:
  "good_view v \<Longrightarrow> \<not> ended (its @ [it]) \<Longrightarrow> \<not> branched (its @ [it]) \<Longrightarrow> its = cur_code v \<Longrightarrow> good_view (v_item it rs ts v)"
  by (auto simp: good_view_def open_block_def)

lemma simulatesI:
  assumes "\<And>F K c \<sigma> rs \<sigma>' w'. extends v' F \<Longrightarrow> uses_sound F K P X \<Longrightarrow> reached P X F K c \<Longrightarrow> at_end v c \<Longrightarrow>
     slots_hold E \<sigma> (c_vars c) \<Longrightarrow> sem (\<sigma>, c_world c) = Some (rs, \<sigma>', w') \<Longrightarrow>
     \<exists>c'. runs P X F v v' c c' \<and> c_world c' = w' \<and> slots_hold E \<sigma>' (c_vars c') \<and> map (c_vals c') vs = rs"
  shows "simulates P X E v v' vs sem"
  using assms unfolding simulates_def by blast

lemma computesI:
  assumes "\<And>s. tinv view syms E s \<Longrightarrow> \<exists>vs s'. tr s = rret (vs, s') \<and> tinv view syms E s'
        \<and> grows (view (tr_cl s)) (view (tr_cl s')) \<and> map (fv_types (view (tr_cl s'))) vs = map Some ts
        \<and> (\<forall>n. simulates P X E (view (tr_cl s)) (view (tr_cl s')) vs (sem n))"
  shows "computes view syms P X E tr ts sem"
  using assms unfolding computes_def by blast

lemma extends_kept: "kept v v' \<Longrightarrow> extends v' F \<Longrightarrow> extends v F"
  using kept_ext extends_trans by blast

subsection \<open>Composing simulations\<close>

definition sem_skip :: "'w sem" where "sem_skip st = Some ([], st)"

definition sem_seq :: "'w sem \<Rightarrow> 'w sem \<Rightarrow> 'w sem" where
  "sem_seq a b st = (case a st of None \<Rightarrow> None | Some (xs, st) \<Rightarrow> map_option (\<lambda>(ys, st). (xs @ ys, st)) (b st))"

definition sem_apply :: "'w sem \<Rightarrow> (u64 list \<Rightarrow> 'w \<Rightarrow> (u64 list \<times> 'w) option) \<Rightarrow> 'w sem" where
  "sem_apply a f st = (case a st of None \<Rightarrow> None | Some (xs, \<sigma>, w) \<Rightarrow> map_option (\<lambda>(ys, w). (ys, \<sigma>, w)) (f xs w))"

lemma callee_extends: "extends v F \<Longrightarrow> fv_callee v q = Some x \<Longrightarrow> fv_callee F q = Some x"
  unfolding extends_def map_le_def by (metis domI)

lemma simulates_skip: "simulates P X E v v [] sem_skip"
  by (rule simulatesI) (auto simp: sem_skip_def intro: runs_refl)

lemma simulates_weaken:
  "simulates P X E v v' vs sem \<Longrightarrow> (\<And>st r. sem' st = Some r \<Longrightarrow> sem st = Some r) \<Longrightarrow> simulates P X E v v' vs sem'"
  unfolding simulates_def by blast

lemma simulates_drop:
  assumes "simulates P X E v v' vs sem"
    and "\<And>st rs st'. sem' st = Some (rs, st') \<Longrightarrow> rs = [] \<and> (\<exists>rs. sem st = Some (rs, st'))"
  shows "simulates P X E v v' [] sem'"
proof (rule simulatesI)
  fix F K c \<sigma> rs \<sigma>' w'
  assume F: "extends v' F" "uses_sound F K P X" "reached P X F K c" "at_end v c" "slots_hold E \<sigma> (c_vars c)"
    and e: "sem' (\<sigma>, c_world c) = Some (rs, \<sigma>', w')"
  obtain xs where x: "sem (\<sigma>, c_world c) = Some (xs, \<sigma>', w')" "rs = []" using assms(2) [OF e] by blast
  show "\<exists>c'. runs P X F v v' c c' \<and> c_world c' = w' \<and> slots_hold E \<sigma>' (c_vars c') \<and> map (c_vals c') [] = rs"
    by (rule simulatesE [OF assms(1) F x(1)]) (use x(2) in auto)
qed

lemma typed_vals:
  assumes "runs P X F v v' c c'" and "map (fv_types v) vs = map Some ts"
  shows "map (c_vals c') vs = map (c_vals c) vs"
proof (rule map_cong [OF refl])
  fix x assume "x \<in> set vs"
  then have "fv_types v x \<in> set (map Some ts)" using assms(2) by (metis imageI list.set_map)
  then show "c_vals c' x = c_vals c x" using assms(1) by (auto simp: runs_def)
qed

lemma typed_kept:
  assumes "kept v v'" and "map (fv_types v) vs = map Some ts"
  shows "map (fv_types v') vs = map Some ts"
proof -
  have "fv_types v' x = fv_types v x" if "x \<in> set vs" for x
  proof -
    have "fv_types v x \<in> set (map Some ts)" using assms(2) that by (metis imageI list.set_map)
    then show ?thesis using kept_types [OF assms(1)] by auto
  qed
  then show ?thesis using assms(2) by (metis map_cong)
qed

lemma simulates_seq:
  assumes a: "simulates P X E v v1 xs sa" and b: "simulates P X E v1 v2 ys sb"
    and k: "kept v v1" "kept v1 v2" and t: "map (fv_types v1) xs = map Some ts"
  shows "simulates P X E v v2 (xs @ ys) (sem_seq sa sb)"
proof (rule simulatesI)
  fix F K c \<sigma> rs \<sigma>' w'
  assume F: "extends v2 F" "uses_sound F K P X" "reached P X F K c" "at_end v c" "slots_hold E \<sigma> (c_vars c)"
    and e: "sem_seq sa sb (\<sigma>, c_world c) = Some (rs, \<sigma>', w')"
  have F1: "extends v1 F" using extends_kept [OF k(2) F(1)] .
  from e obtain as \<sigma>1 w1 bs where e1: "sa (\<sigma>, c_world c) = Some (as, \<sigma>1, w1)"
      and e2: "sb (\<sigma>1, w1) = Some (bs, \<sigma>', w')" and rs: "rs = as @ bs"
    unfolding sem_seq_def by (auto split: option.splits)
  obtain c1 where c1: "runs P X F v v1 c c1" "c_world c1 = w1" "slots_hold E \<sigma>1 (c_vars c1)" "map (c_vals c1) xs = as"
      "reached P X F K c1"
    using simulatesE [OF a F1 F(2-5) e1] .
  have e2': "sb (\<sigma>1, c_world c1) = Some (bs, \<sigma>', w')" using e2 c1(2) by simp
  obtain c2 where c2: "runs P X F v1 v2 c1 c2" "c_world c2 = w'" "slots_hold E \<sigma>' (c_vars c2)" "map (c_vals c2) ys = bs"
    using simulatesE [OF b F(1,2) c1(5) runs_end [OF c1(1)] c1(3) e2'] .
  have "map (c_vals c2) xs = as" using typed_vals [OF c2(1) t] c1(4) by simp
  then show "\<exists>c'. runs P X F v v2 c c' \<and> c_world c' = w' \<and> slots_hold E \<sigma>' (c_vars c') \<and> map (c_vals c') (xs @ ys) = rs"
    using runs_trans [OF c1(1) c2(1) k(1)] c2(2-4) rs by auto
qed

definition sem_then :: "'w sem \<Rightarrow> (u64 list \<Rightarrow> 'w sem) \<Rightarrow> 'w sem" where
  "sem_then a b st = (case a st of None \<Rightarrow> None | Some (xs, st) \<Rightarrow> b xs st)"

lemma simulates_then:
  assumes a: "simulates P X E v v1 xs sa" and b: "simulates P X E v1 v2 ys sb" and k: "kept v v1" "kept v1 v2"
  shows "simulates P X E v v2 ys (sem_then sa (\<lambda>_. sb))"
proof (rule simulatesI)
  fix F K c \<sigma> rs \<sigma>' w'
  assume F: "extends v2 F" "uses_sound F K P X" "reached P X F K c" "at_end v c" "slots_hold E \<sigma> (c_vars c)"
    and e: "sem_then sa (\<lambda>_. sb) (\<sigma>, c_world c) = Some (rs, \<sigma>', w')"
  from e obtain as \<sigma>1 w1 where e1: "sa (\<sigma>, c_world c) = Some (as, \<sigma>1, w1)" and e2: "sb (\<sigma>1, w1) = Some (rs, \<sigma>', w')"
    unfolding sem_then_def by (auto split: option.splits)
  obtain c1 where c1: "runs P X F v v1 c c1" "c_world c1 = w1" "slots_hold E \<sigma>1 (c_vars c1)" "reached P X F K c1"
    by (rule simulatesE [OF a extends_kept [OF k(2) F(1)] F(2-5) e1]) blast
  have e2': "sb (\<sigma>1, c_world c1) = Some (rs, \<sigma>', w')" using e2 c1(2) by simp
  obtain c2 where "runs P X F v1 v2 c1 c2" "c_world c2 = w'" "slots_hold E \<sigma>' (c_vars c2)" "map (c_vals c2) ys = rs"
    by (rule simulatesE [OF b F(1,2) c1(4) runs_end [OF c1(1)] c1(3) e2']) blast
  then show "\<exists>c'. runs P X F v v2 c c' \<and> c_world c' = w' \<and> slots_hold E \<sigma>' (c_vars c') \<and> map (c_vals c') ys = rs"
    using runs_trans [OF c1(1) _ k(1)] by blast
qed

text \<open>After values have been computed, an instruction that computes from them.\<close>

lemma simulates_ins:
  assumes a: "simulates P X E v v1 vs sem" and k: "kept v v1" "cur v1 \<in> fv_blocks v1"
    and v2: "v2 = v_item (Ins i rs) rs ts v1" "distinct rs" "set rs \<inter> dom (fv_types v1) = {}"
    and i: "\<And>F c ys w. extends v2 F \<Longrightarrow> f (map (c_vals c) vs) (c_world c) = Some (ys, w) \<Longrightarrow>
              length rs = length ys \<and> run_item P X F (Ins i rs) c = put rs ys (c\<lparr>c_world := w\<rparr>)"
  shows "simulates P X E v v2 rs (sem_apply sem f)"
proof (rule simulatesI)
  fix F K c \<sigma> rs' \<sigma>' w'
  assume F: "extends v2 F" "uses_sound F K P X" "reached P X F K c" "at_end v c" "slots_hold E \<sigma> (c_vars c)"
    and e: "sem_apply sem f (\<sigma>, c_world c) = Some (rs', \<sigma>', w')"
  have k2: "kept v1 v2" unfolding v2(1) by (rule kept_item [OF types_kept_fresh [OF v2(3)]])
  have F1: "extends v1 F" using extends_kept [OF k2 F(1)] .
  from e obtain as w1 where e1: "sem (\<sigma>, c_world c) = Some (as, \<sigma>', w1)" and e2: "f as w1 = Some (rs', w')"
    unfolding sem_apply_def by (auto split: option.splits)
  obtain c1 where c1: "runs P X F v v1 c c1" "c_world c1 = w1" "slots_hold E \<sigma>' (c_vars c1)" "map (c_vals c1) vs = as"
    using simulatesE [OF a F1 F(2-5) e1] .
  have r: "length rs = length rs'" "run_item P X F (Ins i rs) c1 = put rs rs' (c1\<lparr>c_world := w'\<rparr>)"
    using i [OF F(1), of c1] e2 c1(2,4) by auto
  obtain c2 where c2: "runs P X F v1 v2 c1 c2" "c_vars c2 = c_vars c1" "c_world c2 = w'" "map (c_vals c2) rs = rs'"
    using step_put [OF F(1) [unfolded v2(1)] k(2) runs_end [OF c1(1)] r(2,1) v2(2,3)] v2(1) by auto
  then show "\<exists>c'. runs P X F v v2 c c' \<and> c_world c' = w' \<and> slots_hold E \<sigma>' (c_vars c') \<and> map (c_vals c') rs = rs'"
    using runs_trans [OF c1(1) c2(1) k(1)] c1(3) by auto
qed

subsection \<open>Variables\<close>

lemma word_ty_cases:
  obtains ct where "word_ty t" and "translate_scalar t = ([(0, ct)], 1)" and "ctys t = [ct]"
  | "\<not> word_ty t" and "translate_scalar t = ([], 0)" and "ctys t = []"
  by (cases t) (auto simp: word_ty_def ctys_def)

lemma translate_scalar_ty: "scalar_ty t \<Longrightarrow> translate_type M t = rret (translate_scalar t)"
  by (cases t) (simp_all add: translate_type_def scalar_ty_def)

lemma variable_small: "i < 2 ^ 32 \<Longrightarrow> variable i = i"
  by (simp add: variable_def)

lemma slot_of:
  assumes "tinv view syms E s" and "i < length (fe_tys E)" and "word_ty (fe_tys E ! i)"
  shows "idx (tr_local_offsets s) i = Ret (fe_offs E ! i)" and "variable (fe_offs E ! i) = fe_offs E ! i"
    and "fv_vars (view (tr_cl s)) (fe_offs E ! i) = Some (hd (ctys (fe_tys E ! i)))"
  using assms by (auto simp: tinv_def slots_ok_def slots_declared_def variable_small)

lemma matches_store:
  assumes "slots_ok E" and "slots_hold E \<sigma> vars" and "i < length (fe_tys E)" and "word_ty (fe_tys E ! i)"
  shows "slots_hold E (\<sigma>(i := x)) (vars(fe_offs E ! i := x))"
  using assms by (auto simp: slots_hold_def slots_ok_def)

lemma step_use:
  assumes e: "extends (v_item (Use x y (fv_types v y \<noteq> None)) [y] [t] v) F" "cur v \<in> fv_blocks v" "at_end v c"
    and r: "reached P X F K c" "uses_sound F K P X"
  shows "\<exists>c'. runs P X F v (v_item (Use x y (fv_types v y \<noteq> None)) [y] [t] v) c c' \<and> c_vars c' = c_vars c
     \<and> c_world c' = c_world c \<and> c_vals c' y = c_vars c x"
proof -
  let ?c = "next_pos c\<lparr>c_vals := (c_vals c)(y := c_vars c x)\<rparr>"
  have i: "item_at F c = Some (Use x y (fv_types v y \<noteq> None))" using item_at_end [OF e] .
  have "c_vals c y = c_vars c x" if "fv_types v y \<noteq> None"
    using r i that unfolding reached_def uses_sound_def by auto
  then have "\<forall>z \<in> dom (fv_types v). c_vals ?c z = c_vals c z" by (auto simp: dom_def)
  then have "runs P X F v (v_item (Use x y (fv_types v y \<noteq> None)) [y] [t] v) c ?c"
    using step_item [OF e, of P X ?c] by (simp add: put_def next_pos_def)
  then show ?thesis by (intro exI [of _ ?c]) (simp add: next_pos_def)
qed

lemma simulates_def_var:
  assumes a: "simulates P X E v v1 (y # ys) sem" and k: "kept v v1" "cur v1 \<in> fv_blocks v1"
    and v2: "v2 = v_item (Def (fe_offs E ! i) y) [] [] v1" "slots_ok E" "i < length (fe_tys E)" "word_ty (fe_tys E ! i)"
    and t: "fv_types v1 y = Some t" "map (fv_types v1) ys = map Some ts"
  shows "simulates P X E v v2 (y # ys) (\<lambda>st. map_option (\<lambda>(xs, st). (xs, sem_store i (fe_tys E ! i) xs st)) (sem st))"
proof (rule simulatesI)
  fix F K c \<sigma> rs \<sigma>' w'
  assume F: "extends v2 F" "uses_sound F K P X" "reached P X F K c" "at_end v c" "slots_hold E \<sigma> (c_vars c)"
    and e: "map_option (\<lambda>(xs, st). (xs, sem_store i (fe_tys E ! i) xs st)) (sem (\<sigma>, c_world c)) = Some (rs, \<sigma>', w')"
  have F1: "extends v1 F" using F(1) extends_kept [OF kept_item [of v1 "[]" "[]"]] v2(1) by simp
  from e obtain \<sigma>1 where e1: "sem (\<sigma>, c_world c) = Some (rs, \<sigma>1, w')" and s: "\<sigma>' = \<sigma>1(i := hd rs)"
    using v2(4) by (auto simp: sem_store_def)
  obtain c1 where c1: "runs P X F v v1 c c1" "c_world c1 = w'" "slots_hold E \<sigma>1 (c_vars c1)" "map (c_vals c1) (y # ys) = rs"
    using simulatesE [OF a F1 F(2-5) e1] .
  let ?c = "next_pos c1\<lparr>c_vars := (c_vars c1)(fe_offs E ! i := c_vals c1 y)\<rparr>"
  have "runs P X F v1 v2 c1 ?c"
    using step_item [OF F(1) [unfolded v2(1)] k(2) runs_end [OF c1(1)], of P X ?c] v2(1) by (simp add: next_pos_def)
  moreover have "slots_hold E \<sigma>' (c_vars ?c)"
    using matches_store [OF v2(2) c1(3) v2(3,4), of "c_vals c1 y"] c1(4) s by auto
  ultimately show "\<exists>c'. runs P X F v v2 c c' \<and> c_world c' = w' \<and> slots_hold E \<sigma>' (c_vars c') \<and> map (c_vals c') (y # ys) = rs"
    using runs_trans [OF c1(1) _ k(1)] c1(2,4) by (intro exI [of _ ?c]) (auto simp: next_pos_def)
qed

subsection \<open>Function identifiers\<close>

text \<open>Calling a function means calling the symbol of its name; it returns as many values as its
  signature says.\<close>

definition calls_of :: "(nat \<Rightarrow> ir_module) \<Rightarrow> 'w calls \<Rightarrow> func_ref \<Rightarrow> u64 list \<Rightarrow> 'w \<Rightarrow> (u64 list \<times> 'w) option" where
  "calls_of M X r = (case resolve_func M r of Ret f \<Rightarrow> X (irf_name f) | Panic _ \<Rightarrow> (\<lambda>_ _. None))"

definition calls_fit :: "(nat \<Rightarrow> ir_module) \<Rightarrow> 'w calls \<Rightarrow> bool" where
  "calls_fit M X \<longleftrightarrow> (\<forall>r f g xs w ys w'. resolve_func M r = Ret f \<longrightarrow> fn_sig M r = Some g \<longrightarrow>
     X (irf_name f) xs w = Some (ys, w') \<longrightarrow> length ys = length (sig_returns g))"

lemma no_ids_classes:
  assumes "no_ids M = no_ids M'"
  shows "irm_classes (M m) = irm_classes (M' m)"
proof -
  have "no_ids M m = no_ids M' m" using assms by simp
  then show ?thesis by (cases "M m", cases "M' m") (simp add: no_ids_def)
qed

lemma no_ids_funcs:
  assumes "no_ids M = no_ids M'"
  shows "map (irf_ir_update (\<lambda>_. None)) (irm_funcs (M m)) = map (irf_ir_update (\<lambda>_. None)) (irm_funcs (M' m))"
proof -
  have "no_ids M m = no_ids M' m" using assms by simp
  then show ?thesis by (cases "M m", cases "M' m") (simp add: no_ids_def)
qed

lemma no_ids_resolve:
  assumes "no_ids M = no_ids M'" and "resolve_func M r = Ret f"
  shows "\<exists>f'. resolve_func M' r = Ret f' \<and> irf_name f' = irf_name f \<and> irf_params f' = irf_params f
     \<and> irf_ret_type f' = irf_ret_type f \<and> irf_body f' = irf_body f \<and> irf_locals f' = irf_locals f \<and> irf_ast f' = irf_ast f"
proof -
  let ?fs = "irm_funcs (M (fr_module r))" and ?fs' = "irm_funcs (M' (fr_module r))" and ?k = "fr_index r"
  note m = no_ids_funcs [OF assms(1), of "fr_module r"]
  have k: "?k < length ?fs" "f = ?fs ! ?k" using assms(2) by (auto simp: resolve_func_def idx_def split: if_splits)
  have l: "length ?fs' = length ?fs" using arg_cong [OF m, of length] by simp
  have "irf_ir_update (\<lambda>_. None) (?fs ! ?k) = irf_ir_update (\<lambda>_. None) (?fs' ! ?k)"
    using arg_cong [OF m, of "\<lambda>xs. xs ! ?k"] k(1) l by simp
  with k l show ?thesis
    by (cases "?fs ! ?k", cases "?fs' ! ?k") (auto simp: resolve_func_def)
qed

lemma resolve_class_cong: "no_ids M = no_ids M' \<Longrightarrow> resolve_class M r = resolve_class M' r"
  unfolding resolve_class_def by (drule no_ids_classes [of M M' "cr_module r"]) simp

lemma rbind_eq_Some:
  "rbind m f = Some y \<longleftrightarrow> (\<exists>p. m = Some (Panic p) \<and> y = Panic p) \<or> (\<exists>x. m = Some (Ret x) \<and> f x = Some y)"
proof (cases m)
  case (Some r)
  then show ?thesis by (cases r) auto
qed simp

lemma translate_members_imp:
  "translate_members M cs = Some y \<Longrightarrow> (\<forall>r. resolve_class M r = resolve_class M' r) \<longrightarrow> translate_members M' cs = Some y"
proof (rule translate_members.raw_induct [where P = "\<lambda>M cs y. (\<forall>r. resolve_class M r = resolve_class M' r) \<longrightarrow> translate_members M' cs = Some y"])
  fix f M cs y
  assume h: "\<And>M cs y. f M cs = Some y \<Longrightarrow> (\<forall>r. resolve_class M r = resolve_class M' r) \<longrightarrow> translate_members M' cs = Some y"
    and b: "(case cs of [] \<Rightarrow> rret ([], 0)
      | c # rest \<Rightarrow>
          (case c of
             CCMember v \<Rightarrow>
               rbind (case vs_ty v of
                        TClass r \<Rightarrow> rbind (Some (resolve_class M r)) (\<lambda>k. f M (map snd (irc_content k)))
                      | t \<Rightarrow> rret (translate_scalar t)) (\<lambda>(xs, m).
               rbind (f M rest) (\<lambda>(ys, n). rret (xs @ ys, m + n)))
           | _ \<Rightarrow> rret ([], 0))) = Some y"
  show "(\<forall>r. resolve_class M r = resolve_class M' r) \<longrightarrow> translate_members M' cs = Some y"
  proof
    assume n: "\<forall>r. resolve_class M r = resolve_class M' r"
    have ih: "translate_members M' ds = Some z" if "f M ds = Some z" for ds z
      using h [OF that] n by blast
    show "translate_members M' cs = Some y"
    proof (cases cs)
      case Nil
      with b show ?thesis by (subst translate_members.simps) simp
    next
      case (Cons c rest)
      with b ih n show ?thesis
        by (subst translate_members.simps)
          (auto simp: rbind_eq_Some split: class_content.splits ty.splits)
    qed
  qed
qed

text \<open>The translation of types depends on the classes only.\<close>

lemma translate_type_classes:
  assumes "\<And>r. resolve_class M r = resolve_class M' r"
  shows "translate_type M t = translate_type M' t"
proof -
  have "translate_members M cs = translate_members M' cs" for cs
    using translate_members_imp [of M cs _ M'] translate_members_imp [of M' cs _ M] assms
    by (cases "translate_members M cs"; cases "translate_members M' cs") auto
  then show ?thesis using assms by (simp add: translate_type_def split: ty.splits)
qed

lemma make_fn_sig_classes:
  assumes "\<And>r. resolve_class M r = resolve_class M' r" and "irf_params f' = irf_params f" and "irf_ret_type f' = irf_ret_type f"
  shows "make_fn_sig M f g = make_fn_sig M' f' g"
proof -
  note t = translate_type_classes [of M M', OF assms(1)]
  have "push_params M ps g = push_params M' ps g" for ps by (induction ps arbitrary: g) (simp_all add: t)
  then show ?thesis by (simp add: make_fn_sig_def assms(2,3) t)
qed

lemma make_fn_sig_cong:
  assumes "no_ids M = no_ids M'" and "irf_params f' = irf_params f" and "irf_ret_type f' = irf_ret_type f"
  shows "make_fn_sig M f g = make_fn_sig M' f' g"
  using resolve_class_cong [OF assms(1)] assms(2,3) by (rule make_fn_sig_classes)

lemma set_ir_resolve:
  assumes "resolve_func M r = Ret f"
  shows "resolve_func (set_ir r fid M) r' = (if r' = r then Ret (f\<lparr>irf_ir := Some fid\<rparr>) else resolve_func M r')"
    and "no_ids (set_ir r fid M) = no_ids M"
proof -
  let ?fs = "irm_funcs (M (fr_module r))"
  have k: "fr_index r < length ?fs" "f = ?fs ! fr_index r"
    using assms by (auto simp: resolve_func_def idx_def split: if_splits)
  then show "resolve_func (set_ir r fid M) r' = (if r' = r then Ret (f\<lparr>irf_ir := Some fid\<rparr>) else resolve_func M r')"
    by (cases r; cases r') (auto simp: resolve_func_def set_ir_def Let_def idx_def nth_list_update)
  have "map (irf_ir_update (\<lambda>_. None)) (?fs[fr_index r := (?fs ! fr_index r)\<lparr>irf_ir := Some fid\<rparr>])
      = map (irf_ir_update (\<lambda>_. None)) ?fs"
    using k(1) by (intro nth_equalityI) (auto simp: nth_list_update)
  then show "no_ids (set_ir r fid M) = no_ids M"
    by (auto simp: no_ids_def set_ir_def Let_def fun_eq_iff)
qed

lemma fn_sig_resolve: "fn_sig M r = Some g \<Longrightarrow> \<exists>f. resolve_func M r = Ret f
    \<and> make_fn_sig M f \<lparr>sig_params = [], sig_returns = []\<rparr> = rret g"
  by (auto simp: fn_sig_def rret_def split: outcome.splits option.splits)

lemma ids_ok_declare:
  assumes "ids_ok M0 M D" and "names_agree M0" and "no_ids M = no_ids M0"
    and "resolve_func M r = Ret f" and "fn_sig M0 r = Some g" and "D fid \<in> {None, Some (irf_name f, g)}"
  shows "ids_ok M0 (set_ir r fid M) (D(fid \<mapsto> (irf_name f, g)))"
proof -
  obtain f0 where f0: "resolve_func M0 r = Ret f0" "irf_name f0 = irf_name f" using no_ids_resolve [OF assms(3,4)] by blast
  show ?thesis
    unfolding ids_ok_def
  proof (intro conjI allI impI)
    fix r' f' fid'
    assume r': "resolve_func (set_ir r fid M) r' = Ret f'" "irf_ir f' = Some fid'"
    show "\<exists>g'. (D(fid \<mapsto> (irf_name f, g))) fid' = Some (irf_name f', g') \<and> (\<forall>g''. fn_sig M0 r' = Some g'' \<longrightarrow> g'' = g')"
    proof (cases "r' = r")
      case True
      with r' set_ir_resolve(1) [OF assms(4)] assms(5) show ?thesis by auto
    next
      case False
      then have "resolve_func M r' = Ret f'" using r'(1) set_ir_resolve(1) [OF assms(4), of fid r'] by simp
      then obtain g' where "D fid' = Some (irf_name f', g')" "\<forall>g''. fn_sig M0 r' = Some g'' \<longrightarrow> g'' = g'"
        using assms(1) r'(2) unfolding ids_ok_def by blast
      with assms(6) show ?thesis by auto
    qed
  next
    fix fid' name g1 r' f' g'
    assume h: "(D(fid \<mapsto> (irf_name f, g))) fid' = Some (name, g1)" "resolve_func M0 r' = Ret f'" "irf_name f' = name" "fn_sig M0 r' = Some g'"
    show "g' = g1"
    proof (cases "fid' = fid")
      case True
      with h have "irf_name f' = irf_name f0" "g1 = g" using f0(2) by auto
      then show ?thesis using assms(2) h(2,4) f0(1) assms(5) unfolding names_agree_def by metis
    next
      case False
      with h assms(1) show ?thesis unfolding ids_ok_def by auto
    qed
  qed
qed

subsection \<open>The rules\<close>

context clif_contract
begin

text \<open>An instruction with one result, in the middle of a block.\<close>

lemma emit_value_ok:
  assumes "tinv view syms E s" and "well_typed (view (tr_cl s)) i" and "targets i = {}"
    and "\<not> terminator i" and "\<forall>c k vs. i \<noteq> Brz c k vs" and "\<And>G. result_types G i = [t]"
  obtains v s' where "emit_value C i s = rret (v, s')" and "tinv view syms E s'" and "grows (view (tr_cl s)) (view (tr_cl s'))"
    and "view (tr_cl s') = v_item (Ins i [v]) [v] [t] (view (tr_cl s))" and "fv_types (view (tr_cl s)) v = None"
proof -
  have g: "good_view (view (tr_cl s))" using assms(1) by (simp add: tinv_def)
  then have "can_ins i (view (tr_cl s))" using assms(2,3) by (simp add: can_ins_def good_view_def)
  then obtain rs b where b: "ins C i (tr_cl s) = Ret (rs, b)" "view b = v_item (Ins i rs) rs [t] (view (tr_cl s))"
      "length rs = 1" "distinct rs" "set rs \<inter> dom (fv_types (view (tr_cl s))) = {}"
    using ins_law [of i "tr_cl s"] assms(6) by auto
  then obtain v where v: "rs = [v]" by (cases rs) auto
  let ?s = "s\<lparr>tr_cl := b\<rparr>"
  have "good_view (view b)" unfolding b(2) using g assms(4,5) by (intro good_view_item) auto
  then have "tinv view syms E ?s" using tinv_builder [OF assms(1), of b ?s] b(2) by simp
  moreover have "grows (view (tr_cl s)) (view b)" unfolding b(2) using types_kept_fresh [OF b(5)] by (intro grows_item)
  ultimately show ?thesis
    using b v that [of v ?s] by (auto simp: emit_value_def on_cl_def rret_def)
qed

lemma const_rule:
  assumes "vt_const k = Some ts"
  shows "computes view syms P X E (\<lambda>s. rbind (trans_constant C k s) (\<lambda>(v, s). rret ([v], s))) ts
           (\<lambda>n st. Some ([sem_const k], st))"
proof (rule computesI)
  fix s assume s: "tinv view syms E s"
  define i :: "('v, 'k, 'r) inst" where
    "i = (case k of CBool b \<Rightarrow> Bconst B1 b | CInt n \<Rightarrow> Iconst CI64 n | CFloat f \<Rightarrow> F64const f | _ \<Rightarrow> Iconst CI64 0)"
  have tr: "trans_constant C k s = emit_value C i s" and
    t: "targets i = {}" "\<not> terminator i" "\<forall>c k vs. i \<noteq> Brz c k vs" "\<And>G. result_types G i = [hd ts]" "ts = [hd ts]"
      "well_typed (view (tr_cl s)) i" and
    r: "\<And>F rs c. run_item P X F (Ins i rs) c = put rs [sem_const k] c"
    using assms by (auto simp: i_def vt_const_def trans_constant_def split: ir_constant.splits)
  obtain v s' where v: "emit_value C i s = rret (v, s')" "tinv view syms E s'" "grows (view (tr_cl s)) (view (tr_cl s'))"
      "view (tr_cl s') = v_item (Ins i [v]) [v] [hd ts] (view (tr_cl s))" "fv_types (view (tr_cl s)) v = None"
    by (rule emit_value_ok [OF s t(6) t(1-4)])
  have "simulates P X E (view (tr_cl s)) (view (tr_cl s')) [v] (sem_apply sem_skip (\<lambda>_ w. Some ([sem_const k], w)))"
    by (rule simulates_ins [OF simulates_skip kept_refl tinv_cur [OF s] v(4)]) (use v(5) r in auto)
  then have "simulates P X E (view (tr_cl s)) (view (tr_cl s')) [v] (\<lambda>st. Some ([sem_const k], st))"
    by (rule simulates_weaken) (auto simp: sem_apply_def sem_skip_def)
  moreover have "map (fv_types (view (tr_cl s'))) [v] = map Some ts" using v(4) t(5) by (cases ts) auto
  ultimately show "\<exists>vs s'. rbind (trans_constant C k s) (\<lambda>(v, s). rret ([v], s)) = rret (vs, s') \<and> tinv view syms E s'
      \<and> grows (view (tr_cl s)) (view (tr_cl s')) \<and> map (fv_types (view (tr_cl s'))) vs = map Some ts
      \<and> (\<forall>n. simulates P X E (view (tr_cl s)) (view (tr_cl s')) vs (\<lambda>st. Some ([sem_const k], st)))"
    using tr v(1-3) by auto
qed

lemma binary_rule:
  assumes l: "computes view syms P X E trl [bin_arg bop] sl" and r: "computes view syms P X E trr [bin_arg bop] sr"
    and t: "ltyp = Ret t" "binary_op (is_int t) k = Ret bop"
  shows "computes view syms P X E (\<lambda>s. rbind (trans_binary C trl ltyp k trr s) (\<lambda>(v, s). rret ([v], s))) [bin_result bop]
           (\<lambda>n. sem_bin P (Some t) k (sl n) (sr n))"
proof (rule computesI)
  fix s assume s: "tinv view syms E s"
  obtain xs s1 where s1: "trl s = rret (xs, s1)" "tinv view syms E s1" "grows (view (tr_cl s)) (view (tr_cl s1))"
      "map (fv_types (view (tr_cl s1))) xs = map Some [bin_arg bop]"
      "\<And>n. simulates P X E (view (tr_cl s)) (view (tr_cl s1)) xs (sl n)"
    by (rule computesE [OF l s]) blast
  obtain ys s2 where s2: "trr s1 = rret (ys, s2)" "tinv view syms E s2" "grows (view (tr_cl s1)) (view (tr_cl s2))"
      "map (fv_types (view (tr_cl s2))) ys = map Some [bin_arg bop]"
      "\<And>n. simulates P X E (view (tr_cl s1)) (view (tr_cl s2)) ys (sr n)"
    by (rule computesE [OF r s1(2)]) blast
  note k = grows_kept [OF s1(3)] grows_kept [OF s2(3)]
  have g2: "grows (view (tr_cl s)) (view (tr_cl s2))" using grows_trans [OF s1(3) s2(3) tinv_cur [OF s]] .
  obtain x where x: "xs = [x]" using s1(4) by auto
  obtain y where y: "ys = [y]" "fv_types (view (tr_cl s2)) y = Some (bin_arg bop)" using s2(4) by auto
  have "fv_types (view (tr_cl s2)) x = Some (bin_arg bop)" using typed_kept [OF k(2) s1(4)] x by simp
  then obtain z s3 where z: "emit_value C (Bin bop x y) s2 = rret (z, s3)" "tinv view syms E s3"
      "grows (view (tr_cl s2)) (view (tr_cl s3))"
      "view (tr_cl s3) = v_item (Ins (Bin bop x y) [z]) [z] [bin_result bop] (view (tr_cl s2))"
      "fv_types (view (tr_cl s2)) z = None"
    using emit_value_ok [OF s2(2), of "Bin bop x y" "bin_result bop"] y(2) by auto
  have "simulates P X E (view (tr_cl s)) (view (tr_cl s3)) [z] (sem_bin P (Some t) k (sl n) (sr n))" for n
  proof -
    have "simulates P X E (view (tr_cl s)) (view (tr_cl s2)) (xs @ ys) (sem_seq (sl n) (sr n))"
      by (rule simulates_seq [OF s1(5) s2(5) k s1(4)])
    then have "simulates P X E (view (tr_cl s)) (view (tr_cl s3)) [z]
        (sem_apply (sem_seq (sl n) (sr n)) (\<lambda>as w. map_option (\<lambda>q. ([q], w)) (src_bin P (Some t) k (as ! 0) (as ! 1))))"
      by (rule simulates_ins [OF _ grows_kept [OF g2] tinv_cur [OF s2(2)] z(4)])
        (use z(5) x y(1) t(2) run_bin_src in fastforce)+
    then show ?thesis
      by (rule simulates_weaken) (auto simp: sem_bin_def sem_seq_def sem_apply_def split: option.splits list.splits)
  qed
  moreover have "map (fv_types (view (tr_cl s3))) [z] = map Some [bin_result bop]" using z(4) by simp
  moreover have "rbind (trans_binary C trl ltyp k trr s) (\<lambda>(v, s). rret ([v], s)) = rret ([z], s3)"
    using s1(1) s2(1) x y(1) z(1) t by (simp add: trans_binary_def)
  ultimately show "\<exists>vs s'. rbind (trans_binary C trl ltyp k trr s) (\<lambda>(v, s). rret ([v], s)) = rret (vs, s') \<and> tinv view syms E s'
      \<and> grows (view (tr_cl s)) (view (tr_cl s')) \<and> map (fv_types (view (tr_cl s'))) vs = map Some [bin_result bop]
      \<and> (\<forall>n. simulates P X E (view (tr_cl s)) (view (tr_cl s')) vs (sem_bin P (Some t) k (sl n) (sr n)))"
    using z(2) grows_trans [OF g2 z(3) tinv_cur [OF s]] by blast
qed

text \<open>The lists of expressions, after a prefix \<open>a\<close> that has computed the values so far.\<close>

lemma block_aux:
  assumes "\<And>e ts. e \<in> set es \<Longrightarrow> vtypes E e = Some ts \<Longrightarrow> computes view syms P X E (trans_expr C e) ts (\<lambda>n. eval P Y n e)"
    and "tinv view syms E s" and "vt_block E es ts0 = Some ts" and "map (fv_types (view (tr_cl s))) vs0 = map Some ts0"
    and "grows u (view (tr_cl s))" and "cur u \<in> fv_blocks u" and "\<And>n. simulates P X E u (view (tr_cl s)) vs0 (a n)"
  shows "\<exists>vs s'. trans_block C es vs0 s = rret (vs, s') \<and> tinv view syms E s' \<and> grows u (view (tr_cl s'))
     \<and> map (fv_types (view (tr_cl s'))) vs = map Some ts
     \<and> (\<forall>n. simulates P X E u (view (tr_cl s')) vs (sem_then (a n) (eval_block P Y n es)))"
  using assms
proof (induction es arbitrary: s ts0 vs0 a)
  case Nil
  have "\<forall>n. simulates P X E u (view (tr_cl s)) vs0 (sem_then (a n) (eval_block P Y n []))"
    by (intro allI, rule simulates_weaken [OF Nil(7)]) (auto simp: sem_then_def split: option.splits)
  moreover have "trans_block C [] vs0 s = rret (vs0, s)" "ts0 = ts" using Nil(3) by simp_all
  ultimately show ?case using Nil(2,4,5) by blast
next
  case (Cons e es)
  obtain ts1 where t1: "vtypes E e = Some ts1" "vt_block E es ts1 = Some ts" using Cons(4) by (auto split: option.splits)
  obtain vs1 s1 where s1: "trans_expr C e s = rret (vs1, s1)" "tinv view syms E s1" "grows (view (tr_cl s)) (view (tr_cl s1))"
      "map (fv_types (view (tr_cl s1))) vs1 = map Some ts1"
      "\<And>n. simulates P X E (view (tr_cl s)) (view (tr_cl s1)) vs1 (eval P Y n e)"
    by (rule computesE [OF Cons(2) [OF _ t1(1)] Cons(3)]) auto
  have g: "grows u (view (tr_cl s1))" using grows_trans [OF Cons(6) s1(3) Cons(7)] .
  have "simulates P X E u (view (tr_cl s1)) vs1 (sem_then (a n) (\<lambda>_. eval P Y n e))" for n
    using simulates_then [OF Cons(8) s1(5)] grows_kept Cons(6) s1(3) by blast
  then obtain vs s' where r: "trans_block C es vs1 s1 = rret (vs, s')" "tinv view syms E s'" "grows u (view (tr_cl s'))"
     "map (fv_types (view (tr_cl s'))) vs = map Some ts"
     "\<And>n. simulates P X E u (view (tr_cl s')) vs (sem_then (sem_then (a n) (\<lambda>_. eval P Y n e)) (eval_block P Y n es))"
    using Cons(1) [OF Cons(2) s1(2) t1(2) s1(4) g Cons(7), of "\<lambda>n. sem_then (a n) (\<lambda>_. eval P Y n e)"] by auto
  have "simulates P X E u (view (tr_cl s')) vs (sem_then (a n) (eval_block P Y n (e # es)))" for n
    by (rule simulates_weaken [OF r(5)]) (auto simp: sem_then_def split: option.splits)
  moreover have "trans_block C (e # es) vs0 s = rret (vs, s')" using r(1) s1(1) by simp
  ultimately show ?case using r(2-4) by blast
qed

lemma args_aux:
  assumes "\<And>e ts. e \<in> set es \<Longrightarrow> vtypes E e = Some ts \<Longrightarrow> computes view syms P X E (trans_expr C e) ts (\<lambda>n. eval P Y n e)"
    and "tinv view syms E s" and "vt_args E es ts0 = Some ts" and "map (fv_types (view (tr_cl s))) vs0 = map Some ts0"
    and "grows u (view (tr_cl s))" and "cur u \<in> fv_blocks u" and "\<And>n. simulates P X E u (view (tr_cl s)) vs0 (a n)"
  shows "\<exists>vs s'. trans_args C es vs0 s = rret (vs, s') \<and> tinv view syms E s' \<and> grows u (view (tr_cl s'))
     \<and> map (fv_types (view (tr_cl s'))) vs = map Some ts
     \<and> (\<forall>n. simulates P X E u (view (tr_cl s')) vs (sem_then (a n) (eval_args P Y n es)))"
  using assms
proof (induction es arbitrary: s ts0 vs0 a)
  case Nil
  have "\<forall>n. simulates P X E u (view (tr_cl s)) vs0 (sem_then (a n) (eval_args P Y n []))"
    by (intro allI, rule simulates_weaken [OF Nil(7)]) (auto simp: sem_then_def split: option.splits)
  moreover have "trans_args C [] vs0 s = rret (vs0, s)" "ts0 = ts" using Nil(3) by simp_all
  ultimately show ?case using Nil(2,4,5) by blast
next
  case (Cons e es)
  obtain ts1 where t1: "vtypes E e = Some ts1" "vt_args E es (ts0 @ ts1) = Some ts" using Cons(4) by (auto split: option.splits)
  obtain vs1 s1 where s1: "trans_expr C e s = rret (vs1, s1)" "tinv view syms E s1" "grows (view (tr_cl s)) (view (tr_cl s1))"
      "map (fv_types (view (tr_cl s1))) vs1 = map Some ts1"
      "\<And>n. simulates P X E (view (tr_cl s)) (view (tr_cl s1)) vs1 (eval P Y n e)"
    by (rule computesE [OF Cons(2) [OF _ t1(1)] Cons(3)]) auto
  have g: "grows u (view (tr_cl s1))" using grows_trans [OF Cons(6) s1(3) Cons(7)] .
  have t: "map (fv_types (view (tr_cl s1))) (vs0 @ vs1) = map Some (ts0 @ ts1)"
    using typed_kept [OF grows_kept [OF s1(3)] Cons(5)] s1(4) by simp
  have "simulates P X E u (view (tr_cl s1)) (vs0 @ vs1) (sem_seq (a n) (eval P Y n e))" for n
    using simulates_seq [OF Cons(8) s1(5) _ _ Cons(5)] grows_kept Cons(6) s1(3) by blast
  then obtain vs s' where r: "trans_args C es (vs0 @ vs1) s1 = rret (vs, s')" "tinv view syms E s'" "grows u (view (tr_cl s'))"
     "map (fv_types (view (tr_cl s'))) vs = map Some ts"
     "\<And>n. simulates P X E u (view (tr_cl s')) vs (sem_then (sem_seq (a n) (eval P Y n e)) (eval_args P Y n es))"
    using Cons(1) [OF Cons(2) s1(2) t1(2) t g Cons(7), of "\<lambda>n. sem_seq (a n) (eval P Y n e)"] by auto
  have "simulates P X E u (view (tr_cl s')) vs (sem_then (a n) (eval_args P Y n (e # es)))" for n
    by (rule simulates_weaken [OF r(5)]) (auto simp: sem_then_def sem_seq_def split: option.splits)
  moreover have "trans_args C (e # es) vs0 s = rret (vs, s')" using r(1) s1(1) by simp
  ultimately show ?case using r(2-4) by blast
qed

lemma block_rule:
  assumes "\<And>e ts. e \<in> set es \<Longrightarrow> vtypes E e = Some ts \<Longrightarrow> computes view syms P X E (trans_expr C e) ts (\<lambda>n. eval P Y n e)"
    and "vt_block E es [] = Some ts"
  shows "computes view syms P X E (trans_block C es []) ts (\<lambda>n. eval_block P Y n es [])"
proof (rule computesI)
  fix s assume s: "tinv view syms E s"
  obtain vs s' where r: "trans_block C es [] s = rret (vs, s')" "tinv view syms E s'" "grows (view (tr_cl s)) (view (tr_cl s'))"
     "map (fv_types (view (tr_cl s'))) vs = map Some ts"
     "\<And>n. simulates P X E (view (tr_cl s)) (view (tr_cl s')) vs (sem_then sem_skip (eval_block P Y n es))"
    using block_aux [OF assms(1) s assms(2) _ grows_refl tinv_cur [OF s] simulates_skip] by auto
  have "simulates P X E (view (tr_cl s)) (view (tr_cl s')) vs (eval_block P Y n es [])" for n
    by (rule simulates_weaken [OF r(5)]) (auto simp: sem_then_def sem_skip_def)
  with r show "\<exists>vs s'. trans_block C es [] s = rret (vs, s') \<and> tinv view syms E s' \<and> grows (view (tr_cl s)) (view (tr_cl s'))
      \<and> map (fv_types (view (tr_cl s'))) vs = map Some ts
      \<and> (\<forall>n. simulates P X E (view (tr_cl s)) (view (tr_cl s')) vs (eval_block P Y n es []))" by blast
qed

lemma var_rule:
  assumes "vt_var E i t = Some ts"
  shows "computes view syms P X E (variable_expr C i t) ts (\<lambda>n. sem_var i t)"
proof (rule computesI)
  fix s assume s: "tinv view syms E s"
  have i: "i < length (fe_tys E)" "fe_tys E ! i = t" "scalar_ty t" "ts = ctys t" using assms by (auto simp: vt_var_def split: if_splits)
  have len: "i < length (tr_local_offsets s)" using s i(1) by (auto simp: tinv_def slots_ok_def)
  show "\<exists>vs s'. variable_expr C i t s = rret (vs, s') \<and> tinv view syms E s' \<and> grows (view (tr_cl s)) (view (tr_cl s'))
      \<and> map (fv_types (view (tr_cl s'))) vs = map Some ts
      \<and> (\<forall>n. simulates P X E (view (tr_cl s)) (view (tr_cl s')) vs (sem_var i t))"
  proof (cases t rule: word_ty_cases)
    case (1 ct)
    have slot: "idx (tr_local_offsets s) i = Ret (fe_offs E ! i)" "variable (fe_offs E ! i) = fe_offs E ! i"
        "fv_vars (view (tr_cl s)) (fe_offs E ! i) = Some ct"
      using slot_of [OF s i(1)] i(2) 1 by auto
    have g: "good_view (view (tr_cl s))" using s by (simp add: tinv_def)
    then obtain v b where v: "use_var C (fe_offs E ! i) (tr_cl s) = Ret (v, b)" "fv_types (view (tr_cl s)) v \<in> {None, Some ct}"
        "view b = v_item (Use (fe_offs E ! i) v (fv_types (view (tr_cl s)) v \<noteq> None)) [v] [ct] (view (tr_cl s))"
      using use_law [OF _ _ slot(3)] by (auto simp: good_view_def)
    let ?s = "s\<lparr>tr_cl := b\<rparr>"
    have "good_view (view b)" unfolding v(3) using g by (intro good_view_item) auto
    then have "tinv view syms E ?s" using tinv_builder [OF s, of b ?s] v(3) by simp
    moreover have "grows (view (tr_cl s)) (view b)" unfolding v(3) using v(2) by (intro grows_item) (auto simp: map_le_def)
    moreover have "simulates P X E (view (tr_cl s)) (view b) [v] (sem_var i t)"
    proof (rule simulatesI)
      fix F K \<sigma> rs \<sigma>' w' and c :: "('v, 'k, 'w) config"
      assume F: "extends (view b) F" "uses_sound F K P X" "reached P X F K c" "at_end (view (tr_cl s)) c" "slots_hold E \<sigma> (c_vars c)"
        and e: "sem_var i t (\<sigma>, c_world c) = Some (rs, \<sigma>', w')"
      have "rs = [c_vars c (fe_offs E ! i)]" "\<sigma>' = \<sigma>" "w' = c_world c"
        using e 1(1) F(5) i by (auto simp: sem_var_def slots_hold_def)
      then show "\<exists>c'. runs P X F (view (tr_cl s)) (view b) c c' \<and> c_world c' = w' \<and> slots_hold E \<sigma>' (c_vars c')
          \<and> map (c_vals c') [v] = rs"
        using step_use [OF F(1) [unfolded v(3)] tinv_cur [OF s] F(4,3,2)] F(5) v(3) by auto
    qed
    moreover have "variable_expr C i t s = rret ([v], ?s)"
      using slot v(1) 1(2) i(3) by (simp add: variable_expr_def translate_scalar_ty on_cl_def rret_def)
    ultimately show ?thesis using v(3) 1(3) i(4) by (intro exI [of _ "[v]"] exI [of _ ?s]) simp
  next
    case 2
    have "variable_expr C i t s = rret ([], s)"
      using len 2(2) i(3) by (simp add: variable_expr_def translate_scalar_ty)
    moreover have "simulates P X E (view (tr_cl s)) (view (tr_cl s)) [] (sem_var i t)"
      by (rule simulates_weaken [OF simulates_skip]) (use 2(1) in \<open>auto simp: sem_var_def sem_skip_def\<close>)
    ultimately show ?thesis using s 2(3) i(4) by auto
  qed
qed

lemma assign_rule:
  assumes "vt_assign (vt_var E i t) a = Some ts" and "\<And>ts. a = Some ts \<Longrightarrow> computes view syms P X E val ts sv"
  shows "computes view syms P X E (assign_var C i val t) ts (\<lambda>n st. map_option (\<lambda>(xs, st). (xs, sem_store i t xs st)) (sv n st))"
proof (rule computesI)
  fix s assume s: "tinv view syms E s"
  have i: "i < length (fe_tys E)" "fe_tys E ! i = t" "scalar_ty t" "a = Some ts" "ctys t = [] \<or> ctys t = ts"
    using assms(1) by (auto simp: vt_assign_def vt_var_def split: if_splits)
  have len: "i < length (tr_local_offsets s)" using s i(1) by (auto simp: tinv_def slots_ok_def)
  obtain vs s1 where s1: "val s = rret (vs, s1)" "tinv view syms E s1" "grows (view (tr_cl s)) (view (tr_cl s1))"
      "map (fv_types (view (tr_cl s1))) vs = map Some ts" "\<And>n. simulates P X E (view (tr_cl s)) (view (tr_cl s1)) vs (sv n)"
    by (rule computesE [OF assms(2) [OF i(4)] s]) blast
  have k: "kept (view (tr_cl s)) (view (tr_cl s1))" using s1(3) grows_kept by blast
  show "\<exists>vs s'. assign_var C i val t s = rret (vs, s') \<and> tinv view syms E s' \<and> grows (view (tr_cl s)) (view (tr_cl s'))
      \<and> map (fv_types (view (tr_cl s'))) vs = map Some ts
      \<and> (\<forall>n. simulates P X E (view (tr_cl s)) (view (tr_cl s')) vs (\<lambda>st. map_option (\<lambda>(xs, st). (xs, sem_store i t xs st)) (sv n st)))"
  proof (cases t rule: word_ty_cases)
    case (1 ct)
    have slot: "variable (fe_offs E ! i) = fe_offs E ! i" "fv_vars (view (tr_cl s1)) (fe_offs E ! i) = Some ct"
      using slot_of [OF s1(2) i(1)] i(2) 1 by auto
    have o: "tr_local_offsets s ! i = fe_offs E ! i" using s by (simp add: tinv_def)
    obtain y where y: "vs = [y]" "fv_types (view (tr_cl s1)) y = Some ct" using s1(4) i(5) 1(3) by auto
    have g: "good_view (view (tr_cl s1))" using s1(2) by (simp add: tinv_def)
    then obtain b where b: "def_var C (fe_offs E ! i) y (tr_cl s1) = Ret b" "view b = v_item (Def (fe_offs E ! i) y) [] [] (view (tr_cl s1))"
      using def_law [OF _ _ slot(2) y(2)] by (auto simp: good_view_def)
    let ?s = "s1\<lparr>tr_cl := b\<rparr>"
    have "good_view (view b)" unfolding b(2) using g by (intro good_view_item) auto
    then have "tinv view syms E ?s" using tinv_builder [OF s1(2), of b ?s] b(2) by simp
    moreover have "grows (view (tr_cl s)) (view b)"
      using grows_trans [OF s1(3) grows_item [of _ "[]" "[]"] tinv_cur [OF s]] b(2) by simp
    moreover have "simulates P X E (view (tr_cl s)) (view b) vs (\<lambda>st. map_option (\<lambda>(xs, st). (xs, sem_store i t xs st)) (sv n st))" for n
      using simulates_def_var [OF s1(5) [unfolded y(1)] k tinv_cur [OF s1(2)] b(2) _ i(1) _ y(2), of "[]"] s1(2) i(2) 1(1) y(1)
      by (simp add: tinv_def)
    moreover have "assign_var C i val t s = rret (vs, ?s)"
      using len o s1(1) y(1) slot(1) b(1) 1(2) i(3)
      by (simp add: assign_var_def translate_scalar_ty do_cl_def rret_def)
    ultimately show ?thesis using b(2) s1(4) by (intro exI [of _ vs] exI [of _ ?s]) simp
  next
    case 2
    have "assign_var C i val t s = rret (vs, s1)"
      using len 2(2) i(3) s1(1) by (simp add: assign_var_def translate_scalar_ty)
    moreover have "simulates P X E (view (tr_cl s)) (view (tr_cl s1)) vs (\<lambda>st. map_option (\<lambda>(xs, st). (xs, sem_store i t xs st)) (sv n st))" for n
      by (rule simulates_weaken [OF s1(5)]) (use 2(1) in \<open>auto simp: sem_store_def\<close>)
    ultimately show ?thesis using s1 by blast
  qed
qed

lemma get_or_declare_ok:
  assumes s: "tinv view syms E s" and g: "fn_sig (fe_mods E) r = Some g" and f0: "resolve_func (fe_mods E) r = Ret f0"
  obtains fid M jm where "get_or_declare_ir_fn C r (tr_mods s, tr_ir_module s) = rret (fid, M, jm)"
    and "syms jm fid = Some (irf_name f0, g)" and "no_ids M = no_ids (fe_mods E)" and "ids_ok (fe_mods E) M (syms jm)"
proof -
  have inv: "no_ids (tr_mods s) = no_ids (fe_mods E)" "ids_ok (fe_mods E) (tr_mods s) (syms (tr_ir_module s))" "names_agree (fe_mods E)"
    using s by (simp_all add: tinv_def)
  obtain f where f: "resolve_func (tr_mods s) r = Ret f" "irf_name f = irf_name f0" "irf_params f = irf_params f0" "irf_ret_type f = irf_ret_type f0"
    using no_ids_resolve [OF inv(1) [symmetric] f0] by auto
  show ?thesis
  proof (cases "irf_ir f")
    case (Some fid)
    then obtain g' where "syms (tr_ir_module s) fid = Some (irf_name f, g')" "g = g'"
      using inv(2) f(1) g unfolding ids_ok_def by blast
    then show ?thesis using that [of fid "tr_mods s" "tr_ir_module s"] Some f inv by (simp add: get_or_declare_ir_fn_def)
  next
    case None
    have sg: "make_fn_sig (tr_mods s) f (make_signature C (tr_ir_module s)) = rret g"
      using make_fn_sig_cong [OF inv(1), of f0 f] f fn_sig_resolve [OF g] f0 by (simp add: make_signature_law)
    have "\<And>fid g'. syms (tr_ir_module s) fid = Some (irf_name f, g') \<Longrightarrow> g' = g"
      using inv(2) f0 f(2) g unfolding ids_ok_def by metis
    then obtain fid jm where d: "module_declare_function C (irf_name f) (get_linkage f) g (tr_ir_module s) = (Some fid, jm)"
        "syms jm = (syms (tr_ir_module s))(fid \<mapsto> (irf_name f, g))" "syms (tr_ir_module s) fid \<in> {None, Some (irf_name f, g)}"
      using declare_function_law by blast
    show ?thesis
    proof (rule that)
      show "get_or_declare_ir_fn C r (tr_mods s, tr_ir_module s) = rret (fid, set_ir r fid (tr_mods s), jm)"
        using None f(1) sg d(1) by (simp add: get_or_declare_ir_fn_def)
      show "syms jm fid = Some (irf_name f0, g)" using d(2) f(2) by simp
      show "no_ids (set_ir r fid (tr_mods s)) = no_ids (fe_mods E)" using set_ir_resolve(2) [OF f(1)] inv(1) by simp
      show "ids_ok (fe_mods E) (set_ir r fid (tr_mods s)) (syms jm)"
        using ids_ok_declare [OF inv(2,3,1) f(1) g d(3)] d(2) by simp
    qed
  qed
qed

lemma call_rule:
  assumes c: "ctyp = Ret (TFunction r)" and g: "fn_sig (fe_mods E) r = Some g" and fit: "calls_fit (fe_mods E) X"
    and a: "computes view syms P X E args (sig_params g) sa"
  shows "computes view syms P X E (trans_call C ctyp args) (sig_returns g) (\<lambda>n. sem_call (calls_of (fe_mods E) X) (Some r) (sa n))"
proof (rule computesI)
  fix s assume s: "tinv view syms E s"
  obtain f0 where f0: "resolve_func (fe_mods E) r = Ret f0" using fn_sig_resolve [OF g] by blast
  obtain fid M jm where d: "get_or_declare_ir_fn C r (tr_mods s, tr_ir_module s) = rret (fid, M, jm)"
      "syms jm fid = Some (irf_name f0, g)" "no_ids M = no_ids (fe_mods E)" "ids_ok (fe_mods E) M (syms jm)"
    by (rule get_or_declare_ok [OF s g f0])
  obtain q b where q: "declare_func_in_func C fid jm (tr_cl s) = Ret (q, b)"
      "view b = (view (tr_cl s))\<lparr>fv_callee := (fv_callee (view (tr_cl s)))(q \<mapsto> (irf_name f0, g))\<rparr>"
      "fv_callee (view (tr_cl s)) q \<in> {None, Some (irf_name f0, g)}"
    using declare_in_func_law [OF d(2)] by blast
  let ?s1 = "s\<lparr>tr_mods := M, tr_ir_module := jm, tr_cl := b\<rparr>"
  have s1: "tinv view syms E ?s1" using s d(3,4) q(2) by (simp add: tinv_def good_view_def open_block_def)
  have k1: "grows (view (tr_cl s)) (view b)"
    using q(2,3) by (auto simp: grows_def kept_def extends_def untouched_def same_seals_def finished_def map_le_def)
  have m1: "simulates P X E (view (tr_cl s)) (view b) [] sem_skip"
    by (rule simulatesI) (use q(2) in \<open>auto simp: sem_skip_def runs_def at_end_def\<close>)
  obtain vs s2 where s2: "args ?s1 = rret (vs, s2)" "tinv view syms E s2" "grows (view b) (view (tr_cl s2))"
      "map (fv_types (view (tr_cl s2))) vs = map Some (sig_params g)" "\<And>n. simulates P X E (view b) (view (tr_cl s2)) vs (sa n)"
    using computesE [OF a s1] by auto
  have q2: "fv_callee (view (tr_cl s2)) q = Some (irf_name f0, g)"
    using callee_extends [OF kept_ext [OF grows_kept [OF s2(3)]]] q(2) by simp
  have g2: "grows (view (tr_cl s)) (view (tr_cl s2))" using grows_trans [OF k1 s2(3) tinv_cur [OF s]] .
  have gv: "good_view (view (tr_cl s2))" using s2(2) by (simp add: tinv_def)
  then have "can_ins (Call q vs) (view (tr_cl s2))" using q2 s2(4) by (auto simp: can_ins_def good_view_def)
  then obtain rs b3 where i: "ins C (Call q vs) (tr_cl s2) = Ret (rs, b3)"
      "view b3 = v_item (Ins (Call q vs) rs) rs (sig_returns g) (view (tr_cl s2))"
      "length rs = length (sig_returns g)" "distinct rs" "set rs \<inter> dom (fv_types (view (tr_cl s2))) = {}"
    using ins_law [of "Call q vs" "tr_cl s2"] q2 by auto
  let ?s3 = "s2\<lparr>tr_cl := b3\<rparr>"
  have "good_view (view b3)" unfolding i(2) using gv by (intro good_view_item) auto
  then have "tinv view syms E ?s3" using tinv_builder [OF s2(2), of b3 ?s3] i(2) by simp
  moreover have "grows (view (tr_cl s)) (view b3)"
    using grows_trans [OF g2 grows_item [OF types_kept_fresh [OF i(5)]] tinv_cur [OF s]] i(2) by metis
  moreover have "simulates P X E (view (tr_cl s)) (view b3) rs (sem_call (calls_of (fe_mods E) X) (Some r) (sa n))" for n
  proof -
    have "simulates P X E (view (tr_cl s)) (view (tr_cl s2)) vs (sem_then sem_skip (\<lambda>_. sa n))"
      by (rule simulates_then [OF m1 s2(5) grows_kept [OF k1] grows_kept [OF s2(3)]])
    then have "simulates P X E (view (tr_cl s)) (view b3) rs (sem_apply (sem_then sem_skip (\<lambda>_. sa n)) (calls_of (fe_mods E) X r))"
    proof (rule simulates_ins [OF _ grows_kept [OF g2] tinv_cur [OF s2(2)] i(2,4,5)])
      fix F ys w and c :: "('v, 'k, 'w) config"
      assume F: "extends (view b3) F" and y: "calls_of (fe_mods E) X r (map (c_vals c) vs) (c_world c) = Some (ys, w)"
      have "fv_callee F q = Some (irf_name f0, g)" using callee_extends [OF F] i(2) q2 by simp
      moreover have x: "X (irf_name f0) (map (c_vals c) vs) (c_world c) = Some (ys, w)" using y f0 by (simp add: calls_of_def)
      moreover have "length rs = length ys" using fit f0 g x i(3) unfolding calls_fit_def by metis
      ultimately show "length rs = length ys \<and> run_item P X F (Ins (Call q vs) rs) c = put rs ys (c\<lparr>c_world := w\<rparr>)"
        by simp
    qed
    then show ?thesis
      by (rule simulates_weaken) (auto simp: sem_call_def sem_apply_def sem_then_def sem_skip_def split: option.splits)
  qed
  moreover have "map (fv_types (view b3)) rs = map Some (sig_returns g)" using types_of_fresh [OF i(3,4)] i(2) by simp
  moreover have "trans_call C ctyp args s = rret (rs, ?s3)"
    using c d(1) q(1) s2(1) i(1) by (simp add: trans_call_def into_fn_def on_cl_def rret_def Let_def)
  ultimately show "\<exists>vs s'. trans_call C ctyp args s = rret (vs, s') \<and> tinv view syms E s' \<and> grows (view (tr_cl s)) (view (tr_cl s'))
      \<and> map (fv_types (view (tr_cl s'))) vs = map Some (sig_returns g)
      \<and> (\<forall>n. simulates P X E (view (tr_cl s)) (view (tr_cl s')) vs (sem_call (calls_of (fe_mods E) X) (Some r) (sa n)))"
    by (intro exI [of _ rs] exI [of _ ?s3]) simp
qed

end

end
