(* ===== verification/VmFlow.thy ===== *)
theory VmFlow
  imports VmTrans
begin

section \<open>Branches and loops\<close>

text \<open>
  The blocks of an \<open>if\<close> and of a \<open>while\<close>. An arm is translated into an empty block of its own and
  ends with a jump; the blocks are put together by lemmas on views, the runs by lemmas on the
  machine.
\<close>

text \<open>Between two arms the current block is ended.\<close>

definition idle :: "('v, 'k, 'r) fview \<Rightarrow> bool" where
  "idle u \<longleftrightarrow> fv_current u \<noteq> None \<and> cur u \<in> fv_blocks u \<and> ended (cur_code u) \<and> fv_sealed u \<subseteq> fv_blocks u \<and> fv_entry u \<noteq> None"

definition env_ok :: "('b \<Rightarrow> ('v, 'k, 'r) fview) \<Rightarrow> ('m \<Rightarrow> nat \<rightharpoonup> string \<times> signature) \<Rightarrow> fenv \<Rightarrow> ('b, 'k, 'm) translator \<Rightarrow> bool" where
  "env_ok view syms E s \<longleftrightarrow> slots_ok E \<and> tr_local_offsets s = fe_offs E \<and> slots_declared E (fv_vars (view (tr_cl s)))
     \<and> names_agree (fe_mods E) \<and> no_ids (tr_mods s) = no_ids (fe_mods E)
     \<and> ids_ok (fe_mods E) (tr_mods s) (syms (tr_ir_module s))"

lemma tinv_env: "tinv view syms E s \<longleftrightarrow> good_view (view (tr_cl s)) \<and> env_ok view syms E s"
  by (auto simp: tinv_def env_ok_def)

text \<open>The view at the start of an arm is that before it with another current block.\<close>

definition starts :: "('v, 'k, 'r) fview \<Rightarrow> ('v, 'k, 'r) fview \<Rightarrow> 'k \<Rightarrow> bool" where
  "starts u w k \<longleftrightarrow> kept u w \<and> fv_blocks w = fv_blocks u \<and> fv_code w = fv_code u \<and> fv_types w = fv_types u
     \<and> fv_callee w = fv_callee u \<and> fv_params w = fv_params u
     \<and> cur w = k \<and> fv_current w \<noteq> None \<and> same_seals (fv_blocks u - {k}) u w"

lemma starts_switch:
  "fv_entry u \<noteq> None \<Longrightarrow> starts u (v_switch k u) k"
  "fv_entry u \<noteq> None \<Longrightarrow> starts u (v_seal k (v_switch k u)) k"
  by (auto simp: starts_def kept_def extends_def same_seals_def)

definition v_items :: "('v, 'k, 'r) item list \<Rightarrow> ('v, 'k, 'r) fview \<Rightarrow> ('v, 'k, 'r) fview" where
  "v_items its v = v\<lparr>fv_code := (fv_code v)(cur v := cur_code v @ its)\<rparr>"

lemma v_items_simps [simp]:
  "fv_blocks (v_items its v) = fv_blocks v" "fv_sealed (v_items its v) = fv_sealed v"
  "fv_params (v_items its v) = fv_params v" "fv_current (v_items its v) = fv_current v"
  "fv_entry (v_items its v) = fv_entry v" "fv_sig (v_items its v) = fv_sig v"
  "fv_vars (v_items its v) = fv_vars v" "fv_callee (v_items its v) = fv_callee v"
  "fv_types (v_items its v) = fv_types v"
  "fv_code (v_items its v) = (fv_code v)(cur v := cur_code v @ its)"
  by (simp_all add: v_items_def)

lemma v_item_items: "v_item it [] [] v = v_items [it] v" "v_items [it'] (v_items [it] v) = v_items [it, it'] v"
  by (simp_all add: v_item_def v_items_def)

lemma kept_items: "kept v (v_items its v)"
  by (auto simp: kept_def extends_def)

lemma arm_intro:
  assumes st: "starts u w k" and g: "grows w v" and c: "cur v \<in> fv_blocks v" "k \<in> fv_blocks u"
    and f: "its \<noteq> []" "ended its"
  shows "arm u (v_items its v) k" and "k \<in> fv_sealed (v_items its v) \<longleftrightarrow> k \<in> fv_sealed w"
proof -
  have fi: "ended (xs @ its)" for xs using f by (auto simp: ended_def)
  have B: "fv_blocks w = fv_blocks u" "cur w = k" "fv_code w = fv_code u" using st by (auto simp: starts_def)
  have cv: "cur v = k \<or> cur v \<notin> fv_blocks u \<and> ended (fv_code v k)" using g B by (auto simp: grows_def)
  have "kept u (v_items its v)"
    using st grows_kept [OF g] kept_items kept_trans unfolding starts_def by blast
  moreover have "untouched (fv_blocks u - {k}) u (v_items its v)"
    using g B cv by (auto simp: grows_def untouched_def)
  moreover have "same_seals (fv_blocks u - {k}) u (v_items its v)"
    using g st B by (auto simp: grows_def same_seals_def starts_def)
  moreover have "finished (fv_blocks u) {} (v_items its v)"
    using g B fi by (auto simp: grows_def finished_def)
  moreover have "ended (fv_code (v_items its v) k)" using cv fi by auto
  moreover have "ended (cur_code (v_items its v))" using fi by simp
  ultimately show "arm u (v_items its v) k" by (simp add: arm_def)
  show "k \<in> fv_sealed (v_items its v) \<longleftrightarrow> k \<in> fv_sealed w"
    using g B c(2) by (auto simp: grows_def same_seals_def)
qed

lemma arm_facts:
  assumes "arm u u' k"
  shows "kept u u'" and "fv_blocks u \<subseteq> fv_blocks u'" and "ended (fv_code u' k)"
    and "\<And>j. j \<in> fv_blocks u \<Longrightarrow> j \<noteq> k \<Longrightarrow> fv_code u' j = fv_code u j"
    and "\<And>j. j \<in> fv_blocks u \<Longrightarrow> j \<noteq> k \<Longrightarrow> j \<in> fv_sealed u' \<longleftrightarrow> j \<in> fv_sealed u"
    and "\<And>j. j \<in> fv_blocks u' \<Longrightarrow> j \<notin> fv_blocks u \<Longrightarrow> j \<in> fv_sealed u' \<and> ended (fv_code u' j)"
  using assms kept_blocks by (auto simp: arm_def untouched_def same_seals_def finished_def)

text \<open>Three new blocks, then two items that end the current block.\<close>

definition v_fork :: "'k list \<Rightarrow> ('v, 'k, 'r) fview \<Rightarrow> ('v, 'k, 'r) fview" where
  "v_fork ks v = fold v_create ks v"

lemma v_fork_simps:
  assumes "distinct ks" and "set ks \<inter> fv_blocks v = {}"
  shows "fv_blocks (v_fork ks v) = fv_blocks v \<union> set ks" and "fv_sealed (v_fork ks v) = fv_sealed v"
    and "fv_current (v_fork ks v) = fv_current v" and "fv_entry (v_fork ks v) = fv_entry v"
    and "fv_vars (v_fork ks v) = fv_vars v" and "fv_types (v_fork ks v) = fv_types v"
    and "fv_code (v_fork ks v) = (\<lambda>k. if k \<in> set ks then [] else fv_code v k)"
    and "fv_params (v_fork ks v) = (\<lambda>k. if k \<in> set ks then [] else fv_params v k)"
    and "kept v (v_fork ks v)"
proof -
  have "fv_blocks (v_fork ks v) = fv_blocks v \<union> set ks \<and> fv_sealed (v_fork ks v) = fv_sealed v
    \<and> fv_current (v_fork ks v) = fv_current v \<and> fv_entry (v_fork ks v) = fv_entry v
    \<and> fv_vars (v_fork ks v) = fv_vars v \<and> fv_types (v_fork ks v) = fv_types v
    \<and> fv_code (v_fork ks v) = (\<lambda>k. if k \<in> set ks then [] else fv_code v k)
    \<and> fv_params (v_fork ks v) = (\<lambda>k. if k \<in> set ks then [] else fv_params v k) \<and> kept v (v_fork ks v)"
    using assms
  proof (induction ks arbitrary: v)
    case (Cons k ks)
    then have "kept v (v_create k v)" by (simp add: kept_create)
    moreover have "set ks \<inter> fv_blocks (v_create k v) = {}" "distinct ks" using Cons(2,3) by auto
    moreover note Cons(1) [of "v_create k v"]
    moreover have "v_fork (k # ks) v = v_fork ks (v_create k v)" by (simp add: v_fork_def)
    ultimately show ?case using kept_trans by (auto simp: fun_eq_iff)
  qed (simp add: v_fork_def)
  then show "fv_blocks (v_fork ks v) = fv_blocks v \<union> set ks" and "fv_sealed (v_fork ks v) = fv_sealed v"
    and "fv_current (v_fork ks v) = fv_current v" and "fv_entry (v_fork ks v) = fv_entry v"
    and "fv_vars (v_fork ks v) = fv_vars v" and "fv_types (v_fork ks v) = fv_types v"
    and "fv_code (v_fork ks v) = (\<lambda>k. if k \<in> set ks then [] else fv_code v k)"
    and "fv_params (v_fork ks v) = (\<lambda>k. if k \<in> set ks then [] else fv_params v k)"
    and "kept v (v_fork ks v)" by blast+
qed

text \<open>The blocks \<open>ks\<close> are new and empty, the current block has been ended with \<open>its\<close>.\<close>

definition forked :: "('v, 'k, 'r) fview \<Rightarrow> ('v, 'k, 'r) fview \<Rightarrow> 'k list \<Rightarrow> ('v, 'k, 'r) item list \<Rightarrow> bool" where
  "forked v u ks its \<longleftrightarrow> distinct ks \<and> set ks \<inter> fv_blocks v = {} \<and> kept v u \<and> fv_blocks u = fv_blocks v \<union> set ks
     \<and> fv_sealed u = fv_sealed v \<and> fv_current u = fv_current v
     \<and> (\<forall>k \<in> set ks. fv_code u k = []) \<and> fv_code u (cur v) = cur_code v @ its
     \<and> (\<forall>k \<in> fv_blocks v. k \<noteq> cur v \<longrightarrow> fv_code u k = fv_code v k)"

lemma v_param_nil: "v_param k [] [] v = v"
  by (simp add: v_param_def)

lemma fork_view:
  assumes v: "good_view v" and d: "distinct [a, b, c]" "set [a, b, c] \<inter> fv_blocks v = {}"
    and ps: "set ps \<inter> dom (fv_types v) = {}" and u0: "u0 = v_param c ps ts (v_fork [a, b, c] v)"
  shows "kept v u0" and "fv_blocks u0 = fv_blocks v \<union> {a, b, c}" and "fv_sealed u0 = fv_sealed v" and "fv_current u0 = fv_current v"
    and "fv_code u0 a = []" and "fv_code u0 b = []" and "fv_code u0 c = []" and "cur_code u0 = cur_code v" and "fv_vars u0 = fv_vars v"
    and "fv_params u0 a = []" and "fv_params u0 b = []" and "fv_params u0 c = ps"
    and "fv_types u0 = fv_types v ++ map_of (zip ps ts)" and "good_view u0" and "forked v (v_items its u0) [a, b, c] its"
proof -
  note f = v_fork_simps [OF d]
  have n: "cur v \<in> fv_blocks v" "cur v \<notin> {a, b, c}" using good_view_cur [OF v] d(2) by auto
  have kf: "kept v (v_fork [a, b, c] v)" using f(9) .
  show k: "kept v u0"
    using f d ps kf u0 types_kept_fresh [OF ps] by (auto simp: kept_def extends_def)
  show e: "fv_blocks u0 = fv_blocks v \<union> {a, b, c}" "fv_sealed u0 = fv_sealed v" "fv_current u0 = fv_current v"
    "fv_code u0 a = []" "fv_code u0 b = []" "fv_code u0 c = []" "cur_code u0 = cur_code v" "fv_vars u0 = fv_vars v"
    "fv_params u0 a = []" "fv_params u0 b = []" "fv_params u0 c = ps" "fv_types u0 = fv_types v ++ map_of (zip ps ts)"
    using u0 f n d(1) by auto
  show "good_view u0" using v e n k by (auto simp: good_view_def open_block_def kept_def)
  show "forked v (v_items its u0) [a, b, c] its"
    using d e n kept_trans [OF k kept_items] u0 f by (auto simp: forked_def)
qed

lemma grows_fork:
  assumes v: "good_view v" and fk: "forked v u [a, b, c] its" "its \<noteq> []" "ended its"
    and a1: "arm u u1 a" and a2: "arm u1 u2 b"
    and w: "kept u2 w" "fv_blocks w = fv_blocks u2" "fv_code w = fv_code u2" "cur w = c"
      "fv_sealed u2 \<subseteq> fv_sealed w" "fv_sealed w \<subseteq> fv_sealed u2 \<union> {a, b, c}" "{a, b, c} \<subseteq> fv_sealed w"
  shows "grows v w" and "fv_code w c = []"
proof -
  note f = fk(1) [unfolded forked_def]
  note x = arm_facts [OF a1] and y = arm_facts [OF a2]
  have n: "a \<noteq> b" "a \<noteq> c" "b \<noteq> c" "a \<notin> fv_blocks v" "b \<notin> fv_blocks v" "c \<notin> fv_blocks v" using f by auto
  have Bu: "fv_blocks u = fv_blocks v \<union> {a, b, c}" using f by simp
  have cv: "cur v \<in> fv_blocks v" using v good_view_cur by blast
  have code: "fv_code w k = fv_code u k" if "k \<in> fv_blocks u" "k \<noteq> a" "k \<noteq> b" for k
    using that x(2,4) y(4) w(3) by auto
  have fin: "ended (fv_code w k)" if k: "k \<in> fv_blocks w - fv_blocks v" "k \<noteq> c" for k
  proof -
    consider "k = a" | "k = b" | "k \<in> fv_blocks u1 - fv_blocks u" | "k \<in> fv_blocks u2 - fv_blocks u1"
      using k w(2) Bu x(2) by blast
    then show ?thesis
    proof cases
      case 1
      then show ?thesis using x(2,3) y(4) [of a] n w(3) Bu by auto
    next
      case 2
      then show ?thesis using y(3) w(3) by simp
    next
      case 3
      then show ?thesis using x(6) [of k] y(4) [of k] w(3) Bu n by auto
    next
      case 4
      then show ?thesis using y(6) [of k] w(3) by simp
    qed
  qed
  have seal: "k \<in> fv_sealed w" if k: "k \<in> fv_blocks w - fv_blocks v" for k
  proof (cases "k \<in> {a, b, c}")
    case False
    then consider "k \<in> fv_blocks u1 - fv_blocks u" | "k \<in> fv_blocks u2 - fv_blocks u1"
      using k w(2) Bu x(2) by blast
    then show ?thesis
    proof cases
      case 1
      then show ?thesis using x(6) [of k] y(5) [of k] w(5) Bu n by auto
    next
      case 2
      then show ?thesis using y(6) [of k] w(5) by auto
    qed
  next
    case True
    with w(7) show ?thesis by blast
  qed
  have "kept v u" using f by simp
  then have "kept v w" using kept_trans [OF kept_trans [OF kept_trans [OF _ x(1)] y(1)] w(1)] by simp
  moreover have "untouched (fv_blocks v - {cur v}) v w"
    unfolding untouched_def
  proof
    fix k assume k: "k \<in> fv_blocks v - {cur v}"
    then have "k \<noteq> a" "k \<noteq> b" using n by auto
    with k code [of k] Bu f show "fv_code w k = fv_code v k" by simp
  qed
  moreover have "same_seals (fv_blocks v) v w"
    unfolding same_seals_def
  proof
    fix k assume k: "k \<in> fv_blocks v"
    then have ne: "k \<noteq> a" "k \<noteq> b" "k \<noteq> c" using n by auto
    have "k \<in> fv_blocks u" "k \<in> fv_blocks u1" using k Bu x(2) by auto
    then have "k \<in> fv_sealed u2 \<longleftrightarrow> k \<in> fv_sealed v" using x(5) y(5) ne f by auto
    then show "k \<in> fv_sealed w \<longleftrightarrow> k \<in> fv_sealed v" using w(5,6) ne by auto
  qed
  moreover have "finished (fv_blocks v) {cur w} w" using fin seal w(4) by (auto simp: finished_def)
  moreover have "ended (fv_code w (cur v))"
  proof -
    have "cur v \<noteq> a" "cur v \<noteq> b" using n cv by auto
    then have "fv_code w (cur v) = cur_code v @ its" using code [of "cur v"] cv Bu f by simp
    with fk(2,3) show ?thesis by (auto simp: ended_def)
  qed
  ultimately show "grows v w" using w(4) n by (simp add: grows_def)
  show "fv_code w c = []" using code [of c] Bu n f by auto
qed

subsection \<open>Runs through an arm\<close>

lemma at_start: "fv_code v (cur v) = [] \<Longrightarrow> at_end v c \<longleftrightarrow> c_block c = cur v \<and> c_pos c = 0"
  by (simp add: at_end_def)

lemma arm_run:
  assumes s: "simulates P X E w v vs sem" and k: "kept w v" "cur v \<in> fv_blocks v"
    and F: "extends (v_items [Ins (Jump j js) []] v) F" "uses_sound F K P X"
    and c: "reached P X F K c" "at_end w c" "slots_hold E \<sigma> (c_vars c)" "sem (\<sigma>, c_world c) = Some (rs, \<sigma>', w')"
    and p: "length (fv_params F j) = length js" "distinct (fv_params F j)" "set js \<subseteq> set vs"
  shows "\<exists>c' f. msteps P X F c c' \<and> c_block c' = j \<and> c_pos c' = 0 \<and> slots_hold E \<sigma>' (c_vars c') \<and> c_world c' = w'
     \<and> map (c_vals c') (fv_params F j) = map f js \<and> map f vs = rs
     \<and> (\<forall>x \<in> dom (fv_types w) - set (fv_params F j). c_vals c' x = c_vals c x)"
proof -
  obtain c1 where c1: "runs P X F w v c c1" "c_world c1 = w'" "slots_hold E \<sigma>' (c_vars c1)" "map (c_vals c1) vs = rs"
    using simulatesE [OF s extends_kept [OF kept_items F(1)] F(2) c] by metis
  obtain c2 where c2: "msteps P X F c1 c2" "c_block c2 = j" "c_pos c2 = 0" "c_vars c2 = c_vars c1" "c_world c2 = c_world c1"
      "map (c_vals c2) (fv_params F j) = map (c_vals c1) js" "\<forall>x. x \<notin> set (fv_params F j) \<longrightarrow> c_vals c2 x = c_vals c1 x"
    using step_goto [of "Ins (Jump j js) []" "[]" "[]" v F c1 P X j js] F(1) k(2) runs_end [OF c1(1)] p by (auto simp: v_item_items)
  have "msteps P X F c c2" using c1(1) c2(1) unfolding runs_def by (meson rtranclp_trans)
  with c1 c2 show ?thesis by (intro exI [of _ c2] exI [of _ "c_vals c1"]) (auto simp: runs_def)
qed

text \<open>What an arm from block \<open>k\<close> to block \<open>j\<close> does to the machine; \<open>phi\<close> says whether its values are
  handed over.\<close>

definition arm_sim :: "fpu \<Rightarrow> 'w calls \<Rightarrow> fenv \<Rightarrow> ('v, 'k, 'r) fview \<Rightarrow> ('v, 'k, 'r) fview \<Rightarrow> 'k \<Rightarrow> 'k \<Rightarrow> bool \<Rightarrow> 'w sem \<Rightarrow> bool" where
  "arm_sim P X E u u' k j phi sem \<longleftrightarrow> (\<forall>F K c \<sigma> rs \<sigma>' w'.
     extends u' F \<longrightarrow> uses_sound F K P X \<longrightarrow> reached P X F K c \<longrightarrow> c_block c = k \<longrightarrow> c_pos c = 0 \<longrightarrow>
     slots_hold E \<sigma> (c_vars c) \<longrightarrow> sem (\<sigma>, c_world c) = Some (rs, \<sigma>', w') \<longrightarrow>
     (\<exists>c'. msteps P X F c c' \<and> c_block c' = j \<and> c_pos c' = 0 \<and> slots_hold E \<sigma>' (c_vars c') \<and> c_world c' = w'
        \<and> (phi \<longrightarrow> map (c_vals c') (fv_params F j) = rs)
        \<and> (\<forall>x \<in> dom (fv_types u) - set (fv_params F j). c_vals c' x = c_vals c x)))"

lemma arm_simE:
  assumes "arm_sim P X E u u' k j phi sem" and "extends u' F" and "uses_sound F K P X" and "reached P X F K c"
    and "c_block c = k" and "c_pos c = 0" and "slots_hold E \<sigma> (c_vars c)" and "sem (\<sigma>, c_world c) = Some (rs, \<sigma>', w')"
  obtains c' where "msteps P X F c c'" and "c_block c' = j" and "c_pos c' = 0" and "slots_hold E \<sigma>' (c_vars c')"
    and "c_world c' = w'" and "phi \<Longrightarrow> map (c_vals c') (fv_params F j) = rs"
    and "\<forall>x \<in> dom (fv_types u) - set (fv_params F j). c_vals c' x = c_vals c x"
  using assms unfolding arm_sim_def by (metis (no_types, lifting))

lemma arm_sim_intro:
  assumes s: "simulates P X E w v vs sem" and k: "kept w v" "cur v \<in> fv_blocks v"
    and u: "fv_types w = fv_types u" "cur w = k" "cur_code w = []" "fv_current w \<noteq> None"
    and j: "j \<in> fv_blocks v" "fv_params v j = ps" "distinct ps" "length ps = (if phi then length vs else 0)"
  shows "arm_sim P X E u (v_items [Ins (Jump j (if phi then vs else [])) []] v) k j phi sem"
  unfolding arm_sim_def
proof (intro allI impI)
  fix F K c \<sigma> rs \<sigma>' w'
  let ?js = "if phi then vs else []"
  assume F: "extends (v_items [Ins (Jump j ?js) []] v) F" "uses_sound F K P X" and c: "reached P X F K c"
    and p: "c_block c = k" "c_pos c = 0" and m: "slots_hold E \<sigma> (c_vars c)" "sem (\<sigma>, c_world c) = Some (rs, \<sigma>', w')"
  have ps: "fv_params F j = ps" using F(1) j(1,2) by (simp add: extends_def)
  have l: "length (fv_params F j) = length ?js" "distinct (fv_params F j)" "set ?js \<subseteq> set vs"
    using ps j(3,4) by auto
  have e: "at_end w c" using p u(2,3) by (simp add: at_end_def)
  obtain c' f where "msteps P X F c c'" "c_block c' = j" "c_pos c' = 0" "slots_hold E \<sigma>' (c_vars c')" "c_world c' = w'"
      "map (c_vals c') (fv_params F j) = map f ?js" "map f vs = rs"
      "\<forall>x \<in> dom (fv_types w) - set (fv_params F j). c_vals c' x = c_vals c x"
    using arm_run [OF s k F c e m l] by blast
  then show "\<exists>c'. msteps P X F c c' \<and> c_block c' = j \<and> c_pos c' = 0 \<and> slots_hold E \<sigma>' (c_vars c') \<and> c_world c' = w'
        \<and> (phi \<longrightarrow> map (c_vals c') (fv_params F j) = rs)
        \<and> (\<forall>x \<in> dom (fv_types u) - set (fv_params F j). c_vals c' x = c_vals c x)"
    using u(1) by (intro exI [of _ c']) auto
qed

lemma step_jump:
  assumes "extends (v_items [Ins (Jump k []) []] v) F" and "cur v \<in> fv_blocks v" and "at_end v c" and "fv_params F k = []"
  obtains c' where "msteps P X F c c'" and "c_block c' = k" and "c_pos c' = 0" and "c_vars c' = c_vars c"
    and "c_world c' = c_world c" and "c_vals c' = c_vals c"
  using step_goto [of "Ins (Jump k []) []" "[]" "[]" v F c P X k "[]"] assms by (auto simp: v_item_items)

text \<open>The two instructions of \<open>br\<close>: to the block \<open>a\<close> if the condition holds, to \<open>b\<close> otherwise.\<close>

lemma step_br:
  assumes e: "extends (v_items [Ins (Brz x b []) [], Ins (Jump a []) []] v) F" and c: "cur v \<in> fv_blocks v" "at_end v c"
    and p: "fv_params F a = []" "fv_params F b = []"
  obtains c' where "msteps P X F c c'" and "c_block c' = (if c_vals c x = 0 then b else a)" and "c_pos c' = 0"
    and "c_vars c' = c_vars c" and "c_world c' = c_world c" and "c_vals c' = c_vals c"
proof -
  let ?v = "v_items [Ins (Brz x b []) []] v"
  have e2: "extends (v_items [Ins (Jump a []) []] ?v) F" using e by (simp only: v_item_items(2))
  have e1: "extends (v_item (Ins (Brz x b []) []) [] [] v) F" using extends_kept [OF kept_items e2] by (simp add: v_item_items)
  show ?thesis
  proof (cases "c_vals c x = 0")
    case True
    obtain c' where "msteps P X F c c'" "c_block c' = b" "c_pos c' = 0" "c_vars c' = c_vars c" "c_world c' = c_world c"
        "\<forall>z. c_vals c' z = c_vals c z"
      using step_goto [OF e1 c, of P X b "[]"] True p(2) by auto
    then show ?thesis using that [of c'] True by (auto simp: fun_eq_iff)
  next
    case False
    let ?c = "next_pos c"
    have r: "runs P X F v ?v c ?c"
      using step_item [OF e1 c, of P X ?c] False by (simp add: v_item_items next_pos_def)
    obtain c' where "msteps P X F ?c c'" "c_block c' = a" "c_pos c' = 0" "c_vars c' = c_vars ?c" "c_world c' = c_world ?c" "c_vals c' = c_vals ?c"
      by (rule step_jump [OF e2 _ runs_end [OF r] p(1)]) (use c(1) in auto)
    moreover have "msteps P X F c ?c" using r by (simp add: runs_def)
    ultimately show ?thesis using that [of c'] False by (auto simp: next_pos_def intro: rtranclp_trans)
  qed
qed

lemma if_sim:
  assumes cnd: "simulates P X E v v1 [x] sc" "kept v v1" "cur v1 \<in> fv_blocks v1"
    and u: "kept v1 u0" "cur u0 = cur v1" "cur_code u0 = cur_code v1" "u = v_items [Ins (Brz x b []) [], Ins (Jump a []) []] u0"
    and k: "kept u u1" "kept u1 u2" "kept u2 w" "cur w = k" "cur_code w = []"
    and ps: "{a, b, k} \<subseteq> fv_blocks u" "fv_params u a = []" "fv_params u b = []" "fv_params u k = ps"
      "set ps \<inter> dom (fv_types v1) = {}" "\<not> phi \<Longrightarrow> ps = []"
    and arms: "arm_sim P X E u u1 a k phi st" "arm_sim P X E u1 u2 b k phi se"
  shows "simulates P X E v w ps (sem_if sc phi st se)"
proof (rule simulatesI)
  fix F K c \<sigma> rs \<sigma>' w'
  assume F: "extends w F" "uses_sound F K P X" "reached P X F K c" "at_end v c" "slots_hold E \<sigma> (c_vars c)"
    and e: "sem_if sc phi st se (\<sigma>, c_world c) = Some (rs, \<sigma>', w')"
  have E2: "extends u2 F" using extends_kept [OF k(3) F(1)] .
  have E1: "extends u1 F" using extends_kept [OF k(2) E2] .
  have Eu: "extends u F" using extends_kept [OF k(1) E1] .
  have Ev: "extends v1 F" using extends_kept [OF kept_trans [OF u(1)] Eu] u(4) kept_items by blast
  have pF: "fv_params F a = []" "fv_params F b = []" "fv_params F k = ps" using Eu ps(1-4) by (auto simp: extends_def)
  have "kept v1 u" using kept_trans [OF u(1) kept_items] u(4) by simp
  then have dom: "dom (fv_types v1) \<subseteq> dom (fv_types u)" "dom (fv_types v1) \<subseteq> dom (fv_types u1)"
    using kept_dom kept_trans [OF _ k(1)] by blast+
  obtain y \<sigma>1 w1 ys where e1: "sc (\<sigma>, c_world c) = Some ([y], \<sigma>1, w1)"
      and e2: "(if y = 0 then se (\<sigma>1, w1) else st (\<sigma>1, w1)) = Some (ys, \<sigma>', w')" and rs: "rs = (if phi then ys else [])"
    using e unfolding sem_if_def by (auto split: option.splits list.splits)
  obtain c1 where c1: "runs P X F v v1 c c1" "c_world c1 = w1" "slots_hold E \<sigma>1 (c_vars c1)" "map (c_vals c1) [x] = [y]" "reached P X F K c1"
    by (rule simulatesE [OF cnd(1) Ev F(2-5) e1])
  have at: "at_end u0 c1" using runs_end [OF c1(1)] u(2,3) by (simp add: at_end_def)
  have cu: "cur u0 \<in> fv_blocks u0" using kept_blocks [OF u(1)] cnd(3) u(2) by auto
  obtain c2 where c2: "msteps P X F c1 c2" "c_block c2 = (if y = 0 then b else a)" "c_pos c2 = 0" "c_vars c2 = c_vars c1"
      "c_world c2 = w1" "c_vals c2 = c_vals c1"
    by (rule step_br [OF Eu [unfolded u(4)] cu at pF(1,2)]) (use c1(2,4) in auto)
  have r2: "reached P X F K c2" using reached_runs [OF c1(5) c2(1)] .
  have m2: "slots_hold E \<sigma>1 (c_vars c2)" using c1(3) c2(4) by simp
  obtain c3 where c3: "msteps P X F c2 c3" "c_block c3 = k" "c_pos c3 = 0" "slots_hold E \<sigma>' (c_vars c3)" "c_world c3 = w'"
      "phi \<longrightarrow> map (c_vals c3) (fv_params F k) = ys" "\<forall>z \<in> dom (fv_types v1) - set (fv_params F k). c_vals c3 z = c_vals c2 z"
  proof (cases "y = 0")
    case True
    then have "c_block c2 = b" and eq: "se (\<sigma>1, c_world c2) = Some (ys, \<sigma>', w')" using c2(2,5) e2 by auto
    then obtain c' where c': "msteps P X F c2 c'" "c_block c' = k" "c_pos c' = 0" "slots_hold E \<sigma>' (c_vars c')" "c_world c' = w'"
        "phi \<longrightarrow> map (c_vals c') (fv_params F k) = ys" "\<forall>z \<in> dom (fv_types u1) - set (fv_params F k). c_vals c' z = c_vals c2 z"
      using arm_simE [OF arms(2) E2 F(2) r2 _ c2(3) m2 eq] by metis
    moreover have "\<forall>z \<in> dom (fv_types v1) - set (fv_params F k). c_vals c' z = c_vals c2 z" using c'(7) dom(2) by blast
    ultimately show ?thesis using that by blast
  next
    case False
    then have "c_block c2 = a" and eq: "st (\<sigma>1, c_world c2) = Some (ys, \<sigma>', w')" using c2(2,5) e2 by auto
    then obtain c' where c': "msteps P X F c2 c'" "c_block c' = k" "c_pos c' = 0" "slots_hold E \<sigma>' (c_vars c')" "c_world c' = w'"
        "phi \<longrightarrow> map (c_vals c') (fv_params F k) = ys" "\<forall>z \<in> dom (fv_types u) - set (fv_params F k). c_vals c' z = c_vals c2 z"
      using arm_simE [OF arms(1) E1 F(2) r2 _ c2(3) m2 eq] by metis
    moreover have "\<forall>z \<in> dom (fv_types v1) - set (fv_params F k). c_vals c' z = c_vals c2 z" using c'(7) dom(1) by blast
    ultimately show ?thesis using that by blast
  qed
  have "msteps P X F c c3" using c1(1) c2(1) c3(1) unfolding runs_def by (meson rtranclp_trans)
  moreover have "at_end w c3" using c3(2,3) k(4,5) by (simp add: at_end_def)
  moreover have "c_vals c3 z = c_vals c z" if z: "z \<in> dom (fv_types v)" for z
  proof -
    have "z \<in> dom (fv_types v1)" "z \<notin> set ps" using z kept_dom [OF cnd(2)] ps(5) by auto
    then show ?thesis using c3(7) c2(6) c1(1) z pF(3) by (auto simp: runs_def)
  qed
  ultimately show "\<exists>c'. runs P X F v w c c' \<and> c_world c' = w' \<and> slots_hold E \<sigma>' (c_vars c') \<and> map (c_vals c') ps = rs"
    using c3(4-6) rs pF(3) ps(6) by (intro exI [of _ c3]) (auto simp: runs_def)
qed

text \<open>The rounds of a loop, from the start of its head \<open>a\<close> to the start of \<open>d\<close>.\<close>

lemma loop_run:
  assumes cnd: "simulates P X E w0 v [x] sc" "kept w0 v" "cur v \<in> fv_blocks v" "cur w0 = a" "cur_code w0 = []"
    and u: "u = v_items [Ins (Brz x d []) [], Ins (Jump b []) []] v" "kept u u1"
    and body: "arm_sim P X E u u1 b a False sb"
    and F: "extends u1 F" "uses_sound F K P X" "fv_params F a = []" "fv_params F b = []" "fv_params F d = []"
  shows "reached P X F K c \<Longrightarrow> c_block c = a \<Longrightarrow> c_pos c = 0 \<Longrightarrow> slots_hold E \<sigma> (c_vars c) \<Longrightarrow> loop n sc sb (\<sigma>, c_world c) = Some (\<sigma>', w') \<Longrightarrow>
    \<exists>c'. msteps P X F c c' \<and> c_block c' = d \<and> c_pos c' = 0 \<and> slots_hold E \<sigma>' (c_vars c') \<and> c_world c' = w'
      \<and> (\<forall>z \<in> dom (fv_types w0). c_vals c' z = c_vals c z)"
proof (induction n arbitrary: c \<sigma>)
  case (Suc n)
  have Eu: "extends u F" using extends_kept [OF u(2) F(1)] .
  have Ev: "extends v F" using extends_kept [OF kept_items] Eu u(1) by blast
  have at: "at_end w0 c" using Suc(3,4) cnd(4,5) by (simp add: at_end_def)
  obtain y \<sigma>1 w1 where e1: "sc (\<sigma>, c_world c) = Some ([y], \<sigma>1, w1)"
    using Suc(6) by (auto split: option.splits list.splits)
  have e2: "(if y = 0 then Some (\<sigma>1, w1) else case sb (\<sigma>1, w1) of Some (_, st) \<Rightarrow> loop n sc sb st | None \<Rightarrow> None) = Some (\<sigma>', w')"
    using Suc(6) e1 by simp
  obtain c1 where c1: "runs P X F w0 v c c1" "c_world c1 = w1" "slots_hold E \<sigma>1 (c_vars c1)" "map (c_vals c1) [x] = [y]" "reached P X F K c1"
    by (rule simulatesE [OF cnd(1) Ev F(2) Suc(2) at Suc(5) e1])
  obtain c2 where c2: "msteps P X F c1 c2" "c_block c2 = (if y = 0 then d else b)" "c_pos c2 = 0" "c_vars c2 = c_vars c1"
      "c_world c2 = w1" "c_vals c2 = c_vals c1"
    by (rule step_br [OF Eu [unfolded u(1)] cnd(3) runs_end [OF c1(1)] F(4,5)]) (use c1(2,4) in auto)
  have s2: "msteps P X F c c2" using c1(1) c2(1) unfolding runs_def by (meson rtranclp_trans)
  have v2: "\<forall>z \<in> dom (fv_types w0). c_vals c2 z = c_vals c z" using c1(1) c2(6) by (simp add: runs_def)
  show ?case
  proof (cases "y = 0")
    case True
    with e2 s2 v2 c2 c1(3) show ?thesis by (intro exI [of _ c2]) auto
  next
    case False
    with e2 obtain ys \<sigma>2 w2 where b1: "sb (\<sigma>1, c_world c2) = Some (ys, \<sigma>2, w2)" and b2: "loop n sc sb (\<sigma>2, w2) = Some (\<sigma>', w')"
      using c2(5) by (auto split: option.splits)
    have m2: "slots_hold E \<sigma>1 (c_vars c2)" "c_block c2 = b" using c1(3) c2(2,4) False by simp_all
    obtain c3 where c3: "msteps P X F c2 c3" "c_block c3 = a" "c_pos c3 = 0" "slots_hold E \<sigma>2 (c_vars c3)" "c_world c3 = w2"
        "\<forall>z \<in> dom (fv_types u) - set (fv_params F a). c_vals c3 z = c_vals c2 z"
      using arm_simE [OF body F(1,2) reached_runs [OF Suc(2) s2] m2(2) c2(3) m2(1) b1] by metis
    have s3: "msteps P X F c c3" using s2 c3(1) by (rule rtranclp_trans)
    have "dom (fv_types w0) \<subseteq> dom (fv_types u)" using kept_dom [OF cnd(2)] u(1) by simp
    then have v3: "\<forall>z \<in> dom (fv_types w0). c_vals c3 z = c_vals c z"
      using c3(6) v2 unfolding F(3) by (metis Diff_empty list.set(1) subsetD)
    obtain c4 where "msteps P X F c3 c4" "c_block c4 = d" "c_pos c4 = 0" "slots_hold E \<sigma>' (c_vars c4)" "c_world c4 = w'"
        "\<forall>z \<in> dom (fv_types w0). c_vals c4 z = c_vals c3 z"
      using Suc(1) [OF reached_runs [OF Suc(2) s3] c3(2-4)] b2 c3(5) by auto
    with s3 v3 show ?thesis by (intro exI [of _ c4]) (auto intro: rtranclp_trans)
  qed
qed simp

lemma while_sim:
  assumes v0: "cur v0 \<in> fv_blocks v0" "kept v0 u0" "cur u0 = cur v0" "cur_code u0 = cur_code v0"
    and w0: "kept (v_items [Ins (Jump a []) []] u0) w0" "cur w0 = a" "cur_code w0 = []"
    and cnd: "simulates P X E w0 v [x] sc" "kept w0 v" "cur v \<in> fv_blocks v"
    and u: "u = v_items [Ins (Brz x d []) [], Ins (Jump b []) []] v" "kept u u1"
    and body: "arm_sim P X E u u1 b a False sb"
    and w: "kept u1 w" "cur w = d" "cur_code w = []" "{a, b, d} \<subseteq> fv_blocks u1"
      "fv_params u1 a = []" "fv_params u1 b = []" "fv_params u1 d = []"
  shows "simulates P X E v0 w [] (\<lambda>st. map_option (\<lambda>st. ([], st)) (loop n sc sb st))"
proof (rule simulatesI)
  fix F K c \<sigma> \<sigma>' w' and rs :: "u64 list"
  assume F: "extends w F" "uses_sound F K P X" "reached P X F K c" "at_end v0 c" "slots_hold E \<sigma> (c_vars c)"
    and e: "map_option (\<lambda>st. ([], st)) (loop n sc sb (\<sigma>, c_world c)) = Some (rs, \<sigma>', w')"
  have E1: "extends u1 F" using extends_kept [OF w(1) F(1)] .
  have pF: "fv_params F a = []" "fv_params F b = []" "fv_params F d = []" using E1 w(4-7) by (auto simp: extends_def)
  have "kept v u" using u(1) kept_items by blast
  then have E0: "extends (v_items [Ins (Jump a []) []] u0) F"
    using extends_kept [OF kept_trans [OF kept_trans [OF kept_trans [OF w0(1) cnd(2)]] u(2)] E1] by blast
  have cu: "cur u0 \<in> fv_blocks u0" "at_end u0 c" using v0 kept_blocks [OF v0(2)] F(4) by (auto simp: at_end_def)
  obtain c1 where c1: "msteps P X F c c1" "c_block c1 = a" "c_pos c1 = 0" "c_vars c1 = c_vars c" "c_world c1 = c_world c" "c_vals c1 = c_vals c"
    by (rule step_jump [OF E0 cu pF(1)])
  obtain c2 where c2: "msteps P X F c1 c2" "c_block c2 = d" "c_pos c2 = 0" "slots_hold E \<sigma>' (c_vars c2)" "c_world c2 = w'"
      "\<forall>z \<in> dom (fv_types w0). c_vals c2 z = c_vals c1 z"
    using loop_run [OF cnd w0(2,3) u body E1 F(2) pF reached_runs [OF F(3) c1(1)] c1(2,3), of \<sigma> n \<sigma>' w'] F(5) c1(4,5) e by auto
  have "dom (fv_types v0) \<subseteq> dom (fv_types w0)" using kept_dom [OF v0(2)] kept_dom [OF w0(1)] by simp
  then have "runs P X F v0 w c c2"
    using c1(1,6) c2 w(2,3) by (auto simp: runs_def at_end_def intro: rtranclp_trans)
  then show "\<exists>c'. runs P X F v0 w c c' \<and> c_world c' = w' \<and> slots_hold E \<sigma>' (c_vars c') \<and> map (c_vals c') [] = rs"
    using c2(4,5) e by auto
qed

subsection \<open>The operations on blocks\<close>

lemma env_ok_same:
  "env_ok view syms E s \<Longrightarrow> tr_local_offsets s' = tr_local_offsets s \<Longrightarrow> tr_mods s' = tr_mods s \<Longrightarrow>
   tr_ir_module s' = tr_ir_module s \<Longrightarrow> fv_vars (view (tr_cl s')) = fv_vars (view (tr_cl s)) \<Longrightarrow> env_ok view syms E s'"
  by (simp add: env_ok_def)

lemma idle_items: "good_view v \<Longrightarrow> terminator i \<Longrightarrow> idle (v_items [Ins i []] v)"
  using good_view_cur [of v] by (auto simp: idle_def good_view_def)

lemma good_view_seal: "good_view v \<Longrightarrow> k \<in> fv_blocks v \<Longrightarrow> good_view (v_seal k v)"
  by (auto simp: good_view_def open_block_def)

context clif_contract
begin

lemma new_block_ok:
  assumes "env_ok view syms E s"
  obtains k s' where "new_block C s = rret (k, s')" and "k \<notin> fv_blocks (view (tr_cl s))"
    and "view (tr_cl s') = v_create k (view (tr_cl s))" and "env_ok view syms E s'"
proof -
  obtain k b where b: "create_block C (tr_cl s) = Ret (k, b)" "k \<notin> fv_blocks (view (tr_cl s))" "view b = v_create k (view (tr_cl s))"
    using create_law by blast
  let ?s = "s\<lparr>tr_cl := b, tr_blocks := tr_blocks s @ [k]\<rparr>"
  have "env_ok view syms E ?s" using env_ok_same [OF assms, of ?s] b(3) by simp
  then show ?thesis using that [of k ?s] b by (simp add: new_block_def on_cl_def rret_def)
qed

lemma fork_ok:
  assumes "env_ok view syms E s"
  obtains a b c s1 s2 s3 where "new_block C s = rret (a, s1)" and "new_block C s1 = rret (b, s2)" and "new_block C s2 = rret (c, s3)"
    and "view (tr_cl s3) = v_fork [a, b, c] (view (tr_cl s))" and "distinct [a, b, c]"
    and "set [a, b, c] \<inter> fv_blocks (view (tr_cl s)) = {}" and "env_ok view syms E s3"
proof -
  obtain a s1 where a: "new_block C s = rret (a, s1)" "a \<notin> fv_blocks (view (tr_cl s))"
      "view (tr_cl s1) = v_create a (view (tr_cl s))" "env_ok view syms E s1"
    by (rule new_block_ok [OF assms])
  obtain b s2 where b: "new_block C s1 = rret (b, s2)" "b \<notin> fv_blocks (view (tr_cl s1))"
      "view (tr_cl s2) = v_create b (view (tr_cl s1))" "env_ok view syms E s2"
    by (rule new_block_ok [OF a(4)])
  obtain c s3 where c: "new_block C s2 = rret (c, s3)" "c \<notin> fv_blocks (view (tr_cl s2))"
      "view (tr_cl s3) = v_create c (view (tr_cl s2))" "env_ok view syms E s3"
    by (rule new_block_ok [OF b(4)])
  show ?thesis
    by (rule that [OF a(1) b(1) c(1) _ _ _ c(4)]) (use a b c in \<open>auto simp: v_fork_def\<close>)
qed

lemma emit_ok:
  assumes "env_ok view syms E s" and "can_ins i (view (tr_cl s))" and "\<And>G. result_types G i = []"
  obtains s' where "emit C i s = rret s'" and "view (tr_cl s') = v_items [Ins i []] (view (tr_cl s))" and "env_ok view syms E s'"
proof -
  obtain b where b: "ins C i (tr_cl s) = Ret ([], b)" "view b = v_item (Ins i []) [] [] (view (tr_cl s))"
    using ins_law [OF assms(2)] assms(3) by auto
  let ?s = "s\<lparr>tr_cl := b\<rparr>"
  have "env_ok view syms E ?s" using env_ok_same [OF assms(1), of ?s] b(2) by simp
  then show ?thesis using that [of ?s] b by (simp add: emit_def on_cl_def v_item_items rret_def)
qed

lemma switch_ok:
  assumes "env_ok view syms E s" and "idle (view (tr_cl s))" and "k \<in> fv_blocks (view (tr_cl s))"
    and "fv_code (view (tr_cl s)) k = []"
  obtains s' where "do_cl (switch_to_block C k) s = rret s'" and "view (tr_cl s') = v_switch k (view (tr_cl s))"
    and "env_ok view syms E s'" and "tinv view syms E s'"
    and "\<And>k'. view (tr_cl (s'\<lparr>tr_current_block := k'\<rparr>)) = v_switch k (view (tr_cl s))"
    and "switch_block C k s = rret (s'\<lparr>tr_current_block := k\<rparr>)" and "tinv view syms E (s'\<lparr>tr_current_block := k\<rparr>)"
proof -
  obtain b where b: "switch_to_block C k (tr_cl s) = Ret b" "view b = v_switch k (view (tr_cl s))"
    using switch_law [OF assms(3), of ] assms(2,4) by (auto simp: idle_def)
  let ?s = "s\<lparr>tr_cl := b\<rparr>"
  have e: "env_ok view syms E ?s" "env_ok view syms E (?s\<lparr>tr_current_block := k\<rparr>)"
    using env_ok_same [OF assms(1)] b(2) by simp_all
  have "good_view (view b)" using b(2) assms(2-4) by (auto simp: good_view_def open_block_def idle_def)
  with e show ?thesis
    using that [of ?s] b by (simp add: switch_block_def do_cl_def rret_def tinv_env)
qed

lemma seal_ok:
  assumes "env_ok view syms E s" and "k \<in> fv_blocks (view (tr_cl s))" and "k \<notin> fv_sealed (view (tr_cl s))"
  obtains s' where "do_cl (seal_block C k) s = rret s'" and "view (tr_cl s') = v_seal k (view (tr_cl s))" and "env_ok view syms E s'"
proof -
  obtain b where b: "seal_block C k (tr_cl s) = Ret b" "view b = v_seal k (view (tr_cl s))" using seal_law [OF assms(2,3)] by blast
  let ?s = "s\<lparr>tr_cl := b\<rparr>"
  have "env_ok view syms E ?s" using env_ok_same [OF assms(1), of ?s] b(2) by simp
  then show ?thesis using that [of ?s] b by (simp add: do_cl_def rret_def)
qed

lemma enter_ok:
  assumes "env_ok view syms E s" and "idle (view (tr_cl s))" and "k \<in> fv_blocks (view (tr_cl s))"
    and "fv_code (view (tr_cl s)) k = []" and "k \<notin> fv_sealed (view (tr_cl s))"
  obtains s1 s2 where "switch_block C k s = rret s1" and "do_cl (seal_block C k) s1 = rret s2"
    and "view (tr_cl s2) = v_seal k (v_switch k (view (tr_cl s)))" and "tinv view syms E s2"
proof -
  obtain s1 where s1: "switch_block C k s = rret s1" "view (tr_cl s1) = v_switch k (view (tr_cl s))" "tinv view syms E s1"
    using switch_ok [OF assms(1-4)] by metis
  obtain s2 where s2: "do_cl (seal_block C k) s1 = rret s2" "view (tr_cl s2) = v_seal k (view (tr_cl s1))" "env_ok view syms E s2"
    using seal_ok [of E s1 k] s1(2,3) assms(3,5) by (auto simp: tinv_env)
  have "good_view (view (tr_cl s2))" using good_view_seal [of "view (tr_cl s1)" k] s1(2,3) s2(2) assms(3) by (simp add: tinv_env)
  then show ?thesis using that [OF s1(1) s2(1)] s1(2) s2(2,3) by (simp add: tinv_env)
qed

lemma arm_ok:
  assumes s: "env_ok view syms E s" "idle (view (tr_cl s))"
    and k: "k \<in> fv_blocks (view (tr_cl s))" "fv_code (view (tr_cl s)) k = []" "k \<notin> fv_sealed (view (tr_cl s))"
    and j: "j \<in> fv_blocks (view (tr_cl s))" "j \<notin> fv_sealed (view (tr_cl s))" "j \<noteq> k"
    and ps: "fv_params (view (tr_cl s)) j = ps" "distinct ps" "map (fv_types (view (tr_cl s))) ps = map Some (if phi then ts else [])"
    and tr: "computes view syms P X E tr ts sem"
  obtains s1 s2 vs s3 s4 where "switch_block C k s = rret s1" and "do_cl (seal_block C k) s1 = rret s2"
    and "tr s2 = rret (vs, s3)" and "jump_cont C j phi vs s3 = rret s4" and "env_ok view syms E s4" and "idle (view (tr_cl s4))"
    and "arm (view (tr_cl s)) (view (tr_cl s4)) k" and "k \<in> fv_sealed (view (tr_cl s4))"
    and "\<And>n. arm_sim P X E (view (tr_cl s)) (view (tr_cl s4)) k j phi (sem n)"
proof -
  let ?u = "view (tr_cl s)" and ?w = "v_seal k (v_switch k (view (tr_cl s)))"
  obtain s1 s2 where s2: "switch_block C k s = rret s1" "do_cl (seal_block C k) s1 = rret s2" "view (tr_cl s2) = ?w" "tinv view syms E s2"
    by (rule enter_ok [OF s k])
  obtain vs s3 where s3: "tr s2 = rret (vs, s3)" "tinv view syms E s3" "grows ?w (view (tr_cl s3))"
      "map (fv_types (view (tr_cl s3))) vs = map Some ts" "\<And>n. simulates P X E ?w (view (tr_cl s3)) vs (sem n)"
    by (rule computesE [OF tr s2(4)]) (simp add: s2(3))
  let ?v = "view (tr_cl s3)" and ?js = "if phi then vs else []"
  have g: "good_view ?v" "env_ok view syms E s3" using s3(2) by (simp_all add: tinv_env)
  have cv: "cur ?v \<in> fv_blocks ?v" using tinv_cur [OF s3(2)] .
  have kw: "kept ?w ?v" using grows_kept [OF s3(3)] .
  have bj: "j \<in> fv_blocks ?v" "fv_params ?v j = ps" using kept_blocks [OF kw] kept_params [OF kw, of j] j(1) ps(1) by auto
  have uj: "j \<notin> fv_sealed ?v" using s3(3) j by (auto simp: grows_def same_seals_def)
  have "map (fv_types ?v) ps = map Some (if phi then ts else [])" using typed_kept [OF kw, of ps] ps(3) by simp
  then have "can_ins (Jump j ?js) ?v" using g(1) bj uj s3(4) by (simp add: can_ins_def good_view_def)
  then obtain s4 where s4: "emit C (Jump j ?js) s3 = rret s4" "view (tr_cl s4) = v_items [Ins (Jump j ?js) []] ?v" "env_ok view syms E s4"
    using emit_ok [OF g(2), of "Jump j ?js"] by auto
  have st: "starts ?u ?w k" using starts_switch(2) [of ?u k] s(2) by (simp add: idle_def)
  have lp: "length ps = (if phi then length vs else 0)" using arg_cong [OF ps(3), of length] arg_cong [OF s3(4), of length] by auto
  show ?thesis
  proof (rule that [OF s2(1,2) s3(1) _ s4(3)])
    show "jump_cont C j phi vs s3 = rret s4" using s4(1) by (cases phi) (simp_all add: jump_cont_def)
    show "idle (view (tr_cl s4))" using idle_items [OF g(1)] s4(2) by simp
    show "arm ?u (view (tr_cl s4)) k" "k \<in> fv_sealed (view (tr_cl s4))"
      using arm_intro [OF st s3(3) cv k(1), of "[Ins (Jump j ?js) []]"] s4(2) by (simp_all add: ended_def)
    show "arm_sim P X E ?u (view (tr_cl s4)) k j phi (sem n)" for n
      unfolding s4(2) by (rule arm_sim_intro [OF s3(5) kw cv _ _ _ _ bj ps(2) lp]) (simp_all add: k(2))
  qed
qed

lemma cont_params_ok:
  assumes s: "env_ok view syms E s" and k: "k \<in> fv_blocks (view (tr_cl s))" "fv_code (view (tr_cl s)) k = []" "fv_params (view (tr_cl s)) k = []"
    and t: "phi \<Longrightarrow> scalar_ty t"
  obtains s' ps where "set_cont_params C phi k t s = rret s'" and "env_ok view syms E s'"
    and "view (tr_cl s') = v_param k ps (if phi then ctys t else []) (view (tr_cl s))" and "distinct ps"
    and "length ps = length (if phi then ctys t else [])" and "set ps \<inter> dom (fv_types (view (tr_cl s))) = {}"
proof -
  note thesis_by = that
  have none: ?thesis if "set_cont_params C phi k t s = rret s" "(if phi then ctys t else []) = []"
  proof (rule thesis_by [of s "[]"])
    show "view (tr_cl s) = v_param k [] (if phi then ctys t else []) (view (tr_cl s))"
      using k(3) by (simp add: v_param_def fun_upd_idem)
  qed (use that(1,2) s in simp_all)
  show ?thesis
  proof (cases t rule: word_ty_cases)
    case (1 ct)
    show ?thesis
    proof (cases phi)
      case True
      obtain x b where b: "append_block_param C k ct (tr_cl s) = Ret (x, b)" "view b = v_param k [x] [ct] (view (tr_cl s))"
          "fv_types (view (tr_cl s)) x = None"
        using param_law [OF k(1,2)] by blast
      let ?s = "s\<lparr>tr_cl := b\<rparr>"
      have "env_ok view syms E ?s" using env_ok_same [OF s, of ?s] b(2) by simp
      moreover have "set_cont_params C phi k t s = rret ?s"
        using True t 1(2) b(1) by (simp add: set_cont_params_def translate_scalar_ty on_cl_def rret_def)
      ultimately show ?thesis using that [of ?s "[x]"] b(2,3) True 1(3) by auto
    next
      case False
      then show ?thesis by (intro none) (simp_all add: set_cont_params_def)
    qed
  next
    case 2
    then show ?thesis using t by (intro none) (simp_all add: set_cont_params_def translate_scalar_ty)
  qed
qed

lemma br_ok:
  assumes s: "env_ok view syms E s" "good_view (view (tr_cl s))"
    and x: "fv_types (view (tr_cl s)) x \<in> {Some B1, Some CI64}"
    and ab: "{a, b} \<subseteq> fv_blocks (view (tr_cl s)) - fv_sealed (view (tr_cl s))"
      "fv_params (view (tr_cl s)) a = []" "fv_params (view (tr_cl s)) b = []"
  obtains s1 s2 where "emit C (Brz x b []) s = rret s1" and "emit C (Jump a []) s1 = rret s2" and "env_ok view syms E s2"
    and "view (tr_cl s2) = v_items [Ins (Brz x b []) [], Ins (Jump a []) []] (view (tr_cl s))" and "idle (view (tr_cl s2))"
proof -
  have "can_ins (Brz x b []) (view (tr_cl s))" using s(2) x ab by (auto simp: can_ins_def good_view_def)
  then obtain s1 where s1: "emit C (Brz x b []) s = rret s1" "view (tr_cl s1) = v_items [Ins (Brz x b []) []] (view (tr_cl s))" "env_ok view syms E s1"
    using emit_ok [OF s(1), of "Brz x b []"] by auto
  have "can_ins (Jump a []) (view (tr_cl s1))" using s(2) ab s1(2) by (auto simp: can_ins_def good_view_def open_block_def)
  then obtain s2 where s2: "emit C (Jump a []) s1 = rret s2" "view (tr_cl s2) = v_items [Ins (Jump a []) []] (view (tr_cl s1))" "env_ok view syms E s2"
    using emit_ok [OF s1(3), of "Jump a []"] by auto
  have v: "view (tr_cl s2) = v_items [Ins (Brz x b []) [], Ins (Jump a []) []] (view (tr_cl s))"
    using s1(2) s2(2) by (simp add: v_item_items(2))
  have "ended (cur_code (view (tr_cl s2)))" by (simp add: v ended_def)
  then have "idle (view (tr_cl s2))" using v s(2) good_view_cur [OF s(2)] by (auto simp: idle_def good_view_def)
  with s1(1) s2(1,3) v show ?thesis using that by blast
qed

lemma if_rule:
  assumes cnd: "computes view syms P X E cnd [ct] sc" "ct \<in> {B1, CI64}"
    and thn: "computes view syms P X E thn ta st" and els: "computes view syms P X E els tb se"
    and t: "ttyp = Ret t" "phi \<Longrightarrow> scalar_ty t \<and> ta = ctys t \<and> tb = ctys t"
  shows "computes view syms P X E (trans_if C cnd phi ttyp thn els) (if phi then ctys t else []) (\<lambda>n. sem_if (sc n) phi (st n) (se n))"
proof (rule computesI)
  fix s assume s: "tinv view syms E s"
  let ?ts = "if phi then ctys t else []"
  obtain xs s1 where s1: "cnd s = rret (xs, s1)" "tinv view syms E s1" "grows (view (tr_cl s)) (view (tr_cl s1))"
      "map (fv_types (view (tr_cl s1))) xs = map Some [ct]" "\<And>n. simulates P X E (view (tr_cl s)) (view (tr_cl s1)) xs (sc n)"
    by (rule computesE [OF cnd(1) s]) blast
  obtain x where x: "xs = [x]" "fv_types (view (tr_cl s1)) x = Some ct" using s1(4) by auto
  let ?v = "view (tr_cl s1)"
  have g1: "good_view ?v" "env_ok view syms E s1" using s1(2) by (simp_all add: tinv_env)
  obtain a b c s2 s3 s4 where f: "new_block C s1 = rret (a, s2)" "new_block C s2 = rret (b, s3)" "new_block C s3 = rret (c, s4)"
      "view (tr_cl s4) = v_fork [a, b, c] ?v" "distinct [a, b, c]" "set [a, b, c] \<inter> fv_blocks ?v = {}" "env_ok view syms E s4"
    by (rule fork_ok [OF g1(2)])
  obtain s5 ps where s5: "set_cont_params C phi c t s4 = rret s5" "env_ok view syms E s5" "view (tr_cl s5) = v_param c ps ?ts (view (tr_cl s4))"
      "distinct ps" "length ps = length ?ts" "set ps \<inter> dom (fv_types (view (tr_cl s4))) = {}"
    by (rule cont_params_ok [OF f(7), of c phi t]) (use v_fork_simps [OF f(5,6)] f(4) t(2) in auto)
  have ps: "set ps \<inter> dom (fv_types ?v) = {}" using s5(6) v_fork_simps(6) [OF f(5,6)] f(4) by simp
  note u0 = fork_view [OF g1(1) f(5,6) ps s5(3) [unfolded f(4)]]
  have x5: "fv_types (view (tr_cl s5)) x = Some ct" using kept_types [OF u0(1) x(2)] .
  have ab: "{a, b} \<subseteq> fv_blocks (view (tr_cl s5)) - fv_sealed (view (tr_cl s5))" "c \<notin> fv_sealed (view (tr_cl s5))"
    using u0(2,3) f(5,6) g1(1) by (auto simp: good_view_def)
  obtain s6 s7 where s7: "emit C (Brz x b []) s5 = rret s6" "emit C (Jump a []) s6 = rret s7" "env_ok view syms E s7"
      "view (tr_cl s7) = v_items [Ins (Brz x b []) [], Ins (Jump a []) []] (view (tr_cl s5))" "idle (view (tr_cl s7))"
    by (rule br_ok [OF s5(2) u0(14) _ ab(1) u0(10,11)]) (use x5 cnd(2) in auto)
  have cn: "cur (view (tr_cl s5)) \<notin> {a, b, c}" using u0(4) good_view_cur [OF g1(1)] f(6) by auto
  have u7: "fv_code (view (tr_cl s7)) k = []" "k \<in> fv_blocks (view (tr_cl s7))" "k \<notin> fv_sealed (view (tr_cl s7))" if "k \<in> {a, b, c}" for k
    using that u0(2,5-7) s7(4) cn ab by auto
  have p7: "fv_params (view (tr_cl s7)) c = ps" "map (fv_types (view (tr_cl s7))) ps = map Some ?ts"
    using u0(12,13) s7(4) types_of_fresh [OF s5(5,4)] by simp_all
  have pt: "map (fv_types (view (tr_cl s7))) ps = map Some (if phi then ta else [])"
    "map (fv_types (view (tr_cl s7))) ps = map Some (if phi then tb else [])" using p7(2) t(2) by auto
  obtain s8 s9 va s10 s11 where A: "switch_block C a s7 = rret s8" "do_cl (seal_block C a) s8 = rret s9" "thn s9 = rret (va, s10)"
      "jump_cont C c phi va s10 = rret s11" "env_ok view syms E s11" "idle (view (tr_cl s11))"
      "arm (view (tr_cl s7)) (view (tr_cl s11)) a" "a \<in> fv_sealed (view (tr_cl s11))"
      "\<And>n. arm_sim P X E (view (tr_cl s7)) (view (tr_cl s11)) a c phi (st n)"
    by (rule arm_ok [OF s7(3,5) _ _ _ _ _ _ p7(1) s5(4) pt(1) thn, of a]) (use u7 f(5) in auto)
  note aa = arm_facts [OF A(7)]
  have u11: "fv_code (view (tr_cl s11)) k = []" "k \<in> fv_blocks (view (tr_cl s11))" "k \<notin> fv_sealed (view (tr_cl s11))" if "k \<in> {b, c}" for k
    using that aa(2) aa(4,5) [of k] u7 [of k] f(5) by auto
  have p11: "fv_params (view (tr_cl s11)) c = ps" using kept_params [OF aa(1) u7(2)] p7(1) by simp
  obtain s12 s13 vb s14 s15 where B: "switch_block C b s11 = rret s12" "do_cl (seal_block C b) s12 = rret s13" "els s13 = rret (vb, s14)"
      "jump_cont C c phi vb s14 = rret s15" "env_ok view syms E s15" "idle (view (tr_cl s15))"
      "arm (view (tr_cl s11)) (view (tr_cl s15)) b" "b \<in> fv_sealed (view (tr_cl s15))"
      "\<And>n. arm_sim P X E (view (tr_cl s11)) (view (tr_cl s15)) b c phi (se n)"
    by (rule arm_ok [OF A(5,6) _ _ _ _ _ _ p11 s5(4) typed_kept [OF aa(1) pt(2)] els, of b]) (use u11 f(5) in auto)
  note bb = arm_facts [OF B(7)]
  have u15: "fv_code (view (tr_cl s15)) c = []" "c \<in> fv_blocks (view (tr_cl s15))" "c \<notin> fv_sealed (view (tr_cl s15))"
    using bb(2) bb(4,5) [of c] u11 [of c] f(5) by auto
  obtain s16 s17 where D: "switch_block C c s15 = rret s16" "do_cl (seal_block C c) s16 = rret s17"
      "view (tr_cl s17) = v_seal c (v_switch c (view (tr_cl s15)))" "tinv view syms E s17"
    by (rule enter_ok [OF B(5,6) u15(2,1,3)])
  have kw: "kept (view (tr_cl s15)) (view (tr_cl s17))"
    using D(3) kept_trans [OF kept_switch kept_seal, of "view (tr_cl s15)" c c] B(6) by (simp add: idle_def)
  have a15: "a \<in> fv_sealed (view (tr_cl s15))" using bb(5) [of a] A(8) aa(2) u7(2) [of a] f(5) by auto
  have gr: "grows ?v (view (tr_cl s17))"
    by (rule grows_fork(1) [OF g1(1) u0(15) _ _ A(7) [unfolded s7(4)] B(7) kw]) (use D(3) B(8) a15 in \<open>auto simp: ended_def\<close>)
  have p17: "fv_params (view (tr_cl s17)) c = ps" using kept_params [OF kw u15(2)] kept_params [OF bb(1), of c] u11(2) p11 by simp
  have "simulates P X E (view (tr_cl s)) (view (tr_cl s17)) ps (sem_if (sc n) phi (st n) (se n))" for n
  proof (rule if_sim [OF s1(5) [unfolded x(1)] grows_kept [OF s1(3)] tinv_cur [OF s1(2)] u0(1) _ u0(8) s7(4) aa(1) bb(1) kw])
    show "\<not> phi \<Longrightarrow> ps = []" using s5(5) by simp
  qed (use D(3) u0(4,10,11) u7(2) p7(1) ps u15(1) s7(4) A(9) B(9) in auto)
  moreover have "map (fv_types (view (tr_cl s17))) ps = map Some ?ts"
    using typed_kept [OF kept_trans [OF kept_trans [OF aa(1) bb(1)] kw] p7(2)] .
  moreover have "trans_if C cnd phi ttyp thn els s = rret (ps, s17)"
    using s1(1) x(1) f(1-3) s5(1) s7(1,2) A(1-4) B(1-4) D(1,2) t(1) p17 params_law [of c "tr_cl s17"] D(3) u15
    by (simp add: trans_if_def br_def rret_def)
  ultimately show "\<exists>vs s'. trans_if C cnd phi ttyp thn els s = rret (vs, s') \<and> tinv view syms E s'
      \<and> grows (view (tr_cl s)) (view (tr_cl s')) \<and> map (fv_types (view (tr_cl s'))) vs = map Some ?ts
      \<and> (\<forall>n. simulates P X E (view (tr_cl s)) (view (tr_cl s')) vs (sem_if (sc n) phi (st n) (se n)))"
    using D(4) grows_trans [OF s1(3) gr tinv_cur [OF s]] by blast
qed

lemma while_rule:
  assumes cnd: "computes view syms P X E cnd [ct] sc" "ct \<in> {B1, CI64}" and bdy: "computes view syms P X E body tb sb"
  shows "computes view syms P X E (trans_while C cnd body) [CI64] (\<lambda>n st. map_option (\<lambda>st. ([0], st)) (loop n (sc n) (sb n) st))"
proof (rule computesI)
  fix s assume s: "tinv view syms E s"
  let ?v = "view (tr_cl s)"
  have g: "good_view ?v" "env_ok view syms E s" using s by (simp_all add: tinv_env)
  obtain a b c s1 s2 s3 where f: "new_block C s = rret (a, s1)" "new_block C s1 = rret (b, s2)" "new_block C s2 = rret (c, s3)"
      "view (tr_cl s3) = v_fork [a, b, c] ?v" "distinct [a, b, c]" "set [a, b, c] \<inter> fv_blocks ?v = {}" "env_ok view syms E s3"
    by (rule fork_ok [OF g(2)])
  note u0 = fork_view [OF g(1) f(5,6), of "[]" "view (tr_cl s3)" "[]", unfolded v_param_nil, OF _ f(4), simplified]
  have un: "k \<notin> fv_sealed (view (tr_cl s3))" "k \<noteq> cur (view (tr_cl s3))" if "k \<in> {a, b, c}" for k
    using that u0(3,4) f(6) g(1) good_view_cur [OF g(1)] by (auto simp: good_view_def)
  have "can_ins (Jump a []) (view (tr_cl s3))" using u0 un [of a] by (simp add: can_ins_def good_view_def)
  then obtain s4 where s4: "emit C (Jump a []) s3 = rret s4" "view (tr_cl s4) = v_items [Ins (Jump a []) []] (view (tr_cl s3))" "env_ok view syms E s4"
    using emit_ok [OF f(7), of "Jump a []"] by auto
  have i4: "idle (view (tr_cl s4))" using idle_items [OF u0(14), of "Jump a []"] s4(2) by simp
  have u4: "fv_code (view (tr_cl s4)) k = []" "k \<in> fv_blocks (view (tr_cl s4))" "k \<notin> fv_sealed (view (tr_cl s4))"
      "fv_params (view (tr_cl s4)) k = []" if "k \<in> {a, b, c}" for k
    using that u0(2,5-7,10-12) s4(2) un [of k] by auto
  obtain s5 where s5: "switch_block C a s4 = rret s5" "view (tr_cl s5) = v_switch a (view (tr_cl s4))" "tinv view syms E s5"
    using switch_ok [OF s4(3) i4 u4(2,1)] by (metis insertCI)
  have st5: "starts (view (tr_cl s4)) (view (tr_cl s5)) a" using starts_switch(1) [of "view (tr_cl s4)" a] i4 s5(2) by (simp add: idle_def)
  have k5: "kept (view (tr_cl s4)) (view (tr_cl s5))" using st5 by (simp add: starts_def)
  obtain xs s6 where s6: "cnd s5 = rret (xs, s6)" "tinv view syms E s6" "grows (view (tr_cl s5)) (view (tr_cl s6))"
      "map (fv_types (view (tr_cl s6))) xs = map Some [ct]" "\<And>n. simulates P X E (view (tr_cl s5)) (view (tr_cl s6)) xs (sc n)"
    by (rule computesE [OF cnd(1) s5(3)]) blast
  obtain x where x: "xs = [x]" "fv_types (view (tr_cl s6)) x = Some ct" using s6(4) by auto
  have k6: "kept (view (tr_cl s5)) (view (tr_cl s6))" using grows_kept [OF s6(3)] .
  have u6: "k \<in> fv_blocks (view (tr_cl s6))" "k \<notin> fv_sealed (view (tr_cl s6))" "fv_params (view (tr_cl s6)) k = []" if "k \<in> {a, b, c}" for k
    using u4(2-4) [OF that] s5(2) s6(3) kept_blocks [OF k6] kept_params [OF k6, of k] by (auto simp: grows_def same_seals_def)
  obtain s7 s8 where s8: "emit C (Brz x c []) s6 = rret s7" "emit C (Jump b []) s7 = rret s8" "env_ok view syms E s8"
      "view (tr_cl s8) = v_items [Ins (Brz x c []) [], Ins (Jump b []) []] (view (tr_cl s6))" "idle (view (tr_cl s8))"
    by (rule br_ok [of E s6 x b c]) (use s6(2) x(2) cnd(2) u6 in \<open>auto simp: tinv_env\<close>)
  have A: "arm (view (tr_cl s4)) (view (tr_cl s8)) a" "a \<notin> fv_sealed (view (tr_cl s8))"
    using arm_intro [OF st5 s6(3) tinv_cur [OF s6(2)] u4(2), of "[Ins (Brz x c []) [], Ins (Jump b []) []]"] s8(4) u4(3) s5(2)
    by (simp_all add: ended_def)
  note aa = arm_facts [OF A(1)]
  have u8: "fv_code (view (tr_cl s8)) k = []" "k \<notin> fv_sealed (view (tr_cl s8))" if "k \<in> {b, c}" for k
    using that aa(4,5) [of k] u4 [of k] f(5) by auto
  have b8: "k \<in> fv_blocks (view (tr_cl s8))" "fv_params (view (tr_cl s8)) k = []" if "k \<in> {a, b, c}" for k
    using u6 [OF that] s8(4) by simp_all
  obtain s9 s10 vb s11 s12 where B: "switch_block C b s8 = rret s9" "do_cl (seal_block C b) s9 = rret s10" "body s10 = rret (vb, s11)"
      "jump_cont C a False vb s11 = rret s12" "env_ok view syms E s12" "idle (view (tr_cl s12))"
      "arm (view (tr_cl s8)) (view (tr_cl s12)) b" "b \<in> fv_sealed (view (tr_cl s12))"
      "\<And>n. arm_sim P X E (view (tr_cl s8)) (view (tr_cl s12)) b a False (sb n)"
    by (rule arm_ok [OF s8(3,5) _ _ _ _ _ _ b8(2) _ _ bdy, of b a False]) (use u8 b8(1) A(2) f(5) in auto)
  note bb = arm_facts [OF B(7)]
  have u12: "fv_code (view (tr_cl s12)) c = []" "k \<in> fv_blocks (view (tr_cl s12))" "fv_params (view (tr_cl s12)) k = []"
      "k \<noteq> b \<Longrightarrow> k \<notin> fv_sealed (view (tr_cl s12))" if "k \<in> {a, b, c}" for k
    using that bb(2) bb(4) [of c] bb(5) [of k] u8 b8 A(2) f(5) kept_params [OF bb(1) b8(1)] by auto
  obtain s13 where s13: "do_cl (switch_to_block C c) s12 = rret s13" "view (tr_cl s13) = v_switch c (view (tr_cl s12))" "tinv view syms E s13"
    using switch_ok [OF B(5,6) u12(2,1)] by (metis insertCI)
  obtain s14 where s14: "do_cl (seal_block C a) s13 = rret s14" "view (tr_cl s14) = v_seal a (view (tr_cl s13))" "env_ok view syms E s14"
    using seal_ok [of E s13 a] s13(2,3) u12(2,4) [of a] f(5) by (auto simp: tinv_env)
  obtain s15 where s15: "do_cl (seal_block C c) s14 = rret s15" "view (tr_cl s15) = v_seal c (view (tr_cl s14))" "env_ok view syms E s15"
    using seal_ok [OF s14(3), of c] s13(2) s14(2) u12(2,4) [of c] f(5) by auto
  have w: "view (tr_cl s15) = v_seal c (v_seal a (v_switch c (view (tr_cl s12))))" using s13(2) s14(2) s15(2) by simp
  have "good_view (view (tr_cl s15))"
    using good_view_seal [OF good_view_seal, of "view (tr_cl s13)" a c] s13(2,3) s14(2) s15(2) u12(2) by (simp add: tinv_env)
  then have t15: "tinv view syms E s15" using s15(3) by (simp add: tinv_env)
  have kw: "kept (view (tr_cl s12)) (view (tr_cl s15))"
    using w kept_trans [OF kept_trans [OF kept_switch kept_seal] kept_seal, of "view (tr_cl s12)" c a c] B(6) by (simp add: idle_def)
  have gr: "grows ?v (view (tr_cl s15))"
    by (rule grows_fork(1) [OF g(1) u0(15) _ _ A(1) [unfolded s4(2)] B(7) kw]) (use w B(8) in \<open>auto simp: ended_def\<close>)
  obtain z s16 where z: "emit_value C (Iconst CI64 0) s15 = rret (z, s16)" "tinv view syms E s16" "grows (view (tr_cl s15)) (view (tr_cl s16))"
      "view (tr_cl s16) = v_item (Ins (Iconst CI64 0) [z]) [z] [CI64] (view (tr_cl s15))" "fv_types (view (tr_cl s15)) z = None"
    by (rule emit_value_ok [OF t15, of "Iconst CI64 0" CI64]) auto
  have "simulates P X E ?v (view (tr_cl s16)) [z] (\<lambda>st. map_option (\<lambda>st. ([0], st)) (loop n (sc n) (sb n) st))" for n
  proof -
    have "simulates P X E ?v (view (tr_cl s15)) [] (\<lambda>st. map_option (\<lambda>st. ([], st)) (loop n (sc n) (sb n) st))"
      by (rule while_sim [OF tinv_cur [OF s] u0(1) _ u0(8) k5 [unfolded s4(2)] _ _ s6(5) [unfolded x(1)] k6 tinv_cur [OF s6(2)] s8(4) bb(1) B(9) kw])
        (use u0(4) s5(2) s4(2) u4(1) w u12 in auto)
    then have "simulates P X E ?v (view (tr_cl s16)) [z] (sem_apply (\<lambda>st. map_option (\<lambda>st. ([], st)) (loop n (sc n) (sb n) st)) (\<lambda>_ w. Some ([0], w)))"
      by (rule simulates_ins [OF _ grows_kept [OF gr] tinv_cur [OF t15] z(4)]) (use z(5) in auto)
    then show ?thesis
      by (rule simulates_weaken) (auto simp: sem_apply_def split: option.splits)
  qed
  moreover have "trans_while C cnd body s = rret ([z], s16)"
    using f(1-3) s4(1) s5(1) s6(1) x(1) s8(1,2) B(1-4) s13(1) s14(1) s15(1) z(1) by (simp add: trans_while_def jump_cont_def)
  ultimately show "\<exists>vs s'. trans_while C cnd body s = rret (vs, s') \<and> tinv view syms E s' \<and> grows ?v (view (tr_cl s'))
      \<and> map (fv_types (view (tr_cl s'))) vs = map Some [CI64]
      \<and> (\<forall>n. simulates P X E ?v (view (tr_cl s')) vs (\<lambda>st. map_option (\<lambda>st. ([0], st)) (loop n (sc n) (sb n) st)))"
    using z(2,4) grows_trans [OF gr z(3) tinv_cur [OF s]] by (intro exI [of _ "[z]"] exI [of _ s16]) simp
qed

end

end
