(* ===== verification/VmProps.thy ===== *)
theory VmProps
  imports VmFlow
begin

section \<open>Properties of the translation\<close>

text \<open>
  The rules for the forms of expression give the theorem for expressions, and with the
  declaration of the variables the one for functions.
\<close>

subsection \<open>Expressions\<close>

lemma expr_typ_coherent: "coherent e \<Longrightarrow> ty_of e = Some t \<Longrightarrow> expr_typ e = Ret t"
  by (erule typing.query_obtain) (auto simp: expr_typ_def)

lemma callee_typ: "callee_of f = Some r \<Longrightarrow> ty_of f = Some (TFunction r)"
  by (auto simp: callee_of_def split: option.splits ty.splits)

lemma trans_eta:
  "trans_expr C (IrExpr i c) = trans_iexpr C i"
  "trans_iexpr C (IBinary l op r) = (\<lambda>s. rbind (trans_binary C (trans_expr C l) (expr_typ l) (kind op) (trans_expr C r) s)
     (\<lambda>(v, s). rret ([v], s)))"
  "trans_iexpr C (IConstant k) = (\<lambda>s. rbind (trans_constant C k s) (\<lambda>(v, s). rret ([v], s)))"
  "trans_iexpr C (IBlock es) = trans_block C es []"
  "trans_iexpr C (IIf cnd t e phi) = trans_if C (trans_expr C cnd) phi (expr_typ t) (trans_expr C t) (trans_expr C e)"
  "trans_iexpr C (IWhile cnd t) = trans_while C (trans_expr C cnd) (trans_expr C t)"
  "trans_iexpr C (IVariable j ty) = variable_expr C j ty"
  "trans_iexpr C (IAssign t e) = (case inner t of IVariable j ty \<Rightarrow> assign_var C j (trans_expr C e) ty
     | _ \<Rightarrow> (\<lambda>s. Some (Panic (PanicMsg ''Unknown assignment target!''))))"
  "trans_iexpr C (ICall f es) = trans_call C (expr_typ f) (trans_args C es [])"
  "eval P Y n (IrExpr i c) = ieval P Y n i"
  "ieval P Y n (IBinary l op r) = sem_bin P (ty_of l) (kind op) (eval P Y n l) (eval P Y n r)"
  "ieval P Y n (IConstant k) = (\<lambda>st. Some ([sem_const k], st))"
  "ieval P Y n (IBlock es) = eval_block P Y n es []"
  "ieval P Y n (IIf cnd t e phi) = sem_if (eval P Y n cnd) phi (eval P Y n t) (eval P Y n e)"
  "ieval P Y n (IWhile cnd t) = (\<lambda>st. map_option (\<lambda>st. ([0], st)) (loop n (eval P Y n cnd) (eval P Y n t) st))"
  "ieval P Y n (IVariable j ty) = sem_var j ty"
  "ieval P Y n (IAssign t e) = (case inner t of IVariable j ty \<Rightarrow> (\<lambda>st. map_option (\<lambda>(xs, st). (xs, sem_store j ty xs st)) (eval P Y n e st))
     | _ \<Rightarrow> (\<lambda>st. None))"
  "ieval P Y n (ICall f es) = sem_call Y (callee_of f) (eval_args P Y n es [])"
  by (auto simp: fun_eq_iff split: iexpr.splits)

subsection \<open>Slots of variables\<close>

text \<open>Where the translator puts the variables when each has the number of its position: a word
  variable takes the next slot, one without a value none.\<close>

definition words :: "ty list \<Rightarrow> nat" where
  "words tys = length (filter word_ty tys)"

definition offs_of :: "ty list \<Rightarrow> nat list" where
  "offs_of tys = map (\<lambda>k. words (take k tys)) [0..<Suc (length tys)]"

lemma words_simps [simp]: "words [] = 0" "words (xs @ ys) = words xs + words ys"
  "words [t] = (if word_ty t then 1 else 0)"
  by (simp_all add: words_def)

lemma length_offs_of [simp]: "length (offs_of tys) = Suc (length tys)"
  by (simp add: offs_of_def)

lemma nth_offs_of: "i \<le> length tys \<Longrightarrow> offs_of tys ! i = words (take i tys)"
  by (simp add: offs_of_def del: upt_Suc)

lemma offs_of_Nil: "offs_of [] = [0]"
  by (simp add: offs_of_def)

lemma offs_of_snoc: "offs_of (tys @ [t]) = offs_of tys @ [words (tys @ [t])]"
  by (rule nth_equalityI) (auto simp: nth_append nth_offs_of less_Suc_eq)

lemma words_less:
  assumes "i < j" and "j \<le> length tys" and "word_ty (tys ! i)"
  shows "words (take i tys) < words (take j tys)"
proof -
  have "take j tys = take i tys @ drop i (take j tys)" by (metis append_take_drop_id assms(1) less_imp_le min.absorb1 take_take)
  moreover have "drop i (take j tys) = tys ! i # drop (Suc i) (take j tys)"
    using assms(1,2) by (simp add: Cons_nth_drop_Suc [symmetric])
  ultimately have "words (take j tys) = words (take i tys) + words (tys ! i # drop (Suc i) (take j tys))" by (metis words_simps(2))
  with assms(3) show ?thesis by (simp add: words_def)
qed

lemma words_bound: "words tys \<le> length tys"
  by (simp add: words_def)

lemma slots_ok_offs:
  assumes "length tys < 2 ^ 32"
  shows "slots_ok \<lparr>fe_mods = M, fe_tys = tys, fe_offs = offs_of tys\<rparr>"
proof -
  have "offs_of tys ! i < 2 ^ 32" if "i < length tys" for i
    using that words_bound [of "take i tys"] assms by (simp add: nth_offs_of)
  moreover have "i = j" if "i < length tys" "j < length tys" "word_ty (tys ! i)" "word_ty (tys ! j)" "offs_of tys ! i = offs_of tys ! j" for i j
    using that words_less [of i j tys] words_less [of j i tys] by (cases i j rule: linorder_cases) (auto simp: nth_offs_of)
  ultimately show ?thesis by (auto simp: slots_ok_def)
qed

subsection \<open>Functions\<close>

text \<open>The functions the translation is right for: their signature is that of their types, their
  body is translatable to the values they return, and they have either no parameters, or one word
  parameter and no locals. Parameters and locals are numbered from zero each, so with both a local
  would share the slot of the parameter.\<close>

definition fn_env :: "(nat \<Rightarrow> ir_module) \<Rightarrow> ir_function \<Rightarrow> fenv" where
  "fn_env M f = (let tys = map vs_ty (irf_params f @ irf_locals f) in \<lparr>fe_mods = M, fe_tys = tys, fe_offs = offs_of tys\<rparr>)"

definition fn_vars_ok :: "ir_function \<Rightarrow> bool" where
  "fn_vars_ok f \<longleftrightarrow> length (irf_params f @ irf_locals f) < 2 ^ 32 \<and>
     (irf_params f = [] \<and> (\<forall>k < length (irf_locals f). vs_index (irf_locals f ! k) = k \<and> scalar_ty (vs_ty (irf_locals f ! k)))
      \<or> (\<exists>p. irf_params f = [p] \<and> vs_index p = 0 \<and> word_ty (vs_ty p)) \<and> irf_locals f = [])"

definition fn_ready :: "(nat \<Rightarrow> ir_module) \<Rightarrow> ir_function \<Rightarrow> signature \<Rightarrow> bool" where
  "fn_ready M f g \<longleftrightarrow> make_fn_sig M f \<lparr>sig_params = [], sig_returns = []\<rparr> = rret g \<and> fn_vars_ok f
     \<and> coherent (irf_body f) \<and> vtypes (fn_env M f) (irf_body f) = Some (sig_returns g)"

text \<open>The variables at the call: the arguments, and whatever the slots of the locals hold.\<close>

definition start_store :: "(nat \<Rightarrow> ir_module) \<Rightarrow> ir_function \<Rightarrow> u64 list \<Rightarrow> (nat \<Rightarrow> u64) \<Rightarrow> nat \<Rightarrow> u64" where
  "start_store M f args vars i = (if i < length (irf_params f) then args ! i else vars (fe_offs (fn_env M f) ! i))"

definition entry_view :: "'k \<Rightarrow> 'v list \<Rightarrow> signature \<Rightarrow> ('v, 'k, 'r) fview" where
  "entry_view k xs g = v_seal k (v_param k xs (sig_params g) (v_switch k (v_create k (v_empty g))))"

lemma entry_view_simps [simp]:
  "fv_blocks (entry_view k xs g) = {k}" "fv_sealed (entry_view k xs g) = {k}" "fv_current (entry_view k xs g) = Some k"
  "fv_entry (entry_view k xs g) = Some k" "fv_sig (entry_view k xs g) = g" "fv_code (entry_view k xs g) = (\<lambda>_. [])"
  "fv_params (entry_view k xs g) k = xs" "fv_types (entry_view k xs g) = map_of (zip xs (sig_params g))"
  by (simp_all add: entry_view_def v_empty_def fun_eq_iff)

lemma good_entry: "good_view ((entry_view k xs g)\<lparr>fv_vars := vars\<rparr>)"
  by (simp add: good_view_def open_block_def)

lemma push_params_scalar:
  "\<forall>p \<in> set ps. scalar_ty (vs_ty p) \<Longrightarrow>
   push_params M ps g = rret (g\<lparr>sig_params := sig_params g @ concat (map (\<lambda>p. ctys (vs_ty p)) ps)\<rparr>)"
  by (induction ps arbitrary: g) (simp_all add: translate_scalar_ty ctys_def case_prod_beta)

lemma word_scalar: "word_ty t \<Longrightarrow> scalar_ty t"
  by (cases t) (simp_all add: word_ty_def scalar_ty_def)

lemma fn_sig_params:
  assumes "make_fn_sig M f \<lparr>sig_params = [], sig_returns = []\<rparr> = rret g" and "\<forall>p \<in> set (irf_params f). scalar_ty (vs_ty p)"
  shows "sig_params g = concat (map (\<lambda>p. ctys (vs_ty p)) (irf_params f))"
  using assms(1) unfolding make_fn_sig_def push_params_scalar [OF assms(2)]
  by (cases "translate_type M (irf_ret_type f)") (auto simp: rbind_def rret_def split: outcome.splits)

text \<open>The variables declared so far.\<close>

definition dinv :: "('b \<Rightarrow> ('v, 'k, 'r) fview) \<Rightarrow> ty list \<Rightarrow> ('v, 'k, 'r) fview \<Rightarrow> ('b, 'k, 'm) translator \<Rightarrow> bool" where
  "dinv view tys v s \<longleftrightarrow> tr_local_offsets s = offs_of tys
     \<and> (\<exists>vars. view (tr_cl s) = v\<lparr>fv_vars := vars\<rparr> \<and> (\<forall>x \<ge> words tys. vars x = None)
          \<and> (\<forall>i < length tys. word_ty (tys ! i) \<longrightarrow> vars (offs_of tys ! i) = Some (hd (ctys (tys ! i)))))"

text \<open>A complete function that returns what the body of \<open>f\<close> means, for every call.\<close>

definition implements :: "fpu \<Rightarrow> 'w calls \<Rightarrow> (nat \<Rightarrow> ir_module) \<Rightarrow> ir_function \<Rightarrow> signature \<Rightarrow> ('v, 'k, 'r) fview \<Rightarrow> bool" where
  "implements P X M f g F \<longleftrightarrow> complete F \<and> fv_sig F = g \<and> (\<exists>k. fv_entry F = Some k
     \<and> (\<forall>n args vals vars w ys \<sigma>' w'. length args = length (sig_params g) \<longrightarrow>
          eval P (calls_of M X) n (irf_body f) (start_store M f args vars, w) = Some (ys, \<sigma>', w') \<longrightarrow>
          returns_from P X F (entry_config F k args vals vars w) ys w' \<and> length ys = length (sig_returns g)))"

text \<open>The state after the declarations: the invariant holds, and every call gets there with the
  variables as the call leaves them.\<close>

definition declared :: "('b \<Rightarrow> ('v, 'k, 'r) fview) \<Rightarrow> ('m \<Rightarrow> nat \<rightharpoonup> string \<times> signature) \<Rightarrow> fpu \<Rightarrow> 'w calls \<Rightarrow>
    (nat \<Rightarrow> ir_module) \<Rightarrow> ir_function \<Rightarrow> signature \<Rightarrow> 'k \<Rightarrow> 'v list \<Rightarrow> ('b, 'k, 'm) translator \<Rightarrow> bool" where
  "declared view syms P X M f g k xs s \<longleftrightarrow> tinv view syms (fn_env M f) s \<and> fv_blocks (view (tr_cl s)) = {k}
     \<and> fv_sealed (view (tr_cl s)) = {k} \<and> cur (view (tr_cl s)) = k \<and> fv_entry (view (tr_cl s)) = Some k
     \<and> fv_sig (view (tr_cl s)) = g \<and> fv_params (view (tr_cl s)) k = xs
     \<and> (\<forall>F args vals vars (w :: 'w). extends (view (tr_cl s)) F \<longrightarrow> length args = length xs \<longrightarrow>
          (\<exists>c. msteps P X F (entry_config F k args vals vars w) c \<and> at_end (view (tr_cl s)) c \<and> c_world c = w
             \<and> slots_hold (fn_env M f) (start_store M f args vars) (c_vars c)))"

context clif_contract
begin

lemma args_rule:
  assumes "\<And>e ts. e \<in> set es \<Longrightarrow> vtypes E e = Some ts \<Longrightarrow> computes view syms P X E (trans_expr C e) ts (\<lambda>n. eval P Y n e)"
    and "vt_args E es [] = Some ts"
  shows "computes view syms P X E (trans_args C es []) ts (\<lambda>n. eval_args P Y n es [])"
proof (rule computesI)
  fix s assume s: "tinv view syms E s"
  obtain vs s' where r: "trans_args C es [] s = rret (vs, s')" "tinv view syms E s'" "grows (view (tr_cl s)) (view (tr_cl s'))"
     "map (fv_types (view (tr_cl s'))) vs = map Some ts"
     "\<And>n. simulates P X E (view (tr_cl s)) (view (tr_cl s')) vs (sem_then sem_skip (eval_args P Y n es))"
    using args_aux [OF assms(1) s assms(2) _ grows_refl tinv_cur [OF s] simulates_skip] by auto
  have "simulates P X E (view (tr_cl s)) (view (tr_cl s')) vs (eval_args P Y n es [])" for n
    by (rule simulates_weaken [OF r(5)]) (auto simp: sem_then_def sem_skip_def)
  with r show "\<exists>vs s'. trans_args C es [] s = rret (vs, s') \<and> tinv view syms E s' \<and> grows (view (tr_cl s)) (view (tr_cl s'))
      \<and> map (fv_types (view (tr_cl s'))) vs = map Some ts
      \<and> (\<forall>n. simulates P X E (view (tr_cl s)) (view (tr_cl s')) vs (eval_args P Y n es []))" by blast
qed

lemma trans_expr_computes:
  assumes fit: "calls_fit (fe_mods E) X"
  defines "Y \<equiv> calls_of (fe_mods E) X"
  shows "\<forall>ts. coherent e \<longrightarrow> vtypes E e = Some ts \<longrightarrow> computes view syms P X E (trans_expr C e) ts (\<lambda>n. eval P Y n e)"
    and "\<forall>ts. icoherent i \<longrightarrow> vitypes E i = Some ts \<longrightarrow> computes view syms P X E (trans_iexpr C i) ts (\<lambda>n. ieval P Y n i)"
proof (induction e and i rule: ir_expr.induct iexpr.induct)
  case (IrExpr i c)
  then show ?case by (auto simp: trans_eta)
next
  case (IBinary l op r)
  show ?case
  proof (intro allI impI)
    fix ts assume c: "icoherent (IBinary l op r)" and v: "vitypes E (IBinary l op r) = Some ts"
    obtain t bop where t: "ty_of l = Some t" "binary_op (is_int t) (kind op) = Ret bop" "vtypes E l = Some [bin_arg bop]"
        "vtypes E r = Some [bin_arg bop]" "ts = [bin_result bop]"
      using v by (auto simp: vt_bin_def split: option.splits outcome.splits if_splits)
    have "expr_typ l = Ret t" using expr_typ_coherent c t(1) by simp
    then show "computes view syms P X E (trans_iexpr C (IBinary l op r)) ts (\<lambda>n. ieval P Y n (IBinary l op r))"
      unfolding trans_eta t(1,5) by (intro binary_rule) (use IBinary c t in auto)
  qed
next
  case (IConstant k)
  then show ?case unfolding trans_eta using const_rule by simp
next
  case (IBlock es)
  then show ?case unfolding trans_eta using block_rule by simp
next
  case (IIf cnd t e phi)
  show ?case
  proof (intro allI impI)
    fix ts assume c: "icoherent (IIf cnd t e phi)" and v: "vitypes E (IIf cnd t e phi) = Some ts"
    obtain ct ty ta tb where t: "vtypes E cnd = Some [ct]" "ct \<in> {B1, CI64}" "ty_of t = Some ty" "vtypes E t = Some ta"
        "vtypes E e = Some tb" "ts = (if phi then ctys ty else [])" "phi \<Longrightarrow> scalar_ty ty \<and> ta = ctys ty \<and> tb = ctys ty"
      using v by (auto simp: vt_if_def split: if_splits)
    have ty: "expr_typ t = Ret ty" using expr_typ_coherent c t(3) by simp
    show "computes view syms P X E (trans_iexpr C (IIf cnd t e phi)) ts (\<lambda>n. ieval P Y n (IIf cnd t e phi))"
      unfolding trans_eta t(6) by (rule if_rule [OF _ t(2) _ _ ty t(7)]) (use IIf c t in auto)
  qed
next
  case (IWhile cnd b)
  show ?case
  proof (intro allI impI)
    fix ts assume c: "icoherent (IWhile cnd b)" and v: "vitypes E (IWhile cnd b) = Some ts"
    obtain ct tb where t: "vtypes E cnd = Some [ct]" "ct \<in> {B1, CI64}" "vtypes E b = Some tb" "ts = [CI64]"
      using v by (auto split: if_splits)
    show "computes view syms P X E (trans_iexpr C (IWhile cnd b)) ts (\<lambda>n. ieval P Y n (IWhile cnd b))"
      unfolding trans_eta t(4) by (rule while_rule [OF _ t(2)]) (use IWhile c t in auto)
  qed
next
  case (IVariable j t)
  then show ?case unfolding trans_eta using var_rule by simp
next
  case (IAssign tgt v)
  show ?case
  proof (intro allI impI)
    fix ts assume c: "icoherent (IAssign tgt v)" and w: "vitypes E (IAssign tgt v) = Some ts"
    obtain j t where j: "inner tgt = IVariable j t" "vt_assign (vt_var E j t) (vtypes E v) = Some ts"
      using w by (auto split: iexpr.splits)
    show "computes view syms P X E (trans_iexpr C (IAssign tgt v)) ts (\<lambda>n. ieval P Y n (IAssign tgt v))"
      unfolding trans_eta j(1) iexpr.case by (rule assign_rule [OF j(2)]) (use IAssign(2) c in auto)
  qed
next
  case (ICall f as)
  show ?case
  proof (intro allI impI)
    fix ts assume c: "icoherent (ICall f as)" and v: "vitypes E (ICall f as) = Some ts"
    obtain r g where r: "callee_of f = Some r" "fn_sig (fe_mods E) r = Some g" "vt_args E as [] = Some (sig_params g)" "ts = sig_returns g"
      using v by (auto simp: vt_call_def split: option.splits if_splits)
    have f: "expr_typ f = Ret (TFunction r)" using expr_typ_coherent [OF _ callee_typ [OF r(1)]] c by simp
    have "computes view syms P X E (trans_args C as []) (sig_params g) (\<lambda>n. eval_args P Y n as [])"
      by (rule args_rule [OF _ r(3)]) (use ICall(2) c in auto)
    then show "computes view syms P X E (trans_iexpr C (ICall f as)) ts (\<lambda>n. ieval P Y n (ICall f as))"
      unfolding trans_eta r(1,4) Y_def by (rule call_rule [OF f r(2) fit])
  qed
qed simp


lemma declare_local_ok:
  assumes d: "dinv view tys v s" and i: "vs_index var = length tys" "scalar_ty (vs_ty var)"
  obtains s' where "declare_local C var s = rret s'" and "dinv view (tys @ [vs_ty var]) v s'"
    and "tr_mods s' = tr_mods s" and "tr_ir_module s' = tr_ir_module s" and "tr_blocks s' = tr_blocks s"
proof -
  let ?t = "vs_ty var"
  obtain vars where v: "view (tr_cl s) = v\<lparr>fv_vars := vars\<rparr>" "\<forall>x \<ge> words tys. vars x = None"
      "\<forall>i < length tys. word_ty (tys ! i) \<longrightarrow> vars (offs_of tys ! i) = Some (hd (ctys (tys ! i)))"
    and o: "tr_local_offsets s = offs_of tys" using d by (auto simp: dinv_def)
  have l: "idx (tr_local_offsets s) (vs_index var) = Ret (words tys)" using o i(1) by (simp add: nth_offs_of)
  have old: "offs_of (tys @ [?t]) ! j = offs_of tys ! j" if "j \<le> length tys" for j using that by (simp add: offs_of_snoc nth_append)
  show ?thesis
  proof (cases ?t rule: word_ty_cases)
    case (1 ct)
    obtain b where b: "declare_var C (words tys) ct (tr_cl s) = Ret b" "view b = (view (tr_cl s))\<lparr>fv_vars := vars(words tys \<mapsto> ct)\<rparr>"
      using declare_law [of "tr_cl s" "words tys" ct] v(1,2) by auto
    let ?s = "s\<lparr>tr_cl := b, tr_local_offsets := tr_local_offsets s @ [words tys + 1]\<rparr>"
    have "declare_local C var s = rret ?s"
      using l i(2) 1(2) b(1) by (simp add: declare_local_def translate_scalar_ty do_cl_def rret_def)
    moreover have "dinv view (tys @ [?t]) v ?s"
      unfolding dinv_def
    proof (intro conjI exI [of _ "vars(words tys \<mapsto> ct)"] allI impI)
      fix j assume j: "j < length (tys @ [?t])" "word_ty ((tys @ [?t]) ! j)"
      show "(vars(words tys \<mapsto> ct)) (offs_of (tys @ [?t]) ! j) = Some (hd (ctys ((tys @ [?t]) ! j)))"
      proof (cases "j = length tys")
        case True
        then show ?thesis using 1 by (simp add: old nth_offs_of)
      next
        case False
        with j have j': "j < length tys" "word_ty (tys ! j)" by (auto simp: nth_append)
        then have "offs_of tys ! j < words tys" using words_less [of j "length tys" tys] by (simp add: nth_offs_of)
        then show ?thesis using j' v(3) by (simp add: old nth_append)
      qed
    qed (use 1(1) b(2) v(1,2) o in \<open>auto simp: offs_of_snoc\<close>)
    ultimately show ?thesis using that [of ?s] by simp
  next
    case 2
    let ?s = "s\<lparr>tr_local_offsets := tr_local_offsets s @ [words tys + 0]\<rparr>"
    have "declare_local C var s = rret ?s"
      using l i(2) 2(2) by (simp add: declare_local_def translate_scalar_ty rret_def)
    moreover have "dinv view (tys @ [?t]) v ?s"
      using 2(1) v o old by (auto simp: dinv_def offs_of_snoc nth_append less_Suc_eq)
    ultimately show ?thesis using that [of ?s] by simp
  qed
qed

lemma declare_locals_ok:
  assumes "dinv view tys v s" and "\<forall>k < length ls. vs_index (ls ! k) = length tys + k \<and> scalar_ty (vs_ty (ls ! k))"
  shows "\<exists>s'. rfold (declare_local C) ls s = rret s' \<and> dinv view (tys @ map vs_ty ls) v s'
     \<and> tr_mods s' = tr_mods s \<and> tr_ir_module s' = tr_ir_module s"
  using assms
proof (induction ls arbitrary: tys s)
  case (Cons x xs)
  have h: "vs_index ((x # xs) ! k) = length tys + k" "scalar_ty (vs_ty ((x # xs) ! k))" if "k \<le> length xs" for k
    using Cons(3) that by auto
  obtain s1 where s1: "declare_local C x s = rret s1" "dinv view (tys @ [vs_ty x]) v s1" "tr_mods s1 = tr_mods s" "tr_ir_module s1 = tr_ir_module s"
    by (rule declare_local_ok [OF Cons(2), of x]) (use h [of 0] in auto)
  have "\<forall>k < length xs. vs_index (xs ! k) = length (tys @ [vs_ty x]) + k \<and> scalar_ty (vs_ty (xs ! k))"
    using h [of "Suc _"] by simp
  then show ?case using Cons(1) [OF s1(2)] s1 by auto
qed auto

lemma finish_ok:
  assumes t: "tinv view syms E s" and v: "fv_blocks (view (tr_cl s)) = {k}" "fv_sealed (view (tr_cl s)) = {k}" "cur (view (tr_cl s)) = k"
      "fv_entry (view (tr_cl s)) = Some k" "fv_sig (view (tr_cl s)) = g"
    and e: "computes view syms P X E tr (sig_returns g) sem"
  obtains s' F where "rbind (tr s) (\<lambda>(ret, s). rbind (emit C (Return ret) s) (do_cl (finalize C))) = rret s'"
    and "F = view (tr_cl s')" and "extends (view (tr_cl s)) F" and "complete F" and "fv_entry F = Some k"
    and "fv_sig F = g" and "env_ok view syms E s'"
    and "\<And>n c \<sigma> ys \<sigma>' w'. reached P X F k c \<Longrightarrow> at_end (view (tr_cl s)) c \<Longrightarrow> slots_hold E \<sigma> (c_vars c) \<Longrightarrow>
       sem n (\<sigma>, c_world c) = Some (ys, \<sigma>', w') \<Longrightarrow> returns_from P X F c ys w' \<and> length ys = length (sig_returns g)"
proof -
  obtain vs s1 where s1: "tr s = rret (vs, s1)" "tinv view syms E s1" "grows (view (tr_cl s)) (view (tr_cl s1))"
      "map (fv_types (view (tr_cl s1))) vs = map Some (sig_returns g)" "\<And>n. simulates P X E (view (tr_cl s)) (view (tr_cl s1)) vs (sem n)"
    by (rule computesE [OF e t]) blast
  let ?v = "view (tr_cl s1)"
  have gv: "good_view ?v" "env_ok view syms E s1" using s1(2) by (simp_all add: tinv_env)
  have kv: "fv_entry ?v = Some k" "fv_sig ?v = g" using grows_kept [OF s1(3)] v(4,5) by (simp_all add: kept_def)
  have "can_ins (Return vs) ?v" using gv(1) s1(4) kv(2) by (simp add: can_ins_def good_view_def)
  then obtain s2 where s2: "emit C (Return vs) s1 = rret s2" "view (tr_cl s2) = v_items [Ins (Return vs) []] ?v" "env_ok view syms E s2"
    using emit_ok [OF gv(2), of "Return vs"] by auto
  have comp: "complete (view (tr_cl s2))"
    unfolding complete_def
  proof
    show "fv_blocks (view (tr_cl s2)) \<subseteq> fv_sealed (view (tr_cl s2))"
      using s1(3) v(1,2) s2(2) by (auto simp: grows_def finished_def same_seals_def)
    show "\<forall>j \<in> fv_blocks (view (tr_cl s2)). ended (fv_code (view (tr_cl s2)) j)"
      using s1(3) v(1,3) s2(2) by (auto simp: grows_def finished_def)
  qed
  obtain b where b: "finalize C (tr_cl s2) = Ret b" "view b = view (tr_cl s2)" "uses_sound (view b) k P X"
    using finalize_law [OF comp] s2(2) kv(1) by auto
  have F1: "extends (v_items [Ins (Return vs) []] ?v) (view b)" using b(2) s2(2) by simp
  have F0: "extends ?v (view b)" using extends_kept [OF kept_items F1] .
  show ?thesis
  proof (rule that [of "s2\<lparr>tr_cl := b\<rparr>" "view b"])
    show "rbind (tr s) (\<lambda>(ret, s). rbind (emit C (Return ret) s) (do_cl (finalize C))) = rret (s2\<lparr>tr_cl := b\<rparr>)"
      using s1(1) s2(1) b(1) by (simp add: do_cl_def rret_def)
    show "extends (view (tr_cl s)) (view b)" using extends_kept [OF grows_kept [OF s1(3)] F0] .
    show "complete (view b)" "fv_entry (view b) = Some k" "fv_sig (view b) = g" using comp b(2) s2(2) kv by simp_all
    show "env_ok view syms E (s2\<lparr>tr_cl := b\<rparr>)" using env_ok_same [OF s2(3)] b(2) by simp
    fix n c \<sigma> ys \<sigma>' w'
    assume c: "reached P X (view b) k c" "at_end (view (tr_cl s)) c" "slots_hold E \<sigma> (c_vars c)" "sem n (\<sigma>, c_world c) = Some (ys, \<sigma>', w')"
    obtain c' where c': "runs P X (view b) (view (tr_cl s)) ?v c c'" "c_world c' = w'" "map (c_vals c') vs = ys"
      by (rule simulatesE [OF s1(5) F0 b(3) c]) blast
    have "item_at (view b) c' = Some (Ins (Return vs) [])"
      using item_at_end [of "Ins (Return vs) []" "[]" "[]" ?v "view b" c'] F1 tinv_cur [OF s1(2)] runs_end [OF c'(1)] by (simp add: v_item_items)
    moreover have "length ys = length (sig_returns g)" using c'(3) s1(4) map_eq_imp_length_eq by fastforce
    ultimately show "returns_from P X (view b) c ys w' \<and> length ys = length (sig_returns g)"
      using c' unfolding returns_from_def runs_def by blast
  qed simp
qed

lemma init_ok:
  assumes "blank b"
  obtains s0 s k xs where "translator_new C M jm (set_signature C g b) = rret s0" and "\<And>f. translator_init C f s0 = declare_variables C f s"
    and "view (tr_cl s) = entry_view k xs g" and "distinct xs" and "length xs = length (sig_params g)"
    and "tr_blocks s = [k]" and "tr_local_offsets s = [0]" and "tr_mods s = M" and "tr_ir_module s = jm"
proof -
  obtain b0 where b0: "builder_new C (set_signature C g b) = Ret b0" "view b0 = v_empty g" using blank_law [OF assms] by blast
  obtain k0 where k0: "block_with_number C 0 = Some k0" using number_0 by blast
  obtain k b1 where b1: "create_block C b0 = Ret (k, b1)" "view b1 = v_create k (v_empty g)" using create_law [of b0] b0(2) by metis
  obtain b2 where b2: "switch_to_block C k b1 = Ret b2" "view b2 = v_switch k (view b1)"
    using switch_law [of k b1] b1(2) by (auto simp: v_empty_def)
  obtain b3 xs where b3: "append_block_params_for_function_params C k b2 = Ret b3" "view b3 = v_param k xs (sig_params g) (view b2)"
      "length xs = length (sig_params g)" "distinct xs"
    using fun_params_law [of k b2] b1(2) b2(2) by (auto simp: v_empty_def)
  obtain b4 where b4: "seal_block C k b3 = Ret b4" "view b4 = v_seal k (view b3)"
    using seal_law [of k b3] b1(2) b2(2) b3(2) by (auto simp: v_empty_def)
  let ?new = "\<lparr>tr_mods = M, tr_ir_module = jm, tr_cl = b0, tr_local_offsets = [0], tr_blocks = [], tr_current_block = k0\<rparr>"
  let ?s = "?new\<lparr>tr_cl := b4, tr_blocks := [k], tr_current_block := k\<rparr>"
  show ?thesis
  proof (rule that [of ?new ?s k xs])
    show "translator_new C M jm (set_signature C g b) = rret ?new" using b0(1) k0 by (simp add: translator_new_def)
    show "translator_init C f ?new = declare_variables C f ?s" for f
      using b1(1) b2(1) b3(1) b4(1)
      by (simp add: translator_init_def switch_new_block_def new_block_def switch_block_def on_cl_def do_cl_def rret_def)
    show "view (tr_cl ?s) = entry_view k xs g" using b1(2) b2(2) b3(2) b4(2) by (simp add: entry_view_def)
  qed (use b3 in simp_all)
qed

lemma tinv_declared:
  assumes "dinv view tys (entry_view k xs g) s" and "no_ids (tr_mods s) = no_ids M" and "names_agree M"
    and "ids_ok M (tr_mods s) (syms (tr_ir_module s))" and "length tys < 2 ^ 32"
  shows "tinv view syms \<lparr>fe_mods = M, fe_tys = tys, fe_offs = offs_of tys\<rparr> s"
  using assms good_entry [where k = k and xs = xs and g = g] slots_ok_offs [OF assms(5), of M] by (auto simp: dinv_def tinv_def slots_declared_def)

lemma entry_at_end: "at_end ((entry_view k xs g)\<lparr>fv_vars := vars\<rparr>) (entry_config F k args vals vs w)"
  by (simp add: at_end_def entry_config_def)

lemma declare_no_params:
  assumes d0: "dinv view [] (entry_view k xs g) s" and bp: "block_params C k (tr_cl s) = Ret xs" "tr_blocks s = [k]"
    and prog: "no_ids (tr_mods s) = no_ids M" "names_agree M" "ids_ok M (tr_mods s) (syms (tr_ir_module s))"
    and f: "fn_vars_ok f" "irf_params f = []"
  shows "\<exists>s1. declare_variables C f s = rret s1 \<and> declared view syms P X M f g k xs s1"
proof -
  have l: "\<forall>k < length (irf_locals f). vs_index (irf_locals f ! k) = length ([]::ty list) + k \<and> scalar_ty (vs_ty (irf_locals f ! k))"
    and small: "length (map vs_ty (irf_locals f)) < 2 ^ 32"
    using f by (auto simp: fn_vars_ok_def)
  obtain s1 where s1: "rfold (declare_local C) (irf_locals f) s = rret s1" "dinv view (map vs_ty (irf_locals f)) (entry_view k xs g) s1"
      "tr_mods s1 = tr_mods s" "tr_ir_module s1 = tr_ir_module s"
    using declare_locals_ok [OF d0 l] by auto
  obtain vars where v: "view (tr_cl s1) = (entry_view k xs g)\<lparr>fv_vars := vars\<rparr>" using s1(2) by (auto simp: dinv_def)
  have E: "fn_env M f = \<lparr>fe_mods = M, fe_tys = map vs_ty (irf_locals f), fe_offs = offs_of (map vs_ty (irf_locals f))\<rparr>"
    using f(2) by (simp add: fn_env_def Let_def)
  have "tinv view syms (fn_env M f) s1"
    unfolding E by (rule tinv_declared [OF s1(2) _ prog(2) _ small]) (use s1(3,4) prog in simp_all)
  moreover have "slots_hold (fn_env M f) (start_store M f args vs) vs" for args vs
    using f(2) by (simp add: slots_hold_def start_store_def)
  ultimately have "declared view syms P X M f g k xs s1"
    unfolding declared_def v using entry_at_end
    by (auto simp: entry_config_def intro!: exI [of _ "entry_config _ _ _ _ _ _"])
  moreover have "declare_variables C f s = rret s1"
    using bp f(2) s1(1) by (simp add: declare_variables_def)
  ultimately show ?thesis by blast
qed


lemma declare_one_param:
  assumes d0: "dinv view [] (entry_view k xs g) s" and bp: "block_params C k (tr_cl s) = Ret xs" "tr_blocks s = [k]"
    and prog: "no_ids (tr_mods s) = no_ids M" "names_agree M" "ids_ok M (tr_mods s) (syms (tr_ir_module s))"
    and f: "irf_params f = [p]" "irf_locals f = []" "vs_index p = 0" "word_ty (vs_ty p)"
    and xs: "sig_params g = ctys (vs_ty p)" "length xs = length (sig_params g)"
  shows "\<exists>s1. declare_variables C f s = rret s1 \<and> declared view syms P X M f g k xs s1"
proof -
  let ?t = "vs_ty p"
  have t: "scalar_ty ?t" using f(4) by (rule word_scalar)
  obtain ct where ct: "translate_scalar ?t = ([(0, ct)], 1)" using f(4) by (cases ?t rule: word_ty_cases) auto
  obtain x where x: "xs = [x]" using xs ct by (auto simp: ctys_def length_Suc_conv)
  obtain s1 where s1: "declare_local C p s = rret s1" "dinv view ([] @ [?t]) (entry_view k xs g) s1"
      "tr_mods s1 = tr_mods s" "tr_ir_module s1 = tr_ir_module s" "tr_blocks s1 = tr_blocks s"
    by (rule declare_local_ok [OF d0, of p]) (use f(3) t in auto)
  obtain vars where v: "view (tr_cl s1) = (entry_view k xs g)\<lparr>fv_vars := vars\<rparr>" "vars 0 = Some ct"
    using s1(2) f(4) ct by (auto simp: dinv_def nth_offs_of ctys_def)
  obtain b where b: "def_var C 0 x (tr_cl s1) = Ret b" "view b = v_item (Def 0 x) [] [] (view (tr_cl s1))"
    using def_law [of "tr_cl s1" 0 ct x] v x xs(1) ct by (auto simp: open_block_def ctys_def)
  let ?s = "s1\<lparr>tr_cl := b\<rparr>"
  have E: "fn_env M f = \<lparr>fe_mods = M, fe_tys = [?t], fe_offs = offs_of [?t]\<rparr>"
    using f(1,2) by (simp add: fn_env_def Let_def)
  have o: "tr_local_offsets s1 = [0, 1]" using s1(2) f(4) by (simp add: dinv_def offs_of_def)
  have i1: "tinv view syms (fn_env M f) s1"
    unfolding E by (rule tinv_declared [OF _ _ prog(2)]) (use s1 prog in simp_all)
  have "good_view (view b)" unfolding b(2) v(1) by (rule good_view_item [OF good_entry _ _ refl]) (simp_all add: ended_def branched_def)
  then have i2: "tinv view syms (fn_env M f) ?s" by (rule tinv_builder [OF i1]) (simp_all add: b(2))
  have "\<exists>c. msteps P X F (entry_config F k args vals vs w) c \<and> at_end (view b) c \<and> c_world c = w
      \<and> slots_hold (fn_env M f) (start_store M f args vs) (c_vars c)"
    if F: "extends (view b) F" and a: "length args = length xs" for F args vals vs w
  proof -
    let ?c = "entry_config F k args vals vs w"
    let ?c' = "next_pos ?c\<lparr>c_vars := (c_vars ?c)(0 := c_vals ?c x)\<rparr>"
    have "fv_params F k = [x]" using F v(1) x by (auto simp: extends_def b(2))
    then have cx: "c_vals ?c x = args ! 0" using a x by (cases args) (simp_all add: entry_config_def)
    have "runs P X F (view (tr_cl s1)) (v_item (Def 0 x) [] [] (view (tr_cl s1))) ?c ?c'"
      by (rule step_item) (use F b(2) v(1) entry_at_end in \<open>auto simp: next_pos_def\<close>)
    moreover have "slots_hold (fn_env M f) (start_store M f args vs) (c_vars ?c')"
      using cx f(1) by (simp add: E slots_hold_def start_store_def nth_offs_of)
    ultimately show ?thesis unfolding runs_def b(2) by (intro exI [of _ ?c']) (simp add: next_pos_def entry_config_def)
  qed
  with i2 have "declared view syms P X M f g k xs ?s" by (simp add: declared_def b(2) v(1))
  moreover have "declare_variables C f s = rret ?s"
    using bp f s1(1) o x ct b(1) t
    by (simp add: declare_variables_def define_local_def slice_from_def translate_scalar_ty do_cl_def rret_def)
  ultimately show ?thesis by blast
qed

lemma build_ok:
  assumes blank: "blank b" and prog: "names_agree M" "ids_ok M M' (syms jm)" "calls_fit M X" "no_ids M' = no_ids M"
    and f: "fn_ready M f g"
  shows "\<exists>t. rbind (translator_new C M' jm (set_signature C g b)) (translator_build C f) = rret t \<and> env_ok view syms (fn_env M f) t
     \<and> implements P X M f g (view (tr_cl t))"
proof -
  let ?E = "fn_env M f" and ?sem = "\<lambda>n. eval P (calls_of M X) n (irf_body f)"
  obtain s0 s k xs where i: "translator_new C M' jm (set_signature C g b) = rret s0" "\<And>f. translator_init C f s0 = declare_variables C f s"
    "view (tr_cl s) = entry_view k xs g" "distinct xs" "length xs = length (sig_params g)"
    "tr_blocks s = [k]" "tr_local_offsets s = [0]" "tr_mods s = M'" "tr_ir_module s = jm"
    by (rule init_ok [OF blank, of M' jm g]) blast
  have g: "make_fn_sig M f \<lparr>sig_params = [], sig_returns = []\<rparr> = rret g" "fn_vars_ok f" using f by (simp_all add: fn_ready_def)
  have body: "computes view syms P X ?E (trans_expr C (irf_body f)) (sig_returns g) ?sem"
    using trans_expr_computes(1) [of ?E "irf_body f"] prog(3) f by (simp add: fn_ready_def fn_env_def Let_def)
  have d0: "dinv view [] (entry_view k xs g) s"
    unfolding dinv_def offs_of_Nil using i(3,7) by (intro conjI exI [of _ Map.empty]) (simp_all add: entry_view_def v_empty_def v_create_def v_switch_def v_param_def v_seal_def)
  have bp: "block_params C k (tr_cl s) = Ret xs" using params_law [of k "tr_cl s"] i(3) by simp
  have ids: "no_ids (tr_mods s) = no_ids M" "ids_ok M (tr_mods s) (syms (tr_ir_module s))" using prog(2,4) i(8,9) by simp_all
  have "\<exists>s1. declare_variables C f s = rret s1 \<and> declared view syms P X M f g k xs s1"
  proof (cases "irf_params f = []")
    case True
    show ?thesis by (rule declare_no_params [OF d0 bp i(6) ids(1) prog(1) ids(2) g(2) True])
  next
    case False
    then obtain p where p: "irf_params f = [p]" "irf_locals f = []" "vs_index p = 0" "word_ty (vs_ty p)"
      using g(2) by (auto simp: fn_vars_ok_def)
    have "sig_params g = ctys (vs_ty p)" using fn_sig_params [OF g(1)] p(1) word_scalar [OF p(4)] by simp
    then show ?thesis by (rule declare_one_param [OF d0 bp i(6) ids(1) prog(1) ids(2) p]) (rule i(5))
  qed
  then obtain s1 where s1: "declare_variables C f s = rret s1" "declared view syms P X M f g k xs s1" by blast
  have d: "tinv view syms ?E s1" "fv_blocks (view (tr_cl s1)) = {k}" "fv_sealed (view (tr_cl s1)) = {k}" "cur (view (tr_cl s1)) = k"
      "fv_entry (view (tr_cl s1)) = Some k" "fv_sig (view (tr_cl s1)) = g" "fv_params (view (tr_cl s1)) k = xs"
    using s1(2) by (simp_all add: declared_def)
  obtain t F where t: "rbind (trans_expr C (irf_body f) s1) (\<lambda>(ret, s). rbind (emit C (Return ret) s) (do_cl (finalize C))) = rret t"
      "F = view (tr_cl t)" "extends (view (tr_cl s1)) F" "complete F" "fv_entry F = Some k" "fv_sig F = g" "env_ok view syms ?E t"
      "\<And>n c \<sigma> ys \<sigma>' w'. reached P X F k c \<Longrightarrow> at_end (view (tr_cl s1)) c \<Longrightarrow> slots_hold ?E \<sigma> (c_vars c) \<Longrightarrow>
         ?sem n (\<sigma>, c_world c) = Some (ys, \<sigma>', w') \<Longrightarrow> returns_from P X F c ys w' \<and> length ys = length (sig_returns g)"
    by (rule finish_ok [OF d(1-6) body]) blast
  have fp: "fv_params F k = xs" using t(3) d(2,7) by (simp add: extends_def)
  have "returns_from P X F (entry_config F k args vals vars w) ys w' \<and> length ys = length (sig_returns g)"
    if a: "length args = length (sig_params g)" and e: "?sem n (start_store M f args vars, w) = Some (ys, \<sigma>', w')"
    for n args vals vars w ys \<sigma>' w'
  proof -
    let ?c = "entry_config F k args vals vars w"
    obtain c where c: "msteps P X F ?c c" "at_end (view (tr_cl s1)) c" "c_world c = w" "slots_hold ?E (start_store M f args vars) (c_vars c)"
      using s1(2) t(3) a i(5) unfolding declared_def by metis
    have "reached P X F k c" unfolding reached_def using c(1) a i(5) fp by metis
    then have "returns_from P X F c ys w' \<and> length ys = length (sig_returns g)" using t(8) c(2-4) e by blast
    with c(1) show ?thesis unfolding returns_from_def by (blast intro: rtranclp_trans)
  qed
  then have "implements P X M f g F" unfolding implements_def using t(4,5,6) by blast
  moreover have "rbind (translator_new C M' jm (set_signature C g b)) (translator_build C f) = rret t"
    using i(1,2) s1(1) t(1) by (simp add: translator_build_def)
  ultimately show ?thesis using t(2,7) by auto
qed

end

end
