(* ===== verification/VmJit.thy ===== *)
theory VmJit
  imports VmProps
begin

section \<open>Compiling a module\<close>

text \<open>
  \<open>jit_module\<close> under the contract of the JIT: the translation of a function changes the JIT module
  and the cells of the functions only by declarations, so every function of the module gets one
  definition, and the definition implements it.
\<close>

subsection \<open>What a translation does to the JIT module\<close>

inductive declares :: "('b, 'v, 'k, 'r, 'm) clif \<Rightarrow> (nat \<Rightarrow> ir_module) \<times> 'm \<Rightarrow> (nat \<Rightarrow> ir_module) \<times> 'm \<Rightarrow> bool" for C where
  nothing: "declares C x x"
| further: "get_or_declare_ir_fn C r x = rret (fid, y) \<Longrightarrow> declares C y z \<Longrightarrow> declares C x z"

lemma declares_trans: "declares C x y \<Longrightarrow> declares C y z \<Longrightarrow> declares C x z"
  by (induction rule: declares.induct) (auto intro: declares.further)

abbreviation mods :: "('b, 'k, 'm) translator \<Rightarrow> (nat \<Rightarrow> ir_module) \<times> 'm" where
  "mods s \<equiv> (tr_mods s, tr_ir_module s)"

definition only_declares :: "('b, 'v, 'k, 'r, 'm) clif \<Rightarrow> ('v, 'b, 'k, 'm) trans \<Rightarrow> bool" where
  "only_declares C tr \<longleftrightarrow> (\<forall>s vs s'. tr s = rret (vs, s') \<longrightarrow> declares C (mods s) (mods s'))"

lemma only_declaresD: "only_declares C tr \<Longrightarrow> tr s = rret (vs, s') \<Longrightarrow> declares C (mods s) (mods s')"
  by (auto simp: only_declares_def)

lemma rbind_rret: "rbind m f = rret y \<longleftrightarrow> (\<exists>x. m = rret x \<and> f x = rret y)"
  by (auto simp: rret_def rbind_eq_Some)

lemma lift_rret: "Some o' = rret x \<longleftrightarrow> o' = Ret x"
  by (simp add: rret_def)

lemma obind_Ret: "obind m f = Ret y \<longleftrightarrow> (\<exists>x. m = Ret x \<and> f x = Ret y)"
  by (cases m) auto

text \<open>The operations on the builder leave the modules alone.\<close>

lemma on_cl_mods: "on_cl f s = rret (x, s') \<Longrightarrow> mods s' = mods s"
  by (auto simp: on_cl_def lift_rret obind_Ret)

lemma do_cl_mods: "do_cl f s = rret s' \<Longrightarrow> mods s' = mods s"
  by (auto simp: do_cl_def lift_rret obind_Ret)

lemma emit_mods: "emit C i s = rret s' \<Longrightarrow> mods s' = mods s"
  by (auto simp: emit_def rbind_rret dest: on_cl_mods)

lemma emit_value_mods: "emit_value C i s = rret (v, s') \<Longrightarrow> mods s' = mods s"
  by (auto simp: emit_value_def rbind_rret dest: on_cl_mods)

lemma new_block_mods: "new_block C s = rret (k, s') \<Longrightarrow> mods s' = mods s"
  by (auto simp: new_block_def rbind_rret dest: on_cl_mods)

lemma switch_block_mods: "switch_block C k s = rret s' \<Longrightarrow> mods s' = mods s"
  by (auto simp: switch_block_def rbind_rret dest: do_cl_mods)

lemma rfold_mods:
  "(\<And>x s s'. f x s = rret s' \<Longrightarrow> mods s' = mods s) \<Longrightarrow> rfold f xs s = rret s' \<Longrightarrow> mods s' = mods s"
  by (induction xs arbitrary: s) (auto simp: rbind_rret)

lemma add_params_mods:
  "rfold (\<lambda>(_, t) s. rbind (on_cl (append_block_param C k t) s) (\<lambda>(_, s). rret s)) cs s = rret s' \<Longrightarrow> mods s' = mods s"
  by (erule rfold_mods [rotated]) (auto simp: rbind_rret dest: on_cl_mods)

lemma set_cont_params_mods: "set_cont_params C phi k t s = rret s' \<Longrightarrow> mods s' = mods s"
  by (auto simp: set_cont_params_def rbind_rret split: if_splits prod.splits dest: add_params_mods)

lemma jump_cont_mods: "jump_cont C k phi vs s = rret s' \<Longrightarrow> mods s' = mods s"
  by (auto simp: jump_cont_def split: if_splits dest: emit_mods)

lemma br_mods: "br C c k j s = rret s' \<Longrightarrow> mods s' = mods s"
  by (auto simp: br_def rbind_rret dest!: emit_mods)

lemma use_vars_mods: "use_vars C o' cs s = rret (vs, s') \<Longrightarrow> mods s' = mods s"
  by (induction cs arbitrary: s vs) (auto simp: rbind_rret dest!: on_cl_mods)

lemma def_vars_mods:
  "rfold (\<lambda>(i, t) s. rbind (Some (idx vs (h i))) (\<lambda>v. do_cl (def_var C (h' i) v) s)) cs s = rret s' \<Longrightarrow> mods s' = mods s"
  by (erule rfold_mods [rotated]) (auto simp: rbind_rret dest: do_cl_mods)

lemmas keep_mods = emit_mods emit_value_mods new_block_mods switch_block_mods set_cont_params_mods
  jump_cont_mods br_mods do_cl_mods

lemma if_declares:
  assumes "only_declares C cnd" and "only_declares C thn" and "only_declares C els"
  shows "only_declares C (trans_if C cnd phi t thn els)"
  unfolding only_declares_def trans_if_def
  by (auto simp: rbind_rret dest!: keep_mods only_declaresD [OF assms(1)] only_declaresD [OF assms(2)] only_declaresD [OF assms(3)]
      elim!: declares_trans)

lemma while_declares:
  assumes "only_declares C cnd" and "only_declares C body"
  shows "only_declares C (trans_while C cnd body)"
  unfolding only_declares_def trans_while_def
  by (auto simp: rbind_rret dest!: keep_mods only_declaresD [OF assms(1)] only_declaresD [OF assms(2)] elim!: declares_trans)

lemma binary_declares:
  assumes "only_declares C l" and "only_declares C r"
  shows "only_declares C (\<lambda>s. rbind (trans_binary C l t op r s) (\<lambda>(v, s). rret ([v], s)))"
  unfolding only_declares_def trans_binary_def
  by (auto simp: rbind_rret dest!: emit_value_mods only_declaresD [OF assms(1)] only_declaresD [OF assms(2)]
      elim!: declares_trans intro: declares.nothing)

lemma call_declares:
  assumes "only_declares C args"
  shows "only_declares C (trans_call C t args)"
  unfolding only_declares_def trans_call_def Let_def
  by (auto simp: rbind_rret dest!: on_cl_mods only_declaresD [OF assms] elim!: declares.further)

lemma assign_declares:
  assumes "only_declares C val"
  shows "only_declares C (assign_var C i val t)"
  unfolding only_declares_def assign_var_def
  by (auto simp: rbind_rret dest!: def_vars_mods only_declaresD [OF assms])

lemma simple_declares:
  "only_declares C (variable_expr C i t)" "only_declares C (\<lambda>s. rbind (trans_constant C k s) (\<lambda>(v, s). rret ([v], s)))"
  unfolding only_declares_def variable_expr_def trans_constant_def
  by (auto simp: rbind_rret lift_rret intro: declares.nothing dest!: use_vars_mods emit_value_mods split: ir_constant.splits)

lemma block_declares:
  "\<forall>e \<in> set es. only_declares C (trans_expr C e) \<Longrightarrow> trans_block C es vs s = rret (ys, s') \<Longrightarrow> declares C (mods s) (mods s')"
  by (induction es arbitrary: vs s) (auto simp: rbind_rret intro: declares.nothing dest!: only_declaresD elim: declares_trans)

lemma args_declares:
  "\<forall>e \<in> set es. only_declares C (trans_expr C e) \<Longrightarrow> trans_args C es vs s = rret (ys, s') \<Longrightarrow> declares C (mods s) (mods s')"
  by (induction es arbitrary: vs s) (auto simp: rbind_rret intro: declares.nothing dest!: only_declaresD elim: declares_trans)

lemma trans_expr_declares:
  shows "only_declares C (trans_expr C e)" and "only_declares C (trans_iexpr C i)"
proof (induction e and i rule: ir_expr.induct iexpr.induct)
  case (IBlock es)
  then show ?case unfolding trans_eta using block_declares [of es C "[]"] by (simp add: only_declares_def)
next
  case (ICall f es)
  then have "only_declares C (trans_args C es [])" using args_declares [of es C "[]"] by (simp add: only_declares_def)
  then show ?case unfolding trans_eta by (rule call_declares)
next
  case (IAssign tgt v)
  then show ?case unfolding trans_eta
    using assign_declares [OF IAssign(2)] by (cases "inner tgt") (simp_all add: only_declares_def lift_rret)
next
  case IPoison
  then show ?case by (simp add: only_declares_def lift_rret)
qed (unfold trans_eta, auto intro: binary_declares if_declares while_declares simple_declares)

lemma declare_vars_mods:
  "rfold (\<lambda>(i, t). do_cl (declare_var C (n + i) t)) cs s = rret s' \<Longrightarrow> mods s' = mods s"
  by (erule rfold_mods [rotated]) (auto dest: do_cl_mods)

lemma declare_local_mods: "declare_local C v s = rret s' \<Longrightarrow> mods s' = mods s"
  by (auto simp: declare_local_def rbind_rret dest!: declare_vars_mods)

lemma define_local_mods: "define_local C v vs s = rret s' \<Longrightarrow> mods s' = mods s"
  by (auto simp: define_local_def rbind_rret dest!: def_vars_mods)

lemma declare_param_mods:
  "rfold (\<lambda>var s. rbind (declare_local C var s) (\<lambda>s. rbind (Some (idx (tr_local_offsets s) (vs_index var))) (\<lambda>from.
     rbind (Some (slice_from params from)) (\<lambda>vals. define_local C var vals s)))) ps s = rret s' \<Longrightarrow> mods s' = mods s"
  by (erule rfold_mods [rotated]) (auto simp: rbind_rret dest!: declare_local_mods define_local_mods)

lemma declare_locals_mods: "rfold (declare_local C) ls s = rret s' \<Longrightarrow> mods s' = mods s"
  by (erule rfold_mods [rotated]) (rule declare_local_mods)

lemma declare_variables_mods: "declare_variables C f s = rret s' \<Longrightarrow> mods s' = mods s"
  by (auto simp: declare_variables_def rbind_rret dest!: declare_param_mods declare_locals_mods)

lemma build_declares:
  assumes "translator_new C M jm b = rret s0" and "translator_build C f s0 = rret t"
  shows "declares C (M, jm) (mods t)"
proof -
  have s0: "mods s0 = (M, jm)" using assms(1) by (auto simp: translator_new_def rbind_rret)
  show ?thesis
    using assms(2) unfolding translator_build_def translator_init_def switch_new_block_def
    by (auto simp: rbind_rret s0 [symmetric] dest!: keep_mods declare_variables_mods only_declaresD [OF trans_expr_declares(1)])
qed

subsection \<open>The state between two functions\<close>

definition fun_names :: "(nat \<Rightarrow> ir_module) \<Rightarrow> string set" where
  "fun_names M = {irf_name f | r f. resolve_func M r = Ret f}"

abbreviation has_body :: "ir_function \<Rightarrow> bool" where "has_body f \<equiv> fn_body (irf_ast f) \<noteq> None"

text \<open>A function with a body that has an identifier may get a definition.\<close>

definition ids_exported :: "(nat \<Rightarrow> ir_module) \<Rightarrow> nat set \<Rightarrow> bool" where
  "ids_exported M E \<longleftrightarrow> (\<forall>r f fid. resolve_func M r = Ret f \<longrightarrow> irf_ir f = Some fid \<longrightarrow> has_body f \<longrightarrow> fid \<in> E)"

text \<open>What declarations change.\<close>

definition later :: "('m \<Rightarrow> nat \<rightharpoonup> string \<times> signature) \<Rightarrow> ('m \<Rightarrow> nat set) \<Rightarrow> ('m \<Rightarrow> nat \<rightharpoonup> ('v, 'k, 'r) fview) \<Rightarrow>
    (nat \<Rightarrow> ir_module) \<times> 'm \<Rightarrow> (nat \<Rightarrow> ir_module) \<times> 'm \<Rightarrow> bool" where
  "later syms exported defs x y \<longleftrightarrow> no_ids (fst y) = no_ids (fst x) \<and> defs (snd y) = defs (snd x) \<and> exported (snd x) \<subseteq> exported (snd y)
     \<and> syms (snd x) \<subseteq>\<^sub>m syms (snd y) \<and> (ids_exported (fst x) (exported (snd x)) \<longrightarrow> ids_exported (fst y) (exported (snd y)))
     \<and> (\<forall>fid name g. syms (snd y) fid = Some (name, g) \<longrightarrow> syms (snd x) fid = Some (name, g) \<or> name \<in> fun_names (fst x))"

definition jit_inv :: "('b \<Rightarrow> bool) \<Rightarrow> ('m \<Rightarrow> nat \<rightharpoonup> string \<times> signature) \<Rightarrow> ('m \<Rightarrow> nat set) \<Rightarrow> ('m \<Rightarrow> nat \<rightharpoonup> ('v, 'k, 'r) fview) \<Rightarrow>
    (nat \<Rightarrow> ir_module) \<Rightarrow> (nat \<Rightarrow> ir_module) \<times> ('b, 'm) jit \<Rightarrow> bool" where
  "jit_inv blank syms exported defs M0 x \<longleftrightarrow> no_ids (fst x) = no_ids M0 \<and> blank (jit_ctx (snd x))
     \<and> ids_ok M0 (fst x) (syms (jit_clif (snd x))) \<and> ids_exported (fst x) (exported (jit_clif (snd x)))
     \<and> dom (defs (jit_clif (snd x))) \<subseteq> dom (syms (jit_clif (snd x)))"

lemma fun_names_cong:
  assumes "no_ids M = no_ids M'" shows "fun_names M = fun_names M'"
  unfolding fun_names_def using no_ids_resolve [OF assms] no_ids_resolve [OF assms [symmetric]]
  by (safe; metis)

lemma later_refl: "later syms exported defs x x"
  by (simp add: later_def)

lemma later_trans:
  assumes "later syms exported defs x y" and "later syms exported defs y z"
  shows "later syms exported defs x z"
proof -
  have "fun_names (fst y) = fun_names (fst x)" using assms(1) by (intro fun_names_cong) (simp add: later_def)
  moreover have "syms (snd x) \<subseteq>\<^sub>m syms (snd z)" using assms map_le_trans unfolding later_def by blast
  ultimately show ?thesis using assms unfolding later_def by (metis subset_trans)
qed

lemma fn_ready_cong:
  assumes f: "irf_params f' = irf_params f" "irf_ret_type f' = irf_ret_type f" "irf_body f' = irf_body f" "irf_locals f' = irf_locals f"
  shows "fn_ready M f' g = fn_ready M f g" and "implements P X M f' g F = implements P X M f g F"
proof -
  have "make_fn_sig M f' h = make_fn_sig M f h" for h using make_fn_sig_cong [OF refl, of f f' M h] f by simp
  then show "fn_ready M f' g = fn_ready M f g" using f by (simp add: fn_ready_def fn_vars_ok_def fn_env_def)
  have "start_store M f' = start_store M f" using f by (simp add: fun_eq_iff start_store_def fn_env_def)
  then show "implements P X M f' g F = implements P X M f g F" using f by (simp add: implements_def)
qed

lemma fn_sig_ready: "fn_ready M f g \<Longrightarrow> resolve_func M r = Ret f \<Longrightarrow> fn_sig M r = Some g"
  by (simp add: fn_ready_def fn_sig_def rret_def)

context jit_contract
begin

lemma declare_later:
  assumes "resolve_func M r = Ret f" and "module_declare_function C (irf_name f) (get_linkage f) g jm = (Some fid, jm')"
  shows "later syms exported defs (M, jm) (set_ir r fid M, jm')"
proof -
  note k = declare_keeps [OF assms(2)] and s = set_ir_resolve [OF assms(1), of fid]
  have "ids_exported (set_ir r fid M) (exported jm')" if "ids_exported M (exported jm)"
    using that k s(1) by (auto simp: ids_exported_def get_linkage_def split: if_splits)
  moreover have "syms jm \<subseteq>\<^sub>m syms jm'" using k by (auto simp: map_le_def)
  moreover have "irf_name f \<in> fun_names M" using assms(1) by (auto simp: fun_names_def)
  ultimately show ?thesis using k s(2) by (auto simp: later_def split: if_splits)
qed

lemma get_or_declare_later:
  assumes "get_or_declare_ir_fn C r (M, jm) = rret (fid, y)"
  shows "later syms exported defs (M, jm) y"
proof -
  obtain f where f: "resolve_func M r = Ret f" using assms by (auto simp: get_or_declare_ir_fn_def rbind_rret lift_rret)
  show ?thesis
  proof (cases "irf_ir f")
    case (Some i)
    with f assms have "y = (M, jm)" by (auto simp: get_or_declare_ir_fn_def)
    then show ?thesis by (simp add: later_refl)
  next
    case None
    with f assms obtain g where "(let (res, jm) = module_declare_function C (irf_name f) (get_linkage f) g jm
         in case res of None \<Rightarrow> Some (Panic UnwrapOnErr) | Some fid \<Rightarrow> rret (fid, set_ir r fid M, jm)) = rret (fid, y)"
      by (auto simp: get_or_declare_ir_fn_def rbind_rret)
    then obtain jm' where "module_declare_function C (irf_name f) (get_linkage f) g jm = (Some fid, jm')" "y = (set_ir r fid M, jm')"
      by (cases "module_declare_function C (irf_name f) (get_linkage f) g jm") (auto simp: lift_rret split: option.splits)
    then show ?thesis using declare_later [OF f] by blast
  qed
qed

lemma declares_later: "declares C x y \<Longrightarrow> later syms exported defs x y"
proof (induction rule: declares.induct)
  case (further r x fid y z)
  then show ?case using get_or_declare_later [of r "fst x" "snd x" fid y] by (auto intro: later_trans)
qed (rule later_refl)

text \<open>A function with a body gets an identifier of its own that may be defined.\<close>

lemma declare_ir_function_ok:
  assumes inv: "no_ids M = no_ids M0" "ids_ok M0 M (syms jm)" "ids_exported M (exported jm)" "names_agree M0"
    and f: "resolve_func M r = Ret f" "has_body f" "fn_sig M0 r = Some g"
  obtains fid M' jm' where "declare_ir_function C r g (M, jm) = rret (fid, M', jm')" and "later syms exported defs (M, jm) (M', jm')"
    and "syms jm' fid = Some (irf_name f, g)" and "fid \<in> exported jm'" and "ids_ok M0 M' (syms jm')"
proof (cases "irf_ir f")
  case (Some fid)
  then have "syms jm fid = Some (irf_name f, g)" using inv(2) f(1,3) unfolding ids_ok_def by metis
  moreover have "fid \<in> exported jm" using inv(3) f Some unfolding ids_exported_def by blast
  ultimately show ?thesis using that [of fid M jm] Some f inv(2) by (simp add: declare_ir_function_def later_refl)
next
  case None
  obtain f0 where f0: "resolve_func M0 r = Ret f0" "irf_name f0 = irf_name f" using no_ids_resolve [OF inv(1) f(1)] by auto
  have "\<And>fid g'. syms jm fid = Some (irf_name f, g') \<Longrightarrow> g' = g" using inv(2) f0 f(3) unfolding ids_ok_def by metis
  then obtain fid jm' where d: "module_declare_function C (irf_name f) (get_linkage f) g jm = (Some fid, jm')"
    using declare_function_law [of jm "irf_name f" g "get_linkage f"] by blast
  note k = declare_keeps [OF d]
  show ?thesis
  proof (rule that)
    show "declare_ir_function C r g (M, jm) = rret (fid, set_ir r fid M, jm')" using None f(1) d by (simp add: declare_ir_function_def)
    show "later syms exported defs (M, jm) (set_ir r fid M, jm')" by (rule declare_later [OF f(1) d])
    show "syms jm' fid = Some (irf_name f, g)" "fid \<in> exported jm'" using k f(2) by (simp_all add: get_linkage_def)
    show "ids_ok M0 (set_ir r fid M) (syms jm')" using ids_ok_declare [OF inv(2,4,1) f(1,3)] k by simp
  qed
qed

lemma jit_function_ok:
  assumes inv: "jit_inv blank syms exported defs M0 (M, j)" and prog: "names_agree M0" "calls_fit M0 X"
    and f0: "resolve_func M0 r = Ret f0" "has_body f0" "fn_ready M0 f0 g"
    and new: "\<forall>fid g. syms (jit_clif j) fid = Some (irf_name f0, g) \<longrightarrow> defs (jit_clif j) fid = None"
  obtains M' j' fid F where "jit_function C r (M, j) = rret (M', j')" and "jit_inv blank syms exported defs M0 (M', j')"
    and "syms (jit_clif j') fid = Some (irf_name f0, g)" and "defs (jit_clif j') = (defs (jit_clif j))(fid \<mapsto> F)"
    and "defs (jit_clif j) fid = None" and "implements P X M0 f0 g F" and "syms (jit_clif j) \<subseteq>\<^sub>m syms (jit_clif j')"
    and "\<forall>fid name g. syms (jit_clif j') fid = Some (name, g) \<longrightarrow> syms (jit_clif j) fid = Some (name, g) \<or> name \<in> fun_names M0"
proof -
  let ?jm = "jit_clif j"
  have i: "no_ids M = no_ids M0" "blank (jit_ctx j)" "ids_ok M0 M (syms ?jm)" "ids_exported M (exported ?jm)" "dom (defs ?jm) \<subseteq> dom (syms ?jm)"
    using inv by (simp_all add: jit_inv_def)
  obtain f where f: "resolve_func M r = Ret f" "irf_name f = irf_name f0" "irf_params f = irf_params f0" "irf_ret_type f = irf_ret_type f0"
      "irf_body f = irf_body f0" "irf_locals f = irf_locals f0" "irf_ast f = irf_ast f0"
    using no_ids_resolve [OF i(1) [symmetric] f0(1)] by auto
  have fr: "fn_ready M0 f g" using fn_ready_cong(1) [OF f(3-6)] f0(3) by simp
  have hb: "has_body f" using f(7) f0(2) by simp
  have sg: "make_fn_sig M f (signature_of C (jit_ctx j)) = rret g"
    using make_fn_sig_cong [OF i(1), of f f] fr blank_law [OF i(2)] by (simp add: fn_ready_def)
  obtain fid M1 jm1 where d: "declare_ir_function C r g (M, ?jm) = rret (fid, M1, jm1)" "later syms exported defs (M, ?jm) (M1, jm1)"
      "syms jm1 fid = Some (irf_name f, g)" "fid \<in> exported jm1" "ids_ok M0 M1 (syms jm1)"
    by (rule declare_ir_function_ok [OF i(1,3,4) prog(1) f(1) hb fn_sig_ready [OF f0(3,1)]]) blast
  have n1: "no_ids M1 = no_ids M0" using d(2) i(1) by (simp add: later_def)
  obtain t where t: "rbind (translator_new C M1 jm1 (set_signature C g (jit_ctx j))) (translator_build C f) = rret t"
      "env_ok view syms (fn_env M0 f) t" "implements P X M0 f g (view (tr_cl t))"
    using build_ok [OF i(2) prog(1) d(5) prog(2) n1 fr] by blast
  obtain s0 where s0: "translator_new C M1 jm1 (set_signature C g (jit_ctx j)) = rret s0" "translator_build C f s0 = rret t"
    using t(1) by (auto simp: rbind_rret)
  have l: "later syms exported defs (M, ?jm) (tr_mods t, tr_ir_module t)"
    using later_trans [OF d(2) declares_later [OF build_declares [OF s0]]] .
  have l1: "later syms exported defs (M1, jm1) (tr_mods t, tr_ir_module t)" using declares_later [OF build_declares [OF s0]] .
  have sy: "syms (tr_ir_module t) fid = Some (irf_name f0, g)" using l1 d(3) f(2) by (auto simp: later_def map_le_def dom_def)
  have un: "defs ?jm fid = None"
  proof (rule ccontr)
    assume a: "defs ?jm fid \<noteq> None"
    then obtain n h where "syms ?jm fid = Some (n, h)" using i(5) by (auto simp: dom_def)
    moreover have "syms ?jm \<subseteq>\<^sub>m syms (tr_ir_module t)" using l by (simp add: later_def)
    ultimately have "n = irf_name f0" using sy by (auto simp: map_le_def dom_def)
    with a new \<open>syms ?jm fid = Some (n, h)\<close> show False by simp
  qed
  have F: "complete (view (tr_cl t))" "fv_sig (view (tr_cl t)) = g" using t(3) by (simp_all add: implements_def)
  have "fid \<in> exported (tr_ir_module t)" "defs (tr_ir_module t) fid = None" using l1 d(4) l un by (auto simp: later_def)
  then obtain b' jm' where df: "define_function C fid (tr_cl t) (tr_ir_module t) = Ret (True, b', jm')" "syms jm' = syms (tr_ir_module t)"
      "exported jm' = exported (tr_ir_module t)" "defs jm' = (defs (tr_ir_module t))(fid \<mapsto> view (tr_cl t))"
    using define_law [of "tr_ir_module t" fid "irf_name f0" "tr_cl t"] sy F by auto
  let ?j = "j\<lparr>jit_ctx := clear_context C jm' b', jit_clif := jm'\<rparr>"
  have dd: "defs jm' = (defs ?jm)(fid \<mapsto> view (tr_cl t))" "syms ?jm \<subseteq>\<^sub>m syms jm'" using df(2,4) l by (simp_all add: later_def)
  show ?thesis
  proof (rule that [of "tr_mods t" ?j fid "view (tr_cl t)"])
    show "jit_function C r (M, j) = rret (tr_mods t, ?j)"
      using f(1) sg d(1) s0 df(1) by (simp add: jit_function_def Let_def)
    have "dom (defs jm') \<subseteq> dom (syms jm')"
    proof -
      have "fid \<in> dom (syms jm')" using sy df(2) by auto
      moreover have "dom (defs jm') = insert fid (dom (defs ?jm))" using dd(1) by simp
      ultimately show ?thesis using i(5) map_le_implies_dom_le [OF dd(2)] by (metis insert_subset subset_trans)
    qed
    moreover have "ids_exported (tr_mods t) (exported (tr_ir_module t))" using l i(4) by (simp add: later_def)
    ultimately show "jit_inv blank syms exported defs M0 (tr_mods t, ?j)"
      using t(2) clear_law df(2,3) by (simp add: jit_inv_def env_ok_def fn_env_def Let_def)
    show "implements P X M0 f0 g (view (tr_cl t))" using fn_ready_cong(2) [OF f(3-6)] t(3) by blast
    show "\<forall>fid name g. syms (jit_clif ?j) fid = Some (name, g) \<longrightarrow> syms ?jm fid = Some (name, g) \<or> name \<in> fun_names M0"
      using l fun_names_cong [OF i(1)] df(2) by (simp add: later_def)
  qed (use sy dd un df(2) in simp_all)
qed

text \<open>The functions in \<open>rs\<close> are compiled one after the other.\<close>

lemma jit_functions_ok:
  assumes "jit_inv blank syms exported defs M0 (M, j)" and prog: "names_agree M0" "calls_fit M0 X"
    and "\<forall>r \<in> set rs. \<exists>f g. resolve_func M0 r = Ret f \<and> has_body f \<and> fn_ready M0 f g
       \<and> (\<forall>fid g. syms (jit_clif j) fid = Some (irf_name f, g) \<longrightarrow> defs (jit_clif j) fid = None)"
    and "\<forall>r \<in> set rs. \<forall>r' \<in> set rs. \<forall>f f'. resolve_func M0 r = Ret f \<longrightarrow> resolve_func M0 r' = Ret f' \<longrightarrow> irf_name f = irf_name f' \<longrightarrow> r = r'"
    and "distinct rs"
  shows "\<exists>M' j'. rfold (jit_function C) rs (M, j) = rret (M', j') \<and> jit_inv blank syms exported defs M0 (M', j')
     \<and> defs (jit_clif j) \<subseteq>\<^sub>m defs (jit_clif j') \<and> syms (jit_clif j) \<subseteq>\<^sub>m syms (jit_clif j')
     \<and> (\<forall>fid name g. syms (jit_clif j') fid = Some (name, g) \<longrightarrow> syms (jit_clif j) fid = Some (name, g) \<or> name \<in> fun_names M0)
     \<and> (\<forall>r \<in> set rs. \<forall>f. resolve_func M0 r = Ret f \<longrightarrow> (\<exists>g fid F. fn_ready M0 f g \<and> syms (jit_clif j') fid = Some (irf_name f, g)
          \<and> defs (jit_clif j') fid = Some F \<and> implements P X M0 f g F))"
  using assms(1,4-)
proof (induction rs arbitrary: M j)
  case (Cons r rs)
  obtain f g where f: "resolve_func M0 r = Ret f" "has_body f" "fn_ready M0 f g"
      "\<forall>fid g. syms (jit_clif j) fid = Some (irf_name f, g) \<longrightarrow> defs (jit_clif j) fid = None"
    using Cons.prems(2) by auto
  obtain M1 j1 fid F where j1: "jit_function C r (M, j) = rret (M1, j1)" "jit_inv blank syms exported defs M0 (M1, j1)"
      "syms (jit_clif j1) fid = Some (irf_name f, g)" "defs (jit_clif j1) = (defs (jit_clif j))(fid \<mapsto> F)"
      "defs (jit_clif j) fid = None" "implements P X M0 f g F" "syms (jit_clif j) \<subseteq>\<^sub>m syms (jit_clif j1)"
      "\<forall>fid name g. syms (jit_clif j1) fid = Some (name, g) \<longrightarrow> syms (jit_clif j) fid = Some (name, g) \<or> name \<in> fun_names M0"
    by (rule jit_function_ok [OF Cons.prems(1) prog f]) blast
  have rest: "\<forall>r' \<in> set rs. \<exists>f' g. resolve_func M0 r' = Ret f' \<and> has_body f' \<and> fn_ready M0 f' g
       \<and> (\<forall>fid g. syms (jit_clif j1) fid = Some (irf_name f', g) \<longrightarrow> defs (jit_clif j1) fid = None)"
  proof
    fix r' assume r': "r' \<in> set rs"
    then obtain f' g' where f': "resolve_func M0 r' = Ret f'" "has_body f'" "fn_ready M0 f' g'"
        "\<forall>fid g. syms (jit_clif j) fid = Some (irf_name f', g) \<longrightarrow> defs (jit_clif j) fid = None" using Cons.prems(2) by auto
    have ne: "irf_name f' \<noteq> irf_name f" using Cons.prems(3,4) r' f(1) f'(1) by auto
    have "defs (jit_clif j1) i = None" if "syms (jit_clif j1) i = Some (irf_name f', h)" for i h
    proof -
      have "i \<noteq> fid" using that j1(3) ne by auto
      moreover have "defs (jit_clif j) i = None"
      proof (cases "syms (jit_clif j) i")
        case None
        then show ?thesis using Cons.prems(1) by (auto simp: jit_inv_def dom_def)
      next
        case (Some e)
        then have "syms (jit_clif j1) i = Some e" using j1(7) by (auto simp: map_le_def dom_def)
        then show ?thesis using that f'(4) Some by auto
      qed
      ultimately show ?thesis using j1(4) by simp
    qed
    with f' show "\<exists>f' g. resolve_func M0 r' = Ret f' \<and> has_body f' \<and> fn_ready M0 f' g
       \<and> (\<forall>fid g. syms (jit_clif j1) fid = Some (irf_name f', g) \<longrightarrow> defs (jit_clif j1) fid = None)" by blast
  qed
  obtain M' j' where j': "rfold (jit_function C) rs (M1, j1) = rret (M', j')" "jit_inv blank syms exported defs M0 (M', j')"
     "defs (jit_clif j1) \<subseteq>\<^sub>m defs (jit_clif j')" "syms (jit_clif j1) \<subseteq>\<^sub>m syms (jit_clif j')"
     "\<forall>fid name g. syms (jit_clif j') fid = Some (name, g) \<longrightarrow> syms (jit_clif j1) fid = Some (name, g) \<or> name \<in> fun_names M0"
     "\<forall>r \<in> set rs. \<forall>f. resolve_func M0 r = Ret f \<longrightarrow> (\<exists>g fid F. fn_ready M0 f g \<and> syms (jit_clif j') fid = Some (irf_name f, g)
          \<and> defs (jit_clif j') fid = Some F \<and> implements P X M0 f g F)"
    using Cons.IH [OF j1(2) rest] Cons.prems(3,4) by auto
  have "syms (jit_clif j') fid = Some (irf_name f, g)" "defs (jit_clif j') fid = Some F"
    using j'(3,4) j1(3,4) by (auto simp: map_le_def dom_def)
  then have "\<forall>r \<in> set (r # rs). \<forall>f. resolve_func M0 r = Ret f \<longrightarrow> (\<exists>g fid F. fn_ready M0 f g \<and> syms (jit_clif j') fid = Some (irf_name f, g)
          \<and> defs (jit_clif j') fid = Some F \<and> implements P X M0 f g F)"
    using j'(6) f(1,3) j1(6) by auto
  moreover have "defs (jit_clif j) \<subseteq>\<^sub>m defs (jit_clif j1)" using j1(4,5) by (auto simp: map_le_def)
  then have "defs (jit_clif j) \<subseteq>\<^sub>m defs (jit_clif j')" "syms (jit_clif j) \<subseteq>\<^sub>m syms (jit_clif j')"
    using map_le_trans j'(3,4) j1(7) by blast+
  ultimately show ?case using j1(1,8) j'(1,2,5) by (intro exI [of _ M'] exI [of _ j'] conjI) (auto, blast)
qed auto

lemma jit_module_ok:
  assumes inv: "jit_inv blank syms exported defs M0 (M, j)" and prog: "names_agree M0" "calls_fit M0 X"
    and ready: "\<forall>f \<in> set (irm_funcs (M0 m)). has_body f \<longrightarrow> (\<exists>g. fn_ready M0 f g)
       \<and> (\<forall>fid g. syms (jit_clif j) fid = Some (irf_name f, g) \<longrightarrow> defs (jit_clif j) fid = None)"
    and names: "distinct (map irf_name (filter has_body (irm_funcs (M0 m))))"
    and resolved: "\<forall>name \<in> fun_names M0 \<union> fst ` ran (syms (jit_clif j)). name \<in> irf_name ` set (filter has_body (irm_funcs (M0 m)))
       \<or> name \<in> known \<or> (\<exists>fid g. syms (jit_clif j) fid = Some (name, g) \<and> defs (jit_clif j) fid \<noteq> None)"
  shows "\<exists>M' j'. jit_module C m (M, j) = rret (M', j') \<and> jit_inv blank syms exported defs M0 (M', j')
     \<and> defs (jit_clif j) \<subseteq>\<^sub>m defs (jit_clif j')
     \<and> (\<forall>f \<in> set (irm_funcs (M0 m)). has_body f \<longrightarrow> (\<exists>g fid F. fn_ready M0 f g \<and> get_name C (irf_name f) (jit_clif j') = Some (FuncId fid)
          \<and> defs (jit_clif j') fid = Some F \<and> implements P X M0 f g F))"
proof -
  let ?fs = "irm_funcs (M0 m)"
  let ?ks = "filter (\<lambda>k. has_body (?fs ! k)) [0..<length ?fs]"
  let ?ref = "\<lambda>k. \<lparr>fr_module = m, fr_index = k\<rparr>"
  have n: "no_ids M = no_ids M0" using inv by (simp add: jit_inv_def)
  have lk: "length (irm_funcs (M m)) = length ?fs" using arg_cong [OF no_ids_funcs [OF n, of m], of length] by simp
  have res: "resolve_func M0 (?ref k) = Ret f \<longleftrightarrow> k < length ?fs \<and> f = ?fs ! k" for k f
    by (auto simp: resolve_func_def idx_def)
  have "has_body (irm_funcs (M m) ! k) = has_body (?fs ! k)" if "k < length ?fs" for k
    using no_ids_resolve [OF n, of "?ref k" "irm_funcs (M m) ! k"] that lk by (auto simp: res resolve_func_def)
  then have ks: "filter (\<lambda>k. has_body (irm_funcs (M m) ! k)) [0..<length (irm_funcs (M m))] = ?ks"
    unfolding lk by (intro filter_cong) auto
  have "map irf_name (filter has_body ?fs) = map (\<lambda>k. irf_name (?fs ! k)) ?ks"
  proof -
    have "filter has_body (map ((!) ?fs) [0..<length ?fs]) = map ((!) ?fs) ?ks" by (simp add: filter_map comp_def)
    then show ?thesis by (simp add: map_nth comp_def)
  qed
  then have inj: "inj_on (\<lambda>k. irf_name (?fs ! k)) (set ?ks)" using names distinct_map by metis
  have loop: "rfold (\<lambda>k. jit_function C (?ref k)) xs x = rfold (jit_function C) (map ?ref xs) x" for xs x
    by (induction xs arbitrary: x) (auto intro!: arg_cong [where f = "rbind _"])
  have a: "\<forall>r \<in> set (map ?ref ?ks). \<exists>f g. resolve_func M0 r = Ret f \<and> has_body f \<and> fn_ready M0 f g
       \<and> (\<forall>fid g. syms (jit_clif j) fid = Some (irf_name f, g) \<longrightarrow> defs (jit_clif j) fid = None)"
    using ready by (auto simp: res)
  have b: "\<forall>r \<in> set (map ?ref ?ks). \<forall>r' \<in> set (map ?ref ?ks). \<forall>f f'. resolve_func M0 r = Ret f \<longrightarrow> resolve_func M0 r' = Ret f' \<longrightarrow>
       irf_name f = irf_name f' \<longrightarrow> r = r'"
    using inj by (auto simp: res inj_on_def)
  have c: "distinct (map ?ref ?ks)" by (simp add: distinct_map inj_on_def)
  obtain M' j1 where j1: "rfold (jit_function C) (map ?ref ?ks) (M, j) = rret (M', j1)" "jit_inv blank syms exported defs M0 (M', j1)"
     "defs (jit_clif j) \<subseteq>\<^sub>m defs (jit_clif j1)" "syms (jit_clif j) \<subseteq>\<^sub>m syms (jit_clif j1)"
     "\<forall>fid name g. syms (jit_clif j1) fid = Some (name, g) \<longrightarrow> syms (jit_clif j) fid = Some (name, g) \<or> name \<in> fun_names M0"
     "\<forall>r \<in> set (map ?ref ?ks). \<forall>f. resolve_func M0 r = Ret f \<longrightarrow> (\<exists>g fid F. fn_ready M0 f g \<and> syms (jit_clif j1) fid = Some (irf_name f, g)
          \<and> defs (jit_clif j1) fid = Some F \<and> implements P X M0 f g F)"
    using jit_functions_ok [OF inv prog a b c] by blast
  have d: "\<exists>g fid F. fn_ready M0 f g \<and> syms (jit_clif j1) fid = Some (irf_name f, g) \<and> defs (jit_clif j1) fid = Some F \<and> implements P X M0 f g F"
    if f: "f \<in> set ?fs" "has_body f" for f
  proof -
    obtain k where "k < length ?fs" "f = ?fs ! k" using f(1) by (auto simp: in_set_conv_nth)
    then show ?thesis using j1(6) f(2) by (auto simp: res)
  qed
  have "defs (jit_clif j1) fid \<noteq> None \<or> name \<in> known" if s: "syms (jit_clif j1) fid = Some (name, g)" for fid name g
  proof -
    have "name \<in> fun_names M0 \<union> fst ` ran (syms (jit_clif j))" using j1(5) s by (force simp: ran_def)
    from bspec [OF resolved this] consider f where "f \<in> set ?fs" "has_body f" "irf_name f = name" | "name \<in> known"
      | i h where "syms (jit_clif j) i = Some (name, h)" "defs (jit_clif j) i \<noteq> None"
      by auto
    then show ?thesis
    proof cases
      case 1
      then show ?thesis using d [of f] names_unique [OF s] by (metis option.distinct(1))
    next
      case 3
      then have "syms (jit_clif j1) i = Some (name, h)" "defs (jit_clif j1) i \<noteq> None" using j1(3,4) by (auto simp: map_le_def dom_def)
      then show ?thesis using names_unique [OF s] by blast
    qed simp
  qed
  then obtain jm where jm: "finalize_definitions C (jit_clif j1) = Ret jm" "syms jm = syms (jit_clif j1)" "exported jm = exported (jit_clif j1)"
      "defs jm = defs (jit_clif j1)" using definitions_law [of "jit_clif j1"] by blast
  have "jit_module C m (M, j) = rret (M', j1\<lparr>jit_clif := jm\<rparr>)" using j1(1) jm(1) ks by (simp add: jit_module_def loop)
  moreover have "jit_inv blank syms exported defs M0 (M', j1\<lparr>jit_clif := jm\<rparr>)" using j1(2) jm by (simp add: jit_inv_def)
  moreover have "\<exists>g fid F. fn_ready M0 f g \<and> get_name C (irf_name f) jm = Some (FuncId fid) \<and> defs jm fid = Some F \<and> implements P X M0 f g F"
    if "f \<in> set ?fs" "has_body f" for f
    using d [OF that] get_name_law [of jm] jm by metis
  ultimately show ?thesis using j1(3) jm(4) by (intro exI [of _ M'] exI [of _ "j1\<lparr>jit_clif := jm\<rparr>"]) simp
qed

end

end
