(* ===== verification/TypedExprs.thy ===== *)
theory TypedExprs
  imports VmJit ModuleCompilerProps
begin

section \<open>Typed programs compile into the fragment\<close>

text \<open>
  The compiler drops its type errors, so what it builds need not be translatable. A type checker
  for bodies says which are: \<open>wt\<close> gives the type of an expression, the machine types of its
  values and the types of the variables in scope after it. A body it accepts compiles to a tree
  of the fragment the translation is right for.
\<close>

type_synonym tenv = "string \<rightharpoonup> ty"
type_synonym typing = "ty \<times> cty list"

fun wt_literal :: "literal \<Rightarrow> typing option" where
  "wt_literal (LBool _) = Some (TBool, [B1])"
| "wt_literal (LInt _) = Some (TI64, [CI64])"
| "wt_literal (LFloat _) = Some (TF64, [CF64])"
| "wt_literal (LString _) = None"

fun wt_ident :: "cctx \<Rightarrow> tenv \<Rightarrow> string \<Rightarrow> typing option" where
  "wt_ident C G x =
     (case G x of
        Some t \<Rightarrow> (if scalar_ty t then Some (t, ctys t) else None)
      | None \<Rightarrow> map_option (\<lambda>r. (TFunction r, [CI64])) (find_function C x))"

text \<open>The target of an assignment is a variable in scope.\<close>

fun is_target :: "tenv \<Rightarrow> expr \<Rightarrow> bool" where
  "is_target G (Expr (EIdentifier x) _) = (G (lex x) \<noteq> None)"
| "is_target G _ = False"

definition wt_binary :: "bool \<Rightarrow> tkind \<Rightarrow> typing \<Rightarrow> typing \<Rightarrow> typing option" where
  "wt_binary target k l r =
     (if fst l \<noteq> fst r then None
      else if k = TK_Equal then (if target \<and> snd r = snd l then Some r else None)
      else if fst l \<notin> {TI64, TF64} then None
      else case binary_op (is_int (fst l)) k of
             Panic _ \<Rightarrow> None
           | Ret bop \<Rightarrow>
               if snd l = [bin_arg bop] \<and> snd r = [bin_arg bop]
               then Some (if is_binary_logic k then TBool else fst l, [bin_result bop]) else None)"

definition wt_if :: "typing \<Rightarrow> typing \<Rightarrow> typing option \<Rightarrow> typing option" where
  "wt_if c t e =
     (if snd c \<notin> {[B1], [CI64]} then None
      else case e of
             None \<Rightarrow> Some (TVoid, [])
           | Some e \<Rightarrow>
               if fst t \<noteq> fst e then Some (TVoid, [])
               else if scalar_ty (fst t) \<and> snd t = ctys (fst t) \<and> snd e = snd t then Some t else None)"

definition wt_call :: "cctx \<Rightarrow> ty \<Rightarrow> typing list \<Rightarrow> typing option" where
  "wt_call C t as =
     (case t of
        TFunction r \<Rightarrow>
          (case (func_resolve (cc_mods C) r, fn_sig (cc_mods C) r) of
             (Ret f, Some g) \<Rightarrow> if concat (map snd as) = sig_params g then Some (irf_ret_type f, sig_returns g) else None
           | _ \<Rightarrow> None)
      | _ \<Rightarrow> None)"

fun wt :: "cctx \<Rightarrow> tenv \<Rightarrow> expr \<Rightarrow> (typing \<times> tenv) option"
  and wts :: "cctx \<Rightarrow> tenv \<Rightarrow> expr list \<Rightarrow> (typing list \<times> tenv) option" where
  "wt C G (Expr (ELiteral l) _) = map_option (\<lambda>t. (t, G)) (wt_literal l)"
| "wt C G (Expr (EIdentifier x) _) = map_option (\<lambda>t. (t, G)) (wt_ident C G (lex x))"
| "wt C G (Expr (EBinary l op r) _) =
     (case wt C G l of
        None \<Rightarrow> None
      | Some (lt, G1) \<Rightarrow>
          (case wt C G1 r of
             None \<Rightarrow> None
           | Some (rt, G2) \<Rightarrow> map_option (\<lambda>t. (t, G2)) (wt_binary (is_target G l) (kind op) lt rt)))"
| "wt C G (Expr (EBlock es) _) =
     (case wts C G es of None \<Rightarrow> None | Some (ts, _) \<Rightarrow> Some (if ts = [] then (TVoid, []) else last ts, G))"
| "wt C G (Expr (EIf c t e) _) =
     (case wt C G c of
        None \<Rightarrow> None
      | Some (ct, G1) \<Rightarrow>
          (case wt C G1 t of
             None \<Rightarrow> None
           | Some (tt, G2) \<Rightarrow>
               (case e of
                  None \<Rightarrow> map_option (\<lambda>t. (t, G2)) (wt_if ct tt None)
                | Some e \<Rightarrow>
                    (case wt C G2 e of
                       None \<Rightarrow> None
                     | Some (et, G3) \<Rightarrow> map_option (\<lambda>t. (t, G3)) (wt_if ct tt (Some et))))))"
| "wt C G (Expr (EWhile c b) _) =
     (case wt C G c of
        None \<Rightarrow> None
      | Some (ct, G1) \<Rightarrow>
          (case wt C G1 b of
             None \<Rightarrow> None
           | Some (_, G2) \<Rightarrow> if snd ct \<in> {[B1], [CI64]} then Some ((TVoid, [CI64]), G2) else None))"
| "wt C G (Expr (EVariable final name v) _) =
     (case wt C G v of
        None \<Rightarrow> None
      | Some (t, G1) \<Rightarrow>
          if scalar_ty (fst t) \<and> snd t = ctys (fst t) then Some (t, G1(lex name \<mapsto> fst t)) else None)"
| "wt C G (Expr (ECall f as) _) =
     (case wt C G f of
        None \<Rightarrow> None
      | Some (ft, G1) \<Rightarrow>
          (case wts C G1 as of
             None \<Rightarrow> None
           | Some (ts, G2) \<Rightarrow> map_option (\<lambda>t. (t, G2)) (wt_call C (fst ft) ts)))"
| "wt C G (Expr (EUnary op r) _) = None"
| "wts C G [] = Some ([], G)"
| "wts C G (e # es) =
     (case wt C G e of
        None \<Rightarrow> None
      | Some (t, G1) \<Rightarrow> (case wts C G1 es of None \<Rightarrow> None | Some (ts, G2) \<Rightarrow> Some (t # ts, G2)))"

lemma wt_compilable:
  "wt C G e \<noteq> None \<Longrightarrow> compilable e"
  "wts C G es \<noteq> None \<Longrightarrow> \<forall>e \<in> set es. compilable e"
proof (induction C G e and C G es rule: wt_wts.induct)
  case (1 C G l u)
  then show ?case by (cases l) auto
qed (auto split: option.splits if_splits)

subsection \<open>The environment of the translation\<close>

definition ec_env :: "cctx \<Rightarrow> ec_state \<Rightarrow> fenv" where
  "ec_env C s = (let tys = map vs_ty (cc_params C @ ec_locals s) in \<lparr>fe_mods = cc_mods C, fe_tys = tys, fe_offs = offs_of tys\<rparr>)"

text \<open>Parameters and locals do not share numbers when there is none of one kind.\<close>

definition unshared :: "cctx \<Rightarrow> ec_state \<Rightarrow> bool" where
  "unshared C s \<longleftrightarrow> cc_params C = [] \<or> ec_locals s = []"

definition tgood :: "cctx \<Rightarrow> ec_state \<Rightarrow> ir_expr \<Rightarrow> typing \<Rightarrow> bool" where
  "tgood C s i t \<longleftrightarrow> good C s i \<and> ty_of i = Some (fst t) \<and> (unshared C s \<longrightarrow> vtypes (ec_env C s) i = Some (snd t))"

definition ref_ty :: "cctx \<Rightarrow> var_store list \<Rightarrow> var_ref \<Rightarrow> ty" where
  "ref_ty C ls r = (case r of VParam i \<Rightarrow> vs_ty (cc_params C ! i) | VLocal i _ \<Rightarrow> vs_ty (ls ! i))"

definition types_in :: "cctx \<Rightarrow> ec_state \<Rightarrow> tenv" where
  "types_in C s x = map_option (ref_ty C (ec_locals s)) (scope s x)"

lemma vtypes_more:
  assumes "fe_mods E' = fe_mods E" and "fe_tys E' = fe_tys E @ ns"
  shows "vtypes E e = Some ts \<Longrightarrow> vtypes E' e = Some ts"
    and "vitypes E i = Some ts \<Longrightarrow> vitypes E' i = Some ts"
    and "vt_block E es as = Some ts \<Longrightarrow> vt_block E' es as = Some ts"
    and "vt_args E es as = Some ts \<Longrightarrow> vt_args E' es as = Some ts"
  using assms
proof (induction E e and E i and E es as and E es as arbitrary: ts and ts and ts and ts rule: vtypes_vitypes_vt_block_vt_args.induct)
  case (7 E i t)
  then show ?case by (auto simp: vt_var_def nth_append split: if_splits)
qed (auto simp: vt_bin_def vt_if_def vt_call_def vt_assign_def vt_var_def nth_append split: option.splits outcome.splits if_splits iexpr.splits)

lemma callee_of_erase: "callee_of (erase e) = callee_of e"
  by (simp add: callee_of_def ty_of_erase)

lemma vtypes_erase:
  "vtypes E (erase e) = vtypes E e" "vitypes E (ierase i) = vitypes E i"
  "vt_block E (map erase es) ts = vt_block E es ts" "vt_args E (map erase es) ts = vt_args E es ts"
proof (induction E e and E i and E es ts and E es ts rule: vtypes_vitypes_vt_block_vt_args.induct)
  case (8 E tgt v)
  then show ?case by (cases tgt; cases "inner tgt") (auto split: iexpr.splits)
qed (simp_all add: ty_of_erase callee_of_erase split: option.splits)

subsection \<open>Judgements about compiled expressions\<close>

lemma ec_env_simps [simp]: "fe_mods (ec_env C s) = cc_mods C" "fe_tys (ec_env C s) = map vs_ty (cc_params C @ ec_locals s)"
  by (simp_all add: ec_env_def Let_def)

lemma tgood_ext: "tgood C s i t \<Longrightarrow> ext s s' \<Longrightarrow> tgood C s' i t"
  unfolding tgood_def
  using good_ext vtypes_more(1) [of "ec_env C s'" "ec_env C s"] by (fastforce simp: ext_def unshared_def)

lemma tgood_typ:
  assumes "tgood C s e t" and "e_typ e = Ret (t', e')"
  shows "t' = fst t" and "tgood C s e' t"
proof -
  have g: "good C s e" "ty_of e = Some (fst t)" using assms(1) by (simp_all add: tgood_def)
  note q = good_typ [OF g(1) assms(2)]
  have "erase e' = erase e" using typing.query_Ret [OF _ assms(2)] g(1) by (simp add: good_def)
  then have "vtypes E e' = vtypes E e" for E by (metis vtypes_erase(1))
  with q g assms(1) show "t' = fst t" "tgood C s e' t" by (simp_all add: tgood_def)
qed

lemma tgood_simps:
  "wt_literal l = Some t \<Longrightarrow> tgood C s (e_constant (from_literal l)) t"
  "tgood C s e_zero (TI64, [CI64])"
  by (cases l) (auto simp: tgood_def e_defs good_def vt_const_def)

lemma tgood_binary:
  assumes "wt_binary b k l r = Some t" and "k = kind op" "k \<noteq> TK_Equal" and "tgood C s x l" and "tgood C s y r"
  shows "tgood C s (e_binary x op y) t"
  using assms by (auto simp: wt_binary_def tgood_def e_defs good_def vt_bin_def split: if_splits outcome.splits)

lemma tgood_assign:
  assumes "wt_binary True TK_Equal l r = Some t" and "tgood C s x l" and "tgood C s y r" and "\<exists>j u. inner x = IVariable j u"
  shows "tgood C s (e_assign x y) t"
  using assms by (cases x) (auto simp: wt_binary_def tgood_def e_defs good_def vt_assign_def split: if_splits)

lemma tgood_while:
  assumes "tgood C s c ct" and "tgood C s b bt" and "snd ct \<in> {[B1], [CI64]}"
  shows "tgood C s (e_while c b) (TVoid, [CI64])"
  using assms by (auto simp: tgood_def e_defs good_def)

lemma tgood_block:
  assumes "list_all2 (tgood C s) es ts"
  shows "tgood C s (e_block es) (if ts = [] then (TVoid, []) else last ts)"
proof -
  have "ty_of_last es = Some (fst (if ts = [] then (TVoid, []) else last ts))" using assms
    by (induction rule: list_all2_induct) (auto simp: tgood_def list_all2_Cons1 list_all2_Nil)
  moreover have "vt_block (ec_env C s) es vs = Some (if ts = [] then vs else snd (last ts))" if "unshared C s" for vs
    using assms that by (induction arbitrary: vs rule: list_all2_induct) (auto simp: tgood_def)
  moreover have "\<forall>e \<in> set es. good C s e" using assms by (auto simp: list_all2_conv_all_nth in_set_conv_nth tgood_def)
  ultimately show ?thesis by (auto simp: tgood_def e_defs good_def)
qed

lemma tgood_if:
  assumes "wt_if c t e = Some u" and "e_if x y z = Ret i" and "tgood C s x c" and "tgood C s y t"
    and "rel_option (tgood C s) z e"
  shows "tgood C s i u"
proof (cases z)
  case None
  with assms have i: "i = e_new (IIf x y e_zero False)" "u = (TVoid, [])" "snd c \<in> {[B1], [CI64]}"
    by (auto simp: e_if_def wt_if_def split: if_splits)
  have "good C s i" using good_if [OF assms(2)] assms(3,4) None by (simp add: tgood_def)
  with assms(3,4) i tgood_simps(2) [of C s] show ?thesis by (auto simp: tgood_def e_new_def vt_if_def)
next
  case (Some z1)
  with assms(5) obtain e1 where e1: "e = Some e1" "tgood C s z1 e1" by (auto simp: option_rel_Some1)
  obtain tt y' tz z' where y: "e_typ y = Ret (tt, y')" "e_typ z1 = Ret (tz, z')" "i = e_new (IIf x y' z' (tt = tz))"
    using assms(2) Some by (auto simp: e_if_def outcome_simps)
  note yg = tgood_typ [OF assms(4) y(1)] and zg = tgood_typ [OF e1(2) y(2)]
  have "good C s i" using good_if [OF assms(2)] assms(3,4) e1(2) Some by (simp add: tgood_def)
  with assms(1,3) e1(1) yg zg y(3) show ?thesis
    by (auto simp: tgood_def e_new_def vt_if_def wt_if_def split: if_splits)
qed

lemma vt_args_all:
  "list_all2 (tgood C s) es ts \<Longrightarrow> unshared C s \<Longrightarrow> vt_args (ec_env C s) es acc = Some (acc @ concat (map snd ts))"
  by (induction arbitrary: acc rule: list_all2_induct) (auto simp: tgood_def)

lemma check_args_tgood:
  "check_args C p k ps as s = Ret (as', s') \<Longrightarrow> list_all2 (tgood C s) as ts \<Longrightarrow> list_all2 (tgood C s) as' ts"
  by (induction C p k ps as s arbitrary: as' ts rule: check_args.induct)
    (auto simp: outcome_simps list_all2_Cons1 split: if_splits dest: tgood_typ(2))

lemma tgood_call:
  assumes "wt_call C (TFunction r) ts = Some t" and "func_resolve (cc_mods C) r = Ret f" and "call_args C p f x as s = Ret (i, s')"
    and "tgood C s x u" "fst u = TFunction r" and "list_all2 (tgood C s) as ts" and "fty_ok C (irf_ret_type f)"
  shows "tgood C s i t"
proof -
  obtain g where g: "fn_sig (cc_mods C) r = Some g" "concat (map snd ts) = sig_params g" "t = (irf_ret_type f, sig_returns g)"
    using assms(1,2) by (auto simp: wt_call_def split: option.splits if_splits)
  obtain as' where as': "check_args C p 0 (irf_params f) as s = Ret (as', s)" "i = e_call x as' (irf_ret_type f)"
    using assms(3) by (auto simp: call_args_def Let_def outcome_simps dest: check_args_state)
  note l = check_args_tgood [OF as'(1) assms(6)]
  have gs: "\<forall>a \<in> set as'. good C s a" using l by (auto simp: list_all2_conv_all_nth in_set_conv_nth tgood_def)
  have "callee_of x = Some r" using assms(4,5) by (simp add: tgood_def callee_of_def)
  with gs assms(4,7) g vt_args_all [OF l, of "[]"] as'(2) show ?thesis
    by (auto simp: tgood_def e_call_def e_with_typ_def good_def vt_call_def)
qed

lemma types_ext:
  assumes "ec_inv C s" and "ext s s'" and "ec_envs s' = ec_envs s"
  shows "types_in C s' = types_in C s"
proof
  fix x
  have "scope s' x = scope s x" using assms(3) by (simp add: scope_def)
  moreover have "ref_ty C (ec_locals s') r = ref_ty C (ec_locals s) r" if "scope s x = Some r" for r
    using scope_ref_ok [OF assms(1) that] assms(2) by (auto simp: ref_ok_def ref_ty_def ext_def nth_append split: var_ref.splits)
  ultimately show "types_in C s' x = types_in C s x" by (cases "scope s x") (simp_all add: types_in_def)
qed

definition all_scalar :: "ec_state \<Rightarrow> bool" where
  "all_scalar s \<longleftrightarrow> (\<forall>l \<in> set (ec_locals s). scalar_ty (vs_ty l))"

lemma all_scalar_scope [simp]: "all_scalar (begin_scope s) = all_scalar s" "all_scalar (end_scope s) = all_scalar s"
  by (simp_all add: all_scalar_def begin_scope_def end_scope_def)

lemma types_begin [simp]: "types_in C (begin_scope s) = types_in C s"
  by (simp add: types_in_def scope_def begin_scope_def fun_eq_iff)

lemma tgood_identifier:
  assumes "wt_ident C (types_in C s) (lex x) = Some t" and "ec_identifier C x s = Ret (i, s')" and "ec_inv C s" and "ctx_ok C"
  shows "tgood C s i t" and "types_in C s (lex x) \<noteq> None \<Longrightarrow> \<exists>j u. inner i = IVariable j u"
proof -
  have g: "good C s i" using ec_identifier_post [OF assms(2-4)] by simp
  have "tgood C s i t \<and> (types_in C s (lex x) \<noteq> None \<longrightarrow> (\<exists>j u. inner i = IVariable j u))"
  proof (cases "scope s (lex x)")
    case None
    with assms(1,2) g show ?thesis
      by (auto simp: ec_identifier_def find_local_scope types_in_def tgood_def e_defs vt_const_def split: option.splits)
  next
    case (Some r)
    with assms(2) obtain v where v: "deref C s r = Ret v" "i = e_local v"
      by (auto simp: ec_identifier_def find_local_scope outcome_simps)
    have t: "t = (ref_ty C (ec_locals s) r, ctys (ref_ty C (ec_locals s) r))" "scalar_ty (ref_ty C (ec_locals s) r)"
      using assms(1) Some by (auto simp: types_in_def split: if_splits)
    have ro: "ref_ok C (ec_locals s) (lex x) r" by (rule scope_ref_ok [OF assms(3) Some])
    have "vs_ty v = ref_ty C (ec_locals s) r"
      using v(1) ro by (auto simp: deref_def ref_ty_def idx_def split: var_ref.splits if_splits)
    moreover have "vt_var (ec_env C s) (vs_index v) (vs_ty v) = Some (ctys (vs_ty v))" if "unshared C s"
      using that v(1) ro t(2) assms(3,4) calculation
      by (auto simp: unshared_def deref_def ref_ok_def idx_def vt_var_def ec_inv_def ctx_ok_def table_ok_def nth_append
          split: var_ref.splits if_splits)
    ultimately show ?thesis using g v(2) t(1) by (simp add: tgood_def e_defs)
  qed
  then show "tgood C s i t" "types_in C s (lex x) \<noteq> None \<Longrightarrow> \<exists>j u. inner i = IVariable j u" by blast+
qed

lemma tgood_variable:
  assumes "ec_variable C final n v s = Ret (i, s')" and "tgood C s v t" and "ec_inv C s" and "ctx_ok C"
    and t: "scalar_ty (fst t)" "snd t = ctys (fst t)" and "all_scalar s"
  shows "tgood C s' i t" and "types_in C s' = (types_in C s)(lex n \<mapsto> fst t)" and "all_scalar s'"
proof -
  note post = ec_variable_post [OF assms(1,3,4)]
  define l where "l = \<lparr>vs_ty = fst t, vs_name = lex n, vs_index = length (ec_locals s), vs_mutable = (\<not> final)\<rparr>"
  obtain v' where v': "tgood C s v' t" and i: "i = e_assign_local l v'"
    and s': "s' = s\<lparr>ec_locals := ec_locals s @ [l],
        ec_envs := butlast (ec_envs s) @ [(last (ec_envs s))(lex n \<mapsto>
           VLocal (length (ec_locals s)) (cc_buf C (Suc (length (ec_locals s)))))]\<rparr>"
    using assms(1,3) tgood_typ [OF assms(2)]
    by (auto simp: ec_variable_def outcome_simps add_local_def Let_def add_to_scope_def ec_inv_def l_def
        split: if_splits)
  have e: "ext s s'" by (simp add: ext_def s')
  have "good C s' i" using post assms(2) by (simp add: tgood_def)
  moreover have "vt_var (ec_env C s') (length (ec_locals s)) (fst t) = Some (ctys (fst t))" if "unshared C s'"
    using that t(1) by (auto simp: unshared_def vt_var_def s' l_def nth_append)
  ultimately show "tgood C s' i t"
    using tgood_ext [OF v' e] t(2) by (auto simp: tgood_def i e_defs l_def vt_assign_def)
  show "all_scalar s'" using assms(7) t(1) by (simp add: all_scalar_def s' l_def)
  have sc: "scope s' = (scope s)(lex n \<mapsto> VLocal (length (ec_locals s)) (cc_buf C (Suc (length (ec_locals s)))))"
  proof -
    obtain B L where "ec_envs s = B @ [L]" using assms(3) by (cases "ec_envs s" rule: rev_cases) (auto simp: ec_inv_def)
    then show ?thesis by (simp add: s' scope_def)
  qed
  show "types_in C s' = (types_in C s)(lex n \<mapsto> fst t)"
  proof
    fix x
    have "ref_ty C (ec_locals s') r = ref_ty C (ec_locals s) r" if "scope s x = Some r" for r
      using scope_ref_ok [OF assms(3) that] by (auto simp: ref_ok_def ref_ty_def s' nth_append split: var_ref.splits)
    then show "types_in C s' x = ((types_in C s)(lex n \<mapsto> fst t)) x"
      by (cases "scope s x") (auto simp: types_in_def sc, auto simp: ref_ty_def s' l_def)
  qed
qed

subsection \<open>Typed expressions\<close>

lemma typ_variable: "inner e = IVariable j u \<Longrightarrow> e_typ e = Ret (t, e') \<Longrightarrow> inner e' = IVariable j u"
  by (cases e; cases "cell e") auto

lemma tgood_ec_binary:
  assumes "wt_binary b (kind op) l r = Some t" and "ec_binary C op x y s = Ret (i, s')" and "tgood C s x l" and "tgood C s y r"
    and "b \<Longrightarrow> \<exists>j u. inner x = IVariable j u"
  shows "tgood C s i t"
proof -
  obtain lt x' rt y' where e: "e_typ x = Ret (lt, x')" "e_typ y = Ret (rt, y')" using assms(2) by (auto simp: ec_binary_def outcome_simps)
  note x' = tgood_typ [OF assms(3) e(1)] and y' = tgood_typ [OF assms(4) e(2)]
  have "lt = rt" using assms(1) x'(1) y'(1) by (auto simp: wt_binary_def split: if_splits)
  show ?thesis
  proof (cases "kind op = TK_Equal")
    case True
    then have "i = e_assign x' y'" using assms(2) e \<open>lt = rt\<close> by (simp add: ec_binary_def Let_def)
    moreover have "b" using assms(1) True by (auto simp: wt_binary_def split: if_splits)
    moreover have "\<exists>j u. inner x' = IVariable j u" using assms(5) \<open>b\<close> typ_variable e(1) by blast
    ultimately show ?thesis using tgood_assign [OF _ x'(2) y'(2)] assms(1) True by simp
  next
    case False
    then have "i = e_binary x' op y'" using assms(2) e \<open>lt = rt\<close> by (auto simp: ec_binary_def Let_def outcome_simps split: if_splits)
    then show ?thesis using tgood_binary [OF assms(1) refl False x'(2) y'(2)] by simp
  qed
qed

definition tpost :: "cctx \<Rightarrow> tenv \<Rightarrow> ec_state \<Rightarrow> bool" where
  "tpost C G s \<longleftrightarrow> ec_inv C s \<and> types_in C s = G \<and> all_scalar s"

lemma ec_condition_tgood:
  "ec_condition p c s = Ret (i, s') \<Longrightarrow> tgood C s c t \<Longrightarrow> s' = s \<and> tgood C s i t"
  by (auto simp: ec_condition_def outcome_simps dest: tgood_typ(2))

lemma ec_expr_typed:
  assumes "ctx_ok C"
  shows "tpost C G s \<Longrightarrow> wt C G e = Some (t, G') \<Longrightarrow> ec_expr C e s = Ret (i, s') \<Longrightarrow>
      tpost C G' s' \<and> ext s s' \<and> tgood C s' i t \<and> (is_target G e \<longrightarrow> (\<exists>j u. inner i = IVariable j u))"
    and "tpost C G s \<Longrightarrow> wts C G es = Some (ts, G') \<Longrightarrow> ec_exprs C es s = Ret (is, s') \<Longrightarrow>
      tpost C G' s' \<and> ext s s' \<and> list_all2 (tgood C s') is ts"
  using assms
proof (induction C G e and C G es arbitrary: s i s' t G' and s "is" s' ts G' rule: wt_wts.induct)
  case (1 C G l u)
  then show ?case by (auto simp: tgood_simps)
next
  case (2 C G x u)
  have g: "types_in C s = G" "ec_inv C s" using 2(1) by (simp_all add: tpost_def)
  have c: "ec_identifier C x s = Ret (i, s')" using 2(3) by simp
  have w: "wt_ident C (types_in C s) (lex x) = Some t" "G' = G" using 2(2) g(1) by (auto simp del: wt_ident.simps)
  have "s' = s" using ec_identifier_state [OF c] .
  then show ?case using tgood_identifier [OF w(1) c g(2) 2(4)] 2(1) g(1) w(2) by auto
next
  case (3 C G l op r u)
  obtain lt G1 rt where w: "wt C G l = Some (lt, G1)" "wt C G1 r = Some (rt, G')" "wt_binary (is_target G l) (kind op) lt rt = Some t"
    using 3(4) by (auto split: option.splits)
  obtain x s1 y where c: "ec_expr C l s = Ret (x, s1)" "ec_expr C r s1 = Ret (y, s')" "ec_binary C op x y s' = Ret (i, s')"
    using 3(5) by (auto simp: outcome_simps dest: ec_binary_state)
  have a: "tpost C G1 s1" "ext s s1" "tgood C s1 x lt" "is_target G l \<longrightarrow> (\<exists>j u. inner x = IVariable j u)"
    using 3(1) [OF 3(3) w(1) c(1) 3(6)] by auto
  have b: "tpost C G' s'" "ext s1 s'" "tgood C s' y rt" using 3(2) [OF w(1) refl a(1) w(2) c(2) 3(6)] by auto
  show ?case using tgood_ec_binary [OF w(3) c(3) tgood_ext [OF a(3) b(2)] b(3)] a b ext_trans by auto
next
  case (4 C G es u)
  obtain ts G1 where w: "wts C G es = Some (ts, G1)" "t = (if ts = [] then (TVoid, []) else last ts)" "G' = G"
    using 4(3) by (auto split: option.splits)
  obtain es' s1 where c: "ec_exprs C es (begin_scope s) = Ret (es', s1)" "i = e_block es'" "s' = end_scope s1"
    using 4(4) by (auto simp: outcome_simps)
  have inv: "ec_inv C s" "types_in C s = G" "all_scalar s" using 4(2) by (simp_all add: tpost_def)
  have "tpost C G (begin_scope s)" using inv by (simp add: tpost_def begin_scope_inv)
  then have a: "tpost C G1 s1" "ext (begin_scope s) s1" "list_all2 (tgood C s1) es' ts" using 4(1) [OF _ w(1) c(1) 4(5)] by auto
  note e = end_scope_inv [OF inv(1) _ a(2)]
  have "tgood C s' i t" using tgood_block [OF a(3)] w(2) c(2,3) by (simp add: tgood_def unshared_def ec_env_def end_scope_def good_def)
  moreover have "tpost C G' s'" using e a(1) types_ext [OF inv(1) e(2,3)] inv c(3) w(3)
    by (simp add: tpost_def)
  ultimately show ?case using e(2) a(1) c(3) by (simp add: tpost_def)
next
  case (5 C G c b e u)
  obtain ct G1 bt G2 where w: "wt C G c = Some (ct, G1)" "wt C G1 b = Some (bt, G2)" using 5(5) by (auto split: option.splits)
  obtain x s1 x' s1' y s2 z where c: "ec_expr C c s = Ret (x, s1)" "ec_condition (estart c) x s1 = Ret (x', s1')"
      "ec_expr C b s1' = Ret (y, s2)" "e_if x' y z = Ret i"
    and els: "case e of None \<Rightarrow> z = None \<and> s' = s2 | Some d \<Rightarrow> \<exists>d'. ec_expr C d s2 = Ret (d', s') \<and> z = Some d'"
    using 5(6) by (cases e) (auto simp: outcome_simps)
  have a: "tpost C G1 s1" "ext s s1" "tgood C s1 x ct" using 5(1) [OF 5(4) w(1) c(1) 5(7)] by auto
  have a': "s1' = s1" "tgood C s1 x' ct" using ec_condition_tgood [OF c(2) a(3)] by auto
  have b: "tpost C G2 s2" "ext s1 s2" "tgood C s2 y bt" using 5(2) [OF w(1) refl a(1) w(2) _ 5(7)] c(3) a'(1) by auto
  show ?case
  proof (cases e)
    case None
    then have "wt_if ct bt None = Some t" "G' = G2" "z = None" "s' = s2" using 5(5) w els by auto
    then show ?thesis using tgood_if [OF _ c(4) tgood_ext [OF a'(2) b(2)] b(3)] b a(2) ext_trans None by auto
  next
    case (Some d)
    obtain dt where v: "wt C G2 d = Some (dt, G')" "wt_if ct bt (Some dt) = Some t" using 5(5) w Some by (auto split: option.splits)
    obtain d' where d': "ec_expr C d s2 = Ret (d', s')" "z = Some d'" using els Some by auto
    have q: "tpost C G' s'" "ext s2 s'" "tgood C s' d' dt" using 5(3) [OF w(1) refl w(2) refl Some b(1) v(1) d'(1) 5(7)] by auto
    have "tgood C s' x' ct" "tgood C s' y bt" using tgood_ext a'(2) b(2,3) q(2) by blast+
    then show ?thesis using tgood_if [OF v(2) c(4)] q d'(2) a(2) b(2) ext_trans Some by (metis is_target.simps(5) option.rel_inject(2))
  qed
next
  case (6 C G c b u)
  obtain ct G1 bt where w: "wt C G c = Some (ct, G1)" "wt C G1 b = Some (bt, G')" "snd ct \<in> {[B1], [CI64]}" "t = (TVoid, [CI64])"
    using 6(4) by (auto split: option.splits if_splits)
  obtain x s1 x' s1' y where c: "ec_expr C c s = Ret (x, s1)" "ec_condition (estart c) x s1 = Ret (x', s1')" "ec_expr C b s1' = Ret (y, s')" "i = e_while x' y"
    using 6(5) by (auto simp: outcome_simps)
  have a: "tpost C G1 s1" "ext s s1" "tgood C s1 x ct" using 6(1) [OF 6(3) w(1) c(1) 6(6)] by auto
  have a': "s1' = s1" "tgood C s1 x' ct" using ec_condition_tgood [OF c(2) a(3)] by auto
  have b: "tpost C G' s'" "ext s1 s'" "tgood C s' y bt" using 6(2) [OF w(1) refl a(1) w(2) _ 6(6)] c(3) a'(1) by auto
  show ?case using tgood_while [OF tgood_ext [OF a'(2) b(2)] b(3) w(3)] c(4) w(4) b a(2) ext_trans by auto
next
  case (7 C G final name v u)
  obtain G1 where w: "wt C G v = Some (t, G1)" "scalar_ty (fst t)" "snd t = ctys (fst t)" "G' = G1(lex name \<mapsto> fst t)"
    using 7(3) by (auto split: option.splits if_splits)
  obtain x s1 where c: "ec_expr C v s = Ret (x, s1)" "ec_variable C final name x s1 = Ret (i, s')"
    using 7(4) by (auto simp: outcome_simps)
  have a: "tpost C G1 s1" "ext s s1" "tgood C s1 x t" using 7(1) [OF 7(2) w(1) c(1) 7(5)] by auto
  have inv: "ec_inv C s1" "all_scalar s1" "types_in C s1 = G1" using a(1) by (simp_all add: tpost_def)
  note p = tgood_variable [OF c(2) a(3) inv(1) 7(5) w(2,3) inv(2)]
  have "ec_inv C s' \<and> ext s1 s'" using ec_variable_post [OF c(2) inv(1) 7(5)] a(3) by (simp add: tgood_def)
  then show ?case using p w(4) inv(3) a(2) ext_trans by (auto simp: tpost_def)
next
  case (8 C G f as u)
  obtain ft G1 ts where w: "wt C G f = Some (ft, G1)" "wts C G1 as = Some (ts, G')" "wt_call C (fst ft) ts = Some t"
    using 8(4) by (auto split: option.splits)
  obtain r where r: "fst ft = TFunction r" using w(3) by (auto simp: wt_call_def split: ty.splits)
  obtain x s1 ct x' where c: "ec_expr C f s = Ret (x, s1)" "e_typ x = Ret (ct, x')" using 8(5) by (auto simp: outcome_simps)
  have a: "tpost C G1 s1" "ext s s1" "tgood C s1 x ft" using 8(1) [OF 8(3) w(1) c(1) 8(6)] by auto
  note x' = tgood_typ [OF a(3) c(2)]
  obtain fn ys where d: "func_resolve (cc_mods C) r = Ret fn" "ec_exprs C as s1 = Ret (ys, s')"
      "call_args C (estart f) fn x' ys s' = Ret (i, s')"
    using 8(5) c x'(1) r by (auto simp: outcome_simps dest: call_args_state)
  have b: "tpost C G' s'" "ext s1 s'" "list_all2 (tgood C s') ys ts" using 8(2) [OF w(1) refl a(1) w(2) d(2) 8(6)] by auto
  have "tgood C s' i t"
    using tgood_call [OF _ d(1,3) tgood_ext [OF x'(2) b(2)] r b(3) func_resolve_ret [OF 8(6) d(1)]] w(3) r by simp
  then show ?case using b(1,2) a(2) ext_trans by auto
next
  case (11 C G e es)
  obtain t G1 ts1 where w: "wt C G e = Some (t, G1)" "wts C G1 es = Some (ts1, G')" "ts = t # ts1"
    using 11(4) by (auto split: option.splits)
  obtain x s1 xs where c: "ec_expr C e s = Ret (x, s1)" "ec_exprs C es s1 = Ret (xs, s')" "is = x # xs"
    using 11(5) by (auto simp: outcome_simps)
  have a: "tpost C G1 s1" "ext s s1" "tgood C s1 x t" using 11(1) [OF 11(3) w(1) c(1) 11(6)] by auto
  have b: "tpost C G' s'" "ext s1 s'" "list_all2 (tgood C s') xs ts1" using 11(2) [OF w(1) refl a(1) w(2) c(2) 11(6)] by auto
  show ?case using b a(2) tgood_ext [OF a(3) b(2)] c(3) w(3) ext_trans by auto
qed auto

end
