(* ===== verification/SourceSem.thy ===== *)
theory SourceSem
  imports TypedExprs
begin

section \<open>The meaning of source programs\<close>

text \<open>
  An evaluator for the syntax tree that knows nothing of the compiler: values carry their kind,
  variables live in frames, the innermost first, a block opens a frame, a declaration adds to the
  innermost one and an assignment changes the innermost variable of the name. Compiling a typed
  body keeps this meaning: the tree the compiler builds computes the words of the value, with every
  variable in the slot of its number.

  The language declares variables only as statements of a block; elsewhere a declaration has no
  meaning. Values of classes are opaque words, since no expression makes or opens one. \<open>n\<close> bounds
  the rounds of each loop, \<open>D\<close> finds functions by name and \<open>Z\<close> is what calling one does.
\<close>

datatype val = UnitV | BoolV bool | IntV i64 | FloatV f64 | FunV func_ref | ObjV "u64 list"

type_synonym frames = "(string \<rightharpoonup> val) list"
type_synonym 'w sstate = "frames \<times> 'w"
type_synonym 'w scalls = "func_ref \<Rightarrow> val list \<Rightarrow> 'w \<Rightarrow> (val \<times> 'w) option"

fun look :: "frames \<Rightarrow> string \<Rightarrow> val option" where
  "look [] x = None"
| "look (fr # frs) x = (case fr x of Some v \<Rightarrow> Some v | None \<Rightarrow> look frs x)"

fun assign :: "string \<Rightarrow> val \<Rightarrow> frames \<Rightarrow> frames option" where
  "assign x v [] = None"
| "assign x v (fr # frs) =
     (case fr x of Some _ \<Rightarrow> Some (fr(x \<mapsto> v) # frs) | None \<Rightarrow> map_option (\<lambda>frs. fr # frs) (assign x v frs))"

fun declare_in :: "string \<Rightarrow> val \<Rightarrow> frames \<Rightarrow> frames" where
  "declare_in x v [] = []"
| "declare_in x v (fr # frs) = fr(x \<mapsto> v) # frs"

fun lit_val :: "literal \<Rightarrow> val option" where
  "lit_val (LBool b) = Some (BoolV b)"
| "lit_val (LInt i) = Some (IntV i)"
| "lit_val (LFloat f) = Some (FloatV f)"
| "lit_val (LString _) = None"

definition result_val :: "tkind \<Rightarrow> (u64 \<Rightarrow> val) \<Rightarrow> u64 \<Rightarrow> val" where
  "result_val k mk z = (if is_binary_logic k then BoolV (z \<noteq> 0) else mk z)"

fun val_bin :: "fpu \<Rightarrow> tkind \<Rightarrow> val \<Rightarrow> val \<Rightarrow> val option" where
  "val_bin P k (IntV x) (IntV y) = map_option (result_val k IntV) (int_bin k x y)"
| "val_bin P k (FloatV x) (FloatV y) = map_option (result_val k FloatV) (float_bin P k x y)"
| "val_bin P k _ _ = None"

fun truth :: "val \<Rightarrow> bool option" where
  "truth (BoolV b) = Some b"
| "truth (IntV x) = Some (x \<noteq> 0)"
| "truth _ = None"

primrec sloop :: "nat \<Rightarrow> ('w sstate \<Rightarrow> (val \<times> 'w sstate) option) \<Rightarrow> ('w sstate \<Rightarrow> (val \<times> 'w sstate) option) \<Rightarrow> 'w sstate \<Rightarrow> 'w sstate option" where
  "sloop 0 cnd body st = None"
| "sloop (Suc n) cnd body st =
     (case cnd st of
        None \<Rightarrow> None
      | Some (v, st) \<Rightarrow>
          (case truth v of
             None \<Rightarrow> None
           | Some b \<Rightarrow> if \<not> b then Some st else case body st of None \<Rightarrow> None | Some (_, st) \<Rightarrow> sloop n cnd body st))"

function (sequential) seval :: "fpu \<Rightarrow> 'w scalls \<Rightarrow> (string \<Rightarrow> func_ref option) \<Rightarrow> nat \<Rightarrow> expr \<Rightarrow> 'w sstate \<Rightarrow> (val \<times> 'w sstate) option"
  and sstmts :: "fpu \<Rightarrow> 'w scalls \<Rightarrow> (string \<Rightarrow> func_ref option) \<Rightarrow> nat \<Rightarrow> expr list \<Rightarrow> val \<Rightarrow> 'w sstate \<Rightarrow> (val \<times> 'w sstate) option"
  and sargs :: "fpu \<Rightarrow> 'w scalls \<Rightarrow> (string \<Rightarrow> func_ref option) \<Rightarrow> nat \<Rightarrow> expr list \<Rightarrow> 'w sstate \<Rightarrow> (val list \<times> 'w sstate) option" where
  "seval P Z D n (Expr (ELiteral l) _) st = map_option (\<lambda>v. (v, st)) (lit_val l)"
| "seval P Z D n (Expr (EIdentifier x) _) st =
     (case look (fst st) (lex x) of Some v \<Rightarrow> Some (v, st) | None \<Rightarrow> map_option (\<lambda>r. (FunV r, st)) (D (lex x)))"
| "seval P Z D n (Expr (EBinary l op r) _) st =
     (if kind op = TK_Equal then
        (case l of
           Expr (EIdentifier x) _ \<Rightarrow>
             (case seval P Z D n r st of
                None \<Rightarrow> None
              | Some (v, frs, w) \<Rightarrow> map_option (\<lambda>frs. (v, frs, w)) (assign (lex x) v frs))
         | _ \<Rightarrow> None)
      else
        (case seval P Z D n l st of
           None \<Rightarrow> None
         | Some (x, st) \<Rightarrow>
             (case seval P Z D n r st of
                None \<Rightarrow> None
              | Some (y, st) \<Rightarrow> map_option (\<lambda>z. (z, st)) (val_bin P (kind op) x y))))"
| "seval P Z D n (Expr (EBlock es) _) st =
     (case sstmts P Z D n es UnitV (Map.empty # fst st, snd st) of
        None \<Rightarrow> None
      | Some (v, frs, w) \<Rightarrow> Some (v, tl frs, w))"
| "seval P Z D n (Expr (EIf c t e) _) st =
     (case seval P Z D n c st of
        None \<Rightarrow> None
      | Some (v, st) \<Rightarrow>
          (case truth v of
             None \<Rightarrow> None
           | Some b \<Rightarrow>
               (case e of
                  None \<Rightarrow> if b then map_option (\<lambda>(_, st). (UnitV, st)) (seval P Z D n t st) else Some (UnitV, st)
                | Some e \<Rightarrow> if b then seval P Z D n t st else seval P Z D n e st)))"
| "seval P Z D n (Expr (EWhile c b) _) st =
     map_option (\<lambda>st. (UnitV, st)) (sloop n (\<lambda>st. seval P Z D n c st) (\<lambda>st. seval P Z D n b st) st)"
| "seval P Z D n (Expr (ECall f as) _) st =
     (case seval P Z D n f st of
        Some (FunV r, st) \<Rightarrow>
          (case sargs P Z D n as st of
             None \<Rightarrow> None
           | Some (vs, frs, w) \<Rightarrow> map_option (\<lambda>(v, w). (v, frs, w)) (Z r vs w))
      | _ \<Rightarrow> None)"
| "seval P Z D n _ st = None"
| "sstmts P Z D n [] v st = Some (v, st)"
| "sstmts P Z D n (Expr (EVariable final x e) _ # es) v st =
     (case seval P Z D n e st of
        None \<Rightarrow> None
      | Some (v, frs, w) \<Rightarrow> sstmts P Z D n es v (declare_in (lex x) v frs, w))"
| "sstmts P Z D n (e # es) v st =
     (case seval P Z D n e st of None \<Rightarrow> None | Some (v, st) \<Rightarrow> sstmts P Z D n es v st)"
| "sargs P Z D n [] st = Some ([], st)"
| "sargs P Z D n (e # es) st =
     (case seval P Z D n e st of
        None \<Rightarrow> None
      | Some (v, st) \<Rightarrow> map_option (\<lambda>(vs, st). (v # vs, st)) (sargs P Z D n es st))"
  by pat_completeness auto

termination
  by (relation "measure (\<lambda>x. case x of
        Inl (_, _, _, _, e, _) \<Rightarrow> size e
      | Inr (Inl (_, _, _, _, es, _, _)) \<Rightarrow> size_list size es
      | Inr (Inr (_, _, _, _, es, _)) \<Rightarrow> size_list size es)") auto

text \<open>Trees that declare variables only as statements of a block and call functions by a name. The
  translator never evaluates the callee of a call, so the effects of any other callee are lost.\<close>

fun is_name :: "expr \<Rightarrow> bool" where
  "is_name (Expr (EIdentifier _) _) = True"
| "is_name _ = False"

fun expr_form :: "expr \<Rightarrow> bool" and stmts_form :: "expr list \<Rightarrow> bool" where
  "expr_form (Expr (EBinary l op r) _) \<longleftrightarrow> expr_form l \<and> expr_form r"
| "expr_form (Expr (EBlock es) _) = stmts_form es"
| "expr_form (Expr (EIf c t e) _) \<longleftrightarrow> expr_form c \<and> expr_form t \<and> (case e of None \<Rightarrow> True | Some e \<Rightarrow> expr_form e)"
| "expr_form (Expr (EWhile c b) _) \<longleftrightarrow> expr_form c \<and> expr_form b"
| "expr_form (Expr (ECall f as) _) \<longleftrightarrow> is_name f \<and> (\<forall>a \<in> set as. expr_form a)"
| "expr_form (Expr (EVariable final x e) _) = False"
| "expr_form _ = True"
| "stmts_form [] = True"
| "stmts_form (Expr (EVariable final x e) _ # es) \<longleftrightarrow> expr_form e \<and> stmts_form es"
| "stmts_form (e # es) \<longleftrightarrow> expr_form e \<and> stmts_form es"

text \<open>A statement of a block.\<close>

fun stmt_form :: "expr \<Rightarrow> bool" where
  "stmt_form (Expr (EVariable final x e) _) = expr_form e"
| "stmt_form e = expr_form e"

fun sstmt :: "fpu \<Rightarrow> 'w scalls \<Rightarrow> (string \<Rightarrow> func_ref option) \<Rightarrow> nat \<Rightarrow> expr \<Rightarrow> 'w sstate \<Rightarrow> (val \<times> 'w sstate) option" where
  "sstmt P Z D n (Expr (EVariable final x e) _) st =
     (case seval P Z D n e st of None \<Rightarrow> None | Some (v, frs, w) \<Rightarrow> Some (v, declare_in (lex x) v frs, w))"
| "sstmt P Z D n e st = seval P Z D n e st"

lemma stmts_Cons:
  "stmts_form (e # es) \<longleftrightarrow> stmt_form e \<and> stmts_form es"
  "sstmts P Z D n (e # es) v st = (case sstmt P Z D n e st of None \<Rightarrow> None | Some (v, st) \<Rightarrow> sstmts P Z D n es v st)"
proof -
  obtain x u where e: "e = Expr x u" by (cases e)
  show "stmts_form (e # es) \<longleftrightarrow> stmt_form e \<and> stmts_form es"
    "sstmts P Z D n (e # es) v st = (case sstmt P Z D n e st of None \<Rightarrow> None | Some (v, st) \<Rightarrow> sstmts P Z D n es v st)"
    unfolding e by (cases x; simp split: option.splits)+
qed

lemma expr_stmt:
  assumes "expr_form e"
  shows "stmt_form e" and "sstmt P Z D n e st = seval P Z D n e st"
proof -
  obtain x u where e: "e = Expr x u" by (cases e)
  show "stmt_form e" "sstmt P Z D n e st = seval P Z D n e st" using assms unfolding e by (cases x; simp)+
qed

end
