(* ===== verification/SourceProps.thy ===== *)
theory SourceProps
  imports SourceSem
begin

section \<open>Compiling keeps the meaning\<close>

text \<open>
  The values of the source and the words of the typed tree, the frames of the source and the slots
  the compiler gives their variables, and the simulation of the evaluator of the source by the
  evaluator of the typed tree.
\<close>

subsection \<open>Values and words\<close>

text \<open>A value of a type as words. The value of a statement, which has type \<open>TVoid\<close>, is not used.\<close>

definition rep :: "ty \<Rightarrow> cty list \<Rightarrow> val \<Rightarrow> u64 list \<Rightarrow> bool" where
  "rep t cs v xs =
     (case t of
        TBool \<Rightarrow> (\<exists>x. v = BoolV (x \<noteq> 0) \<and> xs = [x])
      | TI64 \<Rightarrow> (\<exists>x. v = IntV x \<and> xs = [x])
      | TF64 \<Rightarrow> (\<exists>x. v = FloatV x \<and> xs = [x])
      | TFunction r \<Rightarrow> (\<exists>x. v = FunV r \<and> xs = [x])
      | TClass k \<Rightarrow> v = ObjV xs
      | _ \<Rightarrow> cs = [] \<or> v = UnitV)"

lemma rep_simps [simp]:
  "rep TBool cs v xs \<longleftrightarrow> (\<exists>x. v = BoolV (x \<noteq> 0) \<and> xs = [x])"
  "rep TI64 cs v xs \<longleftrightarrow> (\<exists>x. v = IntV x \<and> xs = [x])"
  "rep TF64 cs v xs \<longleftrightarrow> (\<exists>x. v = FloatV x \<and> xs = [x])"
  "rep (TFunction r) cs v xs \<longleftrightarrow> (\<exists>x. v = FunV r \<and> xs = [x])"
  "rep (TClass k) cs v xs \<longleftrightarrow> v = ObjV xs"
  "rep TVoid cs v xs \<longleftrightarrow> cs = [] \<or> v = UnitV"
  "rep TPoison cs v xs \<longleftrightarrow> cs = [] \<or> v = UnitV"
  by (simp_all add: rep_def)

text \<open>The words of a condition decide it.\<close>

lemma rep_truth:
  assumes "rep t cs v xs" and "cs \<in> {[B1], [CI64]}" and "truth v = Some b"
  shows "\<exists>x. xs = [x] \<and> b = (x \<noteq> 0)"
  using assms by (cases t) auto

lemma rep_bin:
  assumes "wt_binary tgt k t u = Some r" and "k \<noteq> TK_Equal" and "rep (fst t) (snd t) v xs" and "rep (fst u) (snd u) v' ys"
    and "val_bin P k v v' = Some z"
  shows "\<exists>x y a. xs = [x] \<and> ys = [y] \<and> src_bin P (Some (fst t)) k x y = Some a \<and> rep (fst r) (snd r) z [a]"
  using assms by (auto simp: wt_binary_def src_bin_def result_val_def split: if_splits outcome.splits)

subsection \<open>Frames and slots\<close>

definition slot :: "var_ref \<Rightarrow> nat" where
  "slot r = (case r of VParam i \<Rightarrow> i | VLocal i _ \<Rightarrow> i)"

definition var_holds :: "cctx \<Rightarrow> var_store list \<Rightarrow> (nat \<Rightarrow> u64) \<Rightarrow> var_ref \<Rightarrow> val \<Rightarrow> bool" where
  "var_holds C ls \<sigma> r v = (let t = ref_ty C ls r in rep t (ctys t) v (if word_ty t then [\<sigma> (slot r)] else []))"

definition frame_rel :: "(var_ref \<Rightarrow> val \<Rightarrow> bool) \<Rightarrow> environment \<Rightarrow> (string \<rightharpoonup> val) \<Rightarrow> bool" where
  "frame_rel H e f \<longleftrightarrow> (\<forall>x. rel_option H (e x) (f x))"

text \<open>No two variables in scope share a slot.\<close>

fun apart :: "environment list \<Rightarrow> bool" where
  "apart [] = True"
| "apart (e # es) \<longleftrightarrow> (\<forall>x y r q. e x = Some r \<longrightarrow> e y = Some q \<longrightarrow> slot r = slot q \<longrightarrow> x = y)
     \<and> (\<forall>e' \<in> set es. \<forall>x y r q. e x = Some r \<longrightarrow> e' y = Some q \<longrightarrow> slot r \<noteq> slot q) \<and> apart es"

definition frames_rel :: "cctx \<Rightarrow> ec_state \<Rightarrow> frames \<Rightarrow> (nat \<Rightarrow> u64) \<Rightarrow> bool" where
  "frames_rel C s frs \<sigma> \<longleftrightarrow> apart (rev (ec_envs s)) \<and> list_all2 (frame_rel (var_holds C (ec_locals s) \<sigma>)) (rev (ec_envs s)) frs"

lemma scope_envs: "scope s x = (case List.map_filter (\<lambda>env. env x) (rev (ec_envs s)) of [] \<Rightarrow> None | r # _ \<Rightarrow> Some r)"
  by (simp add: find_local_scope [symmetric] find_local_def)

lemma look_rel:
  assumes "list_all2 (frame_rel H) es frs"
  shows "rel_option H (case List.map_filter (\<lambda>env. env x) es of [] \<Rightarrow> None | r # _ \<Rightarrow> Some r) (look frs x)"
  using assms
proof (induction rule: list_all2_induct)
  case (Cons e es f frs)
  then have "rel_option H (e x) (f x)" by (simp add: frame_rel_def)
  with Cons show ?case by (cases "e x"; cases "f x") (simp_all add: map_filter_simps)
qed (simp add: map_filter_simps)

lemma frames_look:
  assumes "frames_rel C s frs \<sigma>"
  shows "rel_option (var_holds C (ec_locals s) \<sigma>) (scope s x) (look frs x)"
  unfolding scope_envs using assms look_rel by (auto simp: frames_rel_def)

lemma frame_rel_mono: "frame_rel H e f \<Longrightarrow> (\<And>x r v. e x = Some r \<Longrightarrow> H r v \<Longrightarrow> H' r v) \<Longrightarrow> frame_rel H' e f"
  unfolding frame_rel_def
proof (intro allI)
  fix x assume h: "\<forall>x. rel_option H (e x) (f x)" and m: "\<And>x r v. e x = Some r \<Longrightarrow> H r v \<Longrightarrow> H' r v"
  from h have "rel_option H (e x) (f x)" by (rule spec)
  then show "rel_option H' (e x) (f x)" using m by (cases "e x"; cases "f x") simp_all
qed

lemma frames_rel_mono:
  assumes "list_all2 (frame_rel H) es frs" and "\<And>e x r v. e \<in> set es \<Longrightarrow> e x = Some r \<Longrightarrow> H r v \<Longrightarrow> H' r v"
  shows "list_all2 (frame_rel H') es frs"
  by (rule list.rel_mono_strong [OF assms(1)]) (rule frame_rel_mono, assumption, rule assms(2))

text \<open>An assignment changes one slot and the innermost variable of the name.\<close>

lemma assign_rel:
  assumes "list_all2 (frame_rel H) es frs" and "apart es" and "assign x v frs = Some frs'"
    and "List.map_filter (\<lambda>env. env x) es = r # rs" and "H' r v" and "\<And>q u. slot q \<noteq> slot r \<Longrightarrow> H q u \<Longrightarrow> H' q u"
  shows "list_all2 (frame_rel H') es frs'"
  using assms(1-4)
proof (induction arbitrary: frs' rule: list_all2_induct)
  case (Cons e es f frs)
  have h: "rel_option H (e y) (f y)" for y using Cons.hyps(1) by (simp add: frame_rel_def)
  show ?case
  proof (cases "e x")
    case None
    then have "f x = None" using h [of x] by (simp add: option.rel_sel)
    then obtain gs where gs: "assign x v frs = Some gs" "frs' = f # gs" using Cons.prems(2) by auto
    have m: "List.map_filter (\<lambda>env. env x) es = r # rs" using Cons.prems(3) None by (simp add: map_filter_simps)
    then obtain e' where e': "e' \<in> set es" "e' x = Some r" by (force simp: map_filter_def Cons_eq_map_conv filter_eq_Cons_iff)
    have "slot q \<noteq> slot r" if "e y = Some q" for y q using Cons.prems(1) e' that by auto
    then have "frame_rel H' e f" using frame_rel_mono [OF Cons.hyps(1)] assms(6) by blast
    then show ?thesis using Cons.IH [OF _ gs(1) m] Cons.prems(1) gs(2) by simp
  next
    case (Some q)
    then obtain u where u: "f x = Some u" using h [of x] by (auto simp: option_rel_Some1)
    have r: "q = r" and frs': "frs' = f(x \<mapsto> v) # frs" using Cons.prems(2,3) Some u by (simp_all add: map_filter_simps)
    have "rel_option H' (e y) ((f(x \<mapsto> v)) y)" for y
    proof (cases "y = x")
      case False
      then have "slot q' \<noteq> slot r" if "e y = Some q'" for q' using Cons.prems(1) Some r that by auto
      with h [of y] assms(6) False show ?thesis by (cases "e y"; cases "f y") simp_all
    qed (use Some r assms(5) in simp)
    moreover have "list_all2 (frame_rel H') es frs"
      by (rule frames_rel_mono [OF Cons.hyps(2)]) (use Some r Cons.prems(1) assms(6) in \<open>metis apart.simps(2)\<close>)
    ultimately show ?thesis by (simp add: frs' frame_rel_def [of _ e])
  qed
qed simp

subsection \<open>What the compiler does not change\<close>

text \<open>Filled cells do not change the meaning of a tree.\<close>

lemma eval_lists_erase:
  assumes "\<forall>e \<in> set es. eval P Y n (erase e) = eval P Y n e"
  shows "eval_block P Y n (map erase es) xs st = eval_block P Y n es xs st"
    and "eval_args P Y n (map erase es) xs st = eval_args P Y n es xs st"
  using assms by (induction es arbitrary: xs st) (auto split: option.splits)

lemma inner_erase: "inner (erase e) = ierase (inner e)"
  by (cases e) simp

lemma eval_erase:
  "eval P Y n (erase e) = eval P Y n e" "ieval P Y n (ierase i) = ieval P Y n i"
proof (induction e and i rule: ir_expr.induct iexpr.induct)
  case (IrExpr i c)
  then show ?case by (simp add: trans_eta)
next
  case (IBlock es)
  then show ?case using eval_lists_erase(1) [of es P Y n] by (simp add: trans_eta fun_eq_iff)
next
  case (IAssign tgt v)
  then show ?case by (cases "inner tgt") (simp_all add: trans_eta inner_erase)
next
  case (ICall f es)
  then have "eval_args P Y n (map erase es) [] = eval_args P Y n es []" using eval_lists_erase(2) [of es P Y n] by (simp add: fun_eq_iff)
  then show ?case by (simp add: trans_eta callee_of_erase)
qed (simp_all add: trans_eta ty_of_erase)

lemma typ_erase: "tgood C s e t \<Longrightarrow> e_typ e = Ret (u, e') \<Longrightarrow> erase e' = erase e"
  using typing.query_Ret [of e u e'] by (simp add: tgood_def good_def)

lemma eval_typ: "tgood C s e t \<Longrightarrow> e_typ e = Ret (u, e') \<Longrightarrow> eval P Y n e' = eval P Y n e"
  by (metis typ_erase eval_erase(1))

lemma check_args_erase:
  "check_args C p k ps as s = Ret (as', s') \<Longrightarrow> list_all2 (tgood C s) as ts \<Longrightarrow> map erase as' = map erase as"
  by (induction C p k ps as s arbitrary: as' ts rule: check_args.induct)
    (auto simp: outcome_simps list_all2_Cons1 split: if_splits dest: typ_erase)

text \<open>A tree without declarations outside blocks leaves the scopes as they are.\<close>

lemma form_decls: "expr_form e \<Longrightarrow> decls e = {}" "stmts_form es \<Longrightarrow> True"
  by (induction e and es rule: expr_form_stmts_form.induct) (auto elim: is_name.elims split: option.splits)

lemma ec_envs_form:
  assumes "ctx_ok C" and "ec_inv C s" and "expr_form e" and "ec_expr C e s = Ret (i, s')"
  shows "ec_envs s' = ec_envs s"
proof -
  have p: "ec_inv C s'" "ext s s'" using ec_expr_post(1) [OF assms(1,2,4)] by (simp_all add: ec_post_def)
  have "last (ec_envs s') x = last (ec_envs s) x" for x
    using ec_expr_agree(1) [OF assms(4,2,1), of x] form_decls(1) [OF assms(3)] by (simp add: agree_def)
  then have "last (ec_envs s') = last (ec_envs s)" by (rule HOL.ext)
  moreover have "butlast (ec_envs s') = butlast (ec_envs s)" using p(2) by (simp add: ext_def)
  ultimately show ?thesis using p(1) assms(2) append_butlast_last_id unfolding ec_inv_def by metis
qed

lemma frames_rel_same:
  assumes "ec_inv C s" and "ext s s'" and "ec_envs s' = ec_envs s"
  shows "frames_rel C s' frs \<sigma> = frames_rel C s frs \<sigma>"
proof -
  have "ref_ty C (ec_locals s') r = ref_ty C (ec_locals s) r" if "e \<in> set (ec_envs s)" "e x = Some r" for e x r
  proof -
    have "ref_ok C (ec_locals s) x r" using assms(1) that by (auto simp: ec_inv_def)
    then show ?thesis using assms(2) by (auto simp: ref_ok_def ref_ty_def ext_def nth_append split: var_ref.splits)
  qed
  then have h: "var_holds C (ec_locals s') \<sigma> r v = var_holds C (ec_locals s) \<sigma> r v" if "e \<in> set (ec_envs s)" "e x = Some r" for e x r v
    using that by (simp add: var_holds_def)
  show ?thesis unfolding frames_rel_def assms(3)
    using frames_rel_mono [of _ "rev (ec_envs s)" frs] h by (metis (no_types, lifting) set_rev)
qed

subsection \<open>The simulation, form by form\<close>

text \<open>\<open>i\<close>, compiled from \<open>s\<close> to \<open>s'\<close> and of type \<open>t\<close>, computes what \<open>m\<close> means.\<close>

definition sim :: "fpu \<Rightarrow> (func_ref \<Rightarrow> u64 list \<Rightarrow> 'w \<Rightarrow> (u64 list \<times> 'w) option) \<Rightarrow> nat \<Rightarrow> cctx \<Rightarrow> ec_state \<Rightarrow>
    ('w sstate \<Rightarrow> (val \<times> 'w sstate) option) \<Rightarrow> ir_expr \<Rightarrow> ec_state \<Rightarrow> typing \<Rightarrow> bool" where
  "sim P Y n C s m i s' t \<longleftrightarrow> (\<forall>frs \<sigma> w v frs' w'. frames_rel C s frs \<sigma> \<longrightarrow> m (frs, w) = Some (v, frs', w') \<longrightarrow>
     (\<exists>xs \<sigma>'. eval P Y n i (\<sigma>, w) = Some (xs, \<sigma>', w') \<and> rep (fst t) (snd t) v xs \<and> frames_rel C s' frs' \<sigma>'))"

lemma simI:
  "(\<And>frs \<sigma> w v frs' w'. frames_rel C s frs \<sigma> \<Longrightarrow> m (frs, w) = Some (v, frs', w') \<Longrightarrow>
     \<exists>xs \<sigma>'. eval P Y n i (\<sigma>, w) = Some (xs, \<sigma>', w') \<and> rep (fst t) (snd t) v xs \<and> frames_rel C s' frs' \<sigma>') \<Longrightarrow>
   sim P Y n C s m i s' t"
  by (simp add: sim_def)

lemma simE:
  assumes "sim P Y n C s m i s' t" and "frames_rel C s frs \<sigma>" and "m (frs, w) = Some (v, frs', w')"
  obtains xs \<sigma>' where "eval P Y n i (\<sigma>, w) = Some (xs, \<sigma>', w')" and "rep (fst t) (snd t) v xs" and "frames_rel C s' frs' \<sigma>'"
  using assms unfolding sim_def by blast

lemma sim_typ: "sim P Y n C s m e s' t \<Longrightarrow> tgood C s1 e u \<Longrightarrow> e_typ e = Ret (v, e') \<Longrightarrow> sim P Y n C s m e' s' t"
  by (simp add: sim_def eval_typ)

lemma sim_literal:
  "wt_literal l = Some t \<Longrightarrow> sim P Y n C s (\<lambda>st. map_option (\<lambda>v. (v, st)) (lit_val l)) (e_constant (from_literal l)) s t"
  by (cases l) (auto intro!: simI simp: e_defs of_flag_def)

lemma deref_slot:
  assumes "ec_inv C s" and "ctx_ok C" and "scope s x = Some r" and "deref C s r = Ret v"
  shows "vs_index v = slot r" and "vs_ty v = ref_ty C (ec_locals s) r"
  using assms scope_ref_ok [OF assms(1,3)]
  by (auto simp: deref_def slot_def ref_ty_def idx_def ref_ok_def ec_inv_def ctx_ok_def table_ok_def split: var_ref.splits if_splits)

lemma ident_local:
  assumes "ec_identifier C x s = Ret (i, s')" and "ec_inv C s" and "ctx_ok C" and "scope s (lex x) = Some r"
  shows "inner i = IVariable (slot r) (ref_ty C (ec_locals s) r)"
  using assms deref_slot [OF assms(2-4)] by (auto simp: ec_identifier_def find_local_scope outcome_simps e_defs)

lemma eval_variable: "inner i = IVariable k t \<Longrightarrow> eval P Y n i st = sem_var k t st"
  by (cases i) simp

lemma sim_identifier:
  assumes "wt_ident C (types_in C s) (lex x) = Some t" and "ec_identifier C x s = Ret (i, s')" and "ec_inv C s" and "ctx_ok C"
  shows "sim P Y n C s (\<lambda>st. case look (fst st) (lex x) of Some v \<Rightarrow> Some (v, st) | None \<Rightarrow> map_option (\<lambda>r. (FunV r, st)) (find_function C (lex x)))
     i s t" (is "sim _ _ _ _ _ ?m _ _ _")
proof (rule simI)
  fix frs \<sigma> w v frs' w'
  assume fr: "frames_rel C s frs \<sigma>" and m: "?m (frs, w) = Some (v, frs', w')"
  note l = frames_look [OF fr, of "lex x"]
  have "\<exists>xs. eval P Y n i (\<sigma>, w) = Some (xs, \<sigma>, w) \<and> rep (fst t) (snd t) v xs"
  proof (cases "scope s (lex x)")
    case None
    then have "look frs (lex x) = None" using l by (simp add: option.rel_sel)
    then show ?thesis using assms(1,2) None m
      by (auto simp: ec_identifier_def find_local_scope types_in_def e_defs split: option.splits)
  next
    case (Some r)
    then obtain u where u: "look frs (lex x) = Some u" "var_holds C (ec_locals s) \<sigma> r u" using l by (auto simp: option_rel_Some1)
    have "t = (ref_ty C (ec_locals s) r, ctys (ref_ty C (ec_locals s) r))" using assms(1) Some by (auto simp: types_in_def split: if_splits)
    then show ?thesis using m u eval_variable [OF ident_local [OF assms(2-4) Some], of P Y n "(\<sigma>, w)"] by (auto simp: sem_var_def var_holds_def Let_def)
  qed
  moreover have "frs' = frs" "w' = w" using m by (auto split: option.splits)
  ultimately show "\<exists>xs \<sigma>'. eval P Y n i (\<sigma>, w) = Some (xs, \<sigma>', w') \<and> rep (fst t) (snd t) v xs \<and> frames_rel C s frs' \<sigma>'" using fr by auto
qed

lemma sim_binary:
  assumes "wt_binary b (kind op) lt rt = Some t" and "kind op \<noteq> TK_Equal"
    and "sim P Y n C s ml x s1 lt" and "sim P Y n C s1 mr y s2 rt" and "ty_of x = Some (fst lt)"
  shows "sim P Y n C s (\<lambda>st. case ml st of None \<Rightarrow> None | Some (a, st) \<Rightarrow> (case mr st of None \<Rightarrow> None
     | Some (c, st) \<Rightarrow> map_option (\<lambda>z. (z, st)) (val_bin P (kind op) a c))) (e_binary x op y) s2 t" (is "sim _ _ _ _ _ ?m _ _ _")
proof (rule simI)
  fix frs \<sigma> w v frs' w'
  assume fr: "frames_rel C s frs \<sigma>" and m: "?m (frs, w) = Some (v, frs', w')"
  then obtain a frs1 w1 c where 1: "ml (frs, w) = Some (a, frs1, w1)" "mr (frs1, w1) = Some (c, frs', w')" "val_bin P (kind op) a c = Some v"
    by (auto split: option.splits)
  obtain xs \<sigma>1 where l: "eval P Y n x (\<sigma>, w) = Some (xs, \<sigma>1, w1)" "rep (fst lt) (snd lt) a xs" "frames_rel C s1 frs1 \<sigma>1"
    by (rule simE [OF assms(3) fr 1(1)])
  obtain ys \<sigma>2 where r: "eval P Y n y (\<sigma>1, w1) = Some (ys, \<sigma>2, w')" "rep (fst rt) (snd rt) c ys" "frames_rel C s2 frs' \<sigma>2"
    by (rule simE [OF assms(4) l(3) 1(2)])
  obtain p q z where "xs = [p]" "ys = [q]" "src_bin P (Some (fst lt)) (kind op) p q = Some z" "rep (fst t) (snd t) v [z]"
    using rep_bin [OF assms(1,2) l(2) r(2) 1(3)] by blast
  then show "\<exists>xs \<sigma>'. eval P Y n (e_binary x op y) (\<sigma>, w) = Some (xs, \<sigma>', w') \<and> rep (fst t) (snd t) v xs \<and> frames_rel C s2 frs' \<sigma>'"
    using l(1) r(1,3) assms(5) by (auto simp: e_defs sem_bin_def)
qed

lemma rep_word:
  assumes "rep t (ctys t) v xs" and "scalar_ty t"
  shows "rep t (ctys t) v (if word_ty t then [hd xs] else [])"
  using assms by (cases t) (auto simp: word_ty_def scalar_ty_def ctys_def)

text \<open>Storing a value in the slot of a variable in scope.\<close>

lemma store_frames:
  assumes "frames_rel C s frs \<sigma>" and "scope s x = Some r" and "assign x v frs = Some frs'"
    and "rep (ref_ty C (ec_locals s) r) (ctys (ref_ty C (ec_locals s) r)) v xs" and "scalar_ty (ref_ty C (ec_locals s) r)"
  shows "frames_rel C s frs' (fst (sem_store (slot r) (ref_ty C (ec_locals s) r) xs (\<sigma>, w)))"
proof -
  let ?t = "ref_ty C (ec_locals s) r"
  let ?\<sigma> = "fst (sem_store (slot r) ?t xs (\<sigma>, w))"
  obtain rs where m: "List.map_filter (\<lambda>env. env x) (rev (ec_envs s)) = r # rs"
    using assms(2) by (auto simp: scope_envs split: list.splits)
  have "var_holds C (ec_locals s) ?\<sigma> r v" using rep_word [OF assms(4,5)] by (auto simp: var_holds_def Let_def sem_store_def)
  moreover have "var_holds C (ec_locals s) ?\<sigma> q u" if "slot q \<noteq> slot r" "var_holds C (ec_locals s) \<sigma> q u" for q u
    using that by (auto simp: var_holds_def Let_def sem_store_def)
  ultimately have "list_all2 (frame_rel (var_holds C (ec_locals s) ?\<sigma>)) (rev (ec_envs s)) frs'"
    using assign_rel [OF _ _ assms(3) m] assms(1) unfolding frames_rel_def by blast
  with assms(1) show ?thesis by (simp add: frames_rel_def)
qed

lemma eval_assign:
  "inner x = IVariable k t \<Longrightarrow> eval P Y n y st = Some (xs, st') \<Longrightarrow> eval P Y n (e_assign x y) st = Some (xs, sem_store k t xs st')"
  by (simp add: e_defs)

lemma snd_store: "snd (sem_store k t xs st) = snd st"
  by (simp add: sem_store_def)

lemma sim_assign:
  assumes "sim P Y n C s m y s1 (ref_ty C (ec_locals s1) r, ctys (ref_ty C (ec_locals s1) r))" and "scope s1 x = Some r"
    and "inner z = IVariable (slot r) (ref_ty C (ec_locals s1) r)" and "scalar_ty (ref_ty C (ec_locals s1) r)"
  shows "sim P Y n C s (\<lambda>st. case m st of None \<Rightarrow> None | Some (v, frs, w) \<Rightarrow> map_option (\<lambda>frs. (v, frs, w)) (assign x v frs))
     (e_assign z y) s1 (ref_ty C (ec_locals s1) r, ctys (ref_ty C (ec_locals s1) r))" (is "sim _ _ _ _ _ ?m _ _ ?t")
proof (rule simI)
  fix frs \<sigma> w v frs' w'
  assume fr: "frames_rel C s frs \<sigma>" and "?m (frs, w) = Some (v, frs', w')"
  then obtain frs1 where 1: "m (frs, w) = Some (v, frs1, w')" "assign x v frs1 = Some frs'" by (auto split: option.splits)
  obtain xs \<sigma>1 where y: "eval P Y n y (\<sigma>, w) = Some (xs, \<sigma>1, w')" "rep (fst ?t) (snd ?t) v xs" "frames_rel C s1 frs1 \<sigma>1"
    by (rule simE [OF assms(1) fr 1(1)])
  let ?st = "sem_store (slot r) (ref_ty C (ec_locals s1) r) xs (\<sigma>1, w')"
  have "eval P Y n (e_assign z y) (\<sigma>, w) = Some (xs, fst ?st, w')" using eval_assign [OF assms(3) y(1)] by (simp add: sem_store_def)
  moreover have "frames_rel C s1 frs' (fst ?st)" using store_frames [OF y(3) assms(2) 1(2) _ assms(4)] y(2) by simp
  ultimately show "\<exists>xs \<sigma>'. eval P Y n (e_assign z y) (\<sigma>, w) = Some (xs, \<sigma>', w') \<and> rep (fst ?t) (snd ?t) v xs \<and> frames_rel C s1 frs' \<sigma>'"
    using y(2) by blast
qed

text \<open>A declaration takes a slot of its own.\<close>

lemma apart_declare:
  assumes "apart (e # es)" and "\<And>d y q. d \<in> set (e # es) \<Longrightarrow> d y = Some q \<Longrightarrow> slot q \<noteq> slot r"
  shows "apart (e(x \<mapsto> r) # es)"
proof -
  have e: "slot q \<noteq> slot r" if "e y = Some q" for y q using assms(2) [of e] that by simp
  have d: "slot q \<noteq> slot r" if "d \<in> set es" "d y = Some q" for d y q using assms(2) [of d] that by simp
  have "y = z" if "(e(x \<mapsto> r)) y = Some p" "(e(x \<mapsto> r)) z = Some q" "slot p = slot q" for y z p q
    using that e [of y] e [of z] assms(1) by (auto split: if_splits)
  moreover have "slot p \<noteq> slot q" if "d \<in> set es" "(e(x \<mapsto> r)) y = Some p" "d z = Some q" for d y z p q
    using that d [of d z] assms(1) by (auto split: if_splits)
  moreover have "apart es" using assms(1) by simp
  ultimately show ?thesis unfolding apart.simps by blast
qed

lemma declare_frames:
  assumes fr: "frames_rel C s frs \<sigma>" and inv: "ec_inv C s" and p: "cc_params C = []"
    and s': "s' = s\<lparr>ec_locals := ec_locals s @ [l], ec_envs := butlast (ec_envs s) @ [(last (ec_envs s))(x \<mapsto> VLocal (length (ec_locals s)) b)]\<rparr>"
    and v: "rep (vs_ty l) (ctys (vs_ty l)) v xs" "scalar_ty (vs_ty l)"
  shows "frames_rel C s' (declare_in x v frs) (fst (sem_store (length (ec_locals s)) (vs_ty l) xs (\<sigma>, w)))"
proof -
  let ?k = "length (ec_locals s)"
  let ?\<sigma> = "fst (sem_store ?k (vs_ty l) xs (\<sigma>, w))" and ?H = "var_holds C (ec_locals s) \<sigma>"
  let ?H' = "var_holds C (ec_locals s') ?\<sigma>"
  obtain B L where BL: "ec_envs s = B @ [L]" using inv by (cases "ec_envs s" rule: rev_cases) (auto simp: ec_inv_def)
  obtain f fs where f: "frs = f # fs" "frame_rel ?H L f" "list_all2 (frame_rel ?H) (rev B) fs"
    using fr by (auto simp: frames_rel_def BL list_all2_Cons1)
  have q: "slot q < ?k \<and> (?H q u \<longrightarrow> ?H' q u)" if "e \<in> set (ec_envs s)" "e y = Some q" for e y q u
  proof -
    have "ref_ok C (ec_locals s) y q" using inv that by (auto simp: ec_inv_def)
    then show ?thesis using p
      by (auto simp: ref_ok_def slot_def var_holds_def ref_ty_def s' nth_append sem_store_def Let_def split: var_ref.splits)
  qed
  have r: "?H' (VLocal ?k b) v" using rep_word [OF v] by (auto simp: var_holds_def ref_ty_def s' slot_def sem_store_def Let_def)
  have h: "rel_option ?H (L y) (f y)" for y using f(2) by (simp add: frame_rel_def)
  have env: "rev (ec_envs s) = L # rev B" "rev (ec_envs s') = L(x \<mapsto> VLocal ?k b) # rev B" by (simp_all add: s' BL)
  have "rel_option ?H' ((L(x \<mapsto> VLocal ?k b)) y) ((f(x \<mapsto> v)) y)" for y
    using h [of y] q [of L y] r BL by (cases "L y"; cases "f y") auto
  then have 1: "frame_rel ?H' (L(x \<mapsto> VLocal ?k b)) (f(x \<mapsto> v))" unfolding frame_rel_def by (rule allI)
  have 2: "list_all2 (frame_rel ?H') (rev B) fs" by (rule frames_rel_mono [OF f(3)]) (use q BL in auto)
  have "slot q \<noteq> slot (VLocal ?k b)" if "e \<in> set (L # rev B)" "e y = Some q" for e y q
  proof -
    have "slot q < ?k" using q [of e y q] that by (auto simp: BL)
    then show ?thesis by (simp add: slot_def [of "VLocal _ _"])
  qed
  then have "apart (L(x \<mapsto> VLocal ?k b) # rev B)" using fr apart_declare unfolding frames_rel_def env(1) by metis
  with 1 2 show ?thesis by (simp only: frames_rel_def env(2) f(1) declare_in.simps list.rel_inject)
qed

lemma sim_declare:
  assumes "sim P Y n C s m x s1 t" and "ec_variable C final nm x s1 = Ret (i, s')" and "tgood C s1 x t" and "ec_inv C s1" and "ctx_ok C"
    and t: "scalar_ty (fst t)" "snd t = ctys (fst t)" and u: "unshared C s'"
  shows "sim P Y n C s (\<lambda>st. case m st of None \<Rightarrow> None | Some (v, frs, w) \<Rightarrow> Some (v, declare_in (lex nm) v frs, w)) i s' t"
    (is "sim _ _ _ _ _ ?m _ _ _")
proof (rule simI)
  fix frs \<sigma> w v frs' w'
  assume fr: "frames_rel C s frs \<sigma>" and "?m (frs, w) = Some (v, frs', w')"
  then obtain frs1 where 1: "m (frs, w) = Some (v, frs1, w')" "frs' = declare_in (lex nm) v frs1" by (auto split: option.splits)
  obtain xs \<sigma>1 where x: "eval P Y n x (\<sigma>, w) = Some (xs, \<sigma>1, w')" "rep (fst t) (snd t) v xs" "frames_rel C s1 frs1 \<sigma>1"
    by (rule simE [OF assms(1) fr 1(1)])
  let ?l = "\<lambda>u. \<lparr>vs_ty = u, vs_name = lex nm, vs_index = length (ec_locals s1), vs_mutable = (\<not> final)\<rparr>"
  let ?k = "length (ec_locals s1)" and ?r = "VLocal (length (ec_locals s1)) (cc_buf C (Suc (length (ec_locals s1))))"
  obtain u x' where x': "e_typ x = Ret (u, x')" and i: "i = e_assign_local (?l u) x'"
    and s': "s' = s1\<lparr>ec_locals := ec_locals s1 @ [?l u], ec_envs := butlast (ec_envs s1) @ [(last (ec_envs s1))(lex nm \<mapsto> ?r)]\<rparr>"
    using assms(2,4) by (auto simp: ec_variable_def outcome_simps add_local_def Let_def add_to_scope_def ec_inv_def split: if_splits)
  have ut: "u = fst t" using tgood_typ(1) [OF assms(3) x'] by simp
  let ?st = "sem_store ?k u xs (\<sigma>1, w')"
  have "eval P Y n x' (\<sigma>, w) = Some (xs, \<sigma>1, w')" using x(1) eval_typ [OF assms(3) x'] by metis
  then have "eval P Y n i (\<sigma>, w) = Some (xs, ?st)" by (simp add: i e_assign_local_def eval_assign [where k = ?k and t = u] e_local_def e_new_def)
  then have "eval P Y n i (\<sigma>, w) = Some (xs, fst ?st, w')" by (simp add: sem_store_def)
  moreover have "cc_params C = []" using u by (simp add: unshared_def s')
  then have "frames_rel C s' frs' (fst ?st)"
    using declare_frames [OF x(3) assms(4) _ s', of v xs w'] x(2) t ut unfolding 1(2) by simp
  ultimately show "\<exists>xs \<sigma>'. eval P Y n i (\<sigma>, w) = Some (xs, \<sigma>', w') \<and> rep (fst t) (snd t) v xs \<and> frames_rel C s' frs' \<sigma>'"
    using x(2) by blast
qed

text \<open>Statements, the value of the last one being the value of the block.\<close>

definition stmts_sim :: "fpu \<Rightarrow> (func_ref \<Rightarrow> u64 list \<Rightarrow> 'w \<Rightarrow> (u64 list \<times> 'w) option) \<Rightarrow> nat \<Rightarrow> cctx \<Rightarrow> ec_state \<Rightarrow>
    (val \<Rightarrow> 'w sstate \<Rightarrow> (val \<times> 'w sstate) option) \<Rightarrow> ir_expr list \<Rightarrow> ec_state \<Rightarrow> typing list \<Rightarrow> bool" where
  "stmts_sim P Y n C s m is s' ts \<longleftrightarrow> (\<forall>t u xs frs \<sigma> w v frs' w'. frames_rel C s frs \<sigma> \<longrightarrow> rep (fst t) (snd t) u xs \<longrightarrow>
     m u (frs, w) = Some (v, frs', w') \<longrightarrow> (\<exists>ys \<sigma>'. eval_block P Y n is xs (\<sigma>, w) = Some (ys, \<sigma>', w')
       \<and> rep (fst (last (t # ts))) (snd (last (t # ts))) v ys \<and> frames_rel C s' frs' \<sigma>'))"

lemma stmts_sim_Nil: "stmts_sim P Y n C s (\<lambda>v st. Some (v, st)) [] s []"
  by (auto simp: stmts_sim_def)

lemma stmts_sim_Cons:
  assumes "sim P Y n C s m i s1 t" and "stmts_sim P Y n C s1 ms is s2 ts"
  shows "stmts_sim P Y n C s (\<lambda>v st. case m st of None \<Rightarrow> None | Some (v, st) \<Rightarrow> ms v st) (i # is) s2 (t # ts)"
    (is "stmts_sim _ _ _ _ _ ?m _ _ _")
  unfolding stmts_sim_def
proof (intro allI impI)
  fix t0 u xs frs \<sigma> w v frs' w'
  assume fr: "frames_rel C s frs \<sigma>" and "?m u (frs, w) = Some (v, frs', w')"
  then obtain v1 frs1 w1 where 1: "m (frs, w) = Some (v1, frs1, w1)" "ms v1 (frs1, w1) = Some (v, frs', w')" by (auto split: option.splits)
  obtain ys \<sigma>1 where i: "eval P Y n i (\<sigma>, w) = Some (ys, \<sigma>1, w1)" "rep (fst t) (snd t) v1 ys" "frames_rel C s1 frs1 \<sigma>1"
    by (rule simE [OF assms(1) fr 1(1)])
  then show "\<exists>ys \<sigma>'. eval_block P Y n (i # is) xs (\<sigma>, w) = Some (ys, \<sigma>', w')
       \<and> rep (fst (last (t0 # t # ts))) (snd (last (t0 # t # ts))) v ys \<and> frames_rel C s2 frs' \<sigma>'"
    using assms(2) 1(2) unfolding stmts_sim_def by auto
qed

lemma frames_begin: "frames_rel C s frs \<sigma> \<Longrightarrow> frames_rel C (begin_scope s) (Map.empty # frs) \<sigma>"
  by (simp add: frames_rel_def begin_scope_def frame_rel_def)

lemma frames_end:
  assumes "frames_rel C s frs \<sigma>" and "ec_envs s \<noteq> []"
  shows "frames_rel C (end_scope s) (tl frs) \<sigma>"
proof -
  obtain B L where BL: "ec_envs s = B @ [L]" using assms(2) by (cases "ec_envs s" rule: rev_cases) auto
  with assms(1) show ?thesis by (auto simp: frames_rel_def end_scope_def list_all2_Cons1)
qed

lemma sim_block:
  assumes "stmts_sim P Y n C (begin_scope s) ms is s1 ts" and "ec_envs s1 \<noteq> []"
  shows "sim P Y n C s (\<lambda>st. case ms UnitV (Map.empty # fst st, snd st) of None \<Rightarrow> None | Some (v, frs, w) \<Rightarrow> Some (v, tl frs, w))
     (e_block is) (end_scope s1) (if ts = [] then (TVoid, []) else last ts)" (is "sim _ _ _ _ _ ?m _ _ ?t")
proof (rule simI)
  fix frs \<sigma> w v frs' w'
  assume fr: "frames_rel C s frs \<sigma>" and "?m (frs, w) = Some (v, frs', w')"
  then obtain frs1 where 1: "ms UnitV (Map.empty # frs, w) = Some (v, frs1, w')" "frs' = tl frs1" by (auto split: option.splits)
  have "rep (fst (TVoid, [] :: cty list)) (snd (TVoid, [] :: cty list)) UnitV []" by simp
  then obtain ys \<sigma>' where "eval_block P Y n is [] (\<sigma>, w) = Some (ys, \<sigma>', w')"
      "rep (fst (last ((TVoid, []) # ts))) (snd (last ((TVoid, []) # ts))) v ys" "frames_rel C s1 frs1 \<sigma>'"
    using assms(1) frames_begin [OF fr] 1(1) unfolding stmts_sim_def by blast
  then show "\<exists>xs \<sigma>'. eval P Y n (e_block is) (\<sigma>, w) = Some (xs, \<sigma>', w') \<and> rep (fst ?t) (snd ?t) v xs \<and> frames_rel C (end_scope s1) frs' \<sigma>'"
    using frames_end [OF _ assms(2)] 1(2) by (auto simp: e_defs)
qed

text \<open>An arm and a condition.\<close>

lemma sim_same:
  assumes "sim P Y n C s m i s' t" and "ec_inv C s" and "ext s s'" and "ec_envs s' = ec_envs s"
  shows "sim P Y n C s m i s t"
  using assms(1) frames_rel_same [OF assms(2-4)] unfolding sim_def by simp

lemma sim_if:
  assumes c: "sim P Y n C s mc x s1 ct" "snd ct \<in> {[B1], [CI64]}"
    and y: "sim P Y n C s1 my y s2 yt" and z: "sim P Y n C s1 mz z s2 zt"
    and t: "if phi then yt = t \<and> zt = t else t = (TVoid, [])"
  shows "sim P Y n C s (\<lambda>st. case mc st of None \<Rightarrow> None | Some (v, st) \<Rightarrow> (case truth v of None \<Rightarrow> None
     | Some b \<Rightarrow> if b then my st else mz st)) (e_new (IIf x y z phi)) s2 t" (is "sim _ _ _ _ _ ?m _ _ _")
proof (rule simI)
  fix frs \<sigma> w v frs' w'
  assume fr: "frames_rel C s frs \<sigma>" and "?m (frs, w) = Some (v, frs', w')"
  then obtain a frs1 w1 b where 1: "mc (frs, w) = Some (a, frs1, w1)" "truth a = Some b" "(if b then my else mz) (frs1, w1) = Some (v, frs', w')"
    by (auto split: option.splits if_splits)
  obtain xs \<sigma>1 where x: "eval P Y n x (\<sigma>, w) = Some (xs, \<sigma>1, w1)" "rep (fst ct) (snd ct) a xs" "frames_rel C s1 frs1 \<sigma>1"
    by (rule simE [OF c(1) fr 1(1)])
  obtain k where k: "xs = [k]" "b = (k \<noteq> 0)" using rep_truth [OF x(2) c(2) 1(2)] by blast
  have arm: "sim P Y n C s1 (if b then my else mz) (if b then y else z) s2 (if b then yt else zt)" using y z by simp
  obtain ys \<sigma>2 where a: "eval P Y n (if b then y else z) (\<sigma>1, w1) = Some (ys, \<sigma>2, w')"
      "rep (fst (if b then yt else zt)) (snd (if b then yt else zt)) v ys" "frames_rel C s2 frs' \<sigma>2"
    by (rule simE [OF arm x(3) 1(3)])
  have "eval P Y n (e_new (IIf x y z phi)) (\<sigma>, w) = Some (if phi then ys else [], \<sigma>2, w')"
    using x(1) k a(1) by (auto simp: e_new_def sem_if_def split: if_splits)
  moreover have "rep (fst t) (snd t) v (if phi then ys else [])" using t a(2) by (auto split: if_splits)
  ultimately show "\<exists>xs \<sigma>'. eval P Y n (e_new (IIf x y z phi)) (\<sigma>, w) = Some (xs, \<sigma>', w') \<and> rep (fst t) (snd t) v xs \<and> frames_rel C s2 frs' \<sigma>'"
    using a(3) by blast
qed

lemma loop_sim:
  assumes "sim P Y n C s mc x s ct" and "snd ct \<in> {[B1], [CI64]}" and "sim P Y n C s mb y s bt"
    and "frames_rel C s frs \<sigma>" and "sloop k mc mb (frs, w) = Some (frs', w')"
  shows "\<exists>\<sigma>'. loop k (\<lambda>st. eval P Y n x st) (\<lambda>st. eval P Y n y st) (\<sigma>, w) = Some (\<sigma>', w') \<and> frames_rel C s frs' \<sigma>'"
  using assms(4,5)
proof (induction k arbitrary: frs \<sigma> w)
  case (Suc k)
  obtain a frs1 w1 b where 1: "mc (frs, w) = Some (a, frs1, w1)" "truth a = Some b"
      "if b then \<exists>v frs2 w2. mb (frs1, w1) = Some (v, frs2, w2) \<and> sloop k mc mb (frs2, w2) = Some (frs', w') else (frs1, w1) = (frs', w')"
    using Suc.prems(2) by (auto split: option.splits if_splits)
  obtain xs \<sigma>1 where x: "eval P Y n x (\<sigma>, w) = Some (xs, \<sigma>1, w1)" "rep (fst ct) (snd ct) a xs" "frames_rel C s frs1 \<sigma>1"
    by (rule simE [OF assms(1) Suc.prems(1) 1(1)])
  obtain c where c: "xs = [c]" "b = (c \<noteq> 0)" using rep_truth [OF x(2) assms(2) 1(2)] by blast
  show ?case
  proof (cases b)
    case False
    then show ?thesis using 1(3) x c by auto
  next
    case True
    then obtain v frs2 w2 where 2: "mb (frs1, w1) = Some (v, frs2, w2)" "sloop k mc mb (frs2, w2) = Some (frs', w')" using 1(3) by auto
    obtain ys \<sigma>2 where "eval P Y n y (\<sigma>1, w1) = Some (ys, \<sigma>2, w2)" "frames_rel C s frs2 \<sigma>2" by (rule simE [OF assms(3) x(3) 2(1)])
    then show ?thesis using Suc.IH [OF _ 2(2), of \<sigma>2] True c x(1) by simp
  qed
qed simp

lemma sim_while:
  assumes "sim P Y n C s mc x s ct" and "snd ct \<in> {[B1], [CI64]}" and "sim P Y n C s mb y s bt"
  shows "sim P Y n C s (\<lambda>st. map_option (\<lambda>st. (UnitV, st)) (sloop n mc mb st)) (e_while x y) s (TVoid, [CI64])"
  using loop_sim [OF assms] by (intro simI) (fastforce simp: e_defs)

text \<open>The values of arguments as words.\<close>

fun reps :: "typing list \<Rightarrow> val list \<Rightarrow> u64 list list \<Rightarrow> bool" where
  "reps [] [] [] = True"
| "reps (t # ts) (v # vs) (xs # xss) \<longleftrightarrow> rep (fst t) (snd t) v xs \<and> reps ts vs xss"
| "reps _ _ _ = False"

definition args_sim :: "fpu \<Rightarrow> (func_ref \<Rightarrow> u64 list \<Rightarrow> 'w \<Rightarrow> (u64 list \<times> 'w) option) \<Rightarrow> nat \<Rightarrow> cctx \<Rightarrow> ec_state \<Rightarrow>
    ('w sstate \<Rightarrow> (val list \<times> 'w sstate) option) \<Rightarrow> ir_expr list \<Rightarrow> ec_state \<Rightarrow> typing list \<Rightarrow> bool" where
  "args_sim P Y n C s m is s' ts \<longleftrightarrow> (\<forall>acc frs \<sigma> w vs frs' w'. frames_rel C s frs \<sigma> \<longrightarrow> m (frs, w) = Some (vs, frs', w') \<longrightarrow>
     (\<exists>xss \<sigma>'. eval_args P Y n is acc (\<sigma>, w) = Some (acc @ concat xss, \<sigma>', w') \<and> reps ts vs xss \<and> frames_rel C s' frs' \<sigma>'))"

lemma args_sim_Nil: "args_sim P Y n C s (\<lambda>st. Some ([], st)) [] s []"
  by (auto simp: args_sim_def intro!: exI [of _ "[]"])

lemma args_sim_Cons:
  assumes "sim P Y n C s m i s1 t" and "args_sim P Y n C s1 ms is s2 ts"
  shows "args_sim P Y n C s (\<lambda>st. case m st of None \<Rightarrow> None | Some (v, st) \<Rightarrow> map_option (\<lambda>(vs, st). (v # vs, st)) (ms st)) (i # is) s2 (t # ts)"
    (is "args_sim _ _ _ _ _ ?m _ _ _")
  unfolding args_sim_def
proof (intro allI impI)
  fix acc frs \<sigma> w vs frs' w'
  assume fr: "frames_rel C s frs \<sigma>" and "?m (frs, w) = Some (vs, frs', w')"
  then obtain v frs1 w1 us where 1: "m (frs, w) = Some (v, frs1, w1)" "ms (frs1, w1) = Some (us, frs', w')" "vs = v # us"
    by (auto split: option.splits)
  obtain xs \<sigma>1 where i: "eval P Y n i (\<sigma>, w) = Some (xs, \<sigma>1, w1)" "rep (fst t) (snd t) v xs" "frames_rel C s1 frs1 \<sigma>1"
    by (rule simE [OF assms(1) fr 1(1)])
  obtain xss \<sigma>2 where r: "eval_args P Y n is (acc @ xs) (\<sigma>1, w1) = Some ((acc @ xs) @ concat xss, \<sigma>2, w')" "reps ts us xss" "frames_rel C s2 frs' \<sigma>2"
    using assms(2) i(3) 1(2) unfolding args_sim_def by blast
  then show "\<exists>xss \<sigma>'. eval_args P Y n (i # is) acc (\<sigma>, w) = Some (acc @ concat xss, \<sigma>', w') \<and> reps (t # ts) vs xss \<and> frames_rel C s2 frs' \<sigma>'"
    using i(1,2) 1(3) by (intro exI [of _ "xs # xss"]) auto
qed

text \<open>Calling a function does with words what it does with values.\<close>

definition calls_match :: "(nat \<Rightarrow> ir_module) \<Rightarrow> 'w scalls \<Rightarrow> (func_ref \<Rightarrow> u64 list \<Rightarrow> 'w \<Rightarrow> (u64 list \<times> 'w) option) \<Rightarrow> bool" where
  "calls_match M Z Y \<longleftrightarrow> (\<forall>r f g ts vs xss w v w'. resolve_func M r = Ret f \<longrightarrow> fn_sig M r = Some g \<longrightarrow>
     reps ts vs xss \<longrightarrow> concat (map snd ts) = sig_params g \<longrightarrow> Z r vs w = Some (v, w') \<longrightarrow>
     (\<exists>ys. Y r (concat xss) w = Some (ys, w') \<and> rep (irf_ret_type f) (sig_returns g) v ys))"

lemma sim_call:
  assumes "wt_call C (fst ft) ts = Some t" and "fst ft = TFunction r" and "func_resolve (cc_mods C) r = Ret f"
    and "call_args C p f x as s2 = Ret (i, s')" and "callee_of x = Some r" and "list_all2 (tgood C s2) as ts"
    and "sim P Y n C s mf x s ft" and "\<And>frs w v frs' w'. mf (frs, w) = Some (v, frs', w') \<Longrightarrow> frs' = frs \<and> w' = w"
    and "args_sim P Y n C s ms as s2 ts" and "calls_match (cc_mods C) Z Y"
  shows "sim P Y n C s (\<lambda>st. case mf st of Some (FunV r, st) \<Rightarrow> (case ms st of None \<Rightarrow> None
     | Some (vs, frs, w) \<Rightarrow> map_option (\<lambda>(v, w). (v, frs, w)) (Z r vs w)) | _ \<Rightarrow> None) i s2 t" (is "sim _ _ _ _ _ ?m _ _ _")
proof (rule simI)
  fix frs \<sigma> w v frs' w'
  assume fr: "frames_rel C s frs \<sigma>" and m: "?m (frs, w) = Some (v, frs', w')"
  then obtain u st where 0: "mf (frs, w) = Some (u, st)" by (auto split: option.splits)
  have st: "st = (frs, w)" using 0 assms(8) [of frs w u "fst st" "snd st"] by (cases st) simp
  have 1: "mf (frs, w) = Some (u, frs, w)" using 0 st by simp
  have "rep (TFunction r) (snd ft) u xs \<Longrightarrow> u = FunV r" for xs by simp
  then have "u = FunV r" using simE [OF assms(7) fr 1] assms(2) by metis
  then obtain vs w1 where 2: "ms (frs, w) = Some (vs, frs', w1)" "Z r vs w1 = Some (v, w')"
    using m 1 by (auto split: option.splits)
  obtain xss \<sigma>' where a: "eval_args P Y n as [] (\<sigma>, w) = Some ([] @ concat xss, \<sigma>', w1)" "reps ts vs xss" "frames_rel C s2 frs' \<sigma>'"
    using assms(9) fr 2(1) unfolding args_sim_def by blast
  obtain g where g: "fn_sig (cc_mods C) r = Some g" "concat (map snd ts) = sig_params g" "t = (irf_ret_type f, sig_returns g)"
    using assms(1-3) by (auto simp: wt_call_def split: option.splits if_splits)
  have rf: "resolve_func (cc_mods C) r = Ret f" using assms(3) by (simp add: func_resolve_def resolve_func_def)
  obtain ys where ys: "Y r (concat xss) w1 = Some (ys, w')" "rep (irf_ret_type f) (sig_returns g) v ys"
    using assms(10) rf g(1,2) a(2) 2(2) unfolding calls_match_def by blast
  obtain as' where as': "check_args C p 0 (irf_params f) as s2 = Ret (as', s2)" "i = e_call x as' (irf_ret_type f)"
    using assms(4) by (auto simp: call_args_def Let_def outcome_simps dest: check_args_state)
  have "eval_args P Y n as' [] (\<sigma>, w) = eval_args P Y n as [] (\<sigma>, w)"
    using check_args_erase [OF as'(1) assms(6)] eval_lists_erase(2) eval_erase(1) by metis
  then have "eval P Y n i (\<sigma>, w) = Some (ys, \<sigma>', w')"
    using as'(2) a(1) ys(1) assms(5) by (simp add: e_call_def e_with_typ_def sem_call_def)
  then show "\<exists>xs \<sigma>'. eval P Y n i (\<sigma>, w) = Some (xs, \<sigma>', w') \<and> rep (fst t) (snd t) v xs \<and> frames_rel C s2 frs' \<sigma>'"
    using ys(2) a(3) g(3) by auto
qed

subsection \<open>Compiled bodies compute what they mean\<close>

lemma sim_cong: "(\<And>st. m' st = m st) \<Longrightarrow> sim P Y n C s m i s' t \<Longrightarrow> sim P Y n C s m' i s' t"
  by (simp add: sim_def)

lemma sim_states:
  "sim P Y n C a m i b t \<Longrightarrow> frames_rel C s = frames_rel C a \<Longrightarrow> frames_rel C s' = frames_rel C b \<Longrightarrow> sim P Y n C s m i s' t"
  by (simp add: sim_def)

lemma typed_step:
  assumes "ctx_ok C" and "tpost C G s" and "wt C G e = Some (t, G1)" and "ec_expr C e s = Ret (i, s1)"
  shows "tpost C G1 s1" and "ext s s1" and "tgood C s1 i t" and "ec_inv C s1"
    and "expr_form e \<Longrightarrow> ec_envs s1 = ec_envs s" and "expr_form e \<Longrightarrow> frames_rel C s1 = frames_rel C s"
proof -
  show p: "tpost C G1 s1" "ext s s1" "tgood C s1 i t" using ec_expr_typed(1) [OF assms] by auto
  then show "ec_inv C s1" by (simp add: tpost_def)
  have inv: "ec_inv C s" using assms(2) by (simp add: tpost_def)
  show e: "ec_envs s1 = ec_envs s" if "expr_form e" by (rule ec_envs_form [OF assms(1) inv that assms(4)])
  show "frames_rel C s1 = frames_rel C s" if "expr_form e"
    using frames_rel_same [OF inv p(2) e [OF that]] by (simp add: fun_eq_iff)
qed

lemma unshared_ext: "ext s s' \<Longrightarrow> unshared C s' \<Longrightarrow> unshared C s"
  by (auto simp: unshared_def ext_def)

lemma sim_expr: "expr_form e \<Longrightarrow> sim P Y n C s (sstmt P Z D n e) i s' t \<Longrightarrow> sim P Y n C s (seval P Z D n e) i s' t"
  by (rule sim_cong) (simp_all add: expr_stmt(2))

text \<open>The parts of \<open>expr\<close> after its recursive calls.\<close>

lemma sim_ec_binary:
  assumes "wt_binary b (kind op) lt rt = Some t" and "kind op \<noteq> TK_Equal" and "ec_binary C op x y s2 = Ret (i, s')"
    and "sim P Y n C s ml x s1 lt" and "sim P Y n C s1 mr y s2 rt" and "tgood C s2 x lt" and "tgood C s2 y rt"
  shows "sim P Y n C s (\<lambda>st. case ml st of None \<Rightarrow> None | Some (a, st) \<Rightarrow> (case mr st of None \<Rightarrow> None
     | Some (c, st) \<Rightarrow> map_option (\<lambda>z. (z, st)) (val_bin P (kind op) a c))) i s2 t"
proof -
  obtain lu x' ru y' where e: "e_typ x = Ret (lu, x')" "e_typ y = Ret (ru, y')" using assms(3) by (auto simp: ec_binary_def outcome_simps)
  have "lu = ru" using assms(1) tgood_typ(1) [OF assms(6) e(1)] tgood_typ(1) [OF assms(7) e(2)] by (auto simp: wt_binary_def split: if_splits)
  then have i: "i = e_binary x' op y'" using assms(2,3) e by (auto simp: ec_binary_def Let_def outcome_simps split: if_splits)
  have "ty_of x' = Some (fst lt)" using tgood_typ(2) [OF assms(6) e(1)] by (simp add: tgood_def)
  then show ?thesis unfolding i
    by (rule sim_binary [OF assms(1,2) sim_typ [OF assms(4,6) e(1)] sim_typ [OF assms(5,7) e(2)]])
qed

lemma sim_ec_assign:
  assumes "wt_binary b TK_Equal lt rt = Some t" and "kind op = TK_Equal" and "ec_binary C op x y s2 = Ret (i, s')"
    and "sim P Y n C s mr y s2 rt" and "tgood C s2 x lt" and "tgood C s2 y rt"
    and "scope s2 nm = Some r" and "inner x = IVariable (slot r) (ref_ty C (ec_locals s2) r)"
    and "lt = (ref_ty C (ec_locals s2) r, ctys (ref_ty C (ec_locals s2) r))" and "scalar_ty (fst lt)"
  shows "sim P Y n C s (\<lambda>st. case mr st of None \<Rightarrow> None | Some (v, frs, w) \<Rightarrow> map_option (\<lambda>frs. (v, frs, w)) (assign nm v frs)) i s2 t"
proof -
  obtain lu x' ru y' where e: "e_typ x = Ret (lu, x')" "e_typ y = Ret (ru, y')" using assms(3) by (auto simp: ec_binary_def outcome_simps)
  have t: "t = rt" "fst lt = fst rt" "snd rt = snd lt" using assms(1) by (auto simp: wt_binary_def split: if_splits)
  then have "lu = ru" using tgood_typ(1) [OF assms(5) e(1)] tgood_typ(1) [OF assms(6) e(2)] by simp
  then have i: "i = e_assign x' y'" using assms(2,3) e by (auto simp: ec_binary_def Let_def)
  have "rt = lt" using t by (simp add: prod_eq_iff)
  then have "sim P Y n C s mr y' s2 (ref_ty C (ec_locals s2) r, ctys (ref_ty C (ec_locals s2) r))"
    using sim_typ [OF assms(4,6) e(2)] assms(9) by simp
  then show ?thesis unfolding i t(1) \<open>rt = lt\<close> assms(9)
    by (rule sim_assign [OF _ assms(7) typ_variable [OF assms(8) e(1)]]) (use assms(9,10) in simp)
qed

lemma target_slot:
  assumes "is_target G l" and "tpost C G s" and "wt C G l = Some (lt, G1)" and "ec_expr C l s = Ret (x, s1)" and "ctx_ok C"
    and "ext s1 s2" and "ec_envs s2 = ec_envs s1"
  obtains a p r where "l = Expr (EIdentifier a) p" and "s1 = s" and "scope s2 (lex a) = Some r"
    and "inner x = IVariable (slot r) (ref_ty C (ec_locals s2) r)"
    and "lt = (ref_ty C (ec_locals s2) r, ctys (ref_ty C (ec_locals s2) r))" and "scalar_ty (fst lt)"
proof -
  obtain k p where k: "l = Expr k p" by (cases l)
  obtain a where l: "l = Expr (EIdentifier a) p" "G (lex a) \<noteq> None" using assms(1) unfolding k by (cases k) auto
  have inv: "ec_inv C s" "types_in C s = G" using assms(2) by (simp_all add: tpost_def)
  have c: "ec_identifier C a s = Ret (x, s1)" using assms(4) l(1) by simp
  note s1 = ec_identifier_state [OF c]
  obtain r where r: "scope s (lex a) = Some r" "G (lex a) = Some (ref_ty C (ec_locals s) r)" using l(2) inv(2) by (auto simp: types_in_def)
  have ty: "ref_ty C (ec_locals s2) r = ref_ty C (ec_locals s) r"
    using scope_ref_ok [OF inv(1) r(1)] assms(6) s1 by (auto simp: ref_ok_def ref_ty_def ext_def nth_append split: var_ref.splits)
  have "lt = (ref_ty C (ec_locals s) r, ctys (ref_ty C (ec_locals s) r))" "scalar_ty (fst lt)"
    using assms(3) l(1) r(2) by (auto split: if_splits)
  then show ?thesis using that [OF l(1) s1, of r] ident_local [OF c inv(1) assms(5) r(1)] r(1) assms(7) s1 ty by (simp add: scope_def)
qed

lemma sim_statement:
  assumes "sim P Y n C s m i s' t"
  shows "sim P Y n C s (\<lambda>st. map_option (\<lambda>(_, st). (UnitV, st)) (m st)) i s' (TVoid, [])"
  using assms by (fastforce simp: sim_def)

lemma sim_if_none:
  assumes "wt_if ct yt None = Some t" and "sim P Y n C s mc x s1 ct" and "sim P Y n C s1 my y s1 yt"
  shows "sim P Y n C s (\<lambda>st. case mc st of None \<Rightarrow> None | Some (v, st) \<Rightarrow> (case truth v of None \<Rightarrow> None
     | Some b \<Rightarrow> if b then map_option (\<lambda>(_, st). (UnitV, st)) (my st) else Some (UnitV, st))) (e_new (IIf x y e_zero False)) s1 t"
proof -
  have w: "snd ct \<in> {[B1], [CI64]}" "t = (TVoid, [])" using assms(1) by (auto simp: wt_if_def split: if_splits)
  have "sim P Y n C s1 (\<lambda>st. Some (UnitV, st)) e_zero s1 (TVoid, [])" by (auto simp: sim_def e_defs)
  then show ?thesis by (rule sim_if [OF assms(2) w(1) sim_statement [OF assms(3)]]) (simp add: w(2))
qed

lemma sim_if_else:
  assumes "wt_if ct yt (Some zt) = Some t" and "e_if x y (Some z) = Ret i" and "sim P Y n C s mc x s1 ct"
    and "sim P Y n C s1 my y s1 yt" and "sim P Y n C s1 mz z s1 zt" and "tgood C s2 y yt" and "tgood C s2 z zt"
  shows "sim P Y n C s (\<lambda>st. case mc st of None \<Rightarrow> None | Some (v, st) \<Rightarrow> (case truth v of None \<Rightarrow> None
     | Some b \<Rightarrow> if b then my st else mz st)) i s1 t"
proof -
  obtain ty y' tz z' where e: "e_typ y = Ret (ty, y')" "e_typ z = Ret (tz, z')" "i = e_new (IIf x y' z' (ty = tz))"
    using assms(2) by (auto simp: e_if_def outcome_simps)
  have w: "snd ct \<in> {[B1], [CI64]}" "if ty = tz then yt = t \<and> zt = t else t = (TVoid, [])"
    using assms(1) tgood_typ(1) [OF assms(6) e(1)] tgood_typ(1) [OF assms(7) e(2)] by (auto simp: wt_if_def prod_eq_iff split: if_splits)
  show ?thesis unfolding e(3) by (rule sim_if [OF assms(3) w(1) sim_typ [OF assms(4,6) e(1)] sim_typ [OF assms(5,7) e(2)] w(2)])
qed

text \<open>A statement whose compiled tree computes what it means, and the forms of expression.\<close>

definition csim :: "fpu \<Rightarrow> (func_ref \<Rightarrow> u64 list \<Rightarrow> 'w \<Rightarrow> (u64 list \<times> 'w) option) \<Rightarrow> 'w scalls \<Rightarrow> nat \<Rightarrow> cctx \<Rightarrow> tenv \<Rightarrow> expr \<Rightarrow> bool" where
  "csim P Y Z n C G e \<longleftrightarrow> (\<forall>s t G' i s'. tpost C G s \<longrightarrow> wt C G e = Some (t, G') \<longrightarrow> ec_expr C e s = Ret (i, s') \<longrightarrow> stmt_form e \<longrightarrow>
     unshared C s' \<longrightarrow> sim P Y n C s (sstmt P Z (find_function C) n e) i s' t)"

lemma csimI:
  "(\<And>s t G' i s'. tpost C G s \<Longrightarrow> wt C G e = Some (t, G') \<Longrightarrow> ec_expr C e s = Ret (i, s') \<Longrightarrow> stmt_form e \<Longrightarrow> unshared C s' \<Longrightarrow>
     sim P Y n C s (sstmt P Z (find_function C) n e) i s' t) \<Longrightarrow> csim P Y Z n C G e"
  by (simp add: csim_def)

lemma csimD:
  assumes "csim P Y Z n C G e" and "expr_form e" and "tpost C G s" and "wt C G e = Some (t, G')" and "ec_expr C e s = Ret (i, s')" and "unshared C s'"
  shows "sim P Y n C s (seval P Z (find_function C) n e) i s' t"
  using assms(1,3-) expr_stmt(1) [OF assms(2)] sim_expr [OF assms(2)] unfolding csim_def by blast

lemma csim_literal: "csim P Y Z n C G (Expr (ELiteral l) u)"
proof (rule csimI)
  fix s t G' i s'
  assume "wt C G (Expr (ELiteral l) u) = Some (t, G')" and "ec_expr C (Expr (ELiteral l) u) s = Ret (i, s')"
  then have "wt_literal l = Some t" "i = e_constant (from_literal l)" "s' = s" by auto
  then show "sim P Y n C s (sstmt P Z (find_function C) n (Expr (ELiteral l) u)) i s' t"
    by (simp only:) (rule sim_cong [OF _ sim_literal], simp_all)
qed

lemma csim_identifier:
  assumes "ctx_ok C"
  shows "csim P Y Z n C G (Expr (EIdentifier x) u)"
proof (rule csimI)
  fix s t G' i s'
  assume s: "tpost C G s" and w: "wt C G (Expr (EIdentifier x) u) = Some (t, G')" and c: "ec_expr C (Expr (EIdentifier x) u) s = Ret (i, s')"
  have g: "types_in C s = G" "ec_inv C s" using s by (simp_all add: tpost_def)
  have c: "ec_identifier C x s = Ret (i, s')" using c by simp
  have w: "wt_ident C (types_in C s) (lex x) = Some t" using w g(1) by (auto simp del: wt_ident.simps)
  show "sim P Y n C s (sstmt P Z (find_function C) n (Expr (EIdentifier x) u)) i s' t"
    unfolding ec_identifier_state [OF c] by (rule sim_cong [OF _ sim_identifier [OF w c g(2) assms]]) simp
qed

lemma csim_binary:
  assumes C: "ctx_ok C" and l: "csim P Y Z n C G l" and r: "\<And>lt G1. wt C G l = Some (lt, G1) \<Longrightarrow> csim P Y Z n C G1 r"
  shows "csim P Y Z n C G (Expr (EBinary l op r) u)"
proof (rule csimI)
  fix s t G' i s'
  assume s: "tpost C G s" and w: "wt C G (Expr (EBinary l op r) u) = Some (t, G')" and c: "ec_expr C (Expr (EBinary l op r) u) s = Ret (i, s')"
    and f: "stmt_form (Expr (EBinary l op r) u)" and u: "unshared C s'"
  obtain lt G1 rt where w: "wt C G l = Some (lt, G1)" "wt C G1 r = Some (rt, G')" "wt_binary (is_target G l) (kind op) lt rt = Some t"
    using w by (auto split: option.splits)
  obtain x s1 y where c: "ec_expr C l s = Ret (x, s1)" "ec_expr C r s1 = Ret (y, s')" "ec_binary C op x y s' = Ret (i, s')"
    using c by (auto simp: outcome_simps dest: ec_binary_state)
  have f: "expr_form l" "expr_form r" using f by simp_all
  note a = typed_step [OF C s w(1) c(1)]
  note b = typed_step [OF C a(1) w(2) c(2)]
  note 1 = csimD [OF l f(1) s w(1) c(1) unshared_ext [OF b(2) u]]
  note 2 = csimD [OF r [OF w(1)] f(2) a(1) w(2) c(2) u]
  show "sim P Y n C s (sstmt P Z (find_function C) n (Expr (EBinary l op r) u)) i s' t"
  proof (cases "kind op = TK_Equal")
    case False
    then show ?thesis by (rule_tac sim_cong [OF _ sim_ec_binary [OF w(3) False c(3) 1 2 tgood_ext [OF a(3) b(2)] b(3)]]) simp
  next
    case True
    then have tg: "is_target G l" using w(3) by (auto simp: wt_binary_def split: if_splits)
    obtain d p q where l: "l = Expr (EIdentifier d) p" "s1 = s" "scope s' (lex d) = Some q"
        "inner x = IVariable (slot q) (ref_ty C (ec_locals s') q)"
        "lt = (ref_ty C (ec_locals s') q, ctys (ref_ty C (ec_locals s') q))" "scalar_ty (fst lt)"
      by (rule target_slot [OF tg s w(1) c(1) C b(2) b(5) [OF f(2)]])
    have w': "wt_binary (is_target G l) TK_Equal lt rt = Some t" using w(3) True by simp
    show ?thesis
      by (rule sim_cong [OF _ sim_ec_assign [OF w' True c(3) 2 [unfolded l(2)] tgood_ext [OF a(3) b(2)] b(3) l(3-6)]]) (simp add: l(1) True)
  qed
qed

lemma csim_if:
  assumes C: "ctx_ok C" and cnd: "csim P Y Z n C G c" and thn: "\<And>ct G1. wt C G c = Some (ct, G1) \<Longrightarrow> csim P Y Z n C G1 b"
    and els: "\<And>ct G1 bt G2 d. wt C G c = Some (ct, G1) \<Longrightarrow> wt C G1 b = Some (bt, G2) \<Longrightarrow> e = Some d \<Longrightarrow> csim P Y Z n C G2 d"
  shows "csim P Y Z n C G (Expr (EIf c b e) u)"
proof (rule csimI)
  fix s t G' i s'
  assume s: "tpost C G s" and wt: "wt C G (Expr (EIf c b e) u) = Some (t, G')" and ec: "ec_expr C (Expr (EIf c b e) u) s = Ret (i, s')"
    and form: "stmt_form (Expr (EIf c b e) u)" and u: "unshared C s'"
  obtain ct G1 bt G2 where w: "wt C G c = Some (ct, G1)" "wt C G1 b = Some (bt, G2)" using wt by (auto split: option.splits)
  obtain x s1 ty x' y s2 z where c: "ec_expr C c s = Ret (x, s1)" "e_typ x = Ret (ty, x')" "ec_expr C b s1 = Ret (y, s2)" "e_if x' y z = Ret i"
    and e: "case e of None \<Rightarrow> z = None \<and> s' = s2 | Some d \<Rightarrow> \<exists>d'. ec_expr C d s2 = Ret (d', s') \<and> z = Some d'"
    using ec by (cases e) (auto simp: outcome_simps ec_condition_def)
  have f: "expr_form c" "expr_form b" using form by simp_all
  note a = typed_step [OF C s w(1) c(1)]
  note d = typed_step [OF C a(1) w(2) c(3)]
  have fr: "frames_rel C s1 = frames_rel C s" "frames_rel C s2 = frames_rel C s" using a(6) [OF f(1)] d(6) [OF f(2)] by simp_all
  have u2: "unshared C s2"
  proof (cases e)
    case (Some g)
    then show ?thesis using e wt u w typed_step(2) [OF C d(1)] unshared_ext by (fastforce split: option.splits)
  qed (use e u in simp)
  have 1: "sim P Y n C s (seval P Z (find_function C) n c) x' s ct"
    using sim_states [OF sim_typ [OF csimD [OF cnd f(1) s w(1) c(1) unshared_ext [OF d(2) u2]] a(3) c(2)]] fr by simp
  have 2: "sim P Y n C s (seval P Z (find_function C) n b) y s bt"
    using sim_states [OF csimD [OF thn [OF w(1)] f(2) a(1) w(2) c(3) u2]] fr by simp
  show "sim P Y n C s (sstmt P Z (find_function C) n (Expr (EIf c b e) u)) i s' t"
  proof (cases e)
    case None
    then have n: "wt_if ct bt None = Some t" "i = e_new (IIf x' y e_zero False)" "s' = s2" using wt w e c(4) by (auto simp: e_if_def)
    have "sim P Y n C s (sstmt P Z (find_function C) n (Expr (EIf c b e) u)) i s t" unfolding None n(2)
      by (rule sim_cong [OF _ sim_if_none [OF n(1) 1 2]]) (simp split: option.split)
    then show ?thesis by (rule sim_states) (simp_all add: fr n(3))
  next
    case (Some g)
    obtain gt where v: "wt C G2 g = Some (gt, G')" "wt_if ct bt (Some gt) = Some t" using wt w Some by (auto split: option.splits)
    obtain g' where g': "ec_expr C g s2 = Ret (g', s')" "z = Some g'" using e Some by auto
    have fg: "expr_form g" using form Some by simp
    note q = typed_step [OF C d(1) v(1) g'(1)]
    have 3: "sim P Y n C s (seval P Z (find_function C) n g) g' s gt"
      using sim_states [OF csimD [OF els [OF w Some] fg d(1) v(1) g'(1) u]] fr q(6) [OF fg] by simp
    have "sim P Y n C s (sstmt P Z (find_function C) n (Expr (EIf c b e) u)) i s t" unfolding Some
      by (rule sim_cong [OF _ sim_if_else [OF v(2) c(4) [unfolded g'(2)] 1 2 3 tgood_ext [OF d(3) q(2)] q(3)]]) (simp split: option.split)
    then show ?thesis by (rule sim_states) (simp_all add: fr q(6) [OF fg])
  qed
qed

lemma csim_while:
  assumes C: "ctx_ok C" and cnd: "csim P Y Z n C G c" and body: "\<And>ct G1. wt C G c = Some (ct, G1) \<Longrightarrow> csim P Y Z n C G1 b"
  shows "csim P Y Z n C G (Expr (EWhile c b) u)"
proof (rule csimI)
  fix s t G' i s'
  assume s: "tpost C G s" and wt: "wt C G (Expr (EWhile c b) u) = Some (t, G')" and ec: "ec_expr C (Expr (EWhile c b) u) s = Ret (i, s')"
    and form: "stmt_form (Expr (EWhile c b) u)" and u: "unshared C s'"
  obtain ct G1 bt where w: "wt C G c = Some (ct, G1)" "wt C G1 b = Some (bt, G')" "snd ct \<in> {[B1], [CI64]}" "t = (TVoid, [CI64])"
    using wt by (auto split: option.splits if_splits)
  obtain x s1 ty x' y where c: "ec_expr C c s = Ret (x, s1)" "e_typ x = Ret (ty, x')" "ec_expr C b s1 = Ret (y, s')" "i = e_while x' y"
    using ec by (auto simp: outcome_simps ec_condition_def)
  have f: "expr_form c" "expr_form b" using form by simp_all
  note a = typed_step [OF C s w(1) c(1)]
  note d = typed_step [OF C a(1) w(2) c(3)]
  have fr: "frames_rel C s1 = frames_rel C s" "frames_rel C s' = frames_rel C s" using a(6) [OF f(1)] d(6) [OF f(2)] by simp_all
  have 1: "sim P Y n C s (seval P Z (find_function C) n c) x' s ct"
    using sim_states [OF sim_typ [OF csimD [OF cnd f(1) s w(1) c(1) unshared_ext [OF d(2) u]] a(3) c(2)]] fr by simp
  have 2: "sim P Y n C s (seval P Z (find_function C) n b) y s bt"
    using sim_states [OF csimD [OF body [OF w(1)] f(2) a(1) w(2) c(3) u]] fr by simp
  have "sim P Y n C s (sstmt P Z (find_function C) n (Expr (EWhile c b) u)) i s t" unfolding c(4) w(4)
    by (rule sim_cong [OF _ sim_while [OF 1 w(3) 2]]) simp
  then show "sim P Y n C s (sstmt P Z (find_function C) n (Expr (EWhile c b) u)) i s' t" by (rule sim_states) (simp_all add: fr)
qed

lemma csim_variable:
  assumes C: "ctx_ok C" and v: "csim P Y Z n C G v"
  shows "csim P Y Z n C G (Expr (EVariable final name v) u)"
proof (rule csimI)
  fix s t G' i s'
  assume s: "tpost C G s" and wt: "wt C G (Expr (EVariable final name v) u) = Some (t, G')"
    and ec: "ec_expr C (Expr (EVariable final name v) u) s = Ret (i, s')" and form: "stmt_form (Expr (EVariable final name v) u)" and u: "unshared C s'"
  obtain G1 where w: "wt C G v = Some (t, G1)" "scalar_ty (fst t)" "snd t = ctys (fst t)" using wt by (auto split: option.splits if_splits)
  obtain x s1 where c: "ec_expr C v s = Ret (x, s1)" "ec_variable C final name x s1 = Ret (i, s')" using ec by (auto simp: outcome_simps)
  have f: "expr_form v" using form by simp
  note a = typed_step [OF C s w(1) c(1)]
  have "ext s1 s'" using ec_variable_post [OF c(2) a(4) C] a(3) by (simp add: tgood_def)
  note 1 = csimD [OF v f s w(1) c(1) unshared_ext [OF this u]]
  show "sim P Y n C s (sstmt P Z (find_function C) n (Expr (EVariable final name v) u)) i s' t"
    by (rule sim_cong [OF _ sim_declare [OF 1 c(2) a(3,4) C w(2,3) u]]) simp
qed

text \<open>Statements and arguments, and the two forms of expression over them.\<close>

definition csims :: "fpu \<Rightarrow> (func_ref \<Rightarrow> u64 list \<Rightarrow> 'w \<Rightarrow> (u64 list \<times> 'w) option) \<Rightarrow> 'w scalls \<Rightarrow> nat \<Rightarrow> cctx \<Rightarrow> tenv \<Rightarrow> expr list \<Rightarrow> bool" where
  "csims P Y Z n C G es \<longleftrightarrow> (\<forall>s ts G' is s'. tpost C G s \<longrightarrow> wts C G es = Some (ts, G') \<longrightarrow> ec_exprs C es s = Ret (is, s') \<longrightarrow> unshared C s' \<longrightarrow>
     (stmts_form es \<longrightarrow> stmts_sim P Y n C s (sstmts P Z (find_function C) n es) is s' ts)
     \<and> ((\<forall>e \<in> set es. expr_form e) \<longrightarrow> args_sim P Y n C s (sargs P Z (find_function C) n es) is s' ts))"

lemma csimsD:
  assumes "csims P Y Z n C G es" and "tpost C G s" and "wts C G es = Some (ts, G')" and "ec_exprs C es s = Ret (is, s')" and "unshared C s'"
  shows "stmts_form es \<Longrightarrow> stmts_sim P Y n C s (sstmts P Z (find_function C) n es) is s' ts"
    and "\<forall>e \<in> set es. expr_form e \<Longrightarrow> args_sim P Y n C s (sargs P Z (find_function C) n es) is s' ts"
  using assms unfolding csims_def by blast+

lemma csims_Nil: "csims P Y Z n C G []"
  using stmts_sim_Nil args_sim_Nil by (auto simp: csims_def stmts_sim_def args_sim_def)

lemma csims_Cons:
  assumes C: "ctx_ok C" and e: "csim P Y Z n C G e" and es: "\<And>t G1. wt C G e = Some (t, G1) \<Longrightarrow> csims P Y Z n C G1 es"
  shows "csims P Y Z n C G (e # es)"
  unfolding csims_def
proof (intro allI impI)
  fix s ts G' "is" s'
  assume s: "tpost C G s" and wt: "wts C G (e # es) = Some (ts, G')" and ec: "ec_exprs C (e # es) s = Ret (is, s')" and u: "unshared C s'"
  obtain t G1 ts1 where w: "wt C G e = Some (t, G1)" "wts C G1 es = Some (ts1, G')" "ts = t # ts1" using wt by (auto split: option.splits)
  obtain x s1 xs where c: "ec_expr C e s = Ret (x, s1)" "ec_exprs C es s1 = Ret (xs, s')" "is = x # xs" using ec by (auto simp: outcome_simps)
  note a = typed_step [OF C s w(1) c(1)]
  have "ext s1 s'" using ec_expr_typed(2) [OF C a(1) w(2) c(2)] by simp
  then have u1: "unshared C s1" using u by (rule unshared_ext)
  note es = csimsD [OF es [OF w(1)] a(1) w(2) c(2) u]
  have "stmts_sim P Y n C s (sstmts P Z (find_function C) n (e # es)) is s' ts" if "stmts_form (e # es)"
  proof -
    have f: "stmt_form e" "stmts_form es" using that by (simp_all add: stmts_Cons(1))
    have "sim P Y n C s (sstmt P Z (find_function C) n e) x s1 t" using e s w(1) c(1) f(1) u1 unfolding csim_def by blast
    then show ?thesis unfolding w(3) c(3) using stmts_sim_Cons [OF _ es(1) [OF f(2)]] by (simp add: stmts_sim_def stmts_Cons(2))
  qed
  moreover have "args_sim P Y n C s (sargs P Z (find_function C) n (e # es)) is s' ts" if f: "\<forall>a \<in> set (e # es). expr_form a"
    using args_sim_Cons [OF csimD [OF e _ s w(1) c(1) u1] es(2)] f unfolding w(3) c(3) by (simp add: args_sim_def)
  ultimately show "(stmts_form (e # es) \<longrightarrow> stmts_sim P Y n C s (sstmts P Z (find_function C) n (e # es)) is s' ts)
     \<and> ((\<forall>a \<in> set (e # es). expr_form a) \<longrightarrow> args_sim P Y n C s (sargs P Z (find_function C) n (e # es)) is s' ts)" by blast
qed

lemma csim_block:
  assumes C: "ctx_ok C" and es: "csims P Y Z n C G es"
  shows "csim P Y Z n C G (Expr (EBlock es) u)"
proof (rule csimI)
  fix s t G' i s'
  assume s: "tpost C G s" and wt: "wt C G (Expr (EBlock es) u) = Some (t, G')" and ec: "ec_expr C (Expr (EBlock es) u) s = Ret (i, s')"
    and form: "stmt_form (Expr (EBlock es) u)" and u: "unshared C s'"
  obtain ts G1 where w: "wts C G es = Some (ts, G1)" "t = (if ts = [] then (TVoid, []) else last ts)" using wt by (auto split: option.splits)
  obtain es' s1 where c: "ec_exprs C es (begin_scope s) = Ret (es', s1)" "i = e_block es'" "s' = end_scope s1" using ec by (auto simp: outcome_simps)
  have b: "tpost C G (begin_scope s)" using s by (simp add: tpost_def begin_scope_inv)
  have "ec_envs s1 \<noteq> []" using ec_expr_typed(2) [OF C b w(1) c(1)] by (simp add: tpost_def ec_inv_def)
  moreover have "unshared C s1" using u c(3) by (simp add: unshared_def end_scope_def)
  then have "stmts_sim P Y n C (begin_scope s) (sstmts P Z (find_function C) n es) es' s1 ts"
    using csimsD(1) [OF es b w(1) c(1)] form by simp
  ultimately show "sim P Y n C s (sstmt P Z (find_function C) n (Expr (EBlock es) u)) i s' t"
    unfolding c(2,3) w(2) by (rule_tac sim_cong [OF _ sim_block]) simp_all
qed

lemma csim_call:
  assumes C: "ctx_ok C" and Y: "calls_match (cc_mods C) Z Y" and f: "csim P Y Z n C G f" and as: "\<And>ft G1. wt C G f = Some (ft, G1) \<Longrightarrow> csims P Y Z n C G1 as"
  shows "csim P Y Z n C G (Expr (ECall f as) u)"
proof (rule csimI)
  fix s t G' i s'
  assume s: "tpost C G s" and wt: "wt C G (Expr (ECall f as) u) = Some (t, G')" and ec: "ec_expr C (Expr (ECall f as) u) s = Ret (i, s')"
    and form: "stmt_form (Expr (ECall f as) u)" and u: "unshared C s'"
  obtain ft G1 ts where w: "wt C G f = Some (ft, G1)" "wts C G1 as = Some (ts, G')" "wt_call C (fst ft) ts = Some t"
    using wt by (auto split: option.splits)
  obtain r where r: "fst ft = TFunction r" using w(3) by (auto simp: wt_call_def split: ty.splits)
  obtain x s1 ct x' where c: "ec_expr C f s = Ret (x, s1)" "e_typ x = Ret (ct, x')" using ec by (auto simp: outcome_simps)
  have nf: "is_name f" "expr_form f" "\<forall>a \<in> set as. expr_form a" using form by (auto elim: is_name.elims)
  note a = typed_step [OF C s w(1) c(1)]
  note x' = tgood_typ [OF a(3) c(2)]
  obtain fn ys where d: "func_resolve (cc_mods C) r = Ret fn" "ec_exprs C as s1 = Ret (ys, s')"
      "call_args C (estart f) fn x' ys s' = Ret (i, s')"
    using ec c x'(1) r by (auto simp: outcome_simps dest: call_args_state)
  have b: "ext s1 s'" "list_all2 (tgood C s') ys ts" using ec_expr_typed(2) [OF C a(1) w(2) d(2)] by auto
  have 1: "sim P Y n C s (seval P Z (find_function C) n f) x' s ft"
    using sim_states [OF sim_typ [OF csimD [OF f nf(2) s w(1) c(1) unshared_ext [OF b(1) u]] a(3) c(2)]] a(6) [OF nf(2)] by simp
  have 2: "args_sim P Y n C s (sargs P Z (find_function C) n as) ys s' ts"
    using csimsD(2) [OF as [OF w(1)] a(1) w(2) d(2) u nf(3)] a(6) [OF nf(2)] by (simp add: args_sim_def)
  have callee: "callee_of x' = Some r" using x'(2) r by (simp add: tgood_def callee_of_def)
  have "frs' = frs \<and> w' = w" if "seval P Z (find_function C) n f (frs, w) = Some (v, frs', w')" for frs w v frs' w'
    using that nf(1) by (auto elim!: is_name.elims split: option.splits)
  note q = sim_call [OF w(3) r d(1,3) callee b(2) 1 this 2 Y]
  show "sim P Y n C s (sstmt P Z (find_function C) n (Expr (ECall f as) u)) i s' t" by (rule sim_cong [OF _ q]) simp_all
qed

lemma compile_sim:
  assumes "ctx_ok C" and "calls_match (cc_mods C) Z Y"
  shows "csim P Y Z n C G e" and "csims P Y Z n C G es"
  using assms
  by (induction C G e and C G es rule: wt_wts.induct)
    (simp_all add: csim_literal csim_identifier csim_binary csim_block csim_if csim_while csim_variable csim_call csims_Nil csims_Cons,
      simp add: csim_def)

end
