(* ===== verification/ListBuilder.thy ===== *)
theory ListBuilder
  imports VmProps
begin

section \<open>A builder that keeps the contract\<close>

text \<open>
  The contract of Cranelift is consistent: a builder that keeps a function as lists of blocks and
  a JIT module as lists of symbols and definitions satisfies it. Blocks, values and function
  references are positions in the lists. Every use of a variable returns a new value.
\<close>

record lbuilder =
  lb_blocks :: "(nat list \<times> (nat, nat, nat) item list) list"
  lb_sealed :: "nat list"
  lb_current :: "nat option"
  lb_entry :: "nat option"
  lb_sig :: signature
  lb_types :: "cty list"
  lb_vars :: "nat \<rightharpoonup> cty"
  lb_funcs :: "(string \<times> signature) list"

record lmodule =
  lm_syms :: "(string \<times> signature) list"
  lm_exported :: "nat list"
  lm_defs :: "nat \<rightharpoonup> lbuilder"

definition at :: "'a list \<Rightarrow> nat \<Rightarrow> 'a option" where
  "at xs i = (if i < length xs then Some (xs ! i) else None)"

fun clean :: "(nat, nat, nat) item \<Rightarrow> (nat, nat, nat) item" where
  "clean (Use x v _) = Use x v False"
| "clean it = it"

definition lview :: "lbuilder \<Rightarrow> (nat, nat, nat) fview" where
  "lview b =
     \<lparr>fv_code = (\<lambda>k. case at (lb_blocks b) k of Some (_, its) \<Rightarrow> map clean its | None \<Rightarrow> []),
      fv_params = (\<lambda>k. case at (lb_blocks b) k of Some (ps, _) \<Rightarrow> ps | None \<Rightarrow> []),
      fv_blocks = {..<length (lb_blocks b)}, fv_sealed = set (lb_sealed b), fv_current = lb_current b,
      fv_entry = lb_entry b, fv_sig = lb_sig b, fv_types = at (lb_types b), fv_vars = lb_vars b, fv_callee = at (lb_funcs b)\<rparr>"

definition no_sig :: signature where "no_sig = \<lparr>sig_params = [], sig_returns = []\<rparr>"

definition lempty :: "signature \<Rightarrow> lbuilder" where
  "lempty g = \<lparr>lb_blocks = [], lb_sealed = [], lb_current = None, lb_entry = None, lb_sig = g, lb_types = [],
               lb_vars = Map.empty, lb_funcs = []\<rparr>"

text \<open>New values of the given types.\<close>

definition lfresh :: "cty list \<Rightarrow> lbuilder \<Rightarrow> nat list \<times> lbuilder" where
  "lfresh ts b = ([length (lb_types b)..<length (lb_types b) + length ts], b\<lparr>lb_types := lb_types b @ ts\<rparr>)"

definition lcreate :: "lbuilder \<Rightarrow> (nat \<times> lbuilder) outcome" where
  "lcreate b = Ret (length (lb_blocks b), b\<lparr>lb_blocks := lb_blocks b @ [([], [])]\<rparr>)"

definition lswitch :: "nat \<Rightarrow> lbuilder \<Rightarrow> lbuilder outcome" where
  "lswitch k b = Ret (b\<lparr>lb_current := Some k, lb_entry := (case lb_entry b of None \<Rightarrow> Some k | Some e \<Rightarrow> Some e)\<rparr>)"

definition lparams :: "nat \<Rightarrow> cty list \<Rightarrow> lbuilder \<Rightarrow> nat list \<times> lbuilder" where
  "lparams k ts b =
     (let (xs, b) = lfresh ts b; (ps, its) = lb_blocks b ! k
      in (xs, b\<lparr>lb_blocks := (lb_blocks b)[k := (ps @ xs, its)]\<rparr>))"

definition litem :: "(nat, nat, nat) item \<Rightarrow> lbuilder \<Rightarrow> lbuilder outcome" where
  "litem it b =
     (case lb_current b of
        None \<Rightarrow> Panic AssertFailed
      | Some k \<Rightarrow> (let (ps, its) = lb_blocks b ! k in Ret (b\<lparr>lb_blocks := (lb_blocks b)[k := (ps, its @ [it])]\<rparr>)))"

definition lins :: "(nat, nat, nat) inst \<Rightarrow> lbuilder \<Rightarrow> (nat list \<times> lbuilder) outcome" where
  "lins i b =
     (let (rs, b) = lfresh (result_types (at (lb_funcs b)) i) b
      in obind (litem (Ins i rs) b) (\<lambda>b. Ret (rs, b)))"

definition luse :: "nat \<Rightarrow> lbuilder \<Rightarrow> (nat \<times> lbuilder) outcome" where
  "luse x b =
     (case lb_vars b x of
        None \<Rightarrow> Panic AssertFailed
      | Some t \<Rightarrow> (let (rs, b) = lfresh [t] b in obind (litem (Use x (hd rs) False) b) (\<lambda>b. Ret (hd rs, b))))"

fun position :: "string \<Rightarrow> (string \<times> signature) list \<Rightarrow> nat option" where
  "position name [] = None"
| "position name ((m, g) # xs) = (if m = name then Some 0 else map_option Suc (position name xs))"

definition ldeclare :: "string \<Rightarrow> linkage \<Rightarrow> signature \<Rightarrow> lmodule \<Rightarrow> nat option \<times> lmodule" where
  "ldeclare name l g jm =
     (let (fid, jm) = (case position name (lm_syms jm) of
            Some i \<Rightarrow> (if snd (lm_syms jm ! i) = g then Some i else None, jm)
          | None \<Rightarrow> (Some (length (lm_syms jm)), jm\<lparr>lm_syms := lm_syms jm @ [(name, g)]\<rparr>))
      in case fid of
           None \<Rightarrow> (None, jm)
         | Some i \<Rightarrow> (Some i, if l = Export then jm\<lparr>lm_exported := i # lm_exported jm\<rparr> else jm))"

definition ldefine :: "nat \<Rightarrow> lbuilder \<Rightarrow> lmodule \<Rightarrow> (bool \<times> lbuilder \<times> lmodule) outcome" where
  "ldefine fid b jm =
     Ret (if lm_defs jm fid = None \<and> fid \<in> set (lm_exported jm) then (True, b, jm\<lparr>lm_defs := (lm_defs jm)(fid \<mapsto> b)\<rparr>) else (False, b, jm))"

definition list_clif :: "(lbuilder, nat, nat, nat, lmodule) clif" where
  "list_clif =
     \<lparr>builder_new = Ret, create_block = lcreate, switch_to_block = lswitch,
      seal_block = (\<lambda>k b. Ret (b\<lparr>lb_sealed := k # lb_sealed b\<rparr>)),
      append_block_params_for_function_params = (\<lambda>k b. Ret (snd (lparams k (sig_params (lb_sig b)) b))),
      append_block_param = (\<lambda>k t b. let (xs, b) = lparams k [t] b in Ret (hd xs, b)),
      block_params = (\<lambda>k b. Ret (fv_params (lview b) k)),
      declare_var = (\<lambda>x t b. Ret (b\<lparr>lb_vars := (lb_vars b)(x \<mapsto> t)\<rparr>)),
      def_var = (\<lambda>x v. litem (Def x v)), use_var = luse, ins = lins, finalize = Ret, block_with_number = Some,
      make_signature = (\<lambda>_. no_sig), signature_of = lb_sig, set_signature = (\<lambda>g b. b\<lparr>lb_sig := g\<rparr>),
      module_declare_function = ldeclare,
      declare_func_in_func = (\<lambda>fid jm b. obind (idx (lm_syms jm) fid) (\<lambda>f. Ret (length (lb_funcs b), b\<lparr>lb_funcs := lb_funcs b @ [f]\<rparr>))),
      define_function = ldefine, clear_context = (\<lambda>_ _. lempty no_sig), finalize_definitions = Ret,
      get_name = (\<lambda>name jm. map_option FuncId (position name (lm_syms jm))),
      get_finalized_function = (\<lambda>fid jm. Ret (of_nat fid))\<rparr>"

text \<open>The symbols: a name stands for its first entry.\<close>

definition first_of :: "(string \<times> signature) list \<Rightarrow> nat \<rightharpoonup> string \<times> signature" where
  "first_of xs i = (case at xs i of Some (name, g) \<Rightarrow> if position name xs = Some i then Some (name, g) else None | None \<Rightarrow> None)"

abbreviation lsyms :: "lmodule \<Rightarrow> nat \<rightharpoonup> string \<times> signature" where "lsyms jm \<equiv> first_of (lm_syms jm)"
abbreviation ldefs :: "lmodule \<Rightarrow> nat \<rightharpoonup> (nat, nat, nat) fview" where "ldefs jm i \<equiv> map_option lview (lm_defs jm i)"
abbreviation lblank :: "lbuilder \<Rightarrow> bool" where "lblank b \<equiv> b = lempty no_sig"

lemma at_Cons: "at (x # xs) i = (case i of 0 \<Rightarrow> Some x | Suc j \<Rightarrow> at xs j)"
  by (simp add: at_def split: nat.splits)

lemma at_Nil: "at [] i = None"
  by (simp add: at_def)

lemma at_append: "at (xs @ [x]) = (at xs)(length xs \<mapsto> x)"
  by (auto simp: at_def fun_eq_iff nth_append)

lemma at_types: "at (xs @ ts) = at xs ++ map_of (zip [length xs..<length xs + length ts] ts)"
proof (induction ts rule: rev_induct)
  case (snoc t ts)
  have "at xs ++ map_of (zip [length xs..<length xs + length (ts @ [t])] (ts @ [t])) =
      (at xs ++ map_of (zip [length xs..<length xs + length ts] ts))(length xs + length ts \<mapsto> t)"
    by (auto simp: fun_eq_iff map_add_def split: option.splits dest!: map_of_SomeD set_zip_leftD)
  then show ?case using snoc at_append [of "xs @ ts" t] by simp
qed simp

lemma at_update: "k < length xs \<Longrightarrow> at (xs[k := x]) = (at xs)(k \<mapsto> x)"
  by (auto simp: at_def fun_eq_iff)

lemma clean_clean [simp]: "clean (clean it) = clean it"
  by (cases it) simp_all

lemma lview_simps [simp]:
  "fv_blocks (lview b) = {..<length (lb_blocks b)}" "fv_sealed (lview b) = set (lb_sealed b)"
  "fv_current (lview b) = lb_current b" "fv_entry (lview b) = lb_entry b" "fv_sig (lview b) = lb_sig b"
  "fv_types (lview b) = at (lb_types b)" "fv_vars (lview b) = lb_vars b" "fv_callee (lview b) = at (lb_funcs b)"
  by (simp_all add: lview_def)

lemma lfresh_range: "set [length xs..<n] \<inter> dom (at xs) = {}"
  by (auto simp: at_def split: if_splits)

lemma lparams_view:
  assumes k: "k < length (lb_blocks b)" and r: "lparams k ts b = (xs, b')"
  shows "lview b' = v_param k xs ts (lview b)"
proof -
  obtain ps its where e: "lb_blocks b ! k = (ps, its)" by (cases "lb_blocks b ! k")
  from k r e show ?thesis
    by (simp add: lparams_def lfresh_def lview_def v_param_def at_update fun_eq_iff)
      (auto simp: at_types, auto simp: at_def nth_list_update)
qed

lemma litem_view:
  assumes k: "lb_current b = Some k" "k < length (lb_blocks b)"
  obtains b' where "litem it b = Ret b'" and "lview b' = v_item (clean it) [] [] (lview b)"
proof -
  obtain ps its where e: "lb_blocks b ! k = (ps, its)" by (cases "lb_blocks b ! k")
  let ?b = "b\<lparr>lb_blocks := (lb_blocks b)[k := (ps, its @ [it])]\<rparr>"
  have "lview ?b = v_item (clean it) [] [] (lview b)"
    using k e by (simp add: lview_def v_item_def at_update fun_eq_iff) (simp add: at_def)
  moreover have "litem it b = Ret ?b" using k e by (simp add: litem_def)
  ultimately show ?thesis using that by blast
qed

lemma position_at: "position name xs = Some i \<Longrightarrow> i < length xs \<and> fst (xs ! i) = name"
  by (induction name xs arbitrary: i rule: position.induct) (auto split: if_splits)

lemma position_none: "position name xs = None \<Longrightarrow> at xs i \<noteq> Some (name, g)"
  by (induction name xs arbitrary: i rule: position.induct) (auto simp: at_Cons at_Nil split: if_splits nat.splits)

lemma position_append:
  "position name (xs @ [(m, g)]) =
     (case position name xs of Some i \<Rightarrow> Some i | None \<Rightarrow> if m = name then Some (length xs) else None)"
  by (induction name xs rule: position.induct) (auto split: option.splits)

lemma first_of_Some: "first_of xs i = Some (name, g) \<longleftrightarrow> at xs i = Some (name, g) \<and> position name xs = Some i"
  by (auto simp: first_of_def split: option.splits if_splits)

lemma first_of_append:
  assumes "position name xs = None"
  shows "first_of (xs @ [(name, g)]) = (first_of xs)(length xs \<mapsto> (name, g))"
proof
  fix i
  show "first_of (xs @ [(name, g)]) i = ((first_of xs)(length xs \<mapsto> (name, g))) i"
  proof (cases "at xs i")
    case None
    then show ?thesis using assms by (auto simp: first_of_def at_append position_append)
  next
    case (Some e)
    obtain m h where e: "e = (m, h)" by (cases e)
    have "i \<noteq> length xs" using Some by (auto simp: at_def)
    moreover have "position m xs \<noteq> None" using Some e position_none [of m xs i h] by auto
    ultimately show ?thesis using Some e by (auto simp: first_of_def at_append position_append)
  qed
qed

lemma open_current: "open_block (lview b) \<Longrightarrow> \<exists>k. lb_current b = Some k \<and> k < length (lb_blocks b)"
  by (auto simp: open_block_def)

lemma no_old_use: "item_at (lview b) c \<noteq> Some (Use x v True)"
proof -
  have "clean it \<noteq> Use x v True" for it by (cases it) simp_all
  then show ?thesis by (auto simp: item_at_def lview_def at_def Let_def split: option.splits if_splits prod.splits)
qed

lemma lins_view:
  assumes "open_block (lview b)"
  obtains rs b' where "lins i b = Ret (rs, b')"
    and "lview b' = v_item (Ins i rs) rs (result_types (at (lb_funcs b)) i) (lview b)"
    and "rs = [length (lb_types b)..<length (lb_types b) + length (result_types (at (lb_funcs b)) i)]"
proof -
  let ?ts = "result_types (at (lb_funcs b)) i"
  let ?rs = "[length (lb_types b)..<length (lb_types b) + length ?ts]" and ?b = "b\<lparr>lb_types := lb_types b @ ?ts\<rparr>"
  obtain k where k: "lb_current ?b = Some k" "k < length (lb_blocks ?b)" using open_current [OF assms] by auto
  obtain b' where b': "litem (Ins i ?rs) ?b = Ret b'" "lview b' = v_item (Ins i ?rs) [] [] (lview ?b)"
    using litem_view [OF k, of "Ins i ?rs"] by auto
  have "lview b' = v_item (Ins i ?rs) ?rs ?ts (lview b)"
    unfolding b'(2) by (simp add: v_item_def lview_def at_types)
  with b'(1) show ?thesis using that [of ?rs b'] by (simp add: lins_def lfresh_def Let_def)
qed

lemma luse_view:
  assumes "open_block (lview b)" and t: "lb_vars b x = Some t"
  obtains b' where "luse x b = Ret (length (lb_types b), b')"
    and "lview b' = v_item (Use x (length (lb_types b)) False) [length (lb_types b)] [t] (lview b)"
proof -
  let ?v = "length (lb_types b)" and ?b = "b\<lparr>lb_types := lb_types b @ [t]\<rparr>"
  obtain k where k: "lb_current ?b = Some k" "k < length (lb_blocks ?b)" using open_current [OF assms(1)] by auto
  obtain b' where b': "litem (Use x ?v False) ?b = Ret b'" "lview b' = v_item (Use x ?v False) [] [] (lview ?b)"
    using litem_view [OF k, of "Use x ?v False"] by auto
  have "lview b' = v_item (Use x ?v False) [?v] [t] (lview b)"
    unfolding b'(2) by (simp add: v_item_def lview_def at_append)
  with b'(1) t show ?thesis using that [of b'] by (simp add: luse_def lfresh_def Let_def)
qed

lemma ldeclare_syms:
  assumes "\<And>fid g'. lsyms jm fid = Some (name, g') \<Longrightarrow> g' = g"
  obtains fid jm' where "ldeclare name l g jm = (Some fid, jm')" and "lsyms jm' = (lsyms jm)(fid \<mapsto> (name, g))"
    and "lsyms jm fid \<in> {None, Some (name, g)}" and "lm_defs jm' = lm_defs jm"
    and "set (lm_exported jm') = set (lm_exported jm) \<union> (if l = Export then {fid} else {})"
proof (cases "position name (lm_syms jm)")
  case None
  let ?fid = "length (lm_syms jm)"
  let ?jm = "jm\<lparr>lm_syms := lm_syms jm @ [(name, g)]\<rparr>"
  show ?thesis
    by (rule that [of ?fid "if l = Export then ?jm\<lparr>lm_exported := ?fid # lm_exported ?jm\<rparr> else ?jm"])
      (auto simp: ldeclare_def None first_of_append, auto simp: first_of_def at_def)
next
  case (Some i)
  then have i: "i < length (lm_syms jm)" "fst (lm_syms jm ! i) = name" using position_at by blast+
  then have a: "lsyms jm i = Some (name, snd (lm_syms jm ! i))" using Some by (simp add: first_of_def at_def case_prod_beta prod_eq_iff)
  with assms have g: "snd (lm_syms jm ! i) = g" by blast
  show ?thesis
    by (rule that [of i "if l = Export then jm\<lparr>lm_exported := i # lm_exported jm\<rparr> else jm"])
      (use a g in \<open>auto simp: ldeclare_def Some\<close>)
qed

interpretation lb: jit_contract list_clif lview "\<lambda>b. lblank b" "\<lambda>jm. lsyms jm" P X
  "\<lambda>jm. set (lm_exported jm)" "\<lambda>jm i. ldefs jm i" K for P X K
proof
  show "block_with_number list_clif 0 \<noteq> None" by (simp add: list_clif_def)
  show "signature_of list_clif b = \<lparr>sig_params = [], sig_returns = []\<rparr>
      \<and> (\<exists>b'. builder_new list_clif (set_signature list_clif g b) = Ret b' \<and> lview b' = v_empty g)" if "lblank b" for b g
    using that by (simp add: list_clif_def lempty_def no_sig_def lview_def v_empty_def at_def fun_eq_iff)
  show "lblank (clear_context list_clif jm b)" for jm b by (simp add: list_clif_def)
  show "\<exists>k b'. create_block list_clif b = Ret (k, b') \<and> k \<notin> fv_blocks (lview b) \<and> lview b' = v_create k (lview b)" for b
    by (auto simp: list_clif_def lcreate_def lview_def v_create_def at_append fun_eq_iff)
  show "\<exists>b'. switch_to_block list_clif k b = Ret b' \<and> lview b' = v_switch k (lview b)" for k b
    by (simp add: list_clif_def lswitch_def lview_def v_switch_def)
  show "\<exists>b'. seal_block list_clif k b = Ret b' \<and> lview b' = v_seal k (lview b)" for k b
    by (simp add: list_clif_def lview_def v_seal_def)
  show "\<exists>b' xs. append_block_params_for_function_params list_clif k b = Ret b'
          \<and> lview b' = v_param k xs (sig_params (fv_sig (lview b))) (lview b)
          \<and> length xs = length (sig_params (fv_sig (lview b))) \<and> distinct xs \<and> set xs \<inter> dom (fv_types (lview b)) = {}"
    if k: "k \<in> fv_blocks (lview b)" for k b
  proof -
    obtain xs b' where r: "lparams k (sig_params (lb_sig b)) b = (xs, b')" by fastforce
    have xs: "xs = [length (lb_types b)..<length (lb_types b) + length (sig_params (lb_sig b))]"
      using r by (auto simp: lparams_def lfresh_def split: prod.splits)
    have "lview b' = v_param k xs (sig_params (lb_sig b)) (lview b)" using lparams_view [OF _ r] k by simp
    then show ?thesis
      by (intro exI [of _ b'] exI [of _ xs]) (use r lfresh_range xs in \<open>simp add: list_clif_def\<close>)
  qed
  show "\<exists>x b'. append_block_param list_clif k t b = Ret (x, b') \<and> lview b' = v_param k [x] [t] (lview b) \<and> fv_types (lview b) x = None"
    if k: "k \<in> fv_blocks (lview b)" for k b t
  proof -
    obtain xs b' where r: "lparams k [t] b = (xs, b')" by fastforce
    have xs: "xs = [length (lb_types b)]" using r by (auto simp: lparams_def lfresh_def split: prod.splits)
    have "lview b' = v_param k xs [t] (lview b)" using lparams_view [OF _ r] k by simp
    with r xs show ?thesis by (simp add: list_clif_def at_def)
  qed
  show "block_params list_clif k b = Ret (fv_params (lview b) k)" for k b by (simp add: list_clif_def)
  show "\<exists>b'. declare_var list_clif x t b = Ret b' \<and> lview b' = (lview b)\<lparr>fv_vars := (fv_vars (lview b))(x \<mapsto> t)\<rparr>" for x t b
    by (simp add: list_clif_def lview_def)
  show "\<exists>b'. def_var list_clif x v b = Ret b' \<and> lview b' = v_item (Def x v) [] [] (lview b)" if o: "open_block (lview b)" for x v b
  proof -
    obtain k where k: "lb_current b = Some k" "k < length (lb_blocks b)" using open_current [OF o] by auto
    show ?thesis by (rule litem_view [OF k, of "Def x v"]) (simp add: list_clif_def)
  qed
  show "\<exists>v b'. use_var list_clif x b = Ret (v, b') \<and> fv_types (lview b) v \<in> {None, Some t}
          \<and> lview b' = v_item (Use x v (fv_types (lview b) v \<noteq> None)) [v] [t] (lview b)"
    if o: "open_block (lview b)" and t: "fv_vars (lview b) x = Some t" for x t b
    by (rule luse_view [OF o, of x t]) (use t in \<open>simp_all add: list_clif_def at_def\<close>)
  show "\<exists>rs b'. ins list_clif i b = Ret (rs, b') \<and> lview b' = v_item (Ins i rs) rs (result_types (fv_callee (lview b)) i) (lview b)
          \<and> length rs = length (result_types (fv_callee (lview b)) i) \<and> distinct rs \<and> set rs \<inter> dom (fv_types (lview b)) = {}"
    if o: "can_ins i (lview b)" for i b
    by (rule lins_view [of b i]) (use o lfresh_range in \<open>simp_all add: list_clif_def can_ins_def\<close>)
  show "\<exists>b'. finalize list_clif b = Ret b' \<and> lview b' = lview b \<and> uses_sound (lview b') k P X" for b k
    by (simp add: list_clif_def uses_sound_def no_old_use)
  show "make_signature list_clif jm = \<lparr>sig_params = [], sig_returns = []\<rparr>" for jm by (simp add: list_clif_def no_sig_def)
  show "\<exists>fid jm'. module_declare_function list_clif name l g jm = (Some fid, jm') \<and> lsyms jm' = (lsyms jm)(fid \<mapsto> (name, g))
          \<and> lsyms jm fid \<in> {None, Some (name, g)}" if "\<And>fid g'. lsyms jm fid = Some (name, g') \<Longrightarrow> g' = g" for jm name g l
    by (rule ldeclare_syms [of jm name g l, OF that]) (simp_all add: list_clif_def)
  show "\<exists>r b'. declare_func_in_func list_clif fid jm b = Ret (r, b')
          \<and> lview b' = (lview b)\<lparr>fv_callee := (fv_callee (lview b))(r \<mapsto> (name, g))\<rparr>
          \<and> fv_callee (lview b) r \<in> {None, Some (name, g)}" if "lsyms jm fid = Some (name, g)" for jm fid name g b
  proof -
    have "idx (lm_syms jm) fid = Ret (name, g)" using that by (simp add: first_of_Some at_def idx_def split: if_splits)
    moreover have "at (lb_funcs b) (length (lb_funcs b)) = None" by (simp add: at_def)
    ultimately show ?thesis by (simp add: list_clif_def lview_def at_append)
  qed
  show "i = j" if "lsyms jm i = Some (name, g)" "lsyms jm j = Some (name, g')" for jm i j name g g'
    using that by (auto simp: first_of_Some)
  show "get_name list_clif name jm = Some (FuncId fid)" if "lsyms jm fid = Some (name, g)" for jm fid name g
    using that by (simp add: first_of_Some list_clif_def)
  show "lsyms jm' = (lsyms jm)(fid \<mapsto> (name, g)) \<and> lsyms jm fid \<in> {None, Some (name, g)}
      \<and> (\<lambda>i. ldefs jm' i) = (\<lambda>i. ldefs jm i) \<and> set (lm_exported jm') = set (lm_exported jm) \<union> (if l = Export then {fid} else {})"
    if "module_declare_function list_clif name l g jm = (Some fid, jm')" for name l g jm fid jm'
  proof -
    have d: "ldeclare name l g jm = (Some fid, jm')" using that by (simp add: list_clif_def)
    have "g' = g" if "lsyms jm i = Some (name, g')" for i g'
      using that d by (auto simp: first_of_Some at_def ldeclare_def split: if_splits)
    then show ?thesis by (rule ldeclare_syms [of jm name g l]) (use d in auto)
  qed
  show "\<exists>b' jm'. define_function list_clif fid b jm = Ret (True, b', jm') \<and> lsyms jm' = lsyms jm \<and> set (lm_exported jm') = set (lm_exported jm)
      \<and> (\<lambda>i. ldefs jm' i) = (\<lambda>i. ldefs jm i)(fid \<mapsto> lview b)"
    if "fid \<in> set (lm_exported jm)" "ldefs jm fid = None" for jm fid b
    using that by (auto simp: list_clif_def ldefine_def fun_eq_iff)
  show "\<exists>jm'. finalize_definitions list_clif jm = Ret jm' \<and> lsyms jm' = lsyms jm \<and> set (lm_exported jm') = set (lm_exported jm)
      \<and> (\<lambda>i. ldefs jm' i) = (\<lambda>i. ldefs jm i)" for jm
    by (simp add: list_clif_def)
qed

end
