(* ===== verification/VmTheorems.thy ===== *)
theory VmTheorems
  imports VmJit ListBuilder
begin

section \<open>The virtual machine: results\<close>

text \<open>
  The results about \<open>lang/src/vm\<close>, for every Cranelift that keeps the contract, with witnesses on
  the list builder.
\<close>

subsection \<open>Two parameters\<close>

text \<open>While the parameters before \<open>i\<close> are declared, all of machine type \<open>ct\<close>.\<close>

definition params_inv :: "('b \<Rightarrow> ('v, 'k, 'r) fview) \<Rightarrow> 'v list \<Rightarrow> cty \<Rightarrow> nat \<Rightarrow> ('b, 'k, 'm) translator \<Rightarrow> bool" where
  "params_inv view xs ct i s \<longleftrightarrow> tr_local_offsets s = [0..<Suc i] \<and> open_block (view (tr_cl s)) \<and> \<not> branched (cur_code (view (tr_cl s)))
     \<and> (\<forall>x \<ge> i. fv_vars (view (tr_cl s)) x = None) \<and> (\<forall>x \<in> set xs. fv_types (view (tr_cl s)) x = Some ct)"

definition declare_param :: "('b, 'v, 'k, 'r, 'm) clif \<Rightarrow> 'v list \<Rightarrow> var_store \<Rightarrow> ('b, 'k, 'm) translator \<Rightarrow> ('b, 'k, 'm) translator run" where
  "declare_param C params var s = rbind (declare_local C var s) (\<lambda>s.
     rbind (Some (idx (tr_local_offsets s) (vs_index var))) (\<lambda>from.
     rbind (Some (slice_from params from)) (\<lambda>vals. define_local C var vals s)))"

lemma ctys_one: "ctys t = [ct] \<Longrightarrow> translate_scalar t = ([(0, ct)], 1) \<and> word_ty t \<and> scalar_ty t"
  by (cases t) (auto simp: ctys_def word_ty_def scalar_ty_def CLIF_PTR_def)

lemma map_of_same: "x \<in> set xs \<Longrightarrow> map_of (map (\<lambda>x. (x, c)) xs) x = Some c"
  by (induction xs) auto

context clif_contract
begin

lemma declare_param_step:
  assumes q: "params_inv view xs ct i s" and p: "vs_index p = i" "ctys (vs_ty p) = [ct]" and i: "i < length xs"
  shows "if 2 * i < length xs then \<exists>s'. declare_param C xs p s = rret s' \<and> params_inv view xs ct (Suc i) s'
         else declare_param C xs p s = Some (Panic IndexOutOfBounds)"
proof -
  have t: "translate_scalar (vs_ty p) = ([(0, ct)], 1)" "scalar_ty (vs_ty p)" using ctys_one [OF p(2)] by simp_all
  have o: "tr_local_offsets s = [0..<Suc i]" "fv_vars (view (tr_cl s)) i = None" using q by (simp_all add: params_inv_def del: upt_Suc)
  obtain b where b: "declare_var C i ct (tr_cl s) = Ret b" "view b = (view (tr_cl s))\<lparr>fv_vars := (fv_vars (view (tr_cl s)))(i \<mapsto> ct)\<rparr>"
    using declare_law [OF o(2)] by blast
  let ?s = "s\<lparr>tr_cl := b, tr_local_offsets := [0..<Suc i] @ [Suc i]\<rparr>"
  have d: "declare_local C p s = rret ?s"
    using o(1) p(1) t b(1) by (simp add: declare_local_def translate_scalar_ty do_cl_def rret_def nth_append)
  have off: "idx ([0..<Suc i] @ [Suc i]) i = Ret i" by (simp add: idx_def nth_append)
  have run: "declare_param C xs p s = rbind (Some (idx (drop i xs) i)) (\<lambda>v. do_cl (def_var C i v) ?s)"
    using d off p(1) i t by (simp add: declare_param_def slice_from_def define_local_def translate_scalar_ty rbind_def rret_def
        split: outcome.splits option.splits)
  show ?thesis
  proof (cases "2 * i < length xs")
    case True
    have v: "open_block (view b)" "\<not> branched (cur_code (view b))" "fv_types (view b) (xs ! (i + i)) = Some ct"
      using q b(2) True by (auto simp: params_inv_def open_block_def)
    obtain b' where b': "def_var C i (xs ! (i + i)) b = Ret b'" "view b' = v_item (Def i (xs ! (i + i))) [] [] (view b)"
      using def_law [OF v(1,2) _ v(3), of i] b(2) by auto
    have "params_inv view xs ct (Suc i) (?s\<lparr>tr_cl := b'\<rparr>)"
      using q b(2) b'(2) v(1) by (auto simp: params_inv_def open_block_def)
    moreover have "declare_param C xs p s = rret (?s\<lparr>tr_cl := b'\<rparr>)"
      using run True b'(1) by (simp add: idx_def do_cl_def rret_def)
    ultimately show ?thesis using True by auto
  next
    case False
    then have "\<not> i < length xs - i" by simp
    with False show ?thesis using run by (simp add: idx_def)
  qed
qed

lemma declare_params_panic:
  assumes "params_inv view xs ct i s" and "\<forall>k < length ps. vs_index (ps ! k) = i + k \<and> ctys (vs_ty (ps ! k)) = [ct]"
    and "i + length ps = length xs" and "ps \<noteq> []" and "2 \<le> length xs"
  shows "rfold (declare_param C xs) ps s = Some (Panic IndexOutOfBounds)"
  using assms
proof (induction ps arbitrary: i s)
  case (Cons p ps)
  have p: "vs_index p = i" "ctys (vs_ty p) = [ct]" and i: "i < length xs" using Cons.prems(2) [rule_format, of 0] Cons.prems(3) by auto
  show ?case
  proof (cases "2 * i < length xs")
    case True
    then obtain s' where s': "declare_param C xs p s = rret s'" "params_inv view xs ct (Suc i) s'"
      using declare_param_step [OF Cons.prems(1) p i] by auto
    have "ps \<noteq> []" using True Cons.prems(3,5) by auto
    moreover have "\<forall>k < length ps. vs_index (ps ! k) = Suc i + k \<and> ctys (vs_ty (ps ! k)) = [ct]"
      using Cons.prems(2) [rule_format, of "Suc _"] by auto
    ultimately show ?thesis using Cons.IH [OF s'(2)] Cons.prems(3,5) s'(1) by simp
  next
    case False
    then show ?thesis using declare_param_step [OF Cons.prems(1) p i] by simp
  qed
qed simp

lemma build_panics:
  assumes b: "blank b" and g: "make_fn_sig M f \<lparr>sig_params = [], sig_returns = []\<rparr> = rret g" and n: "2 \<le> length (irf_params f)"
    and ps: "\<forall>k < length (irf_params f). vs_index (irf_params f ! k) = k \<and> ctys (vs_ty (irf_params f ! k)) = [ct]"
  shows "rbind (translator_new C M jm (set_signature C g b)) (translator_build C f) = Some (Panic IndexOutOfBounds)"
proof -
  obtain s0 s k xs where i: "translator_new C M jm (set_signature C g b) = rret s0" "\<And>f. translator_init C f s0 = declare_variables C f s"
    "view (tr_cl s) = entry_view k xs g" "distinct xs" "length xs = length (sig_params g)"
    "tr_blocks s = [k]" "tr_local_offsets s = [0]" "tr_mods s = M" "tr_ir_module s = jm"
    by (rule init_ok [OF b, of M jm g]) blast
  have c: "\<forall>p \<in> set (irf_params f). ctys (vs_ty p) = [ct]" using ps by (metis in_set_conv_nth)
  then have "sig_params g = concat (map (\<lambda>p. [ct]) (irf_params f))"
    using fn_sig_params [OF g] ctys_one by (metis (no_types, lifting) map_eq_conv)
  then have sp: "sig_params g = replicate (length (irf_params f)) ct" by (induction "irf_params f" arbitrary: g) (auto simp: map_replicate_const concat_replicate_single)
  then have q: "params_inv view xs ct 0 s" 
    using i(3,5,7) by (auto simp: params_inv_def open_block_def zip_replicate2 entry_view_def v_empty_def map_of_same)
  have "rfold (declare_param C xs) (irf_params f) s = Some (Panic IndexOutOfBounds)"
    by (rule declare_params_panic [OF q]) (use ps n sp i(5) in auto)
  moreover have "block_params C k (tr_cl s) = Ret xs" using params_law [of k "tr_cl s"] i(3) by simp
  ultimately have "declare_variables C f s = Some (Panic IndexOutOfBounds)"
    using i(6) by (simp add: declare_variables_def declare_param_def [abs_def])
  then show ?thesis using i(1,2) by (simp add: translator_build_def)
qed

end

subsection \<open>A program for the witnesses\<close>

text \<open>\<open>fun main() -> i64 { var a = 3; while (a < 10) { a = a + 1 }; a }\<close>, and a function of two
  parameters.\<close>

definition tok_of :: "tkind \<Rightarrow> token" where
  "tok_of k = \<lparr>kind = k, lex = [], start = 0\<rparr>"

definition i_var :: ir_expr where "i_var = IrExpr (IVariable 0 TI64) None"

definition i_lit :: "i64 \<Rightarrow> ir_expr" where "i_lit n = IrExpr (IConstant (CInt n)) None"

definition count_body :: ir_expr where
  "count_body = IrExpr (IBlock
     [IrExpr (IAssign i_var (i_lit 3)) None,
      IrExpr (IWhile (IrExpr (IBinary i_var (tok_of TK_Less) (i_lit 10)) None)
        (IrExpr (IBlock [IrExpr (IAssign i_var (IrExpr (IBinary i_var (tok_of TK_Plus) (i_lit 1)) None)) None]) None)) None,
      i_var]) None"

definition some_ast :: ast_function where
  "some_ast = \<lparr>fn_name = tok_of TK_Identifier, fn_params = [], fn_ret_type = None, fn_body = Some (Expr (ELiteral (LInt 0)) 0)\<rparr>"

definition word_var :: "nat \<Rightarrow> var_store" where
  "word_var i = \<lparr>vs_ty = TI64, vs_name = ''a'', vs_index = i, vs_mutable = True\<rparr>"

definition count_fn :: ir_function where
  "count_fn = \<lparr>irf_name = ''main'', irf_params = [], irf_ret_type = TI64, irf_locals = [word_var 0], irf_body = count_body,
               irf_ir = None, irf_ast = some_ast\<rparr>"

definition two_fn :: ir_function where
  "two_fn = \<lparr>irf_name = ''add'', irf_params = [word_var 0, word_var 1], irf_ret_type = TI64, irf_locals = [], irf_body = i_var,
             irf_ir = None, irf_ast = some_ast\<rparr>"

definition one_module :: "ir_function \<Rightarrow> nat \<Rightarrow> ir_module" where
  "one_module f m = \<lparr>irm_funcs = [f], irm_classes = [], irm_reserved_names = {irf_name f},
      irm_ast = \<lparr>mod_path = [''script''], mod_functions = [some_ast], mod_classes = []\<rparr>\<rparr>"

definition new_jit :: "(lbuilder, lmodule) jit" where
  "new_jit = \<lparr>jit_ctx = lempty no_sig, jit_clif = \<lparr>lm_syms = [], lm_exported = [], lm_defs = Map.empty\<rparr>\<rparr>"

definition no_fpu :: fpu where
  "no_fpu = \<lparr>f_add = (\<lambda>x y. x), f_sub = (\<lambda>x y. x), f_mul = (\<lambda>x y. x), f_div = (\<lambda>x y. x), f_cmp = (\<lambda>_ x y. x = y)\<rparr>"

definition no_calls :: "unit calls" where "no_calls name xs w = None"

lemma one_resolve: "resolve_func (one_module f) r = Ret f' \<longleftrightarrow> fr_index r = 0 \<and> f' = f"
  by (auto simp: resolve_func_def one_module_def idx_def)

lemma one_names: "names_agree (one_module f)"
proof -
  have "resolve_func (one_module f) r = Ret f" if "resolve_func (one_module f) r = Ret f'" for r f'
    using that by (simp add: one_resolve)
  then show ?thesis unfolding names_agree_def fn_sig_def by (metis (no_types, lifting) option.inject outcome.case(1))
qed

lemma one_fun_names: "fun_names (one_module f) = {irf_name f}"
  by (auto simp: fun_names_def one_resolve intro: exI [of _ "\<lparr>fr_module = 0, fr_index = 0\<rparr>"])

lemma new_jit_inv: "irf_ir f = None \<Longrightarrow> jit_inv (\<lambda>b. lblank b) (\<lambda>jm. lsyms jm) (\<lambda>jm. set (lm_exported jm)) (\<lambda>jm i. ldefs jm i)
    (one_module f) (one_module f, new_jit)"
  by (auto simp: jit_inv_def new_jit_def ids_ok_def ids_exported_def one_resolve first_of_def at_Nil)

lemma no_calls_fit: "calls_fit M no_calls"
  by (simp add: calls_fit_def no_calls_def)

lemma count_ready: "fn_ready M count_fn \<lparr>sig_params = [], sig_returns = [CI64]\<rparr>"
  by (simp add: fn_ready_def count_fn_def count_body_def i_var_def i_lit_def tok_of_def word_var_def make_fn_sig_def translate_type_def
      fn_vars_ok_def scalar_ty_def fn_env_def vt_var_def vt_assign_def vt_bin_def vt_const_def binary_op_def is_int_def ctys_def
      intcmp_def Let_def)

lemma count_runs: "eval no_fpu Y 8 count_body (\<sigma>, w) = Some ([10], \<sigma>(0 := 10), w)"
  by (simp add: count_body_def i_var_def i_lit_def tok_of_def sem_bin_def src_bin_def int_bin_def sem_var_def sem_store_def word_ty_def
      of_flag_def eval_nat_numeral)

subsection \<open>The properties\<close>

text \<open>
  C3: compiling a module is right. For a program whose functions of one name have one signature
  and whose called functions return what their signature says, \<open>jit_module\<close> on a module whose
  functions with a body are in the fragment, have different names and no definition yet, and
  where every name is defined or known, returns; afterwards each function with a body is found
  under its name, has a definition, and the definition returns, for all arguments, the values the
  body means and leaves the world as the body does. The state is again one in which a module may
  be compiled, and earlier definitions are kept.
\<close>

theorem jit_module_computes:
  assumes "jit_contract C view blank syms P X exported defs known"
    and "jit_inv blank syms exported defs M0 (M, j)" and "names_agree M0" and "calls_fit M0 X"
    and "\<forall>f \<in> set (irm_funcs (M0 m)). has_body f \<longrightarrow> (\<exists>g. fn_ready M0 f g)
       \<and> (\<forall>fid g. syms (jit_clif j) fid = Some (irf_name f, g) \<longrightarrow> defs (jit_clif j) fid = None)"
    and "distinct (map irf_name (filter has_body (irm_funcs (M0 m))))"
    and "\<forall>name \<in> fun_names M0 \<union> fst ` ran (syms (jit_clif j)). name \<in> irf_name ` set (filter has_body (irm_funcs (M0 m)))
       \<or> name \<in> known \<or> (\<exists>fid g. syms (jit_clif j) fid = Some (name, g) \<and> defs (jit_clif j) fid \<noteq> None)"
  shows "\<exists>M' j'. jit_module C m (M, j) = rret (M', j') \<and> jit_inv blank syms exported defs M0 (M', j')
     \<and> defs (jit_clif j) \<subseteq>\<^sub>m defs (jit_clif j')
     \<and> (\<forall>f \<in> set (irm_funcs (M0 m)). has_body f \<longrightarrow> (\<exists>g fid F. fn_ready M0 f g \<and> get_name C (irf_name f) (jit_clif j') = Some (FuncId fid)
          \<and> defs (jit_clif j') fid = Some F \<and> implements P X M0 f g F))"
  using assms by (rule jit_contract.jit_module_ok)

theorem jit_module_computes_witness:
  "\<exists>M' j' fid F k. jit_module list_clif 0 (one_module count_fn, new_jit) = rret (M', j')
     \<and> get_name list_clif ''main'' (jit_clif j') = Some (FuncId fid) \<and> ldefs (jit_clif j') fid = Some F \<and> fv_entry F = Some k
     \<and> (\<forall>vals vars. returns_from no_fpu no_calls F (entry_config F k [] vals vars ()) [10] ())"
proof -
  let ?M = "one_module count_fn" and ?g = "\<lparr>sig_params = [], sig_returns = [CI64]\<rparr>"
  have s: "irm_funcs (?M 0) = [count_fn]" "has_body count_fn" "irf_name count_fn = ''main''"
    by (simp_all add: one_module_def count_fn_def some_ast_def)
  have e: "lsyms (jit_clif new_jit) = Map.empty" by (simp add: new_jit_def first_of_def at_Nil fun_eq_iff)
  have i: "jit_inv (\<lambda>b. lblank b) (\<lambda>jm. lsyms jm) (\<lambda>jm. set (lm_exported jm)) (\<lambda>jm i. ldefs jm i) ?M (?M, new_jit)"
    by (rule new_jit_inv) (simp add: count_fn_def)
  have "\<exists>M' j'. jit_module list_clif 0 (?M, new_jit) = rret (M', j') \<and> jit_inv (\<lambda>b. lblank b) (\<lambda>jm. lsyms jm) (\<lambda>jm. set (lm_exported jm)) (\<lambda>jm i. ldefs jm i) ?M (M', j')
     \<and> (\<lambda>i. ldefs (jit_clif new_jit) i) \<subseteq>\<^sub>m (\<lambda>i. ldefs (jit_clif j') i)
     \<and> (\<forall>f \<in> set (irm_funcs (?M 0)). has_body f \<longrightarrow> (\<exists>g fid F. fn_ready ?M f g \<and> get_name list_clif (irf_name f) (jit_clif j') = Some (FuncId fid)
          \<and> ldefs (jit_clif j') fid = Some F \<and> implements no_fpu no_calls ?M f g F))"
    by (rule jit_module_computes [OF lb.jit_contract_axioms [of no_fpu no_calls "{}"] i one_names no_calls_fit])
      (use count_ready [of ?M] s e in \<open>auto simp: one_fun_names\<close>)
  then obtain M' j' g fid F where r: "jit_module list_clif 0 (?M, new_jit) = rret (M', j')"
      "get_name list_clif ''main'' (jit_clif j') = Some (FuncId fid)" "ldefs (jit_clif j') fid = Some F"
      "implements no_fpu no_calls ?M count_fn g F" "fn_ready ?M count_fn g"
    using s by auto
  have "g = ?g" using r(5) count_ready [of ?M] by (simp add: fn_ready_def)
  then obtain k where k: "fv_entry F = Some k" "\<forall>n args vals vars w ys \<sigma>' w'. length args = 0 \<longrightarrow>
      eval no_fpu (calls_of ?M no_calls) n count_body (start_store ?M count_fn args vars, w) = Some (ys, \<sigma>', w') \<longrightarrow>
      returns_from no_fpu no_calls F (entry_config F k args vals vars w) ys w' \<and> length ys = length (sig_returns g)"
    using r(4) by (auto simp: implements_def count_fn_def)
  have "returns_from no_fpu no_calls F (entry_config F k [] vals vars ()) [10] ()" for vals vars
    using k(2) [rule_format, of "[]", OF _ count_runs] by simp
  with r(1-3) k(1) show ?thesis by blast
qed

text \<open>
  C32: a function with two or more parameters of one machine type cannot be compiled: the
  translator panics with an index out of bounds before it emits an instruction. The slice of the
  values passed to \<open>define_local\<close> starts at the parameter already and is indexed from there by the
  parameter's offset once more.
\<close>

theorem two_params_panic:
  assumes "clif_contract C view blank syms P X" and "blank b"
    and "make_fn_sig M f \<lparr>sig_params = [], sig_returns = []\<rparr> = rret g" and "2 \<le> length (irf_params f)"
    and "\<forall>k < length (irf_params f). vs_index (irf_params f ! k) = k \<and> ctys (vs_ty (irf_params f ! k)) = [ct]"
  shows "rbind (translator_new C M jm (set_signature C g b)) (translator_build C f) = Some (Panic IndexOutOfBounds)"
  using assms by (rule clif_contract.build_panics)

theorem two_params_panic_witness:
  "rbind (translator_new list_clif (one_module two_fn) (jit_clif new_jit)
      (set_signature list_clif \<lparr>sig_params = [CI64, CI64], sig_returns = [CI64]\<rparr> (lempty no_sig)))
    (translator_build list_clif two_fn) = Some (Panic IndexOutOfBounds)"
  by (rule two_params_panic [OF lb.clif_contract_axioms [of no_fpu no_calls] refl])
    (auto simp: two_fn_def word_var_def make_fn_sig_def translate_type_def ctys_def less_Suc_eq)

end
