(* ===== verification/Parser.thy ===== *)
theory Parser
  imports Ast
begin

section \<open>The recursive-descent parser (lang/src/parser/mod.rs)\<close>

text \<open>
  The parser state is the current token, the rest of the scanner's items and the errors
  collected so far. A parsing function returns \<open>POk\<close> or \<open>PErr\<close> with the state it leaves
  (Rust's \<open>?\<close> does not roll tokens back), or \<open>PPanic\<close> where the source panics
  (\<open>unwrap\<close> on a literal that does not fit).

  The expression methods call one another with no structural argument. Each is a definition
  over a record \<open>fns\<close> of the methods it calls back through \<open>self\<close>; \<open>fns_at\<close> ties the knot
  with fuel, \<open>PFuel\<close> being its exhaustion, and \<open>self_fns\<close> gives each call the fuel its
  remaining input needs. The theorems show that this fuel is enough and that \<open>self_fns\<close> is a
  fixed point of the source's equations. \<open>f64::from_str\<close> is the parameter \<open>pf\<close>.
\<close>

named_theorems step_intros \<open>consumption of input by parsing steps\<close>
named_theorems le_intros \<open>monotonicity of parsing steps in their fuel\<close>

record parser =
  lexer :: logos_lexer
  current :: token
  errors :: "error list"

datatype 'a pres = POk 'a parser | PErr error parser | PPanic panic | PFuel

fun pbind :: "'a pres \<Rightarrow> ('a \<Rightarrow> parser \<Rightarrow> 'b pres) \<Rightarrow> 'b pres" where
  "pbind (POk x s) f = f x s"
| "pbind (PErr e s) f = PErr e s"
| "pbind (PPanic p) f = PPanic p"
| "pbind PFuel f = PFuel"

subsection \<open>Token-level primitives\<close>

text \<open>Past the last item the parser sees a synthetic \<open>Error\<close> token.\<close>

definition advance :: "parser \<Rightarrow> token \<times> parser" where
  "advance s =
     (current s,
      case lexer_next (lexer s) of
        Some (t, l) \<Rightarrow> s\<lparr>lexer := l, current := t\<rparr>
      | None \<Rightarrow> s\<lparr>current := \<lparr>kind = TK_Error, lex = [CHR 0x00], start = start (current s) + 1\<rparr>\<rparr>)"

definition check :: "tkind \<Rightarrow> parser \<Rightarrow> bool" where
  "check k s \<longleftrightarrow> kind (current s) = k"

definition check_any :: "tkind list \<Rightarrow> parser \<Rightarrow> bool" where
  "check_any ks s = list_ex (\<lambda>k. check k s) ks"

definition is_at_end :: "parser \<Rightarrow> bool" where
  "is_at_end s \<longleftrightarrow> kind (current s) = TK_Error"

definition matches :: "tkind \<Rightarrow> parser \<Rightarrow> bool \<times> parser" where
  "matches k s = (if check k s then (True, snd (advance s)) else (False, s))"

definition consume :: "tkind \<Rightarrow> parser \<Rightarrow> token pres" where
  "consume k s =
     (if check k s then POk (fst (advance s)) (snd (advance s))
      else PErr (error_new (start (current s)) (E100 k (kind (current s)))) s)"

definition parse_typ :: "parser \<Rightarrow> atype pres" where
  "parse_typ s = pbind (consume TK_Identifier s) (\<lambda>name s. POk (AType name) s)"

definition push_error :: "error \<Rightarrow> parser \<Rightarrow> parser" where
  "push_error e s = s\<lparr>errors := errors s @ [e]\<rparr>"

subsection \<open>Literals\<close>

definition digit_val :: "char \<Rightarrow> nat option" where
  "digit_val c = (if 48 \<le> (of_char c :: nat) \<and> (of_char c :: nat) \<le> 57 then Some (of_char c - 48) else None)"

fun digits_val :: "string \<Rightarrow> int \<Rightarrow> int option" where
  "digits_val [] acc = Some acc"
| "digits_val (c # cs) acc =
     (case digit_val c of None \<Rightarrow> None | Some d \<Rightarrow> digits_val cs (10 * acc + int d))"

text \<open>\<open>i64::from_str\<close>: an optional sign, at least one digit, and a value in range.\<close>

definition i64_from_str :: "string \<Rightarrow> i64 option" where
  "i64_from_str s =
     (let (neg, ds) = (case s of
          c # cs \<Rightarrow> if c = CHR ''-'' then (True, cs) else if c = CHR ''+'' then (False, cs) else (False, s)
        | [] \<Rightarrow> (False, s))
      in if ds = [] then None
         else (case digits_val ds 0 of
                 None \<Rightarrow> None
               | Some v \<Rightarrow>
                   (let i = (if neg then - v else v)
                    in if - (2 ^ 63) \<le> i \<and> i < 2 ^ 63 then Some (word_of_int i) else None)))"

subsection \<open>Expressions\<close>

record fns =
  f_expression :: "parser \<Rightarrow> expr pres"
  f_block_loop :: "expr list \<Rightarrow> parser \<Rightarrow> expr list pres"
  f_binary :: "nat \<Rightarrow> parser \<Rightarrow> expr pres"
  f_binary_loop :: "nat \<Rightarrow> expr \<Rightarrow> parser \<Rightarrow> expr pres"
  f_call_loop :: "expr \<Rightarrow> parser \<Rightarrow> expr pres"
  f_args_loop :: "expr list \<Rightarrow> parser \<Rightarrow> expr list pres"

definition primary :: "(string \<Rightarrow> f64 option) \<Rightarrow> fns \<Rightarrow> parser \<Rightarrow> expr pres" where
  "primary pf self s =
     (let k = kind (current s); (t, s') = advance s
      in if k = TK_False then POk (Expr (ELiteral (LBool False)) (start t)) s'
         else if k = TK_True then POk (Expr (ELiteral (LBool True)) (start t)) s'
         else if k = TK_String then POk (Expr (ELiteral (LString (lex t))) (start t)) s'
         else if k = TK_Int then
           (case i64_from_str (lex t) of
              None \<Rightarrow> PPanic UnwrapOnErr
            | Some i \<Rightarrow> POk (Expr (ELiteral (LInt i)) (start t)) s')
         else if k = TK_Float then
           (case pf (lex t) of
              None \<Rightarrow> PPanic UnwrapOnErr
            | Some f \<Rightarrow> POk (Expr (ELiteral (LFloat f)) (start t)) s')
         else if k = TK_Identifier then POk (Expr (EIdentifier t) (start t)) s'
         else if k = TK_LeftParen then
           pbind (f_expression self s') (\<lambda>e s.
           pbind (consume TK_RightParen s) (\<lambda>_ s. POk e s))
         else PErr (error_new (start (current s)) E101) s)"

definition args_loop :: "fns \<Rightarrow> expr list \<Rightarrow> parser \<Rightarrow> expr list pres" where
  "args_loop self args s =
     pbind (f_expression self s) (\<lambda>e s.
       (let (m, s) = matches TK_Comma s
        in if m then f_args_loop self (args @ [e]) s else POk (args @ [e]) s))"

definition call_loop :: "fns \<Rightarrow> expr \<Rightarrow> parser \<Rightarrow> expr pres" where
  "call_loop self e s =
     (if check TK_LeftParen s
      then (let (_, s) = advance s
            in pbind (if \<not> check TK_RightParen s then f_args_loop self [] s else POk [] s) (\<lambda>args s.
               pbind (consume TK_RightParen s) (\<lambda>_ s.
               f_call_loop self (Expr (ECall e args) (estart e)) s)))
      else POk e s)"

definition call :: "(string \<Rightarrow> f64 option) \<Rightarrow> fns \<Rightarrow> parser \<Rightarrow> expr pres" where
  "call pf self s = pbind (primary pf self s) (\<lambda>e s. f_call_loop self e s)"

definition unary :: "(string \<Rightarrow> f64 option) \<Rightarrow> fns \<Rightarrow> parser \<Rightarrow> expr pres" where
  "unary pf self s =
     (case prefix_binding_power (kind (current s)) of
        Some rbp \<Rightarrow>
          (let (op, s) = advance s
           in pbind (f_binary self rbp s) (\<lambda>right s. POk (Expr (EUnary op right) (start op)) s))
      | None \<Rightarrow> call pf self s)"

definition binary_loop :: "fns \<Rightarrow> nat \<Rightarrow> expr \<Rightarrow> parser \<Rightarrow> expr pres" where
  "binary_loop self minimum_binding_power e s =
     (case infix_binding_power (kind (current s)) of
        None \<Rightarrow> POk e s
      | Some (lbp, rbp) \<Rightarrow>
          (if lbp < minimum_binding_power then POk e s
           else (let (op, s) = advance s
                 in pbind (f_binary self rbp s) (\<lambda>right s.
                    f_binary_loop self minimum_binding_power
                      (Expr (EBinary e op right) (estart e)) s))))"

definition binary :: "(string \<Rightarrow> f64 option) \<Rightarrow> fns \<Rightarrow> nat \<Rightarrow> parser \<Rightarrow> expr pres" where
  "binary pf self minimum_binding_power s =
     pbind (unary pf self s) (\<lambda>e s. f_binary_loop self minimum_binding_power e s)"

definition while_stmt :: "fns \<Rightarrow> parser \<Rightarrow> expr pres" where
  "while_stmt self s =
     (let (t, s) = advance s
      in pbind (consume TK_LeftParen s) (\<lambda>_ s.
         pbind (f_expression self s) (\<lambda>cond s.
         pbind (consume TK_RightParen s) (\<lambda>_ s.
         pbind (f_expression self s) (\<lambda>body s.
         POk (Expr (EWhile cond body) (start t)) s)))))"

definition if_expr :: "fns \<Rightarrow> parser \<Rightarrow> expr pres" where
  "if_expr self s =
     (let (t, s) = advance s
      in pbind (consume TK_LeftParen s) (\<lambda>_ s.
         pbind (f_expression self s) (\<lambda>cond s.
         pbind (consume TK_RightParen s) (\<lambda>_ s.
         pbind (f_expression self s) (\<lambda>thn s.
         (let (m, s) = matches TK_Else s
          in if m
             then pbind (f_expression self s) (\<lambda>els s.
                  POk (Expr (EIf cond thn (Some els)) (start t)) s)
             else POk (Expr (EIf cond thn None) (start t)) s))))))"

definition var_decl :: "fns \<Rightarrow> parser \<Rightarrow> expr pres" where
  "var_decl self s =
     (let (t, s) = advance s; final = (kind t = TK_Val)
      in pbind (consume TK_Identifier s) (\<lambda>name s.
         pbind (consume TK_Equal s) (\<lambda>_ s.
         pbind (f_expression self s) (\<lambda>value s.
         POk (Expr (EVariable final name value) (start name)) s))))"

definition higher_expr :: "fns \<Rightarrow> parser \<Rightarrow> expr pres" where
  "higher_expr self s =
     (if check_any [TK_Var, TK_Val] s then var_decl self s else f_expression self s)"

definition block_loop :: "fns \<Rightarrow> expr list \<Rightarrow> parser \<Rightarrow> expr list pres" where
  "block_loop self exprs s =
     (if \<not> is_at_end s \<and> \<not> check TK_RightBrace s
      then pbind (higher_expr self s) (\<lambda>e s. f_block_loop self (exprs @ [e]) s)
      else POk exprs s)"

definition block :: "fns \<Rightarrow> parser \<Rightarrow> expr pres" where
  "block self s =
     (let (brace, s) = advance s
      in pbind (f_block_loop self [] s) (\<lambda>exprs s.
         pbind (consume TK_RightBrace s) (\<lambda>_ s.
         POk (Expr (EBlock exprs) (start brace)) s)))"

definition expression :: "(string \<Rightarrow> f64 option) \<Rightarrow> fns \<Rightarrow> parser \<Rightarrow> expr pres" where
  "expression pf self s =
     (if check TK_LeftBrace s then block self s
      else if check TK_If s then if_expr self s
      else if check TK_While s then while_stmt self s
      else binary pf self 0 s)"

text \<open>One unfolding of all recursive methods, and the knot.\<close>

definition unfold_fns :: "(string \<Rightarrow> f64 option) \<Rightarrow> fns \<Rightarrow> fns" where
  "unfold_fns pf self =
     \<lparr>f_expression = expression pf self,
      f_block_loop = block_loop self,
      f_binary = binary pf self,
      f_binary_loop = binary_loop self,
      f_call_loop = call_loop self,
      f_args_loop = args_loop self\<rparr>"

definition no_fuel :: fns where
  "no_fuel = \<lparr>f_expression = (\<lambda>_. PFuel), f_block_loop = (\<lambda>_ _. PFuel), f_binary = (\<lambda>_ _. PFuel),
     f_binary_loop = (\<lambda>_ _ _. PFuel), f_call_loop = (\<lambda>_ _. PFuel), f_args_loop = (\<lambda>_ _. PFuel)\<rparr>"

primrec fns_at :: "(string \<Rightarrow> f64 option) \<Rightarrow> nat \<Rightarrow> fns" where
  "fns_at pf 0 = no_fuel"
| "fns_at pf (Suc n) = unfold_fns pf (fns_at pf n)"

text \<open>The input left, counting the current token unless it is an \<open>Error\<close>: every \<open>advance\<close>
  that is not at the very end makes it smaller.\<close>

definition remaining :: "parser \<Rightarrow> nat" where
  "remaining s = 2 * length (lexer s) + (if kind (current s) = TK_Error then 0 else 1)"

definition expr_fuel :: "parser \<Rightarrow> nat" where
  "expr_fuel s = 2 * remaining s + 2"

definition self_fns :: "(string \<Rightarrow> f64 option) \<Rightarrow> fns" where
  "self_fns pf =
     \<lparr>f_expression = (\<lambda>s. f_expression (fns_at pf (expr_fuel s)) s),
      f_block_loop = (\<lambda>es s. f_block_loop (fns_at pf (expr_fuel s)) es s),
      f_binary = (\<lambda>m s. f_binary (fns_at pf (expr_fuel s)) m s),
      f_binary_loop = (\<lambda>m e s. f_binary_loop (fns_at pf (expr_fuel s)) m e s),
      f_call_loop = (\<lambda>e s. f_call_loop (fns_at pf (expr_fuel s)) e s),
      f_args_loop = (\<lambda>es s. f_args_loop (fns_at pf (expr_fuel s)) es s)\<rparr>"

subsection \<open>Consumption of input\<close>

lemma remaining_advance_less: "0 < remaining s \<Longrightarrow> remaining (snd (advance s)) < remaining s"
  by (auto simp: advance_def remaining_def lexer_next_def split: list.splits if_splits)

lemma remaining_advance_le: "remaining (snd (advance s)) \<le> remaining s"
  using remaining_advance_less [of s]
  by (cases "remaining s") (auto simp: advance_def remaining_def lexer_next_def split: list.splits if_splits)

lemma remaining_pos: "kind (current s) \<noteq> TK_Error \<Longrightarrow> 0 < remaining s"
  by (simp add: remaining_def)

lemma errors_advance [simp]: "errors (snd (advance s)) = errors s"
  by (auto simp: advance_def lexer_next_def split: list.splits)

lemma fst_advance [simp]: "fst (advance s) = current s"
  by (simp add: advance_def)

text \<open>Literals the scanner accepts but \<open>from_str\<close> does not (a width suffix, a value out of
  range) make \<open>primary\<close> panic; \<open>lits_ok\<close> says none is ahead.\<close>

definition lit_ok :: "(string \<Rightarrow> f64 option) \<Rightarrow> tkind \<Rightarrow> string \<Rightarrow> bool" where
  "lit_ok pf k l \<longleftrightarrow>
     (k = TK_Int \<longrightarrow> i64_from_str l \<noteq> None) \<and> (k = TK_Float \<longrightarrow> pf l \<noteq> None)"

definition lits_ok :: "(string \<Rightarrow> f64 option) \<Rightarrow> parser \<Rightarrow> bool" where
  "lits_ok pf s \<longleftrightarrow>
     lit_ok pf (kind (current s)) (lex (current s))
     \<and> list_all (\<lambda>i. lit_ok pf (li_kind i) (li_slice i)) (lexer s)"

lemma lits_ok_advance [simp]: "lits_ok pf s \<Longrightarrow> lits_ok pf (snd (advance s))"
  by (auto simp: lits_ok_def lit_ok_def advance_def lexer_next_def split: list.splits)

lemma bad_lit [simp]:
  "kind (current s) = TK_Int \<Longrightarrow> i64_from_str (lex (current s)) = None \<Longrightarrow> \<not> lits_ok pf s"
  "kind (current s) = TK_Float \<Longrightarrow> pf (lex (current s)) = None \<Longrightarrow> \<not> lits_ok pf s"
  by (simp_all add: lits_ok_def lit_ok_def)

text \<open>What a parsing step may do to the state: it never gives input back nor touches the
  collected errors, consumes input on success where \<open>strict\<close>, does not run out of fuel
  where \<open>enough\<close>, and panics only with a bad literal ahead.\<close>

definition step_ok :: "(string \<Rightarrow> f64 option) \<Rightarrow> bool \<Rightarrow> bool \<Rightarrow> parser \<Rightarrow> 'a pres \<Rightarrow> bool" where
  "step_ok pf enough strict s r =
     (case r of
        POk _ s' \<Rightarrow> errors s' = errors s \<and> remaining s' + (if strict then 1 else 0) \<le> remaining s
                     \<and> (lits_ok pf s \<longrightarrow> lits_ok pf s')
      | PErr _ s' \<Rightarrow> errors s' = errors s \<and> remaining s' \<le> remaining s \<and> (lits_ok pf s \<longrightarrow> lits_ok pf s')
      | PPanic _ \<Rightarrow> \<not> lits_ok pf s
      | PFuel \<Rightarrow> \<not> enough)"

lemma step_ok_simps [simp]:
  "step_ok pf b st s (POk x s') \<longleftrightarrow>
     errors s' = errors s \<and> remaining s' + (if st then 1 else 0) \<le> remaining s
     \<and> (lits_ok pf s \<longrightarrow> lits_ok pf s')"
  "step_ok pf b st s (PErr e s') \<longleftrightarrow>
     errors s' = errors s \<and> remaining s' \<le> remaining s \<and> (lits_ok pf s \<longrightarrow> lits_ok pf s')"
  "step_ok pf b st s (PPanic p) \<longleftrightarrow> \<not> lits_ok pf s"
  "step_ok pf b st s PFuel \<longleftrightarrow> \<not> b"
  by (simp_all add: step_ok_def)

lemma step_ok_weaken:
  "step_ok pf b' st' s r \<Longrightarrow> (b \<Longrightarrow> b') \<Longrightarrow> (st \<Longrightarrow> st') \<Longrightarrow> step_ok pf b st s r"
  by (cases r) (auto split: if_splits)

lemma step_ok_bind:
  assumes "step_ok pf b sa s m"
    and "\<And>x s'. errors s' = errors s \<Longrightarrow> remaining s' + (if sa then 1 else 0) \<le> remaining s
           \<Longrightarrow> step_ok pf b sb s' (f x s')"
    and "st \<Longrightarrow> sa \<or> sb"
  shows "step_ok pf b st s (pbind m f)"
proof (cases m)
  case (POk x s')
  with assms(1) have "step_ok pf b sb s' (f x s')" by (intro assms(2)) auto
  with POk assms(1,3) show ?thesis by (cases "f x s'") (auto split: if_splits)
qed (use assms(1) in auto)

lemma step_ok_seq [step_intros]:
  assumes "step_ok pf b True s m"
    and "\<And>x s'. errors s' = errors s \<Longrightarrow> remaining s' < remaining s \<Longrightarrow> step_ok pf b False s' (f x s')"
  shows "step_ok pf b st s (pbind m f)"
  by (rule step_ok_bind [OF assms(1), where sb = False]) (use assms(2) in auto)

lemma step_ok_seq_weak:
  assumes "step_ok pf b False s m"
    and "\<And>x s'. errors s' = errors s \<Longrightarrow> remaining s' \<le> remaining s \<Longrightarrow> step_ok pf b False s' (f x s')"
  shows "step_ok pf b False s (pbind m f)"
  by (rule step_ok_bind [OF assms(1), where sb = False]) (use assms(2) in auto)

lemma step_ok_consume [step_intros]: "k \<noteq> TK_Error \<Longrightarrow> step_ok pf b st s (consume k s)"
  using remaining_advance_less [of s] remaining_pos [of s]
  by (auto simp: consume_def check_def)

lemma step_ok_advance_lit:
  assumes "kind (current s) \<noteq> TK_Error"
    and "\<And>s'. s' = snd (advance s) \<Longrightarrow> errors s' = errors s \<Longrightarrow> remaining s' < remaining s
           \<Longrightarrow> step_ok pf b False s' (f (current s) s')
               \<or> (\<exists>p. f (current s) s' = PPanic p \<and> \<not> lits_ok pf s)"
  shows "step_ok pf b st s (case advance s of (t, s') \<Rightarrow> f t s')"
proof -
  have less: "remaining (snd (advance s)) < remaining s"
    using assms(1) by (intro remaining_advance_less remaining_pos)
  with assms(2) [of "snd (advance s)"]
  have "step_ok pf b False (snd (advance s)) (f (current s) (snd (advance s)))
        \<or> (\<exists>p. f (current s) (snd (advance s)) = PPanic p \<and> \<not> lits_ok pf s)"
    by simp
  with less show ?thesis
    by (cases "f (current s) (snd (advance s))") (auto simp: case_prod_beta split: if_splits)
qed

lemma step_ok_advance [step_intros]:
  assumes "kind (current s) \<noteq> TK_Error"
    and "\<And>s'. s' = snd (advance s) \<Longrightarrow> errors s' = errors s \<Longrightarrow> remaining s' < remaining s
           \<Longrightarrow> step_ok pf b False s' (f (current s) s')"
  shows "step_ok pf b st s (case advance s of (t, s') \<Rightarrow> f t s')"
  using assms by (intro step_ok_advance_lit) auto

lemma step_ok_matches [step_intros]:
  assumes "\<And>m s'. errors s' = errors s \<Longrightarrow> remaining s' \<le> remaining s \<Longrightarrow> step_ok pf b st s' (f m s')"
  shows "step_ok pf b st s (case matches k s of (m, s') \<Rightarrow> f m s')"
proof -
  obtain m s' where ms: "matches k s = (m, s')" by fastforce
  then have le: "errors s' = errors s \<and> remaining s' \<le> remaining s \<and> (lits_ok pf s \<longrightarrow> lits_ok pf s')"
    using remaining_advance_le [of s] by (auto simp: matches_def split: if_splits)
  then have "step_ok pf b st s' (f m s')" by (intro assms) auto
  with ms le show ?thesis by (cases "f m s'") (auto split: if_splits)
qed

definition fns_ok :: "(string \<Rightarrow> f64 option) \<Rightarrow> nat \<Rightarrow> fns \<Rightarrow> bool" where
  "fns_ok pf n self \<longleftrightarrow>
     (\<forall>s. step_ok pf (2 * remaining s < n) True s (f_expression self s))
   \<and> (\<forall>es s. step_ok pf (2 * remaining s + 1 < n) False s (f_block_loop self es s))
   \<and> (\<forall>m s. step_ok pf (2 * remaining s < n) True s (f_binary self m s))
   \<and> (\<forall>m e s. step_ok pf (2 * remaining s < n) False s (f_binary_loop self m e s))
   \<and> (\<forall>e s. step_ok pf (2 * remaining s < n) False s (f_call_loop self e s))
   \<and> (\<forall>es s. step_ok pf (2 * remaining s + 1 < n) True s (f_args_loop self es s))"

lemma fns_okD:
  assumes "fns_ok pf n self"
  shows "(b \<Longrightarrow> 2 * remaining s < n) \<Longrightarrow> step_ok pf b st s (f_expression self s)"
    and "(b \<Longrightarrow> 2 * remaining s + 1 < n) \<Longrightarrow> step_ok pf b False s (f_block_loop self es s)"
    and "(b \<Longrightarrow> 2 * remaining s < n) \<Longrightarrow> step_ok pf b st s (f_binary self m s)"
    and "(b \<Longrightarrow> 2 * remaining s < n) \<Longrightarrow> step_ok pf b False s (f_binary_loop self m e s)"
    and "(b \<Longrightarrow> 2 * remaining s < n) \<Longrightarrow> step_ok pf b False s (f_call_loop self e s)"
    and "(b \<Longrightarrow> 2 * remaining s + 1 < n) \<Longrightarrow> step_ok pf b st s (f_args_loop self es s)"
  using assms unfolding fns_ok_def by (blast intro: step_ok_weaken)+


lemma primary_ok:
  assumes "fns_ok pf n self"
  shows "step_ok pf (2 * remaining s < Suc n) True s (primary pf self s)"
proof (cases "kind (current s) \<in> {TK_False, TK_True, TK_String, TK_Int, TK_Float, TK_Identifier, TK_LeftParen}")
  case True
  then have "kind (current s) \<noteq> TK_Error" by auto
  with True show ?thesis
    unfolding primary_def Let_def
    by (intro step_ok_advance_lit)
      (auto intro!: step_ok_seq step_ok_consume fns_okD [OF assms] split: option.splits)
next
  case False
  then show ?thesis by (auto simp: primary_def case_prod_beta Let_def)
qed

lemma call_loop_ok:
  assumes "fns_ok pf n self"
  shows "step_ok pf (2 * remaining s < Suc n) False s (call_loop self e s)"
proof (cases "check TK_LeftParen s")
  case True
  then have "kind (current s) \<noteq> TK_Error" by (simp add: check_def)
  with True show ?thesis
    unfolding call_loop_def Let_def
    by (auto intro!: step_ok_advance step_ok_seq_weak step_ok_consume fns_okD [OF assms])
qed (simp add: call_loop_def)

lemma call_ok:
  assumes "fns_ok pf n self"
  shows "step_ok pf (2 * remaining s < Suc n) True s (call pf self s)"
  unfolding call_def by (auto intro!: step_intros primary_ok [OF assms] fns_okD [OF assms])

lemma unary_ok:
  assumes "fns_ok pf n self"
  shows "step_ok pf (2 * remaining s < Suc n) True s (unary pf self s)"
  unfolding unary_def
  by (auto split: option.splits dest: prefix_Some_not_Error
        intro!: step_intros call_ok [OF assms] fns_okD [OF assms])

lemma binary_ok:
  assumes "fns_ok pf n self"
  shows "step_ok pf (2 * remaining s < Suc n) True s (binary pf self m s)"
  unfolding binary_def by (auto intro!: step_intros unary_ok [OF assms] fns_okD [OF assms])

lemma binary_loop_ok:
  assumes "fns_ok pf n self"
  shows "step_ok pf (2 * remaining s < Suc n) False s (binary_loop self m e s)"
  unfolding binary_loop_def
  by (auto split: option.splits dest: infix_Some_not_Error intro!: step_intros fns_okD [OF assms])

lemma args_loop_ok:
  assumes "fns_ok pf n self"
  shows "step_ok pf (2 * remaining s + 1 < Suc n) True s (args_loop self es s)"
  unfolding args_loop_def Let_def by (auto intro!: step_intros fns_okD [OF assms])

lemma while_stmt_ok:
  assumes "fns_ok pf n self" and "kind (current s) \<noteq> TK_Error"
  shows "step_ok pf (2 * remaining s < Suc n) True s (while_stmt self s)"
  unfolding while_stmt_def Let_def
  using assms(2) by (auto intro!: step_intros fns_okD [OF assms(1)])

lemma if_expr_ok:
  assumes "fns_ok pf n self" and "kind (current s) \<noteq> TK_Error"
  shows "step_ok pf (2 * remaining s < Suc n) True s (if_expr self s)"
  unfolding if_expr_def Let_def
  using assms(2) by (auto intro!: step_intros fns_okD [OF assms(1)])

lemma var_decl_ok:
  assumes "fns_ok pf n self" and "kind (current s) \<noteq> TK_Error"
  shows "step_ok pf (2 * remaining s < Suc n) True s (var_decl self s)"
  unfolding var_decl_def Let_def
  using assms(2) by (auto intro!: step_intros fns_okD [OF assms(1)])

lemma higher_expr_ok:
  assumes "fns_ok pf n self"
  shows "step_ok pf (2 * remaining s + 1 < Suc n) True s (higher_expr self s)"
proof (cases "check_any [TK_Var, TK_Val] s")
  case True
  then have "kind (current s) \<noteq> TK_Error" by (auto simp: check_any_def check_def)
  with True show ?thesis
    unfolding higher_expr_def by (auto intro!: step_ok_weaken [OF var_decl_ok [OF assms]])
next
  case False
  then show ?thesis unfolding higher_expr_def by (auto intro!: fns_okD [OF assms])
qed

lemma block_loop_ok:
  assumes "fns_ok pf n self"
  shows "step_ok pf (2 * remaining s + 1 < Suc n) False s (block_loop self es s)"
  unfolding block_loop_def
  by (auto intro!: step_intros step_ok_weaken [OF higher_expr_ok [OF assms]] fns_okD [OF assms])

lemma block_ok:
  assumes "fns_ok pf n self" and "kind (current s) \<noteq> TK_Error"
  shows "step_ok pf (2 * remaining s < Suc n) True s (block self s)"
  unfolding block_def Let_def
  using assms(2) by (auto intro!: step_ok_advance step_ok_seq_weak step_ok_consume fns_okD [OF assms(1)])

lemma expression_ok:
  assumes "fns_ok pf n self"
  shows "step_ok pf (2 * remaining s < Suc n) True s (expression pf self s)"
  unfolding expression_def
  by (auto simp: check_def intro!: block_ok [OF assms] if_expr_ok [OF assms] while_stmt_ok [OF assms] binary_ok [OF assms])

lemma unfold_fns_ok: "fns_ok pf n self \<Longrightarrow> fns_ok pf (Suc n) (unfold_fns pf self)"
  unfolding fns_ok_def [of pf "Suc n"] unfold_fns_def
  by (auto intro: step_ok_weaken expression_ok block_loop_ok binary_ok binary_loop_ok call_loop_ok args_loop_ok)

lemma fns_at_ok: "fns_ok pf n (fns_at pf n)"
proof (induction n)
  case 0
  show ?case by (simp add: fns_ok_def no_fuel_def)
qed (simp add: unfold_fns_ok)

subsection \<open>More fuel changes no result\<close>

definition le_res :: "'a pres \<Rightarrow> 'a pres \<Rightarrow> bool" where
  "le_res r r' \<longleftrightarrow> r = PFuel \<or> r' = r"

lemma le_res_refl [le_intros]: "le_res r r"
  by (simp add: le_res_def)

lemma le_res_bind [le_intros]:
  "le_res m m' \<Longrightarrow> (\<And>x s. le_res (f x s) (f' x s)) \<Longrightarrow> le_res (pbind m f) (pbind m' f')"
  by (cases m) (auto simp: le_res_def)

lemma le_res_trans: "le_res a b \<Longrightarrow> le_res b c \<Longrightarrow> le_res a c"
  by (auto simp: le_res_def)

lemma le_res_prod [le_intros]:
  "(\<And>t s. le_res (f t s) (g t s)) \<Longrightarrow> le_res (case p of (t, s) \<Rightarrow> f t s) (case p of (t, s) \<Rightarrow> g t s)"
  by (cases p) simp

definition fns_le :: "fns \<Rightarrow> fns \<Rightarrow> bool" where
  "fns_le a b \<longleftrightarrow>
     (\<forall>s. le_res (f_expression a s) (f_expression b s))
   \<and> (\<forall>es s. le_res (f_block_loop a es s) (f_block_loop b es s))
   \<and> (\<forall>m s. le_res (f_binary a m s) (f_binary b m s))
   \<and> (\<forall>m e s. le_res (f_binary_loop a m e s) (f_binary_loop b m e s))
   \<and> (\<forall>e s. le_res (f_call_loop a e s) (f_call_loop b e s))
   \<and> (\<forall>es s. le_res (f_args_loop a es s) (f_args_loop b es s))"

lemma fns_leD [le_intros]:
  assumes "fns_le a b"
  shows "le_res (f_expression a s) (f_expression b s)"
    and "le_res (f_block_loop a es s) (f_block_loop b es s)"
    and "le_res (f_binary a m s) (f_binary b m s)"
    and "le_res (f_binary_loop a m e s) (f_binary_loop b m e s)"
    and "le_res (f_call_loop a e s) (f_call_loop b e s)"
    and "le_res (f_args_loop a es s) (f_args_loop b es s)"
  using assms by (simp_all add: fns_le_def)

lemma unfold_fns_mono:
  assumes "fns_le a b"
  shows "fns_le (unfold_fns pf a) (unfold_fns pf b)"
proof -
  note le = le_intros fns_leD [OF assms]
  have prim: "le_res (primary pf a s) (primary pf b s)" for s
    unfolding primary_def Let_def by (auto split: option.splits intro!: le)
  have un: "le_res (unary pf a s) (unary pf b s)" for s
    unfolding unary_def call_def Let_def by (auto split: option.splits intro!: le prim)
  have bin: "le_res (binary pf a m s) (binary pf b m s)" for m s
    unfolding binary_def by (auto intro!: le un)
  have bl: "le_res (binary_loop a m e s) (binary_loop b m e s)" for m e s
    unfolding binary_loop_def Let_def by (auto split: option.splits intro!: le)
  have cl: "le_res (call_loop a e s) (call_loop b e s)" for e s
    unfolding call_loop_def Let_def by (auto intro!: le)
  have al: "le_res (args_loop a es s) (args_loop b es s)" for es s
    unfolding args_loop_def Let_def by (auto intro!: le)
  have blk: "le_res (block_loop a es s) (block_loop b es s)" for es s
    unfolding block_loop_def higher_expr_def var_decl_def Let_def by (auto intro!: le)
  have ex: "le_res (expression pf a s) (expression pf b s)" for s
    unfolding expression_def block_def if_expr_def while_stmt_def Let_def by (auto intro!: le bin)
  show ?thesis
    unfolding fns_le_def unfold_fns_def by (auto intro: ex blk bin bl cl al)
qed

lemma fns_at_mono: "n \<le> m \<Longrightarrow> fns_le (fns_at pf n) (fns_at pf m)"
proof (induction n arbitrary: m)
  case 0
  show ?case by (simp add: fns_le_def no_fuel_def le_res_def)
next
  case (Suc n)
  then obtain m' where "m = Suc m'" "n \<le> m'" by (cases m) auto
  with Suc.IH show ?case by (simp add: unfold_fns_mono)
qed

lemma step_ok_enough: "step_ok pf True st s r \<Longrightarrow> r \<noteq> PFuel"
  by auto

lemma fns_at_enough:
  assumes "2 * remaining s + 1 < k"
  shows "f_expression (fns_at pf k) s \<noteq> PFuel"
    and "f_block_loop (fns_at pf k) es s \<noteq> PFuel"
    and "f_binary (fns_at pf k) m s \<noteq> PFuel"
    and "f_binary_loop (fns_at pf k) m e s \<noteq> PFuel"
    and "f_call_loop (fns_at pf k) e s \<noteq> PFuel"
    and "f_args_loop (fns_at pf k) es s \<noteq> PFuel"
  using assms by (auto intro!: step_ok_enough fns_okD [OF fns_at_ok])

lemma fns_at_stable:
  assumes mono: "\<And>a b. fns_le a b \<Longrightarrow> le_res (g a) (g b)"
    and enough: "\<And>k. 2 * remaining s + 1 < k \<Longrightarrow> g (fns_at pf k) \<noteq> PFuel"
  shows "le_res (g (fns_at pf n)) (g (fns_at pf (expr_fuel s)))"
proof (cases "n \<le> expr_fuel s")
  case True
  then show ?thesis by (intro mono fns_at_mono)
next
  case False
  then have "le_res (g (fns_at pf (expr_fuel s))) (g (fns_at pf n))"
    by (intro mono fns_at_mono) simp
  moreover have "g (fns_at pf (expr_fuel s)) \<noteq> PFuel"
    by (rule enough) (simp add: expr_fuel_def)
  ultimately show ?thesis by (auto simp: le_res_def)
qed

lemma fns_at_le_self: "fns_le (fns_at pf n) (self_fns pf)"
  unfolding fns_le_def self_fns_def fns.simps
  by (intro conjI allI fns_at_stable fns_leD fns_at_enough)

lemma le_res_eq: "le_res a b \<Longrightarrow> a \<noteq> PFuel \<Longrightarrow> b = a"
  by (simp add: le_res_def)

lemma self_fns_unique:
  assumes le: "\<And>n. fns_le (fns_at pf n) F"
  shows "F = self_fns pf"
proof -
  have big: "2 * remaining s + 1 < expr_fuel s" for s by (simp add: expr_fuel_def)
  note eqs = le_res_eq [OF fns_leD(1) [OF le] fns_at_enough(1) [OF big]]
    le_res_eq [OF fns_leD(2) [OF le] fns_at_enough(2) [OF big]]
    le_res_eq [OF fns_leD(3) [OF le] fns_at_enough(3) [OF big]]
    le_res_eq [OF fns_leD(4) [OF le] fns_at_enough(4) [OF big]]
    le_res_eq [OF fns_leD(5) [OF le] fns_at_enough(5) [OF big]]
    le_res_eq [OF fns_leD(6) [OF le] fns_at_enough(6) [OF big]]
  show ?thesis
    by (intro fns.equality ext) (simp_all add: self_fns_def eqs)
qed

lemma no_fuel_le: "fns_le no_fuel F"
  by (simp add: fns_le_def no_fuel_def le_res_def)

lemma self_fns_fixed_point: "unfold_fns pf (self_fns pf) = self_fns pf"
proof (rule self_fns_unique)
  show "fns_le (fns_at pf n) (unfold_fns pf (self_fns pf))" for n
    by (cases n) (simp_all add: no_fuel_le unfold_fns_mono fns_at_le_self)
qed

lemma self_fns_eqs:
  "f_expression (self_fns pf) = expression pf (self_fns pf)"
  "f_block_loop (self_fns pf) = block_loop (self_fns pf)"
  "f_binary (self_fns pf) = binary pf (self_fns pf)"
  "f_binary_loop (self_fns pf) = binary_loop (self_fns pf)"
  "f_call_loop (self_fns pf) = call_loop (self_fns pf)"
  "f_args_loop (self_fns pf) = args_loop (self_fns pf)"
  using self_fns_fixed_point [of pf] by (simp_all add: unfold_fns_def) (metis fns.select_convs)+

lemma self_fns_ok: "fns_ok pf n (self_fns pf)"
  unfolding fns_ok_def self_fns_def fns.simps
  by (intro conjI allI fns_okD [OF fns_at_ok]) (simp_all add: expr_fuel_def)

end
