(* ===== verification/ParserDecl.thy ===== *)
theory ParserDecl
  imports Parser
begin

section \<open>Declarations and modules (lang/src/parser/mod.rs)\<close>

text \<open>
  The loops above the expression level: parameters, functions, members, classes, the module
  loop with its error recovery, and \<open>Parser::new\<close>. They terminate because every
  iteration consumes input, so they need no fuel.
\<close>

lemma pbind_cong [fundef_cong]:
  "m = m' \<Longrightarrow> (\<And>x s. m' = POk x s \<Longrightarrow> f x s = f' x s) \<Longrightarrow> pbind m f = pbind m' f'"
  by (cases m') auto

lemma consume_less: "consume k s = POk t s' \<Longrightarrow> k \<noteq> TK_Error \<Longrightarrow> remaining s' < remaining s"
  using step_ok_consume [where pf = "\<lambda>_. None" and k = k and b = True and st = True and s = s] by auto

lemma step_ok_typ [step_intros]: "step_ok pf b st s (parse_typ s)"
  unfolding parse_typ_def by (auto intro!: step_intros)

lemma parse_typ_less: "parse_typ s = POk t s' \<Longrightarrow> remaining s' < remaining s"
  using step_ok_typ [where pf = "\<lambda>_. None" and b = True and st = True and s = s] by auto

lemma matches_le: "(m, s') = matches k s \<Longrightarrow> remaining s' \<le> remaining s"
  using remaining_advance_le [of s] by (auto simp: matches_def split: if_splits)

function params_loop :: "parameter list \<Rightarrow> parser \<Rightarrow> parameter list pres" where
  "params_loop params s =
     pbind (consume TK_Identifier s) (\<lambda>name s.
     pbind (consume TK_Colon s) (\<lambda>_ s.
     pbind (parse_typ s) (\<lambda>ty s.
       (let params = params @ [\<lparr>par_name = lex name, par_ty = ty\<rparr>];
            (m, s) = matches TK_Comma s
        in if m then params_loop params s else POk params s))))"
  by pat_completeness auto
termination
  by (relation "measure (\<lambda>(params, s). remaining s)")
    (auto dest!: consume_less parse_typ_less matches_le)

declare params_loop.simps [simp del]

definition parse_function :: "(string \<Rightarrow> f64 option) \<Rightarrow> bool \<Rightarrow> parser \<Rightarrow> ast_function pres" where
  "parse_function pf is_ext s =
     pbind (consume TK_Identifier s) (\<lambda>name s.
     pbind (consume TK_LeftParen s) (\<lambda>_ s.
     pbind (if \<not> check TK_RightParen s then params_loop [] s else POk [] s) (\<lambda>params s.
     pbind (consume TK_RightParen s) (\<lambda>_ s.
     pbind (let (m, s) = matches TK_Arrow s
            in if m then pbind (parse_typ s) (\<lambda>ty s. POk (Some ty) s) else POk None s) (\<lambda>ret_type s.
     pbind (if \<not> is_ext then pbind (f_expression (self_fns pf) s) (\<lambda>body s. POk (Some body) s)
            else POk None s) (\<lambda>body s.
     POk \<lparr>fn_name = name, fn_params = params, fn_ret_type = ret_type, fn_body = body\<rparr> s))))))"

definition parse_member :: "bool \<Rightarrow> parser \<Rightarrow> member pres" where
  "parse_member mutable s =
     pbind (consume TK_Identifier s) (\<lambda>name s.
     pbind (consume TK_Colon s) (\<lambda>_ s.
     pbind (parse_typ s) (\<lambda>ty s.
     POk \<lparr>mem_name = name, mem_ty = ty, mem_mutable = mutable\<rparr> s)))"

lemma params_loop_ok: "step_ok pf b st s (params_loop ps s)"
proof (induction s arbitrary: ps st rule: measure_induct_rule [of remaining])
  case (less s)
  show ?case
    by (subst params_loop.simps) (auto simp: Let_def intro!: step_intros less)
qed

lemma self_expression_ok: "step_ok pf b st s (f_expression (self_fns pf) s)"
  using self_fns_ok [of pf "2 * remaining s + 1"] fns_okD(1) by auto

lemma parse_function_ok: "step_ok pf b st s (parse_function pf is_ext s)"
  unfolding parse_function_def Let_def
  by (rule step_ok_seq)
    (auto intro!: step_ok_seq_weak step_ok_consume step_ok_matches step_ok_typ
      params_loop_ok self_expression_ok)

lemma parse_member_ok: "step_ok pf b st s (parse_member mutable s)"
  unfolding parse_member_def by (auto intro!: step_intros)

lemma parse_function_le: "parse_function pf e s = POk f s' \<Longrightarrow> remaining s' \<le> remaining s"
  using parse_function_ok [where b = True and st = False and s = s and pf = pf and is_ext = e] by auto

lemma parse_member_le: "parse_member m s = POk f s' \<Longrightarrow> remaining s' \<le> remaining s"
  using parse_member_ok [where b = True and st = False and s = s and mutable = m] by auto

lemma advance_less: "(t, s') = advance s \<Longrightarrow> kind t \<noteq> TK_Error \<Longrightarrow> remaining s' < remaining s"
  by (metis fst_advance fst_conv remaining_advance_less remaining_pos snd_conv)

lemma advance_not_end_less: "(t, s') = advance s \<Longrightarrow> \<not> is_at_end s \<Longrightarrow> remaining s' < remaining s"
  by (metis is_at_end_def remaining_advance_less remaining_pos snd_conv)

function class_loop ::
  "(string \<Rightarrow> f64 option) \<Rightarrow> member list \<Rightarrow> ast_function list \<Rightarrow> ast_function list \<Rightarrow> parser
   \<Rightarrow> (member list \<times> ast_function list \<times> ast_function list) pres" where
  "class_loop pf members methods functions s =
     (if check TK_RightBrace s then POk (members, methods, functions) s
      else
        (let (t, s1) = advance s
         in if kind t = TK_Val then
              pbind (parse_member False s1) (\<lambda>m s2. class_loop pf (members @ [m]) methods functions s2)
            else if kind t = TK_Var then
              pbind (parse_member True s1) (\<lambda>m s2. class_loop pf (members @ [m]) methods functions s2)
            else if kind t = TK_Fun then
              pbind (parse_function pf False s1) (\<lambda>f s2. class_loop pf members (methods @ [f]) functions s2)
            else if kind t = TK_Static then
              (let (m, s2) = matches TK_Fun s1
               in if m then
                    pbind (parse_function pf False s2) (\<lambda>f s3. class_loop pf members methods (functions @ [f]) s3)
                  else PErr (error_new (start (current s2)) E102) s2)
            else PErr (error_new (start (current s1)) E102) s1))"
  by pat_completeness auto
termination
  by (relation "measure (\<lambda>(pf, ms, mt, fs, s). remaining s)")
    (auto dest!: parse_member_le parse_function_le matches_le advance_less)

declare class_loop.simps [simp del]

definition parse_class :: "(string \<Rightarrow> f64 option) \<Rightarrow> parser \<Rightarrow> ast_class pres" where
  "parse_class pf s =
     pbind (consume TK_Identifier s) (\<lambda>name s.
     pbind (consume TK_LeftBrace s) (\<lambda>_ s.
     pbind (class_loop pf [] [] [] s) (\<lambda>(members, methods, functions) s.
     pbind (consume TK_RightBrace s) (\<lambda>_ s.
     POk \<lparr>cls_name = name, cls_members = members, cls_methods = methods, cls_functions = functions\<rparr> s))))"

function synchronize :: "parser \<Rightarrow> parser" where
  "synchronize s =
     (if is_at_end s then s
      else (let (t, s1) = advance s in if kind t = TK_Fun then s1 else synchronize s1))"
  by pat_completeness auto
termination
  by (relation "measure remaining") (auto dest: advance_not_end_less)

declare synchronize.simps [simp del]

definition make_cls :: "(string \<Rightarrow> f64 option) \<Rightarrow> ast_class list \<Rightarrow> parser \<Rightarrow> ast_class list pres" where
  "make_cls pf cls s =
     (case parse_class pf s of
        POk c s \<Rightarrow> POk (cls @ [c]) s
      | PErr e s \<Rightarrow> POk cls (synchronize (push_error e s))
      | PPanic p \<Rightarrow> PPanic p
      | PFuel \<Rightarrow> PFuel)"

definition make_fn :: "(string \<Rightarrow> f64 option) \<Rightarrow> ast_function list \<Rightarrow> bool \<Rightarrow> parser \<Rightarrow> ast_function list pres" where
  "make_fn pf functions is_ext s =
     (case parse_function pf is_ext s of
        POk f s \<Rightarrow> POk (functions @ [f]) s
      | PErr e s \<Rightarrow> POk functions (synchronize (push_error e s))
      | PPanic p \<Rightarrow> PPanic p
      | PFuel \<Rightarrow> PFuel)"

lemma class_loop_ok: "step_ok pf b False s (class_loop pf ms mt fs s)"
proof (induction s arbitrary: ms mt fs rule: measure_induct_rule [of remaining])
  case (less s)
  have *: "step_ok pf b False s1 (pbind m (\<lambda>x s2. class_loop pf (f1 x) (f2 x) (f3 x) s2))"
    if "step_ok pf b False s1 m" "remaining s1 < remaining s" for m :: "'x pres" and s1 f1 f2 f3
    using that by (intro step_ok_seq_weak less) auto
  show ?case
  proof (cases "check TK_RightBrace s \<or> is_at_end s")
    case True
    then show ?thesis
      using remaining_advance_le [of s]
      by (subst class_loop.simps) (auto simp: is_at_end_def case_prod_beta Let_def)
  next
    case False
    then show ?thesis
      by (subst class_loop.simps)
        (auto simp: is_at_end_def Let_def intro!: step_ok_advance step_ok_matches *
          parse_member_ok parse_function_ok)
  qed
qed

lemma parse_class_ok: "step_ok pf b st s (parse_class pf s)"
  unfolding parse_class_def
  by (rule step_ok_seq) (auto intro!: step_ok_seq_weak step_ok_consume class_loop_ok)

lemma advance_end_less: "\<not> is_at_end s \<Longrightarrow> remaining (snd (advance s)) < remaining s"
  by (metis advance_not_end_less prod.collapse)

lemma synchronize_step:
  "synchronize s =
     (if is_at_end s then s
      else if kind (current s) = TK_Fun then snd (advance s) else synchronize (snd (advance s)))"
  by (subst synchronize.simps) (simp add: case_prod_beta Let_def)

lemma synchronize_keeps:
  "remaining (synchronize s) \<le> remaining s \<and> errors (synchronize s) = errors s
   \<and> (lits_ok pf s \<longrightarrow> lits_ok pf (synchronize s))"
proof (induction s rule: measure_induct_rule [of remaining])
  case (less s)
  show ?case
  proof (cases "is_at_end s")
    case True
    then show ?thesis by (simp add: synchronize_step)
  next
    case False
    then have "remaining (snd (advance s)) < remaining s" by (rule advance_end_less)
    with less.IH [OF this] False show ?thesis by (simp add: synchronize_step [of s])
  qed
qed

lemma push_error_simps [simp]:
  "remaining (push_error e s) = remaining s" "errors (push_error e s) = errors s @ [e]"
  "lits_ok pf (push_error e s) = lits_ok pf s" "is_at_end (push_error e s) = is_at_end s"
  by (simp_all add: push_error_def remaining_def lits_ok_def is_at_end_def)

text \<open>A declaration either adds a result or records an error and resumes: errors only grow,
  input only shrinks, and nothing but a bad literal panics.\<close>

definition decl_ok :: "(string \<Rightarrow> f64 option) \<Rightarrow> parser \<Rightarrow> 'a pres \<Rightarrow> bool" where
  "decl_ok pf s r =
     (case r of
        POk _ s' \<Rightarrow> remaining s' \<le> remaining s \<and> (lits_ok pf s \<longrightarrow> lits_ok pf s') \<and> (\<exists>es. errors s' = errors s @ es)
      | PErr _ _ \<Rightarrow> False
      | PPanic _ \<Rightarrow> \<not> lits_ok pf s
      | PFuel \<Rightarrow> False)"

lemma decl_ok_recover:
  assumes "step_ok pf True False s r"
  shows "decl_ok pf s (case r of POk x s \<Rightarrow> POk (f x) s
           | PErr e s \<Rightarrow> POk d (synchronize (push_error e s)) | PPanic p \<Rightarrow> PPanic p | PFuel \<Rightarrow> PFuel)"
proof (cases r)
  case (PErr e s')
  with assms synchronize_keeps [of "push_error e s'" pf] show ?thesis
    by (auto simp: decl_ok_def)
qed (use assms in \<open>auto simp: decl_ok_def\<close>)

lemma make_cls_ok: "decl_ok pf s (make_cls pf cs s)"
  unfolding make_cls_def by (rule decl_ok_recover [OF parse_class_ok])

lemma make_fn_ok: "decl_ok pf s (make_fn pf fs is_ext s)"
  unfolding make_fn_def by (rule decl_ok_recover [OF parse_function_ok])

lemma make_cls_le: "make_cls pf cs s = POk cs' s' \<Longrightarrow> remaining s' \<le> remaining s"
  using make_cls_ok [of pf s cs] by (simp add: decl_ok_def)

lemma make_fn_le: "make_fn pf fs e s = POk fs' s' \<Longrightarrow> remaining s' \<le> remaining s"
  using make_fn_ok [of pf s fs e] by (simp add: decl_ok_def)

function parse_loop ::
  "(string \<Rightarrow> f64 option) \<Rightarrow> ast_function list \<Rightarrow> ast_class list \<Rightarrow> parser
   \<Rightarrow> (ast_function list \<times> ast_class list) pres" where
  "parse_loop pf functions classes s =
     (if is_at_end s then POk (functions, classes) s
      else
        (let (t, s1) = advance s; (m, s2) = (if kind t = TK_Extern then matches TK_Fun s1 else (False, s1))
         in if kind t = TK_Class then
              pbind (make_cls pf classes s1) (\<lambda>classes s3. parse_loop pf functions classes s3)
            else if kind t = TK_Fun then
              pbind (make_fn pf functions False s1) (\<lambda>functions s3. parse_loop pf functions classes s3)
            else if m then
              pbind (make_fn pf functions True s2) (\<lambda>functions s3. parse_loop pf functions classes s3)
            else
              parse_loop pf functions classes
                (synchronize (push_error (error_new (start (current s2)) E102) s2))))"
  by pat_completeness auto
termination
  by (relation "measure (\<lambda>(pf, fs, cs, s). remaining s)")
    (auto dest!: make_cls_le make_fn_le advance_not_end_less matches_le split: if_splits
      intro!: le_less_trans [OF synchronize_keeps [THEN conjunct1]])

declare parse_loop.simps [simp del]

definition parser_new :: "logos_lexer \<Rightarrow> parser outcome" where
  "parser_new l =
     (case lexer_next l of
        None \<Rightarrow> Panic UnwrapOnNone
      | Some (t, l) \<Rightarrow> Ret \<lparr>lexer = l, current = t, errors = []\<rparr>)"

definition parse :: "(string \<Rightarrow> f64 option) \<Rightarrow> string list \<Rightarrow> parser \<Rightarrow> (error list + ast_module) pres" where
  "parse pf path s =
     pbind (parse_loop pf [] [] s) (\<lambda>(functions, classes) s.
       if errors s = []
       then POk (Inr \<lparr>mod_path = path, mod_functions = functions, mod_classes = classes\<rparr>) s
       else POk (Inl (errors s)) s)"

subsection \<open>The module loop always finishes\<close>

lemma decl_ok_bind:
  assumes "decl_ok pf s m"
    and "\<And>x s'. remaining s' \<le> remaining s \<Longrightarrow> decl_ok pf s' (f x s')"
  shows "decl_ok pf s (pbind m f)"
proof (cases m)
  case (POk x s')
  with assms have "decl_ok pf s' (f x s')" by (auto simp: decl_ok_def)
  with POk assms(1) show ?thesis by (cases "f x s'") (auto simp: decl_ok_def)
qed (use assms(1) in \<open>auto simp: decl_ok_def\<close>)

lemma decl_ok_after:
  assumes "decl_ok pf s' r" and "remaining s' \<le> remaining s" and "lits_ok pf s \<longrightarrow> lits_ok pf s'"
    and "\<exists>es. errors s' = errors s @ es"
  shows "decl_ok pf s r"
  using assms by (cases r) (auto simp: decl_ok_def)

lemma parse_loop_step:
  "parse_loop pf fs cs s =
     (if is_at_end s then POk (fs, cs) s
      else
        (let s1 = snd (advance s); k = kind (current s)
         in if k = TK_Class then pbind (make_cls pf cs s1) (\<lambda>cs s. parse_loop pf fs cs s)
            else if k = TK_Fun then pbind (make_fn pf fs False s1) (\<lambda>fs s. parse_loop pf fs cs s)
            else if k = TK_Extern \<and> check TK_Fun s1
            then pbind (make_fn pf fs True (snd (advance s1))) (\<lambda>fs s. parse_loop pf fs cs s)
            else parse_loop pf fs cs (synchronize (push_error (error_new (start (current s1)) E102) s1))))"
  by (subst parse_loop.simps) (auto simp: case_prod_beta Let_def matches_def)

lemma parse_loop_ok: "decl_ok pf s (parse_loop pf fs cs s)"
proof (induction s arbitrary: fs cs rule: measure_induct_rule [of remaining])
  case (less s)
  show ?case
  proof (cases "is_at_end s")
    case True
    then show ?thesis by (simp add: parse_loop_step decl_ok_def)
  next
    case False
    let ?s1 = "snd (advance s)" and ?s2 = "snd (advance (snd (advance s)))"
    let ?s3 = "synchronize (push_error (error_new (start (current ?s1)) E102) ?s1)"
    have lt: "remaining ?s1 < remaining s" using False by (rule advance_end_less)
    have lt2: "remaining ?s2 < remaining s" using lt remaining_advance_le [of ?s1] by simp
    have rec: "decl_ok pf s' (pbind m (\<lambda>x s. parse_loop pf (f x) (g x) s))"
      if "decl_ok pf s' m" "remaining s' < remaining s" for s' f g and m :: "'x pres"
      using that by (intro decl_ok_bind less.IH) auto
    have s3: "remaining ?s3 < remaining s" "lits_ok pf s \<longrightarrow> lits_ok pf ?s3" "\<exists>es. errors ?s3 = errors s @ es"
      using lt synchronize_keeps [of "push_error (error_new (start (current ?s1)) E102) ?s1" pf] by auto
    show ?thesis
      using False lt lt2 s3 less.IH [OF s3(1)]
      by (subst parse_loop_step)
        (auto simp: Let_def intro: decl_ok_after [OF rec [OF make_cls_ok]] decl_ok_after [OF rec [OF make_fn_ok]]
          decl_ok_after [of pf ?s3])
  qed
qed

lemma pbind_POk_iff: "pbind m f = POk r s' \<longleftrightarrow> (\<exists>x t. m = POk x t \<and> f x t = POk r s')"
  by (cases m) auto

lemma parse_loop_at_end: "parse_loop pf fs cs s = POk r s' \<Longrightarrow> is_at_end s'"
proof (induction s arbitrary: fs cs rule: measure_induct_rule [of remaining])
  case (less s)
  show ?case
  proof (cases "is_at_end s")
    case True
    with less.prems show ?thesis by (simp add: parse_loop_step)
  next
    case False
    let ?s1 = "snd (advance s)"
    let ?e = "push_error (error_new (start (current ?s1)) E102) ?s1"
    have lt: "remaining ?s1 < remaining s" using False by (rule advance_end_less)
    then have lt2: "remaining (snd (advance ?s1)) < remaining s" "remaining (synchronize ?e) < remaining s"
      using remaining_advance_le [of ?s1] synchronize_keeps [of ?e "\<lambda>_. None"] by auto
    obtain fs' cs' t where t: "parse_loop pf fs' cs' t = POk r s'" "remaining t < remaining s"
      using less.prems False lt lt2
      by (subst (asm) parse_loop_step)
        (auto simp: Let_def pbind_POk_iff split: if_splits dest!: make_cls_le make_fn_le)
    then show ?thesis using less.IH by blast
  qed
qed

end
