(* ===== verification/Run.thy ===== *)
theory Run
  imports Vm Shell ParserDecl
begin

section \<open>From files to a run (lang/src/lib.rs, filesystem.rs, kernel/src/drivers/disk)\<close>

text \<open>
  The entry points of the language, and the two file systems the language walks: the one of the
  host and the FAT file system of the kernel. A tree describes what the file system answers: for
  the host, the entries of each directory and the text of each file; for FAT, what iterating over
  a directory yields (a subdirectory starts with \<open>.\<close> and \<open>..\<close>, the root does not) and what the
  calls on a file return. The scanner (logos) is the parameter \<open>scan\<close>, reading a float \<open>pf\<close>.

  A callback is a function on the state its closure captures.
\<close>

record yfile =
  yf_path :: "string list"
  yf_contents :: ustring

subsection \<open>Walking the host's files (filesystem.rs)\<close>

datatype os_entry = OsDir string "os_entry option list" | OsFile string "ustring option"

text \<open>\<open>Path::file_stem\<close> and \<open>Path::extension\<close> of a file name: split at the last dot, unless the
  name starts with its only dot.\<close>

definition split_name :: "string \<Rightarrow> (string \<times> string option) option" where
  "split_name name =
     (if name = [] \<or> name = ''.'' \<or> name = ''..'' then None
      else let after = rev (takeWhile (\<lambda>c. c \<noteq> CHR ''.'') (rev name));
               before = take (length name - length after - 1) name
           in if after = name \<or> before = [] then Some (name, None) else Some (before, Some after))"

definition file_stem :: "string \<Rightarrow> string option" where
  "file_stem name = map_option fst (split_name name)"

definition extension :: "string \<Rightarrow> string option" where
  "extension name = (case split_name name of Some (_, x) \<Rightarrow> x | None \<Rightarrow> None)"

definition stem_to_smol :: "string \<Rightarrow> string outcome" where
  "stem_to_smol name = unwrap (file_stem name)"

fun walk_file :: "(yfile \<Rightarrow> 's \<Rightarrow> 's run) \<Rightarrow> os_entry \<Rightarrow> string list \<times> 's \<Rightarrow> (string list \<times> 's) run"
  and walk_files :: "(yfile \<Rightarrow> 's \<Rightarrow> 's run) \<Rightarrow> os_entry option list \<Rightarrow> string list \<times> 's \<Rightarrow> (string list \<times> 's) run" where
  "walk_file cls (OsDir name es) (path, st) =
     rbind (Some (stem_to_smol name)) (\<lambda>stem. walk_files cls es (path @ [stem], st))"
| "walk_file cls (OsFile name contents) (path, st) =
     rbind (Some (stem_to_smol name)) (\<lambda>stem.
     let path = path @ [stem] in
     if extension name = Some ''yacari'' then
       (case contents of
          None \<Rightarrow> Some (Panic (PanicMsg ''Failed to read file.''))
        | Some text \<Rightarrow> rbind (cls \<lparr>yf_path = path, yf_contents = text\<rparr> st) (\<lambda>st. rret (path, st)))
     else rret (path, st))"
| "walk_files cls [] x = rret x"
| "walk_files cls (None # es) x = Some (Panic (PanicMsg ''Failed to read file''))"
| "walk_files cls (Some e # es) x = rbind (walk_file cls e x) (\<lambda>x. walk_files cls es x)"

definition os_walk_directory :: "(string \<Rightarrow> os_entry) \<Rightarrow> string \<Rightarrow> (yfile \<Rightarrow> 's \<Rightarrow> 's run) \<Rightarrow> 's \<Rightarrow> 's run" where
  "os_walk_directory os path cls st = rbind (walk_file cls (os path) ([], st)) (\<lambda>(_, st). rret st)"

subsection \<open>Walking the kernel's files (drivers/disk/mod.rs)\<close>

text \<open>The answers of a file: its size as the end it seeks to, whether it seeks back, and the
  bytes one call of \<open>read\<close> delivers. Each may be an error.\<close>

record fat_file =
  ff_end :: "nat option"
  ff_rewinds :: bool
  ff_read :: "u8 list option"

datatype fat_entry = FatDir string "fat_entry option list" | FatFile fat_file | FatOther

text \<open>\<open>junk n\<close> is what the \<open>n\<close> bytes of the buffer hold after \<open>set_len\<close>. One call of \<open>read\<close>
  overwrites as many as it delivers.\<close>

definition fat_read_file :: "(nat \<Rightarrow> u8 list) \<Rightarrow> fat_file \<Rightarrow> ustring option outcome" where
  "fat_read_file junk f =
     obind (case ff_end f of None \<Rightarrow> Panic UnwrapOnErr | Some n \<Rightarrow> Ret n) (\<lambda>size.
     obind (if ff_rewinds f then Ret () else Panic UnwrapOnErr) (\<lambda>_.
     obind (case ff_read f of None \<Rightarrow> Panic UnwrapOnErr | Some bs \<Rightarrow> Ret (take size bs)) (\<lambda>bs.
     Ret (from_utf8 (bs @ drop (length bs) (junk size))))))"

lemma size_drop_le: "size_list f (drop n xs) \<le> size_list f xs"
  by (induction xs arbitrary: n) (auto simp: drop_Cons' le_SucI add_increasing)

text \<open>\<open>walk_dir\<close> skips the first two entries of the directory it is given and walks the rest.\<close>

function (sequential) walk_dir :: "(nat \<Rightarrow> u8 list) \<Rightarrow> (yfile \<Rightarrow> 's \<Rightarrow> 's run) \<Rightarrow> fat_entry option list \<Rightarrow> string list \<Rightarrow> 's \<Rightarrow> 's run"
  and walk_subs :: "(nat \<Rightarrow> u8 list) \<Rightarrow> (yfile \<Rightarrow> 's \<Rightarrow> 's run) \<Rightarrow> fat_entry option list \<Rightarrow> string list \<Rightarrow> 's \<Rightarrow> 's run" where
  "walk_dir junk cls entries path_buf st = walk_subs junk cls (drop 2 entries) path_buf st"
| "walk_subs junk cls [] path_buf st = rret st"
| "walk_subs junk cls (Some (FatDir name es) # rest) path_buf st =
     rbind (walk_dir junk cls es (path_buf @ [name]) st) (\<lambda>st. walk_subs junk cls rest path_buf st)"
| "walk_subs junk cls (Some (FatFile f) # rest) path_buf st =
     rbind (Some (fat_read_file junk f)) (\<lambda>contents.
     rbind (case contents of
              Some text \<Rightarrow> cls \<lparr>yf_path = path_buf, yf_contents = text\<rparr> st
            | None \<Rightarrow> rret st) (\<lambda>st. walk_subs junk cls rest path_buf st))"
| "walk_subs junk cls (_ # rest) path_buf st = walk_subs junk cls rest path_buf st"
  by pat_completeness auto
termination
  by (relation "measure (\<lambda>x. case x of
        Inl (_, _, es, _, _) \<Rightarrow> Suc (size_list (size_option size) es)
      | Inr (_, _, es, _, _) \<Rightarrow> size_list (size_option size) es)")
    (auto simp: size_drop_le le_imp_less_Suc)

text \<open>\<open>root_dir().open_dir(path)\<close>: the entries of the directory, or an error.\<close>

definition fat_walk_directory :: "(nat \<Rightarrow> u8 list) \<Rightarrow> (string \<Rightarrow> fat_entry option list option) \<Rightarrow> string \<Rightarrow>
    (yfile \<Rightarrow> 's \<Rightarrow> 's run) \<Rightarrow> 's \<Rightarrow> 's run" where
  "fat_walk_directory junk open_dir path cls st =
     rbind (case open_dir path of None \<Rightarrow> Some (Panic UnwrapOnErr) | Some es \<Rightarrow> rret es) (\<lambda>entries.
     walk_dir junk cls entries [] st)"

subsection \<open>The entry points (lib.rs)\<close>

text \<open>\<open>JIT::new\<close> builds the module from the symbols it is given.\<close>

record ('jb, 'm, 'b) jit_ops =
  jitbuilder_new :: 'jb
  builder_symbol :: "string \<Rightarrow> u64 \<Rightarrow> 'jb \<Rightarrow> 'jb"
  jitmodule_new :: "'jb \<Rightarrow> 'm"
  make_context :: "'m \<Rightarrow> 'b"

definition jit_new :: "('jb, 'm, 'b) jit_ops \<Rightarrow> (string \<times> u64) list \<Rightarrow> ('b, 'm) jit" where
  "jit_new J symbols =
     (let builder = fold (\<lambda>(name, ptr). builder_symbol J name ptr) symbols (jitbuilder_new J);
          module = jitmodule_new J builder
      in \<lparr>jit_ctx = make_context J module, jit_clif = module\<rparr>)"

text \<open>The parameters of a run: the scanner, reading a float, where a \<open>SmallVec\<close> spills (see
  ExprCompiler), printing a type, Cranelift with what calling code at an address does.\<close>

record ('b, 'v, 'k, 'r, 'm, 'jb, 't) toolchain =
  tc_scan :: "ustring \<Rightarrow> logos_lexer"
  tc_float :: "string \<Rightarrow> f64 option"
  tc_buf :: "nat \<Rightarrow> nat"
  tc_show :: "ty \<Rightarrow> string outcome"
  tc_clif :: "('b, 'v, 'k, 'r, 'm) clif"
  tc_jit :: "('jb, 'm, 'b) jit_ops"
  tc_call :: "u64 \<Rightarrow> 't run"

definition parse_source :: "('b, 'v, 'k, 'r, 'm, 'jb, 't) toolchain \<Rightarrow> ustring \<Rightarrow> string list \<Rightarrow> (error list + ast_module) run" where
  "parse_source T program path =
     rbind (Some (parser_new (tc_scan T program))) (\<lambda>p.
     case parse (tc_float T) path p of
       POk r _ \<Rightarrow> rret r
     | PErr _ _ \<Rightarrow> None
     | PPanic x \<Rightarrow> Some (Panic x)
     | PFuel \<Rightarrow> None)"

definition execute_module :: "('b, 'v, 'k, 'r, 'm, 'jb, 't) toolchain \<Rightarrow> ustring \<Rightarrow> (string \<times> u64) list \<Rightarrow> (error list + 't) run" where
  "execute_module T program symbols =
     rbind (parse_source T program [''script'']) (\<lambda>parse.
     case parse of
       Inl es \<Rightarrow> rret (Inl es)
     | Inr ast \<Rightarrow>
         (let (_, h) = compiler_new [ast] in
          rbind (Some (module_compiler_consume (tc_buf T) (tc_show T) (module_compiler_new 0) h)) (\<lambda>(ir, h).
          case ir of
            Inl es \<Rightarrow> rret (Inl es)
          | Inr m \<Rightarrow>
              rbind (jit_module (tc_clif T) m (h_mods h, jit_new (tc_jit T) symbols)) (\<lambda>(_, jit).
              rbind (exec (tc_clif T) (tc_call T) ''main'' jit) (\<lambda>t. rret (Inr t))))))"

text \<open>The closure of \<open>execute_path\<close>, on the modules and errors so far.\<close>

definition on_file :: "('b, 'v, 'k, 'r, 'm, 'jb, 't) toolchain \<Rightarrow> yfile \<Rightarrow> ast_module list \<times> error list list \<Rightarrow>
    (ast_module list \<times> error list list) run" where
  "on_file T file = (\<lambda>(modules, errs).
     rbind (parse_source T (yf_contents file) (yf_path file)) (\<lambda>parse.
     case parse of
       Inr module \<Rightarrow> rret (modules @ [module], errs)
     | Inl err \<Rightarrow> rret (modules, errs @ [err])))"

definition run_modules :: "('b, 'v, 'k, 'r, 'm, 'jb, 't) toolchain \<Rightarrow> ast_module list \<Rightarrow> (string \<times> u64) list \<Rightarrow> (error list list + 't) run" where
  "run_modules T modules symbols =
     (let (c, h) = compiler_new modules in
      rbind (Some (compiler_consume (tc_buf T) (tc_show T) c h)) (\<lambda>(ir, h).
      case ir of
        Inl errs \<Rightarrow> rret (Inl errs)
      | Inr ms \<Rightarrow>
          rbind (rfold (jit_module (tc_clif T)) ms (h_mods h, jit_new (tc_jit T) symbols)) (\<lambda>(_, jit).
          rbind (exec (tc_clif T) (tc_call T) ''main'' jit) (\<lambda>t. rret (Inr t)))))"

definition execute_path :: "('b, 'v, 'k, 'r, 'm, 'jb, 't) toolchain \<Rightarrow>
    (string \<Rightarrow> (yfile \<Rightarrow> ast_module list \<times> error list list \<Rightarrow> (ast_module list \<times> error list list) run) \<Rightarrow>
       ast_module list \<times> error list list \<Rightarrow> (ast_module list \<times> error list list) run) \<Rightarrow>
    string list \<Rightarrow> (string \<times> u64) list \<Rightarrow> (error list list + 't) run" where
  "execute_path T walk_directory paths symbols =
     rbind (rfold (\<lambda>path. walk_directory path (on_file T)) paths ([], [])) (\<lambda>(modules, errs).
     if errs \<noteq> [] then rret (Inl errs) else run_modules T modules symbols)"

definition execute_with_os_fs :: "('b, 'v, 'k, 'r, 'm, 'jb, 't) toolchain \<Rightarrow> (string \<Rightarrow> os_entry) \<Rightarrow> string list \<Rightarrow> (string \<times> u64) list \<Rightarrow>
    (error list list + 't) run" where
  "execute_with_os_fs T os paths symbols = execute_path T (os_walk_directory os) paths symbols"

definition test_app :: "('b, 'v, 'k, 'r, 'm, 'jb, unit) toolchain \<Rightarrow> (nat \<Rightarrow> u8 list) \<Rightarrow> (string \<Rightarrow> fat_entry option list option) \<Rightarrow> u64 \<Rightarrow> unit run" where
  "test_app T junk open_dir draw_rect_ptr =
     rbind (execute_path T (fat_walk_directory junk open_dir) [''test_app'', ''system/yacuri''] [(''draw_rect'', draw_rect_ptr)]) (\<lambda>r.
     case r of Inl _ \<Rightarrow> Some (Panic UnwrapOnErr) | Inr t \<Rightarrow> rret t)"

lemma rbind_assoc: "rbind (rbind m f) g = rbind m (\<lambda>x. rbind (f x) g)"
  by (simp add: rbind_def split: option.splits outcome.splits)

lemma rbind_rret_id [simp]: "rbind m rret = m"
  by (simp add: rbind_def rret_def split: option.splits outcome.splits)

lemma rfold_Nil_fun [simp]: "rfold f [] = rret"
  by (rule ext) simp

lemma rfold_append: "rfold f (xs @ ys) st = rbind (rfold f xs st) (rfold f ys)"
  by (induction xs arbitrary: st) (auto simp: rbind_assoc intro!: arg_cong [where f = "rbind _"])

subsection \<open>What a walk visits\<close>

text \<open>The contract of \<open>Filesystem\<close>: where the files can be read, walking a path calls the callback
  on the files under it, in order.\<close>

locale filesystem =
  fixes walk :: "string \<Rightarrow> (yfile \<Rightarrow> 's \<Rightarrow> 's run) \<Rightarrow> 's \<Rightarrow> 's run"
    and files :: "string \<Rightarrow> yfile list"
    and readable :: "string \<Rightarrow> bool"
  assumes walk_law: "readable p \<Longrightarrow> walk p cls st = rfold cls (files p) st"
begin

lemma walk_all:
  "\<forall>p \<in> set ps. readable p \<Longrightarrow> rfold (\<lambda>p. walk p cls) ps st = rfold cls (concat (map files ps)) st"
  by (induction ps arbitrary: st) (auto simp: walk_law rfold_append intro!: arg_cong [where f = "rbind _"])

end

text \<open>The host's files: the stems of the entries of a tree in the order of the walk, with the text of
  the files of the language. The path buffer is never shortened, so the path of a file is made of
  all entries before it.\<close>

type_synonym os_node = "string \<times> ustring option"

fun os_nodes :: "os_entry \<Rightarrow> os_node list" and os_nodes_list :: "os_entry option list \<Rightarrow> os_node list" where
  "os_nodes (OsDir name es) = (the (file_stem name), None) # os_nodes_list es"
| "os_nodes (OsFile name text) = [(the (file_stem name), if extension name = Some ''yacari'' then text else None)]"
| "os_nodes_list [] = []"
| "os_nodes_list (None # es) = os_nodes_list es"
| "os_nodes_list (Some e # es) = os_nodes e @ os_nodes_list es"

fun os_ok :: "os_entry \<Rightarrow> bool" and os_ok_list :: "os_entry option list \<Rightarrow> bool" where
  "os_ok (OsDir name es) \<longleftrightarrow> file_stem name \<noteq> None \<and> os_ok_list es"
| "os_ok (OsFile name text) \<longleftrightarrow> file_stem name \<noteq> None \<and> (extension name = Some ''yacari'' \<longrightarrow> text \<noteq> None)"
| "os_ok_list [] = True"
| "os_ok_list (None # es) = False"
| "os_ok_list (Some e # es) \<longleftrightarrow> os_ok e \<and> os_ok_list es"

fun files_from :: "string list \<Rightarrow> os_node list \<Rightarrow> yfile list" where
  "files_from path [] = []"
| "files_from path ((stem, text) # ns) =
     (case text of Some t \<Rightarrow> [\<lparr>yf_path = path @ [stem], yf_contents = t\<rparr>] | None \<Rightarrow> []) @ files_from (path @ [stem]) ns"

lemma files_from_append: "files_from path (ns @ ks) = files_from path ns @ files_from (path @ map fst ns) ks"
  by (induction path ns rule: files_from.induct) simp_all

lemma files_from_nth:
  "files_from path ns = map (\<lambda>i. \<lparr>yf_path = path @ map fst (take (Suc i) ns), yf_contents = the (snd (ns ! i))\<rparr>)
     (filter (\<lambda>i. snd (ns ! i) \<noteq> None) [0..<length ns])"
proof (induction path ns rule: files_from.induct)
  case (2 path stem t ns)
  have "[0..<length ((stem, text) # ns)] = 0 # map Suc [0..<length ns]" by (simp add: map_Suc_upt upt_conv_Cons del: upt_Suc)
  then show ?case using 2 by (cases t) (simp_all add: filter_map comp_def del: upt_Suc)
qed simp

lemma walk_file_visits:
  "os_ok e \<Longrightarrow> walk_file cls e (path, st) = rbind (rfold cls (files_from path (os_nodes e)) st) (\<lambda>st. rret (path @ map fst (os_nodes e), st))"
  "os_ok_list es \<Longrightarrow> walk_files cls es (path, st) = rbind (rfold cls (files_from path (os_nodes_list es)) st) (\<lambda>st. rret (path @ map fst (os_nodes_list es), st))"
proof (induction e and es arbitrary: path st and path st rule: os_nodes_os_nodes_list.induct)
  case (2 name t)
  then show ?case by (auto simp: stem_to_smol_def Let_def split: option.splits)
qed (auto simp: stem_to_smol_def files_from_append rfold_append rbind_assoc)

interpretation os_fs: filesystem "os_walk_directory os" "\<lambda>p. files_from [] (os_nodes (os p))" "\<lambda>p. os_ok (os p)" for os
  by unfold_locales (simp add: os_walk_directory_def walk_file_visits rbind_assoc)

text \<open>The kernel's files: the text of each file whose bytes are UTF-8, under the names of its
  directories.\<close>

definition fat_text :: "(nat \<Rightarrow> u8 list) \<Rightarrow> fat_file \<Rightarrow> ustring option" where
  "fat_text junk f = (case fat_read_file junk f of Ret x \<Rightarrow> x | Panic _ \<Rightarrow> None)"

function (sequential) fat_files :: "(nat \<Rightarrow> u8 list) \<Rightarrow> string list \<Rightarrow> fat_entry option list \<Rightarrow> yfile list" where
  "fat_files junk path [] = []"
| "fat_files junk path (Some (FatDir name es) # rest) = fat_files junk (path @ [name]) (drop 2 es) @ fat_files junk path rest"
| "fat_files junk path (Some (FatFile f) # rest) =
     (case fat_text junk f of Some t \<Rightarrow> [\<lparr>yf_path = path, yf_contents = t\<rparr>] | None \<Rightarrow> []) @ fat_files junk path rest"
| "fat_files junk path (_ # rest) = fat_files junk path rest"
  by pat_completeness auto
termination
  by (relation "measure (\<lambda>(_, _, es). size_list (size_option size) es)") (auto intro: le_less_trans [OF size_drop_le])

function (sequential) fat_ok :: "(nat \<Rightarrow> u8 list) \<Rightarrow> fat_entry option list \<Rightarrow> bool" where
  "fat_ok junk [] = True"
| "fat_ok junk (Some (FatDir name es) # rest) \<longleftrightarrow> fat_ok junk (drop 2 es) \<and> fat_ok junk rest"
| "fat_ok junk (Some (FatFile f) # rest) \<longleftrightarrow> returns (fat_read_file junk f) \<and> fat_ok junk rest"
| "fat_ok junk (_ # rest) = fat_ok junk rest"
  by pat_completeness auto
termination
  by (relation "measure (\<lambda>(_, es). size_list (size_option size) es)") (auto intro: le_less_trans [OF size_drop_le])

lemma walk_subs_visits: "fat_ok junk es \<Longrightarrow> walk_subs junk cls es path st = rfold cls (fat_files junk path es) st"
proof (induction junk path es arbitrary: st rule: fat_files.induct)
  case (3 junk path f rest)
  then show ?case
    by (cases "fat_read_file junk f") (auto simp: returns_def fat_text_def split: option.splits intro!: arg_cong [where f = "rbind _"])
qed (auto simp: rfold_append intro!: arg_cong [where f = "rbind _"])

interpretation fat_fs: filesystem "fat_walk_directory junk open_dir" "\<lambda>p. fat_files junk [] (drop 2 (the (open_dir p)))"
    "\<lambda>p. open_dir p \<noteq> None \<and> fat_ok junk (drop 2 (the (open_dir p)))" for junk open_dir
  by unfold_locales (auto simp: fat_walk_directory_def walk_subs_visits)

end
