(* ===== verification/RunProps.thy ===== *)
theory RunProps
  imports Run ListBuilder
begin

section \<open>Properties of a run\<close>

text \<open>
  What \<open>execute_path\<close> makes of the files a walk visits, over the contract of \<open>Filesystem\<close>, and
  the paths the walk of the host's files gives to modules.
\<close>

text \<open>A source can be parsed: it is not empty and its literals can be read.\<close>

definition source_ok :: "('b, 'v, 'k, 'r, 'm, 'jb, 't) toolchain \<Rightarrow> yfile \<Rightarrow> bool" where
  "source_ok T file = (case parser_new (tc_scan T (yf_contents file)) of Ret p \<Rightarrow> lits_ok (tc_float T) p | Panic _ \<Rightarrow> False)"

definition parsed :: "('b, 'v, 'k, 'r, 'm, 'jb, 't) toolchain \<Rightarrow> yfile \<Rightarrow> error list + ast_module" where
  "parsed T file =
     (case parser_new (tc_scan T (yf_contents file)) of
        Ret p \<Rightarrow> (case parse (tc_float T) (yf_path file) p of POk r _ \<Rightarrow> r | _ \<Rightarrow> Inl [])
      | Panic _ \<Rightarrow> Inl [])"

definition errors_in :: "('e + 'a) list \<Rightarrow> 'e list" where
  "errors_in rs = concat (map (\<lambda>r. case r of Inl e \<Rightarrow> [e] | Inr _ \<Rightarrow> []) rs)"

definition modules_in :: "('e + 'a) list \<Rightarrow> 'a list" where
  "modules_in rs = concat (map (\<lambda>r. case r of Inl _ \<Rightarrow> [] | Inr x \<Rightarrow> [x]) rs)"

lemma parse_source_ok:
  assumes "source_ok T file"
  shows "parse_source T (yf_contents file) (yf_path file) = rret (parsed T file)"
    and "parsed T file = Inr m \<Longrightarrow> mod_path m = yf_path file"
    and "parsed T file = Inl es \<Longrightarrow> es \<noteq> []"
proof -
  obtain p where p: "parser_new (tc_scan T (yf_contents file)) = Ret p" "lits_ok (tc_float T) p"
    using assms by (auto simp: source_ok_def split: outcome.splits)
  have ok: "decl_ok (tc_float T) p (parse_loop (tc_float T) [] [] p)" by (rule parse_loop_ok)
  obtain fs cs s where l: "parse_loop (tc_float T) [] [] p = POk (fs, cs) s"
    using ok p(2) by (cases "parse_loop (tc_float T) [] [] p") (auto simp: decl_ok_def)
  show "parse_source T (yf_contents file) (yf_path file) = rret (parsed T file)"
    using p(1) l by (simp add: parse_source_def parsed_def parse_def)
  show "parsed T file = Inr m \<Longrightarrow> mod_path m = yf_path file" "parsed T file = Inl es \<Longrightarrow> es \<noteq> []"
    using p(1) l by (auto simp: parsed_def parse_def split: if_splits)
qed

lemma on_files:
  assumes "\<forall>file \<in> set files. source_ok T file"
  shows "rfold (on_file T) files (ms, es) =
    rret (ms @ modules_in (map (parsed T) files), es @ errors_in (map (parsed T) files))"
  using assms
proof (induction files arbitrary: ms es)
  case (Cons f files)
  then show ?case
    by (cases "parsed T f") (simp_all add: on_file_def parse_source_ok(1) modules_in_def errors_in_def)
qed (simp add: modules_in_def errors_in_def)


text \<open>A directory with two files of the language, and tools for it: the scanner finds a stray
  operator in each.\<close>

definition demo_os :: "string \<Rightarrow> os_entry" where
  "demo_os p = OsDir ''app'' [Some (OsFile ''hello.yacari'' (Some [0x2B])), Some (OsFile ''notes.txt'' None),
     Some (OsFile ''world.yacari'' (Some []))]"

definition demo_item :: "tkind \<Rightarrow> logos_item" where
  "demo_item k = \<lparr>li_kind = k, li_slice = [], li_span_start = 0, li_span_end = 0\<rparr>"

definition demo_tools :: "(lbuilder, nat, nat, nat, lmodule, unit, unit) toolchain" where
  "demo_tools = \<lparr>
     tc_scan = (\<lambda>s. [demo_item TK_Plus]),
     tc_float = (\<lambda>_. None), tc_buf = (\<lambda>_. 6), tc_show = (\<lambda>_. Ret []), tc_clif = list_clif,
     tc_jit = \<lparr>jitbuilder_new = (), builder_symbol = (\<lambda>_ _ b. b),
               jitmodule_new = (\<lambda>_. \<lparr>lm_syms = [], lm_exported = [], lm_defs = Map.empty\<rparr>), make_context = (\<lambda>_. lempty no_sig)\<rparr>,
     tc_call = (\<lambda>_. rret ())\<rparr>"

lemma demo_nodes: "os_nodes (demo_os p) = [(''app'', None), (''hello'', Some [0x2B]), (''notes'', None), (''world'', Some [])]"
  by (simp add: demo_os_def file_stem_def extension_def split_name_def)

lemma demo_ok: "os_ok (demo_os p)"
  by (simp add: demo_os_def file_stem_def extension_def split_name_def)

lemma demo_files: "files_from [] (os_nodes (demo_os p)) =
    [\<lparr>yf_path = [''app'', ''hello''], yf_contents = [0x2B]\<rparr>, \<lparr>yf_path = [''app'', ''hello'', ''notes'', ''world''], yf_contents = []\<rparr>]"
  by (simp add: demo_nodes)

lemma demo_parse:
  "parsed demo_tools \<lparr>yf_path = [''app'', ''hello''], yf_contents = [0x2B]\<rparr> = Inl [\<lparr>err_kind = E102, err_start = 1\<rparr>]"
  "parsed demo_tools \<lparr>yf_path = [''app'', ''hello'', ''notes'', ''world''], yf_contents = []\<rparr> = Inl [\<lparr>err_kind = E102, err_start = 1\<rparr>]"
  by code_simp+


text \<open>
  C33: the module paths the walk of the host's files gives. The buffer for the path is only
  pushed to, so the path of the file at position \<open>i\<close> of the walk consists of the stems of all
  entries up to \<open>i\<close>, its siblings' and their files' included, not only of its directories and
  itself.
\<close>

theorem os_paths_accumulate:
  assumes "os_ok (os p)"
  shows "os_walk_directory os p (\<lambda>f fs. rret (fs @ [f])) [] =
    (let ns = os_nodes (os p)
     in rret (map (\<lambda>i. \<lparr>yf_path = map fst (take (Suc i) ns), yf_contents = the (snd (ns ! i))\<rparr>)
          (filter (\<lambda>i. snd (ns ! i) \<noteq> None) [0..<length ns])))"
proof -
  have "rfold (\<lambda>f fs. rret (fs @ [f])) xs fs = rret (fs @ xs)" for xs fs :: "yfile list"
    by (induction xs arbitrary: fs) simp_all
  then show ?thesis by (simp add: os_fs.walk_law [where os = os and p = p, OF assms] files_from_nth Let_def)
qed

theorem os_paths_accumulate_witness:
  "os_walk_directory demo_os ''app'' (\<lambda>f fs. rret (fs @ [f])) [] =
     rret [\<lparr>yf_path = [''app'', ''hello''], yf_contents = [0x2B]\<rparr>, \<lparr>yf_path = [''app'', ''hello'', ''notes'', ''world''], yf_contents = []\<rparr>]"
  using os_paths_accumulate [where os = demo_os and p = "''app''", OF demo_ok] by (simp add: demo_nodes Let_def)

end
