(* ===== verification/TypedPrograms.thy ===== *)
theory TypedPrograms
  imports SourceProps VmTheorems RunProps
begin

section \<open>Typed programs run\<close>

text \<open>
  From the type checker for bodies to whole modules: a module whose bodies it accepts is compiled
  to functions the translation is right for, and the JIT then defines every one of them.
\<close>

subsection \<open>Modules with the same signatures\<close>

lemma same_sigs_resolve:
  assumes "same_sigs M M'" and "resolve_func M r = Ret f"
  shows "\<exists>f'. resolve_func M' r = Ret f' \<and> same_sig f f'"
proof -
  have "list_all2 same_sig (irm_funcs (M (fr_module r))) (irm_funcs (M' (fr_module r)))" using assms(1) by (simp add: same_sigs_def)
  with assms(2) show ?thesis by (auto simp: resolve_func_def idx_def list_all2_conv_all_nth split: if_splits)
qed

lemma same_sigs_resolve_none:
  assumes "same_sigs M M'" and "resolve_func M r = Panic p"
  shows "resolve_func M' r = Panic p"
proof -
  have "length (irm_funcs (M (fr_module r))) = length (irm_funcs (M' (fr_module r)))"
    using assms(1) list_all2_lengthD by (auto simp: same_sigs_def)
  with assms(2) show ?thesis by (auto simp: resolve_func_def idx_def split: if_splits)
qed

lemma same_sigs_classes: "same_sigs M M' \<Longrightarrow> resolve_class M r = resolve_class M' r"
  by (simp add: same_sigs_def resolve_class_def)

lemma same_sigs_fn_sig:
  assumes "same_sigs M M'"
  shows "fn_sig M r = fn_sig M' r"
proof (cases "resolve_func M r")
  case (Ret f)
  then obtain f' where f': "resolve_func M' r = Ret f'" "same_sig f f'" using same_sigs_resolve [OF assms] by blast
  then have "make_fn_sig M f g = make_fn_sig M' f' g" for g
    by (intro make_fn_sig_classes) (simp_all add: same_sigs_classes [OF assms] same_sig_def)
  with Ret f'(1) show ?thesis by (simp add: fn_sig_def)
next
  case (Panic p)
  with same_sigs_resolve_none [OF assms Panic] show ?thesis by (simp add: fn_sig_def)
qed

lemma iter_position_names:
  "list_all2 same_sig fs gs \<Longrightarrow> iter_position (\<lambda>f. irf_name f = x) fs = iter_position (\<lambda>f. irf_name f = x) gs"
  by (induction rule: list_all2_induct) (auto simp: same_sig_def)

lemma func_resolve_eq: "func_resolve = resolve_func"
  by (simp add: func_resolve_def resolve_func_def fun_eq_iff)

lemma wt_ident_mods:
  assumes "same_sigs (cc_mods C) (cc_mods C')" and "cc_self C = cc_self C'"
  shows "wt_ident C G x = wt_ident C' G x"
proof -
  have "find_function C x = find_function C' x"
    using assms iter_position_names unfolding find_function_def same_sigs_def by metis
  then show ?thesis by (simp split: option.splits)
qed

lemma wt_call_mods:
  assumes "same_sigs (cc_mods C) (cc_mods C')"
  shows "wt_call C t ts = wt_call C' t ts"
proof (cases "\<exists>r. t = TFunction r")
  case True
  then obtain r where r: "t = TFunction r" by blast
  show ?thesis
  proof (cases "resolve_func (cc_mods C) r")
    case (Ret fn)
    then obtain fn' where "resolve_func (cc_mods C') r = Ret fn'" "same_sig fn fn'" using same_sigs_resolve [OF assms] by blast
    with Ret show ?thesis
      by (simp add: wt_call_def r func_resolve_eq same_sigs_fn_sig [OF assms] same_sig_def split: option.splits)
  next
    case (Panic p)
    with same_sigs_resolve_none [OF assms Panic] show ?thesis by (simp add: wt_call_def r func_resolve_eq)
  qed
qed (simp add: wt_call_def split: ty.splits)

lemma wt_mods:
  assumes "same_sigs (cc_mods C) (cc_mods C')" and "cc_self C = cc_self C'"
  shows "wt C G e = wt C' G e" and "wts C G es = wts C' G es"
  using assms
proof (induction C G e and C G es rule: wt_wts.induct)
  case (2 C G x u)
  then show ?case using wt_ident_mods [of C C'] by (simp del: wt_ident.simps)
next
  case (8 C G f as u)
  then show ?case using wt_call_mods [of C C'] by (simp split: option.splits)
qed (simp_all split: option.splits)

lemma vtypes_mods:
  assumes "\<And>r. fn_sig (fe_mods E) r = fn_sig (fe_mods E') r" and "fe_tys E = fe_tys E'"
  shows "vtypes E e = vtypes E' e" and "vitypes E i = vitypes E' i" and "vt_block E es as = vt_block E' es as"
    and "vt_args E es as = vt_args E' es as"
  using assms
  by (induction E e and E i and E es as and E es as rule: vtypes_vitypes_vt_block_vt_args.induct)
    (auto simp: vt_var_def split: option.splits iexpr.splits)

lemma fn_ready_same_sigs:
  assumes "same_sigs M M'"
  shows "fn_ready M f g = fn_ready M' f g"
proof -
  have "make_fn_sig M f h = make_fn_sig M' f h" for h
    by (rule make_fn_sig_classes) (simp_all add: same_sigs_classes [OF assms])
  moreover have "vtypes (fn_env M f) e = vtypes (fn_env M' f) e" for e
    by (rule vtypes_mods(1)) (simp_all add: fn_env_def Let_def same_sigs_fn_sig [OF assms])
  ultimately show ?thesis by (simp add: fn_ready_def)
qed

subsection \<open>Bodies and their meaning\<close>

text \<open>The frame a call starts with: the parameters by name, the last of a name winning.\<close>

definition param_frame :: "var_store list \<Rightarrow> val list \<Rightarrow> string \<rightharpoonup> val" where
  "param_frame ps vs = map_of (rev (zip (map vs_name ps) vs))"

definition param_types :: "var_store list \<Rightarrow> typing list" where
  "param_types ps = map (\<lambda>p. (vs_ty p, ctys (vs_ty p))) ps"

lemma param_frame_rel:
  assumes "length vs = length ps"
  shows "rel_option (\<lambda>r v. \<exists>i < length ps. r = VParam i \<and> v = vs ! i) (params_env ps x) (param_frame ps vs x)"
  using assms
proof (induction ps arbitrary: vs rule: rev_induct)
  case (snoc p ps)
  obtain v us where vs: "vs = us @ [v]" "length us = length ps" using snoc.prems by (cases vs rule: rev_cases) auto
  have "params_env (ps @ [p]) = (params_env ps)(vs_name p \<mapsto> VParam (length ps))" by (simp add: params_env_def enumerate_append_eq)
  moreover have "param_frame (ps @ [p]) vs = (param_frame ps us)(vs_name p \<mapsto> v)" by (simp add: param_frame_def vs)
  moreover have "rel_option (\<lambda>r v. \<exists>i < length ps. r = VParam i \<and> v = us ! i) (params_env ps x) (param_frame ps us x)"
    by (rule snoc.IH [OF vs(2)])
  then have "rel_option (\<lambda>r v. \<exists>i < length (ps @ [p]). r = VParam i \<and> v = vs ! i) (params_env ps x) (param_frame ps us x)"
    by (rule option.rel_mono_strong) (auto simp: vs nth_append)
  ultimately show ?case by (auto simp: vs nth_append)
qed (simp add: params_env_def param_frame_def)

lemma params_apart: "apart [params_env ps]"
  by (auto simp: slot_def dest!: params_env_ref)

lemma reps_singles:
  "reps (param_types ps) vs (map (\<lambda>x. [x]) args) \<Longrightarrow>
   length vs = length ps \<and> length args = length ps \<and> (\<forall>i < length ps. rep (vs_ty (ps ! i)) (ctys (vs_ty (ps ! i))) (vs ! i) [args ! i])"
proof (induction ps arbitrary: vs args)
  case (Cons p ps)
  then show ?case by (cases vs; cases args) (auto simp: param_types_def nth_Cons split: nat.splits)
next
  case Nil
  then show ?case by (cases vs; cases args) (auto simp: param_types_def)
qed

lemma frames_start:
  assumes "cc_params C = irf_params f" and "irf_locals f = []" and "reps (param_types (irf_params f)) vs (map (\<lambda>x. [x]) args)"
    and "\<forall>p \<in> set (irf_params f). word_ty (vs_ty p)" and "\<forall>i < length (irf_params f). \<sigma> i = args ! i"
  shows "frames_rel C (ec_new f) [param_frame (irf_params f) vs] \<sigma>"
proof -
  note r = reps_singles [OF assms(3)]
  have "var_holds C [] \<sigma> (VParam i) (vs ! i)" if "i < length (irf_params f)" for i
    using r assms(1,4,5) that by (simp add: var_holds_def ref_ty_def slot_def Let_def)
  then have "rel_option (var_holds C [] \<sigma>) (params_env (irf_params f) x) (param_frame (irf_params f) vs x)" for x
    by (rule_tac option.rel_mono_strong [OF param_frame_rel]) (use r in auto)
  then have "frame_rel (var_holds C [] \<sigma>) (params_env (irf_params f)) (param_frame (irf_params f) vs)" unfolding frame_rel_def by (rule allI)
  then show ?thesis using params_apart by (simp add: frames_rel_def ec_new_def assms(2))
qed

subsection \<open>Typed functions\<close>

text \<open>A function whose body the checker accepts: the body declares variables in blocks only, at
  most six, and calls functions by name; it has the return type and the values of the signature;
  and the function has no parameters, or one word parameter and no local.\<close>

definition body_ctx :: "(nat \<Rightarrow> ir_module) \<Rightarrow> nat \<Rightarrow> ir_function \<Rightarrow> cctx" where
  "body_ctx M m f = \<lparr>cc_mods = M, cc_self = m, cc_params = irf_params f, cc_buf = (\<lambda>_. 0), cc_show = (\<lambda>_. Ret [])\<rparr>"

definition typed_body :: "(nat \<Rightarrow> ir_module) \<Rightarrow> nat \<Rightarrow> ir_function \<Rightarrow> expr \<Rightarrow> signature \<Rightarrow> bool" where
  "typed_body M m f e g \<longleftrightarrow> expr_form e \<and> nvars e \<le> 6
     \<and> (irf_params f = [] \<or> length (irf_params f) = 1 \<and> word_ty (vs_ty (hd (irf_params f))) \<and> nvars e = 0)
     \<and> make_fn_sig M f \<lparr>sig_params = [], sig_returns = []\<rparr> = rret g
     \<and> map_option fst (wt (body_ctx M m f) (types_in (body_ctx M m f) (ec_new f)) e) = Some (irf_ret_type f, sig_returns g)"

definition typed_fn :: "(nat \<Rightarrow> ir_module) \<Rightarrow> nat \<Rightarrow> ir_function \<Rightarrow> bool" where
  "typed_fn M m f \<longleftrightarrow> (\<forall>e. fn_body (irf_ast f) = Some e \<longrightarrow> (\<exists>g. typed_body M m f e g))"

text \<open>What compiling it gives: a function ready for the translation, whose tree computes what the
  source of the body means, given what calls mean.\<close>

definition body_means :: "fpu \<Rightarrow> (func_ref \<Rightarrow> u64 list \<Rightarrow> 'w \<Rightarrow> (u64 list \<times> 'w) option) \<Rightarrow> 'w scalls \<Rightarrow> (string \<Rightarrow> func_ref option) \<Rightarrow>
    ir_function \<Rightarrow> expr \<Rightarrow> signature \<Rightarrow> bool" where
  "body_means P Y Z D f e g \<longleftrightarrow> (\<forall>n args vs \<sigma> w v frs w'. reps (param_types (irf_params f)) vs (map (\<lambda>x. [x]) args) \<longrightarrow>
     (\<forall>i < length (irf_params f). \<sigma> i = args ! i) \<longrightarrow>
     seval P Z D n e ([param_frame (irf_params f) vs], w) = Some (v, frs, w') \<longrightarrow>
     (\<exists>ys \<sigma>'. eval P Y n (irf_body f) (\<sigma>, w) = Some (ys, \<sigma>', w') \<and> rep (irf_ret_type f) (sig_returns g) v ys))"

definition ready_fn :: "fpu \<Rightarrow> (func_ref \<Rightarrow> u64 list \<Rightarrow> 'w \<Rightarrow> (u64 list \<times> 'w) option) \<Rightarrow> 'w scalls \<Rightarrow> (string \<Rightarrow> func_ref option) \<Rightarrow>
    (nat \<Rightarrow> ir_module) \<Rightarrow> ir_function \<Rightarrow> bool" where
  "ready_fn P Y Z D M f \<longleftrightarrow> irf_ir f = None
     \<and> (\<forall>e. fn_body (irf_ast f) = Some e \<longrightarrow> (\<exists>g. fn_ready M f g \<and> body_means P Y Z D f e g))"

lemma types_in_params: "cc_params C = cc_params C' \<Longrightarrow> types_in C s = types_in C' s"
  by (simp add: types_in_def ref_ty_def [abs_def] fun_eq_iff)

lemma typed_body_ready:
  assumes C: "C = fn_ctx buf sh m f h" "ctx_ok C" and f: "irf_locals f = []" "sig_plain f" and e: "typed_body (h_mods h) m f e g"
    and sh: "\<forall>t. returns (sh t)" and buf: "\<forall>n \<le> 6. buf n = buf 0" and Y: "calls_match (h_mods h) Z Y"
  shows "\<exists>i s. ec_expr C e (ec_new f) = Ret (i, s) \<and> fn_ready (h_mods h) (f\<lparr>irf_locals := ec_locals s, irf_body := i\<rparr>) g
     \<and> body_means P Y Z (find_function C) (f\<lparr>irf_locals := ec_locals s, irf_body := i\<rparr>) e g"
proof -
  let ?B = "body_ctx (h_mods h) m f"
  have six: "inline_six C" unfolding inline_six_def C(1) fn_ctx_def cctx.simps by (rule buf)
  have C': "cc_params C = irf_params f" "shows_types C" "cc_mods C = h_mods h" "cc_self C = m"
    using sh by (simp_all add: C(1) fn_ctx_def shows_types_def)
  have n: "expr_form e" "nvars e \<le> 6" and p: "irf_params f = [] \<or> length (irf_params f) = 1 \<and> word_ty (vs_ty (hd (irf_params f))) \<and> nvars e = 0"
    and g: "make_fn_sig (h_mods h) f \<lparr>sig_params = [], sig_returns = []\<rparr> = rret g"
    using e by (simp_all add: typed_body_def)
  have "types_in ?B (ec_new f) = types_in C (ec_new f)" by (rule types_in_params) (simp add: body_ctx_def C'(1))
  moreover have "wt ?B G e = wt C G e" for G by (rule wt_mods) (simp_all add: body_ctx_def C'(3,4))
  ultimately obtain G' where w: "wt C (types_in C (ec_new f)) e = Some ((irf_ret_type f, sig_returns g), G')"
    using e by (auto simp: typed_body_def)
  have "compilable e" by (rule wt_compilable(1) [of C "types_in C (ec_new f)"]) (simp add: w)
  note cb = compile_body_ok [OF C(2) C'(1) f(1) C'(2) six this n(2)]
  obtain i s where i: "ec_expr C e (ec_new f) = Ret (i, s)" "coherent i" "\<forall>k < length (ec_locals s). vs_index (ec_locals s ! k) = k"
      "length (ec_locals s) \<le> nvars e"
    using cb by (elim exE conjE) (rule that)
  have t0: "tpost C (types_in C (ec_new f)) (ec_new f)"
    using ec_new_inv [OF C(2) C'(1) f(1)] f(1) by (simp add: tpost_def all_scalar_def ec_new_def)
  then have q: "tpost C G' s" "tgood C s i (irf_ret_type f, sig_returns g)" using ec_expr_typed(1) [OF C(2) _ w i(1)] by auto
  let ?f = "f\<lparr>irf_locals := ec_locals s, irf_body := i\<rparr>"
  have u: "unshared C s" using p i(4) by (auto simp: unshared_def C'(1))
  have "fn_env (h_mods h) ?f = ec_env C s" by (simp add: fn_env_def ec_env_def C'(1,3))
  then have "vtypes (fn_env (h_mods h) ?f) i = Some (sig_returns g)" using q(2) u by (simp add: tgood_def)
  moreover have "fn_vars_ok ?f"
  proof (cases "irf_params f")
    case Nil
    then show ?thesis using i(3,4) n q(1) by (simp add: fn_vars_ok_def tpost_def all_scalar_def)
  next
    case (Cons v vs)
    then have "vs_index v = 0" using f(2) by (auto simp: sig_plain_def)
    with Cons p i(4) show ?thesis by (simp add: fn_vars_ok_def)
  qed
  moreover have "make_fn_sig (h_mods h) ?f k = make_fn_sig (h_mods h) f k" for k by (rule make_fn_sig_classes) simp_all
  ultimately have "fn_ready (h_mods h) ?f g" using i(2) g by (simp add: fn_ready_def)
  moreover have "body_means P Y Z (find_function C) ?f e g" unfolding body_means_def
  proof (intro allI impI)
    fix n args vs \<sigma> w' v frs w''
    assume a: "reps (param_types (irf_params ?f)) vs (map (\<lambda>x. [x]) args)" "\<forall>k < length (irf_params ?f). \<sigma> k = args ! k"
      "seval P Z (find_function C) n e ([param_frame (irf_params ?f) vs], w') = Some (v, frs, w'')"
    have "\<forall>q \<in> set (irf_params f). word_ty (vs_ty q)" using p by (cases "irf_params f") auto
    then have fr: "frames_rel C (ec_new f) [param_frame (irf_params f) vs] \<sigma>" using frames_start [OF C'(1) f(1)] a(1,2) by simp
    have sm: "sim P Y n C (ec_new f) (seval P Z (find_function C) n e) i s (irf_ret_type f, sig_returns g)"
      by (rule csimD [OF compile_sim(1) [OF C(2)] n(1) t0 w i(1) u]) (simp add: C'(3) Y)
    have "seval P Z (find_function C) n e ([param_frame (irf_params f) vs], w') = Some (v, frs, w'')" using a(3) by simp
    then obtain ys \<sigma>' where "eval P Y n i (\<sigma>, w') = Some (ys, \<sigma>', w'')" "rep (irf_ret_type f) (sig_returns g) v ys"
      by (rule simE [OF sm fr]) simp
    then show "\<exists>ys \<sigma>'. eval P Y n (irf_body ?f) (\<sigma>, w') = Some (ys, \<sigma>', w'') \<and> rep (irf_ret_type ?f) (sig_returns g) v ys" by simp
  qed
  ultimately show ?thesis using i(1) by blast
qed

text \<open>Functions of a module by name.\<close>

definition module_fn :: "(nat \<Rightarrow> ir_module) \<Rightarrow> nat \<Rightarrow> string \<Rightarrow> func_ref option" where
  "module_fn M m x = map_option (\<lambda>i. \<lparr>fr_module = m, fr_index = i\<rparr>) (iter_position (\<lambda>f. irf_name f = x) (irm_funcs (M m)))"

lemma module_fn_sigs: "same_sigs M M' \<Longrightarrow> module_fn M m = module_fn M' m"
proof
  fix x assume "same_sigs M M'"
  then have "list_all2 same_sig (irm_funcs (M m)) (irm_funcs (M' m))" by (simp add: same_sigs_def)
  then show "module_fn M m x = module_fn M' m x" by (simp add: module_fn_def iter_position_names)
qed

lemma generate_function_typed:
  assumes "heap_ok h" and "k < length (irm_funcs (h_mods h m))" and "f = irm_funcs (h_mods h m) ! k"
    and "irf_locals f = []" and "irf_ir f = None" and "typed_fn (h_mods h) m f"
    and "\<forall>t. returns (sh t)" and "\<forall>n \<le> 6. buf n = buf 0" and "calls_match (h_mods h) Z Y"
  shows "\<exists>g. generate_function buf sh m k h = Ret (set_fn m k g h) \<and> same_sig f g \<and> ready_fn P Y Z (module_fn (h_mods h) m) (h_mods h) g"
proof (cases "fn_body (irf_ast f)")
  case None
  then have "generate_function buf sh m k h = Ret (set_fn m k f h)"
    using assms(3) by (simp add: generate_function_def Let_def set_mod_def)
  with None assms(5) show ?thesis by (auto simp: ready_fn_def)
next
  case (Some e)
  have "f \<in> set (irm_funcs (h_mods h m))" using assms(2,3) by simp
  then have C: "ctx_ok (fn_ctx buf sh m f h)" "sig_plain f" using fn_ctx_ok [OF assms(1)] assms(1) by (simp_all add: heap_ok_def)
  obtain g where "typed_body (h_mods h) m f e g" using assms(6) Some by (auto simp: typed_fn_def)
  then obtain i s where i: "ec_expr (fn_ctx buf sh m f h) e (ec_new f) = Ret (i, s)"
      "fn_ready (h_mods h) (f\<lparr>irf_locals := ec_locals s, irf_body := i\<rparr>) g"
      "body_means P Y Z (find_function (fn_ctx buf sh m f h)) (f\<lparr>irf_locals := ec_locals s, irf_body := i\<rparr>) e g"
    using typed_body_ready [OF refl C(1) assms(4) C(2) _ assms(7,8,9)] by blast
  let ?g = "f\<lparr>irf_locals := ec_locals s, irf_body := i\<rparr>"
  have "generate_function buf sh m k h = Ret (set_fn m k ?g h)"
    using i(1) Some assms(3) by (simp add: generate_function_def Let_def)
  moreover have "find_function (fn_ctx buf sh m f h) = module_fn (h_mods h) m" by (simp add: find_function_def module_fn_def fn_ctx_def fun_eq_iff)
  ultimately show ?thesis using i(2,3) assms(5) Some by (intro exI [of _ ?g]) (auto simp: same_sig_def ready_fn_def)
qed

lemma typed_fn_sigs:
  assumes "same_sigs M M'"
  shows "typed_fn M m f = typed_fn M' m f"
proof -
  have "make_fn_sig M f k = make_fn_sig M' f k" for k by (rule make_fn_sig_classes) (simp_all add: same_sigs_classes [OF assms])
  moreover have "wt (body_ctx M m f) G e = wt (body_ctx M' m f) G e" for G e
    by (rule wt_mods) (simp_all add: body_ctx_def assms)
  moreover have "types_in (body_ctx M m f) s = types_in (body_ctx M' m f) s" for s
    by (rule types_in_params) (simp add: body_ctx_def)
  ultimately show ?thesis by (simp add: typed_fn_def typed_body_def)
qed

lemma same_sigs_sym: "same_sigs M M' \<Longrightarrow> same_sigs M' M"
  by (auto simp: same_sigs_def list_all2_conv_all_nth same_sig_def)

lemma calls_match_sigs:
  assumes "same_sigs M M'" and "calls_match M Z Y"
  shows "calls_match M' Z Y"
  unfolding calls_match_def
proof (intro allI impI)
  fix r f g ts vs xss w v w'
  assume r: "resolve_func M' r = Ret f" "fn_sig M' r = Some g" "reps ts vs xss" "concat (map snd ts) = sig_params g" "Z r vs w = Some (v, w')"
  obtain f' where f': "resolve_func M r = Ret f'" "irf_ret_type f' = irf_ret_type f"
    using same_sigs_resolve [OF same_sigs_sym [OF assms(1)] r(1)] by (auto simp: same_sig_def)
  moreover have "fn_sig M r = Some g" using r(2) same_sigs_fn_sig [OF assms(1)] by simp
  ultimately have "\<exists>ys. Y r (concat xss) w = Some (ys, w') \<and> rep (irf_ret_type f') (sig_returns g) v ys"
    using assms(2) r(3-5) unfolding calls_match_def by blast
  then show "\<exists>ys. Y r (concat xss) w = Some (ys, w') \<and> rep (irf_ret_type f) (sig_returns g) v ys" using f'(2) by simp
qed

lemma ready_fn_sigs: "same_sigs M M' \<Longrightarrow> ready_fn P Y Z D M f = ready_fn P Y Z D M' f"
  by (simp add: ready_fn_def fn_ready_same_sigs)

lemma generate_functions_typed:
  assumes "heap_ok h"
    and fs: "\<forall>f \<in> set (irm_funcs (h_mods h m)). irf_locals f = [] \<and> irf_ir f = None \<and> typed_fn (h_mods h) m f"
    and "\<forall>t. returns (sh t)" and "\<forall>n \<le> 6. buf n = buf 0" and "calls_match (h_mods h) Z Y"
  shows "\<exists>fs. generate_functions buf sh m h = Ret (Inr (set_mod m ((h_mods h m)\<lparr>irm_funcs := fs\<rparr>) h))
          \<and> list_all2 same_sig (irm_funcs (h_mods h m)) fs \<and> (\<forall>f \<in> set fs. ready_fn P Y Z (module_fn (h_mods h) m) (h_mods h) f)"
proof (rule generate_functions_all [OF _ assms(1)])
  fix h' k
  assume h': "heap_ok h'" "same_sigs (h_mods h) (h_mods h')" "k < length (irm_funcs (h_mods h m))"
    "irm_funcs (h_mods h' m) ! k = irm_funcs (h_mods h m) ! k"
  note eqs = ready_fn_sigs [OF h'(2)] module_fn_sigs [OF h'(2)] typed_fn_sigs [OF h'(2)]
  have "irm_funcs (h_mods h m) ! k \<in> set (irm_funcs (h_mods h m))" using h'(3) by simp
  then show "\<exists>g. generate_function buf sh m k h' = Ret (set_fn m k g h') \<and> same_sig (irm_funcs (h_mods h m) ! k) g
      \<and> ready_fn P Y Z (module_fn (h_mods h) m) (h_mods h) g"
    using generate_function_typed [OF h'(1) _ refl _ _ _ assms(3,4) calls_match_sigs [OF h'(2) assms(5)], of k m P] fs h'(3,4)
      same_sigs_length [OF h'(2), of m] by (simp add: eqs)
qed

subsection \<open>One module\<close>

text \<open>The modules when the bodies of a program of one module are about to be compiled.\<close>

definition declared_program :: "ast_module \<Rightarrow> nat \<Rightarrow> ir_module" where
  "declared_program a = (h_mods (snd (compiler_new [a])))(0 := declared_module 0 a)"

lemma declared_program_first [simp]: "declared_program a 0 = declared_module 0 a"
  by (simp add: declared_program_def)

definition typed_module :: "ast_module \<Rightarrow> bool" where
  "typed_module a \<longleftrightarrow> module_ready 0 a \<and> (\<forall>f \<in> set (irm_funcs (declared_module 0 a)). typed_fn (declared_program a) 0 f)"

definition compiled_program :: "ast_module \<Rightarrow> ir_function list \<Rightarrow> nat \<Rightarrow> ir_module" where
  "compiled_program a fs = (declared_program a)(0 := (declared_module 0 a)\<lparr>irm_funcs := fs\<rparr>)"

lemma compiled_program_funcs [simp]: "irm_funcs (compiled_program a fs 0) = fs"
  by (simp add: compiled_program_def)

lemma compiled_sigs:
  assumes "list_all2 same_sig (irm_funcs (declared_module 0 a)) fs"
  shows "same_sigs (declared_program a) (compiled_program a fs)"
  using same_sigs_update [of "declared_program a" "declared_program a" 0 fs] assms by (simp add: compiled_program_def)

lemma consume_typed:
  assumes "typed_module a" and "\<forall>t. returns (sh t)" and "\<forall>n \<le> 6. buf n = buf 0" and "calls_match (declared_program a) Z Y"
  obtains fs h' where "module_compiler_consume buf sh (module_compiler_new 0) (snd (compiler_new [a])) = Ret (Inr 0, h')"
    and "h_mods h' = compiled_program a fs" and "list_all2 same_sig (irm_funcs (declared_module 0 a)) fs"
    and "\<forall>f \<in> set fs. ready_fn P Y Z (module_fn (declared_program a) 0) (compiled_program a fs) f"
proof -
  let ?start = "snd (compiler_new [a])" and ?x = "declared_module 0 a"
  let ?h = "set_mod 0 ?x ?start"
  have a: "module_ready 0 a" using assms(1) by (simp add: typed_module_def)
  have h0: "h_readers ?start 0 = 0" "h_mods ?start 0 = from_ast a" "heap_ok ?start"
    by (simp_all add: compiler_new_def Let_def heap_ok_def from_ast_def)
  have m: "h_mods ?h = declared_program a" by (simp add: declared_program_def set_mod_def)
  have "irf_ir f = None" if "f \<in> set (irm_funcs ?x)" for f using that by (auto simp: declared_module_def declared_fn_def)
  then have "\<forall>f \<in> set (irm_funcs (h_mods ?h 0)). irf_locals f = [] \<and> irf_ir f = None \<and> typed_fn (h_mods ?h) 0 f"
    using declared_module_ok(2) [OF a h0(3)] assms(1) unfolding m by (auto simp: typed_module_def declared_program_def)
  then obtain fs where fs: "generate_functions buf sh 0 ?h = Ret (Inr (set_mod 0 (?x\<lparr>irm_funcs := fs\<rparr>) ?start))"
      "list_all2 same_sig (irm_funcs ?x) fs" "\<forall>f \<in> set fs. ready_fn P Y Z (module_fn (declared_program a) 0) (declared_program a) f"
    using generate_functions_typed [OF declared_module_ok(1) [OF a h0(3)] _ assms(2,3), of 0 Z Y P] assms(4) unfolding m by auto
  show ?thesis
  proof (rule that)
    show "module_compiler_consume buf sh (module_compiler_new 0) ?start = Ret (Inr 0, set_mod 0 (?x\<lparr>irm_funcs := fs\<rparr>) ?start)"
      using stage_1_declared [OF h0(1,2) a] fs(1) by (simp add: module_compiler_consume_def)
    show "h_mods (set_mod 0 (?x\<lparr>irm_funcs := fs\<rparr>) ?start) = compiled_program a fs" by (simp add: set_mod_def declared_program_def compiled_program_def)
    show "\<forall>f \<in> set fs. ready_fn P Y Z (module_fn (declared_program a) 0) (compiled_program a fs) f"
      using fs(3) by (simp add: ready_fn_sigs [OF compiled_sigs [OF fs(2)]])
  qed (rule fs(2))
qed

lemma calls_fit_sigs:
  assumes "same_sigs M M'" and "calls_fit M X"
  shows "calls_fit M' X"
  unfolding calls_fit_def
proof (intro allI impI)
  fix r f g xs w ys w'
  assume r: "resolve_func M' r = Ret f" "fn_sig M' r = Some g" "X (irf_name f) xs w = Some (ys, w')"
  obtain f' where "resolve_func M r = Ret f'" "irf_name f' = irf_name f"
    using same_sigs_resolve [OF same_sigs_sym [OF assms(1)] r(1)] by (auto simp: same_sig_def)
  then show "length ys = length (sig_returns g)" using assms(2) r(2,3) same_sigs_fn_sig [OF assms(1), of r] by (metis calls_fit_def)
qed

lemma compiled_resolve:
  "resolve_func (compiled_program a fs) r = Ret f \<longleftrightarrow> fr_module r = 0 \<and> fr_index r < length fs \<and> f = fs ! fr_index r"
  by (auto simp: resolve_func_def idx_def compiled_program_def declared_program_def compiler_new_def Let_def from_ast_def)

lemma same_sig_names: "list_all2 same_sig fs gs \<Longrightarrow> map irf_name gs = map irf_name fs"
  by (induction rule: list_all2_induct) (auto simp: same_sig_def)

text \<open>A fresh JIT.\<close>

definition fresh_jit :: "('b \<Rightarrow> bool) \<Rightarrow> ('m \<Rightarrow> nat \<rightharpoonup> string \<times> signature) \<Rightarrow> ('m \<Rightarrow> nat \<rightharpoonup> ('v, 'k, 'r) fview) \<Rightarrow> ('b, 'm) jit \<Rightarrow> bool" where
  "fresh_jit blank syms defs j \<longleftrightarrow> blank (jit_ctx j) \<and> syms (jit_clif j) = Map.empty \<and> defs (jit_clif j) = Map.empty"

lemma compiled_program_jits:
  assumes jc: "jit_contract C view blank syms P X exported defs known" and j: "fresh_jit blank syms defs j"
    and a: "module_ready 0 a" and fs: "list_all2 same_sig (irm_funcs (declared_module 0 a)) fs" "\<forall>f \<in> set fs. irf_ir f = None \<and> (has_body f \<longrightarrow> (\<exists>g. fn_ready (compiled_program a fs) f g))"
    and fit: "calls_fit (declared_program a) X" and ext: "\<forall>f \<in> set (mod_functions a). fn_body f = None \<longrightarrow> fname f \<in> known"
  shows "\<exists>M' j'. jit_module C 0 (compiled_program a fs, j) = rret (M', j')
     \<and> (\<forall>f \<in> set fs. has_body f \<longrightarrow> (\<exists>g fid F. fn_ready (compiled_program a fs) f g \<and> get_name C (irf_name f) (jit_clif j') = Some (FuncId fid)
          \<and> defs (jit_clif j') fid = Some F \<and> implements P X (compiled_program a fs) f g F))"
proof -
  let ?M = "compiled_program a fs"
  have nm: "map irf_name fs = map fname (mod_functions a)"
    using same_sig_names [OF fs(1)] by (simp add: declared_module_def declared_fn_def comp_def)
  have d: "distinct (map irf_name fs)" using a by (simp add: nm module_ready_def)
  have agree: "names_agree ?M"
    unfolding names_agree_def
  proof (intro allI impI)
    fix r r' f f' g g'
    assume r: "resolve_func ?M r = Ret f" "resolve_func ?M r' = Ret f'" "irf_name f = irf_name f'" "fn_sig ?M r = Some g" "fn_sig ?M r' = Some g'"
    then have "fr_index r = fr_index r'" using d by (auto simp: compiled_resolve distinct_conv_nth)
    then have "r = r'" using r(1,2) by (simp add: compiled_resolve)
    then show "g = g'" using r(4,5) by simp
  qed
  have ids: "irf_ir f = None" if "f \<in> set fs" for f using fs(2) that by simp
  have inv: "jit_inv blank syms exported defs ?M (?M, j)"
    using j ids by (auto simp: jit_inv_def fresh_jit_def ids_ok_def ids_exported_def compiled_resolve)
  have fit': "calls_fit ?M X" by (rule calls_fit_sigs [OF compiled_sigs [OF fs(1)] fit])
  have names: "distinct (map irf_name (filter has_body (irm_funcs (?M 0))))" using d by (simp add: distinct_map_filter)
  have res: "irf_name f \<in> known" if f: "f \<in> set fs" "\<not> has_body f" for f
  proof -
    obtain i where i: "i < length fs" "f = fs ! i" using f(1) by (auto simp: in_set_conv_nth)
    let ?g = "irm_funcs (declared_module 0 a) ! i"
    have "?g \<in> set (irm_funcs (declared_module 0 a))" "same_sig ?g f" using i fs(1) by (simp_all add: list_all2_conv_all_nth)
    then obtain b where "b \<in> set (mod_functions a)" "irf_ast f = b" "irf_name f = fname b"
      by (auto simp: declared_module_def declared_fn_def same_sig_def)
    then show ?thesis using f(2) ext by auto
  qed
  have fn: "f \<in> set fs" if "resolve_func ?M r = Ret f" for r f using that by (simp add: compiled_resolve)
  have r1: "\<forall>f \<in> set (irm_funcs (?M 0)). has_body f \<longrightarrow> (\<exists>g. fn_ready ?M f g)
       \<and> (\<forall>fid g. syms (jit_clif j) fid = Some (irf_name f, g) \<longrightarrow> defs (jit_clif j) fid = None)"
    using fs(2) j by (simp add: fresh_jit_def)
  have r2: "\<forall>name \<in> fun_names ?M \<union> fst ` ran (syms (jit_clif j)). name \<in> irf_name ` set (filter has_body (irm_funcs (?M 0)))
       \<or> name \<in> known \<or> (\<exists>fid g. syms (jit_clif j) fid = Some (name, g) \<and> defs (jit_clif j) fid \<noteq> None)"
    using j fn by (auto simp: fun_names_def fresh_jit_def dest!: fn intro!: imageI) (use res in blast)
  from jit_contract.jit_module_ok [OF jc inv agree fit' r1 names r2] show ?thesis
    unfolding compiled_program_funcs by (elim exE conjE) (intro exI conjI)
qed

subsection \<open>From source to machine code\<close>

text \<open>The functions of a module by name, and machine code that does what a body means: whatever the
  arguments, if the source of the body has a value, the code returns the words of that value and
  leaves the world the same way.\<close>

definition source_fn :: "ast_module \<Rightarrow> string \<Rightarrow> func_ref option" where
  "source_fn a x = map_option (\<lambda>i. \<lparr>fr_module = 0, fr_index = i\<rparr>) (iter_position (\<lambda>f. fname f = x) (mod_functions a))"

definition fn_means :: "fpu \<Rightarrow> 'w calls \<Rightarrow> 'w scalls \<Rightarrow> (string \<Rightarrow> func_ref option) \<Rightarrow> ir_function \<Rightarrow> expr \<Rightarrow> ('v, 'k, 'r) fview \<Rightarrow> bool" where
  "fn_means P X Z D f e F \<longleftrightarrow> (\<exists>k. fv_entry F = Some k \<and> (\<forall>n args vs vals vars w v frs w'.
     reps (param_types (irf_params f)) vs (map (\<lambda>x. [x]) args) \<longrightarrow> seval P Z D n e ([param_frame (irf_params f) vs], w) = Some (v, frs, w') \<longrightarrow>
     (\<exists>ys. rep (irf_ret_type f) (sig_returns (fv_sig F)) v ys \<and> length ys = length (sig_returns (fv_sig F))
        \<and> returns_from P X F (entry_config F k args vals vars w) ys w')))"

lemma source_module_fn: "module_fn (declared_program a) 0 = source_fn a"
  by (simp add: module_fn_def source_fn_def declared_module_def declared_fn_def iter_position_map fun_eq_iff)

lemma calls_of_sigs:
  assumes "same_sigs M M'"
  shows "calls_of M' X = calls_of M X"
proof
  fix r
  show "calls_of M' X r = calls_of M X r"
  proof (cases "resolve_func M r")
    case (Ret f)
    then obtain f' where "resolve_func M' r = Ret f'" "irf_name f' = irf_name f" using same_sigs_resolve [OF assms] by (auto simp: same_sig_def)
    with Ret show ?thesis by (simp add: calls_of_def)
  next
    case (Panic p)
    with same_sigs_resolve_none [OF assms Panic] show ?thesis by (simp add: calls_of_def)
  qed
qed

lemma implements_means:
  assumes "implements P X M f g F" and "body_means P (calls_of M X) Z D f e g" and "fn_ready M f g"
  shows "fn_means P X Z D f e F"
proof -
  have v: "\<forall>p \<in> set (irf_params f). word_ty (vs_ty p)" using assms(3) by (auto simp: fn_ready_def fn_vars_ok_def)
  then have "sig_params g = concat (map (\<lambda>p. ctys (vs_ty p)) (irf_params f))"
    using assms(3) fn_sig_params [of M f g] word_scalar by (auto simp: fn_ready_def)
  moreover have "length (concat (map (\<lambda>p. ctys (vs_ty p)) ps)) = length ps" if "\<forall>p \<in> set ps. word_ty (vs_ty p)" for ps
    using that
  proof (induction ps)
    case (Cons p ps)
    then have "length (ctys (vs_ty p)) = 1" by (cases "vs_ty p") (simp_all add: word_ty_def ctys_def)
    with Cons show ?case by simp
  qed simp
  ultimately have len: "length (sig_params g) = length (irf_params f)" using v by simp
  obtain k where k: "fv_entry F = Some k" "fv_sig F = g" "\<forall>n args vals vars w ys \<sigma>' w'. length args = length (sig_params g) \<longrightarrow>
      eval P (calls_of M X) n (irf_body f) (start_store M f args vars, w) = Some (ys, \<sigma>', w') \<longrightarrow>
      returns_from P X F (entry_config F k args vals vars w) ys w' \<and> length ys = length (sig_returns g)"
    using assms(1) by (auto simp: implements_def)
  have "\<exists>ys. rep (irf_ret_type f) (sig_returns g) v ys \<and> length ys = length (sig_returns g)
      \<and> returns_from P X F (entry_config F k args vals vars w) ys w'"
    if a: "reps (param_types (irf_params f)) vs (map (\<lambda>x. [x]) args)" "seval P Z D n e ([param_frame (irf_params f) vs], w) = Some (v, frs, w')"
    for n args vs vals vars w v frs w'
  proof -
    have "\<forall>i < length (irf_params f). start_store M f args vars i = args ! i" by (simp add: start_store_def)
    then obtain ys \<sigma>' where "eval P (calls_of M X) n (irf_body f) (start_store M f args vars, w) = Some (ys, \<sigma>', w')"
        "rep (irf_ret_type f) (sig_returns g) v ys"
      using assms(2) a unfolding body_means_def by blast
    then show ?thesis using k(3) reps_singles [OF a(1)] len by metis
  qed
  then show ?thesis using k(1,2) unfolding fn_means_def by blast
qed

text \<open>The code the JIT makes of a program, for all meanings of calls that fit the program: compiling
  and translating it depends on none of them.\<close>

lemma typed_module_code:
  assumes "jit_contract (tc_clif T) view blank syms P X exported defs known"
    and "fresh_jit blank syms defs (jit_new (tc_jit T) symbols)"
    and "\<forall>t. returns (tc_show T t)" and "\<forall>n \<le> 6. tc_buf T n = tc_buf T 0" and "typed_module a"
    and "calls_fit (declared_program a) X" and "calls_match (declared_program a) Z (calls_of (declared_program a) X)"
    and "\<forall>f \<in> set (mod_functions a). fn_body f = None \<longrightarrow> fname f \<in> known"
  shows "\<exists>h M j. module_compiler_consume (tc_buf T) (tc_show T) (module_compiler_new 0) (snd (compiler_new [a])) = Ret (Inr 0, h)
     \<and> jit_module (tc_clif T) 0 (h_mods h, jit_new (tc_jit T) symbols) = rret (M, j)
     \<and> (\<forall>f \<in> set (irm_funcs (declared_module 0 a)). \<forall>e. fn_body (irf_ast f) = Some e \<longrightarrow>
          (\<exists>fid F. get_name (tc_clif T) (irf_name f) (jit_clif j) = Some (FuncId fid) \<and> defs (jit_clif j) fid = Some F
            \<and> make_fn_sig (declared_program a) f \<lparr>sig_params = [], sig_returns = []\<rparr> = rret (fv_sig F) \<and> fn_means P X Z (source_fn a) f e F))"
proof -
  let ?Y = "calls_of (declared_program a) X"
  have a: "module_ready 0 a" using assms(5) by (simp add: typed_module_def)
  obtain fs h' where c: "module_compiler_consume (tc_buf T) (tc_show T) (module_compiler_new 0) (snd (compiler_new [a])) = Ret (Inr 0, h')"
      "h_mods h' = compiled_program a fs" "list_all2 same_sig (irm_funcs (declared_module 0 a)) fs"
      "\<forall>f \<in> set fs. ready_fn P ?Y Z (module_fn (declared_program a) 0) (compiled_program a fs) f"
    by (rule consume_typed [OF assms(5,3,4,7), of P])
  let ?M = "compiled_program a fs"
  have r: "\<forall>f \<in> set fs. irf_ir f = None \<and> (has_body f \<longrightarrow> (\<exists>g. fn_ready ?M f g))" using c(4) by (auto simp: ready_fn_def)
  obtain M' j' where j': "jit_module (tc_clif T) 0 (?M, jit_new (tc_jit T) symbols) = rret (M', j')"
     "\<forall>f \<in> set fs. has_body f \<longrightarrow> (\<exists>g fid F. fn_ready ?M f g \<and> get_name (tc_clif T) (irf_name f) (jit_clif j') = Some (FuncId fid)
          \<and> defs (jit_clif j') fid = Some F \<and> implements P X ?M f g F)"
    using compiled_program_jits [OF assms(1,2) a c(3) r assms(6,8)] by blast
  have "\<exists>fid F. get_name (tc_clif T) (irf_name f) (jit_clif j') = Some (FuncId fid) \<and> defs (jit_clif j') fid = Some F
      \<and> make_fn_sig (declared_program a) f \<lparr>sig_params = [], sig_returns = []\<rparr> = rret (fv_sig F) \<and> fn_means P X Z (source_fn a) f e F"
    if f: "f \<in> set (irm_funcs (declared_module 0 a))" "fn_body (irf_ast f) = Some e" for f e
  proof -
    obtain i where i: "i < length fs" "f = irm_funcs (declared_module 0 a) ! i" using f(1) list_all2_lengthD [OF c(3)] by (auto simp: in_set_conv_nth)
    have "fs ! i \<in> set fs" "same_sig f (fs ! i)" using i c(3) by (simp_all add: list_all2_conv_all_nth)
    then obtain f' where f': "f' \<in> set fs" "same_sig f f'" by blast
    then have e: "fn_body (irf_ast f') = Some e" using f(2) by (simp add: same_sig_def)
    obtain g fid F where F: "fn_ready ?M f' g" "get_name (tc_clif T) (irf_name f') (jit_clif j') = Some (FuncId fid)"
        "defs (jit_clif j') fid = Some F" "implements P X ?M f' g F" using j'(2) f'(1) e by auto
    obtain g' where g': "fn_ready ?M f' g'" "body_means P ?Y Z (module_fn (declared_program a) 0) f' e g'"
      using c(4) f'(1) e by (auto simp: ready_fn_def)
    have "g' = g" using F(1) g'(1) by (simp add: fn_ready_def)
    then have "fn_means P X Z (source_fn a) f' e F"
      using implements_means [OF F(4) _ F(1)] g'(2) by (simp add: source_module_fn calls_of_sigs [OF compiled_sigs [OF c(3)]])
    moreover have "fn_means P X Z (source_fn a) f e F = fn_means P X Z (source_fn a) f' e F" "irf_name f' = irf_name f"
      using f'(2) by (simp_all add: fn_means_def same_sig_def)
    moreover have "make_fn_sig (declared_program a) f k = make_fn_sig ?M f' k" for k
      by (rule make_fn_sig_classes) (use f'(2) in \<open>simp_all add: same_sigs_classes [OF compiled_sigs [OF c(3)]] same_sig_def\<close>)
    ultimately show ?thesis using F by (auto simp: fn_ready_def implements_def)
  qed
  then show ?thesis using c(1,2) j'(1) by auto
qed

end
