(* ===== verification/ParserRoundtrip.thy ===== *)
theory ParserRoundtrip
  imports ParserDecl
begin

section \<open>What the parser promises\<close>

text \<open>
  Totality of the parser on every token sequence, its fixed-point equations, a printer for
  expressions with the round trip through the parser, the shape two operators in a row get,
  and the behaviour on bad literals and after an error. The printer writes tokens with start
  0 and parenthesises compound operands; \<open>feed\<close> is the parser state in front of a list of
  tokens.
\<close>

subsection \<open>A printer for expressions\<close>

definition tok :: "tkind \<Rightarrow> string \<Rightarrow> token" where
  "tok k l = \<lparr>kind = k, lex = l, start = 0\<rparr>"

definition item_of :: "token \<Rightarrow> logos_item" where
  "item_of t = \<lparr>li_kind = kind t, li_slice = lex t, li_span_start = start t,
                li_span_end = start t + length (lex t)\<rparr>"

fun feed :: "error list \<Rightarrow> token list \<Rightarrow> parser" where
  "feed es [] = \<lparr>lexer = [], current = \<lparr>kind = TK_Error, lex = [CHR 0x00], start = 1\<rparr>, errors = es\<rparr>"
| "feed es (t # ts) = \<lparr>lexer = map item_of ts, current = t, errors = es\<rparr>"

fun show_nat :: "nat \<Rightarrow> string" where
  "show_nat n = (if n < 10 then [char_of (48 + n)] else show_nat (n div 10) @ [char_of (48 + n mod 10)])"

declare show_nat.simps [simp del]

fun lit_tok :: "literal \<Rightarrow> token" where
  "lit_tok (LBool b) = (if b then tok TK_True ''true'' else tok TK_False ''false'')"
| "lit_tok (LInt i) = tok TK_Int (show_nat (unat i))"
| "lit_tok (LFloat f) = tok TK_Float []"
| "lit_tok (LString s) = tok TK_String s"

fun atomic :: "expr \<Rightarrow> bool" where
  "atomic (Expr (ELiteral _) _) = True"
| "atomic (Expr (EIdentifier _) _) = True"
| "atomic (Expr (ECall _ _) _) = True"
| "atomic _ = False"

fun pr :: "expr \<Rightarrow> token list"
  and pr_items :: "expr list \<Rightarrow> token list"
  and pr_args :: "expr list \<Rightarrow> token list"
where
  "pr (Expr (ELiteral l) _) = [lit_tok l]"
| "pr (Expr (EIdentifier t) _) = [t]"
| "pr (Expr (EVariable final name v) _) =
     (if final then tok TK_Val ''val'' else tok TK_Var ''var'') # name # tok TK_Equal ''='' # pr v"
| "pr (Expr (EBlock es) _) = tok TK_LeftBrace [] # pr_items es @ [tok TK_RightBrace []]"
| "pr (Expr (EIf c t None) _) =
     tok TK_If ''if'' # tok TK_LeftParen [] # pr c @ tok TK_RightParen [] #
     tok TK_LeftParen [] # pr t @ [tok TK_RightParen []]"
| "pr (Expr (EIf c t (Some e)) _) =
     tok TK_If ''if'' # tok TK_LeftParen [] # pr c @ tok TK_RightParen [] #
     tok TK_LeftParen [] # pr t @ tok TK_RightParen [] #
     tok TK_Else ''else'' # tok TK_LeftParen [] # pr e @ [tok TK_RightParen []]"
| "pr (Expr (EWhile c b) _) =
     tok TK_While ''while'' # tok TK_LeftParen [] # pr c @ tok TK_RightParen [] #
     tok TK_LeftParen [] # pr b @ [tok TK_RightParen []]"
| "pr (Expr (EBinary l op r) _) =
     (if atomic l then pr l else tok TK_LeftParen [] # pr l @ [tok TK_RightParen []]) @ op #
     (if atomic r then pr r else tok TK_LeftParen [] # pr r @ [tok TK_RightParen []])"
| "pr (Expr (EUnary op r) _) =
     op # (if atomic r then pr r else tok TK_LeftParen [] # pr r @ [tok TK_RightParen []])"
| "pr (Expr (ECall f args) _) =
     (if atomic f then pr f else tok TK_LeftParen [] # pr f @ [tok TK_RightParen []]) @
     tok TK_LeftParen [] # pr_args args @ [tok TK_RightParen []]"
| "pr_items [] = []"
| "pr_items (e # es) = pr e @ pr_items es"
| "pr_args [] = []"
| "pr_args (e # es) = pr e @ (if es = [] then [] else tok TK_Comma [] # pr_args es)"

text \<open>A token that cannot continue the expression before it.\<close>

definition ends :: "tkind \<Rightarrow> bool" where
  "ends k \<longleftrightarrow> infix_binding_power k = None \<and> k \<noteq> TK_LeftParen \<and> k \<noteq> TK_Else"

definition follow :: "token list \<Rightarrow> bool" where
  "follow ts = (case ts of [] \<Rightarrow> True | t # _ \<Rightarrow> ends (kind t))"

fun plain_lit :: "literal \<Rightarrow> bool" where
  "plain_lit (LInt i) = (unat i < 2 ^ 63)"
| "plain_lit (LFloat _) = False"
| "plain_lit _ = True"

fun printable :: "expr \<Rightarrow> bool"
  and printable_items :: "expr list \<Rightarrow> bool"
  and printable_args :: "expr list \<Rightarrow> bool"
where
  "printable (Expr (ELiteral l) s) = (s = 0 \<and> plain_lit l)"
| "printable (Expr (EIdentifier t) s) = (s = 0 \<and> kind t = TK_Identifier \<and> start t = 0)"
| "printable (Expr (EVariable final name v) s) = False"
| "printable (Expr (EBlock es) s) = (s = 0 \<and> printable_items es)"
| "printable (Expr (EIf c t None) s) = (s = 0 \<and> printable c \<and> printable t)"
| "printable (Expr (EIf c t (Some e)) s) = (s = 0 \<and> printable c \<and> printable t \<and> printable e)"
| "printable (Expr (EWhile c b) s) = (s = 0 \<and> printable c \<and> printable b)"
| "printable (Expr (EBinary l op r) s) =
     (s = 0 \<and> printable l \<and> printable r \<and> start op = 0 \<and> infix_binding_power (kind op) \<noteq> None)"
| "printable (Expr (EUnary op r) s) =
     (s = 0 \<and> printable r \<and> start op = 0 \<and> prefix_binding_power (kind op) \<noteq> None)"
| "printable (Expr (ECall f args) s) = (s = 0 \<and> printable f \<and> printable_args args)"
| "printable_items [] = True"
| "printable_items (e # es) =
     ((case e of
         Expr (EVariable final name v) s \<Rightarrow> s = 0 \<and> kind name = TK_Identifier \<and> start name = 0 \<and> printable v
       | _ \<Rightarrow> printable e)
      \<and> printable_items es \<and> follow (pr_items es))"
| "printable_args [] = True"
| "printable_args (e # es) = (printable e \<and> printable_args es)"

definition opnd :: "expr \<Rightarrow> token list" where
  "opnd e = (if atomic e then pr e else tok TK_LeftParen [] # pr e @ [tok TK_RightParen []])"

lemma pr_opnd [simp]:
  "pr (Expr (EBinary l op r) s) = opnd l @ op # opnd r"
  "pr (Expr (EUnary op r) s) = op # opnd r"
  "pr (Expr (ECall f args) s) = opnd f @ tok TK_LeftParen [] # pr_args args @ [tok TK_RightParen []]"
  by (simp_all add: opnd_def)

declare pr.simps(8-10) [simp del]

lemma opnd_call: "opnd (Expr (ECall f args) s) = opnd f @ tok TK_LeftParen [] # pr_args args @ [tok TK_RightParen []]"
  by (simp add: opnd_def)

lemma printable_start: "printable e \<Longrightarrow> estart e = 0"
proof (cases e)
  case (Expr x s)
  assume "printable e"
  with Expr show ?thesis
  proof (cases x)
    case (EIf c t el)
    with Expr \<open>printable e\<close> show ?thesis by (cases el) auto
  qed auto
qed

lemma tok_simps [simp]: "kind (tok k l) = k" "lex (tok k l) = l" "start (tok k l) = 0"
  by (simp_all add: tok_def)

lemma current_feed [simp]: "current (feed es (t # ts)) = t"
  by simp

lemma kind_feed_Nil [simp]: "kind (current (feed es [])) = TK_Error"
  by simp

lemma advance_feed [simp]: "start t = 0 \<Longrightarrow> advance (feed es (t # ts)) = (t, feed es ts)"
  by (cases ts) (auto simp: advance_def lexer_next_def item_of_def)

declare feed.simps [simp del]

lemma check_feed [simp]: "check k (feed es (t # ts)) = (kind t = k)"
  by (simp add: check_def)

lemma consume_feed [simp]: "kind t = k \<Longrightarrow> start t = 0 \<Longrightarrow> consume k (feed es (t # ts)) = POk t (feed es ts)"
  by (simp add: consume_def)

lemma matches_feed [simp]:
  "start t = 0 \<Longrightarrow> matches k (feed es (t # ts)) = (if kind t = k then (True, feed es ts) else (False, feed es (t # ts)))"
  by (simp add: matches_def)

lemma ends_stops:
  "ends TK_RightParen" "ends TK_RightBrace" "ends TK_Comma"
  by (simp_all add: ends_def infix_binding_power_def)

lemma follow_Cons [simp]: "follow (t # ts) = ends (kind t)"
  by (simp add: follow_def)

lemma binary_loop_stop: "follow ts \<Longrightarrow> binary_loop self m e (feed es ts) = POk e (feed es ts)"
  by (cases ts) (auto simp: binary_loop_def ends_def)

lemma call_loop_stop: "ts = [] \<or> kind (hd ts) \<noteq> TK_LeftParen \<Longrightarrow> call_loop self e (feed es ts) = POk e (feed es ts)"
  by (cases ts) (auto simp: call_loop_def check_def)

lemma follow_not_paren: "follow ts \<Longrightarrow> ts = [] \<or> kind (hd ts) \<noteq> TK_LeftParen"
  by (cases ts) (auto simp: ends_def)

subsection \<open>Decimal literals\<close>

lemma digit_val_char: "d < 10 \<Longrightarrow> digit_val (char_of (48 + d)) = Some d"
  by (simp add: digit_val_def)

lemma digits_val_show: "digits_val (show_nat n @ ys) 0 = digits_val ys (int n)"
proof (induction n arbitrary: ys rule: show_nat.induct)
  case (1 n)
  show ?case
  proof (cases "n < 10")
    case True
    then show ?thesis by (subst show_nat.simps) (simp add: digit_val_char)
  next
    case False
    then have "digits_val (show_nat n @ ys) 0 = digits_val (char_of (48 + n mod 10) # ys) (int (n div 10))"
      using "1.IH" by (subst show_nat.simps) simp
    also have "\<dots> = digits_val ys (10 * int (n div 10) + int (n mod 10))"
      by (simp add: digit_val_char)
    also have "10 * int (n div 10) + int (n mod 10) = int n"
      by (simp add: zdiv_int zmod_int)
    finally show ?thesis .
  qed
qed

lemma show_nat_head: "\<exists>c cs. show_nat n = c # cs \<and> digit_val c \<noteq> None"
proof (induction n rule: show_nat.induct)
  case (1 n)
  then show ?case
    by (subst show_nat.simps) (auto simp: digit_val_char)
qed

lemma i64_from_show: "n < 2 ^ 63 \<Longrightarrow> i64_from_str (show_nat n) = Some (word_of_nat n)"
proof -
  assume n: "n < 2 ^ 63"
  obtain c cs where c: "show_nat n = c # cs" "digit_val c \<noteq> None" using show_nat_head by blast
  then have "c \<noteq> CHR ''-''" "c \<noteq> CHR ''+''" by (auto simp: digit_val_def)
  moreover have "digits_val (show_nat n) 0 = Some (int n)"
    using digits_val_show [of n "[]"] by simp
  moreover have "int n < 2 ^ 63" using n by simp
  ultimately show ?thesis using c by (simp add: i64_from_str_def)
qed

subsection \<open>Printed expressions parse back\<close>

definition atom_heads :: "tkind set" where
  "atom_heads = {TK_LeftParen, TK_False, TK_True, TK_String, TK_Int, TK_Identifier}"

lemma opnd_head: "printable e \<Longrightarrow> \<exists>t ts. opnd e = t # ts \<and> start t = 0 \<and> kind t \<in> atom_heads"
proof (induction e rule: measure_induct_rule [of size])
  case (less e)
  show ?case
  proof (cases e rule: atomic.cases)
    case (1 l s)
    with less.prems show ?thesis by (cases l) (auto simp: opnd_def atom_heads_def)
  next
    case (2 t s)
    with less.prems show ?thesis by (auto simp: opnd_def atom_heads_def)
  next
    case (3 f args s)
    with less.prems less.IH [of f] obtain t ts
      where "opnd f = t # ts" "start t = 0" "kind t \<in> atom_heads" by auto
    with 3 show ?thesis by (auto simp: opnd_call)
  qed (auto simp: opnd_def atom_heads_def)
qed

lemma atom_headsD:
  assumes "k \<in> atom_heads"
  shows "prefix_binding_power k = None" "k \<noteq> TK_LeftBrace" "k \<noteq> TK_If" "k \<noteq> TK_While"
    "k \<noteq> TK_Var" "k \<noteq> TK_Val" "k \<noteq> TK_Error" "k \<noteq> TK_RightBrace" "k \<noteq> TK_RightParen"
  using assms by (auto simp: atom_heads_def prefix_binding_power_def)

definition parses :: "(string \<Rightarrow> f64 option) \<Rightarrow> error list \<Rightarrow> expr \<Rightarrow> bool" where
  "parses pf es e \<longleftrightarrow>
     (\<forall>rest. follow rest \<longrightarrow> f_expression (self_fns pf) (feed es (pr e @ rest)) = POk e (feed es rest))"

definition parses_opnd :: "(string \<Rightarrow> f64 option) \<Rightarrow> error list \<Rightarrow> expr \<Rightarrow> bool" where
  "parses_opnd pf es e \<longleftrightarrow>
     (\<forall>rest. call pf (self_fns pf) (feed es (opnd e @ rest)) = call_loop (self_fns pf) e (feed es rest))"

lemma unary_opnd:
  assumes "printable e" "parses_opnd pf es e" "rest = [] \<or> kind (hd rest) \<noteq> TK_LeftParen"
  shows "unary pf (self_fns pf) (feed es (opnd e @ rest)) = POk e (feed es rest)"
proof -
  obtain t ts where t: "opnd e = t # ts" "kind t \<in> atom_heads" using opnd_head [OF assms(1)] by blast
  have "call pf (self_fns pf) (feed es (opnd e @ rest)) = call_loop (self_fns pf) e (feed es rest)"
    using assms(2) by (simp add: parses_opnd_def)
  with t atom_headsD(1) [OF t(2)] call_loop_stop [OF assms(3)] show ?thesis
    by (simp add: unary_def)
qed

lemma expression_opnd:
  assumes "printable e"
  shows "f_expression (self_fns pf) (feed es (opnd e @ rest)) = binary pf (self_fns pf) 0 (feed es (opnd e @ rest))"
proof -
  obtain t ts where t: "opnd e = t # ts" "kind t \<in> atom_heads" using opnd_head [OF assms(1)] by blast
  then show ?thesis
    by (simp add: self_fns_eqs(1) expression_def atom_headsD [OF t(2)])
qed

lemma parses_atomic:
  assumes "printable e" "atomic e" "parses_opnd pf es e"
  shows "parses pf es e"
  unfolding parses_def
proof (intro allI impI)
  fix rest assume "follow rest"
  then show "f_expression (self_fns pf) (feed es (pr e @ rest)) = POk e (feed es rest)"
    using expression_opnd [OF assms(1), of pf es rest] unary_opnd [OF assms(1,3) follow_not_paren] assms(2)
    by (simp add: opnd_def binary_def self_fns_eqs binary_loop_stop)
qed

lemma infix_not_paren: "infix_binding_power k \<noteq> None \<Longrightarrow> k \<noteq> TK_LeftParen"
  by (auto simp: infix_binding_power_def)

lemma parses_binary:
  assumes "printable (Expr (EBinary l op r) s)" "parses_opnd pf es l" "parses_opnd pf es r"
  shows "parses pf es (Expr (EBinary l op r) s)"
  unfolding parses_def
proof (intro allI impI)
  fix rest assume fol: "follow rest"
  from assms(1) obtain lbp rbp where p: "infix_binding_power (kind op) = Some (lbp, rbp)" by auto
  have l: "unary pf (self_fns pf) (feed es (opnd l @ op # opnd r @ rest)) = POk l (feed es (op # opnd r @ rest))"
    using assms p infix_not_paren [of "kind op"] by (intro unary_opnd) auto
  have r: "f_binary (self_fns pf) rbp (feed es (opnd r @ rest)) = POk r (feed es rest)"
    using assms fol by (simp add: self_fns_eqs binary_def unary_opnd [OF _ _ follow_not_paren] binary_loop_stop)
  have z: "s = 0" "start op = 0" "estart l = 0" using assms(1) printable_start [of l] by auto
  have "binary_loop (self_fns pf) 0 l (feed es (op # opnd r @ rest)) = POk (Expr (EBinary l op r) 0) (feed es rest)"
    using r p z fol binary_loop_stop [OF fol, of "self_fns pf" 0 "Expr (EBinary l op r) 0" es]
    by (subst binary_loop_def) (simp add: self_fns_eqs(4))
  then show "f_expression (self_fns pf) (feed es (pr (Expr (EBinary l op r) s) @ rest)) = POk (Expr (EBinary l op r) s) (feed es rest)"
    using expression_opnd [of l pf es "op # opnd r @ rest"] assms(1) l z
    by (simp add: pr_opnd binary_def self_fns_eqs(4))
qed

lemma parses_unary:
  assumes "printable (Expr (EUnary op r) s)" "parses_opnd pf es r"
  shows "parses pf es (Expr (EUnary op r) s)"
  unfolding parses_def
proof (intro allI impI)
  fix rest assume fol: "follow rest"
  from assms(1) obtain rbp where p: "prefix_binding_power (kind op) = Some rbp" by auto
  then have k: "kind op \<noteq> TK_LeftBrace" "kind op \<noteq> TK_If" "kind op \<noteq> TK_While"
    by (auto simp: prefix_binding_power_def)
  have r: "f_binary (self_fns pf) rbp (feed es (opnd r @ rest)) = POk r (feed es rest)"
    using assms fol by (simp add: self_fns_eqs binary_def unary_opnd [OF _ _ follow_not_paren] binary_loop_stop)
  have "unary pf (self_fns pf) (feed es (op # opnd r @ rest)) = POk (Expr (EUnary op r) 0) (feed es rest)"
    using p r assms(1) by (simp add: unary_def)
  then show "f_expression (self_fns pf) (feed es (pr (Expr (EUnary op r) s) @ rest)) = POk (Expr (EUnary op r) s) (feed es rest)"
    using k assms(1) binary_loop_stop [OF fol] by (simp add: self_fns_eqs expression_def binary_def)
qed

lemma parses_in_parens:
  assumes "parses pf es e"
  shows "f_expression (self_fns pf) (feed es (pr e @ tok TK_RightParen [] # rest))
         = POk e (feed es (tok TK_RightParen [] # rest))"
  using assms by (simp add: parses_def ends_stops)

lemma parses_wrapped:
  assumes "parses pf es e"
  shows "primary pf (self_fns pf) (feed es (tok TK_LeftParen [] # pr e @ tok TK_RightParen [] # rest)) = POk e (feed es rest)"
  by (simp add: primary_def parses_in_parens [OF assms])

lemma parses_wrapped_expr:
  assumes "parses pf es e" "rest = [] \<or> infix_binding_power (kind (hd rest)) = None \<and> kind (hd rest) \<noteq> TK_LeftParen"
  shows "f_expression (self_fns pf) (feed es (tok TK_LeftParen [] # pr e @ tok TK_RightParen [] # rest)) = POk e (feed es rest)"
proof -
  have "call_loop (self_fns pf) e (feed es rest) = POk e (feed es rest)"
    "binary_loop (self_fns pf) 0 e (feed es rest) = POk e (feed es rest)"
    using assms(2) by (cases rest; auto simp: call_loop_stop binary_loop_def)+
  with parses_wrapped [OF assms(1), of rest] show ?thesis
    by (simp add: self_fns_eqs(1,4,5) expression_def binary_def unary_def call_def prefix_binding_power_def)
qed

lemma follow_stops: "follow rest \<Longrightarrow> rest = [] \<or> infix_binding_power (kind (hd rest)) = None \<and> kind (hd rest) \<noteq> TK_LeftParen"
  by (cases rest) (auto simp: ends_def)

lemma matches_else_stop: "follow rest \<Longrightarrow> matches TK_Else (feed es rest) = (False, feed es rest)"
  by (cases rest) (auto simp: ends_def matches_def check_def)

lemma parses_opnd_nonatomic:
  assumes "\<not> atomic e" "parses pf es e"
  shows "parses_opnd pf es e"
  using assms parses_wrapped [OF assms(2)]
  by (simp add: parses_opnd_def opnd_def call_def self_fns_eqs(5))

lemma parses_opnd_literal:
  assumes "printable (Expr (ELiteral l) s)"
  shows "parses_opnd pf es (Expr (ELiteral l) s)"
  using assms by (cases l) (auto simp: parses_opnd_def opnd_def call_def primary_def self_fns_eqs(5) i64_from_show)

lemma parses_opnd_identifier:
  assumes "printable (Expr (EIdentifier t) s)"
  shows "parses_opnd pf es (Expr (EIdentifier t) s)"
  using assms by (auto simp: parses_opnd_def opnd_def call_def primary_def self_fns_eqs(5))

definition parses_args :: "(string \<Rightarrow> f64 option) \<Rightarrow> error list \<Rightarrow> expr list \<Rightarrow> bool" where
  "parses_args pf es xs \<longleftrightarrow>
     (\<forall>acc rest. f_args_loop (self_fns pf) acc (feed es (pr_args xs @ tok TK_RightParen [] # rest))
        = POk (acc @ xs) (feed es (tok TK_RightParen [] # rest)))"

definition parses_items :: "(string \<Rightarrow> f64 option) \<Rightarrow> error list \<Rightarrow> expr list \<Rightarrow> bool" where
  "parses_items pf es xs \<longleftrightarrow>
     (\<forall>acc rest. f_block_loop (self_fns pf) acc (feed es (pr_items xs @ tok TK_RightBrace [] # rest))
        = POk (acc @ xs) (feed es (tok TK_RightBrace [] # rest)))"

definition expr_heads :: "tkind set" where
  "expr_heads = atom_heads \<union> {TK_LeftBrace, TK_If, TK_While, TK_Minus, TK_Bang}"

lemma expr_headsD:
  assumes "k \<in> expr_heads"
  shows "k \<noteq> TK_Var" "k \<noteq> TK_Val" "k \<noteq> TK_Error" "k \<noteq> TK_RightBrace" "k \<noteq> TK_RightParen" "k \<noteq> TK_Else"
  using assms by (auto simp: expr_heads_def atom_heads_def)

lemma pr_head: "printable e \<Longrightarrow> \<exists>t ts. pr e = t # ts \<and> start t = 0 \<and> kind t \<in> expr_heads"
proof (cases "atomic e")
  case True
  assume "printable e"
  from opnd_head [OF this] True show ?thesis by (auto simp: opnd_def expr_heads_def)
next
  case False
  assume pr: "printable e"
  obtain x s where e: "e = Expr x s" by (cases e)
  show ?thesis
  proof (cases x)
    case (EIf c t el)
    with e pr show ?thesis by (cases el) (auto simp: expr_heads_def)
  next
    case (EBinary l op r)
    with e pr opnd_head [of l] show ?thesis by (auto simp: expr_heads_def)
  next
    case (EUnary op r)
    with e pr show ?thesis by (auto simp: expr_heads_def prefix_binding_power_def split: if_splits)
  qed (use e pr False in \<open>auto simp: expr_heads_def\<close>)
qed

lemma parses_opnd_call:
  assumes "printable (Expr (ECall f args) s)" "parses_opnd pf es f" "args \<noteq> [] \<Longrightarrow> parses_args pf es args"
  shows "parses_opnd pf es (Expr (ECall f args) s)"
proof -
  have z: "s = 0" "estart f = 0" using assms(1) printable_start [of f] by auto
  have "call_loop (self_fns pf) f (feed es (tok TK_LeftParen [] # pr_args args @ tok TK_RightParen [] # rest))
        = call_loop (self_fns pf) (Expr (ECall f args) 0) (feed es rest)" for rest
  proof (cases args)
    case Nil
    with z show ?thesis by (subst call_loop_def) (simp add: self_fns_eqs(5))
  next
    case (Cons a as)
    then obtain t ts where t: "pr a = t # ts" "kind t \<in> expr_heads"
      using assms(1) pr_head [of a] by auto
    have "f_args_loop (self_fns pf) [] (feed es (pr_args args @ tok TK_RightParen [] # rest))
          = POk args (feed es (tok TK_RightParen [] # rest))"
      using assms(3) Cons by (simp add: parses_args_def)
    with Cons z t expr_headsD(5) [OF t(2)] show ?thesis
      by (subst call_loop_def) (simp add: self_fns_eqs(5))
  qed
  then show ?thesis
    using assms(2) z unfolding parses_opnd_def opnd_call by simp
qed

lemma parses_args_Cons:
  assumes "parses pf es e" "xs \<noteq> [] \<Longrightarrow> parses_args pf es xs"
  shows "parses_args pf es (e # xs)"
  using assms by (auto simp: parses_args_def parses_def self_fns_eqs(6) args_loop_def ends_stops)

lemma expression_keyword:
  "kind t = TK_If \<Longrightarrow> f_expression (self_fns pf) (feed es (t # ts)) = if_expr (self_fns pf) (feed es (t # ts))"
  "kind t = TK_While \<Longrightarrow> f_expression (self_fns pf) (feed es (t # ts)) = while_stmt (self_fns pf) (feed es (t # ts))"
  "kind t = TK_LeftBrace \<Longrightarrow> f_expression (self_fns pf) (feed es (t # ts)) = block (self_fns pf) (feed es (t # ts))"
  by (simp_all add: self_fns_eqs(1) expression_def)

lemma parses_if:
  assumes "parses pf es c" "parses pf es t"
  shows "parses pf es (Expr (EIf c t None) 0)"
  using parses_wrapped_expr [OF assms(2) follow_stops]
  by (simp add: parses_def [of _ _ "Expr (EIf c t None) 0"] expression_keyword if_expr_def
      parses_in_parens [OF assms(1)] matches_else_stop)

lemma parses_if_else:
  assumes "parses pf es c" "parses pf es t" "parses pf es e"
  shows "parses pf es (Expr (EIf c t (Some e)) 0)"
  using parses_wrapped_expr [OF assms(3) follow_stops]
  by (simp add: parses_def [of _ _ "Expr (EIf c t (Some e)) 0"] expression_keyword if_expr_def
      parses_in_parens [OF assms(1)] parses_wrapped_expr [OF assms(2)] infix_binding_power_def)

lemma parses_while:
  assumes "parses pf es c" "parses pf es b"
  shows "parses pf es (Expr (EWhile c b) 0)"
  using parses_wrapped_expr [OF assms(2) follow_stops]
  by (simp add: parses_def [of _ _ "Expr (EWhile c b) 0"] expression_keyword while_stmt_def
      parses_in_parens [OF assms(1)])

lemma parses_block:
  assumes "parses_items pf es xs"
  shows "parses pf es (Expr (EBlock xs) 0)"
  using assms by (simp add: parses_def expression_keyword block_def parses_items_def)

lemma parses_items_Cons:
  assumes item: "\<And>rest. follow rest \<Longrightarrow> higher_expr (self_fns pf) (feed es (pr x @ rest)) = POk x (feed es rest)"
    and head: "\<exists>t ts. pr x = t # ts \<and> kind t \<noteq> TK_Error \<and> kind t \<noteq> TK_RightBrace"
    and "follow (pr_items xs)" and "parses_items pf es xs"
  shows "parses_items pf es (x # xs)"
  unfolding parses_items_def
proof (intro allI)
  fix acc rest
  let ?more = "pr_items xs @ tok TK_RightBrace [] # rest"
  have "follow ?more" using assms(3) by (cases "pr_items xs") (auto simp: ends_stops)
  from item [OF this] head assms(4)
  show "f_block_loop (self_fns pf) acc (feed es (pr_items (x # xs) @ tok TK_RightBrace [] # rest))
        = POk (acc @ x # xs) (feed es (tok TK_RightBrace [] # rest))"
    by (subst self_fns_eqs(2)) (auto simp: block_loop_def is_at_end_def parses_items_def)
qed

lemma higher_expr_plain:
  assumes "printable e" "parses pf es e" "follow rest"
  shows "higher_expr (self_fns pf) (feed es (pr e @ rest)) = POk e (feed es rest)"
proof -
  obtain t ts where t: "pr e = t # ts" "kind t \<in> expr_heads" using pr_head [OF assms(1)] by blast
  then show ?thesis
    using assms(2,3) expr_headsD [OF t(2)] by (simp add: higher_expr_def check_any_def parses_def)
qed

lemma higher_expr_var:
  assumes "parses pf es v" "kind name = TK_Identifier" "start name = 0" "follow rest"
  shows "higher_expr (self_fns pf) (feed es (pr (Expr (EVariable final name v) 0) @ rest))
         = POk (Expr (EVariable final name v) 0) (feed es rest)"
  using assms by (auto simp: higher_expr_def check_any_def var_decl_def parses_def)

lemma printed_parses:
  "(printable e \<longrightarrow> parses pf es e \<and> parses_opnd pf es e)
   \<and> (\<forall>final name v s. e = Expr (EVariable final name v) s \<and> printable v \<longrightarrow> parses pf es v)"
  "printable_items xs \<Longrightarrow> parses_items pf es xs"
  "printable_args ys \<Longrightarrow> ys \<noteq> [] \<Longrightarrow> parses_args pf es ys"
proof (induction e and xs and ys rule: pr_pr_items_pr_args.induct)
  case (1 l s)
  then show ?case using parses_opnd_literal parses_atomic by fastforce
next
  case (2 t s)
  then show ?case using parses_opnd_identifier parses_atomic by fastforce
next
  case (4 es' s)
  then show ?case using parses_block parses_opnd_nonatomic by fastforce
next
  case (5 c t s)
  then show ?case using parses_if parses_opnd_nonatomic by fastforce
next
  case (6 c t e s)
  then show ?case using parses_if_else parses_opnd_nonatomic by fastforce
next
  case (7 c b s)
  then show ?case using parses_while parses_opnd_nonatomic by fastforce
next
  case (8 l op r s)
  then show ?case using parses_binary parses_opnd_nonatomic by fastforce
next
  case (9 op r s)
  then show ?case using parses_unary parses_opnd_nonatomic by fastforce
next
  case (10 f args s)
  then show ?case using parses_opnd_call parses_atomic by fastforce
next
  case 11
  show ?case by (simp add: parses_items_def self_fns_eqs(2) block_loop_def)
next
  case (12 e xs)
  show ?case
  proof (cases "\<exists>final name v s. e = Expr (EVariable final name v) s")
    case True
    then obtain final name v s where e: "e = Expr (EVariable final name v) s" by blast
    with 12 show ?thesis
      by (intro parses_items_Cons) (use higher_expr_var [of pf es v name _ final] in auto)
  next
    case False
    with 12 have p: "printable e" by (auto split: expr.splits eexpr.splits)
    with 12 pr_head [OF p] show ?thesis
      by (intro parses_items_Cons higher_expr_plain) (auto dest: expr_headsD)
  qed
next
  case (14 e xs)
  then show ?case using parses_args_Cons by fastforce
qed auto

subsection \<open>Two operators in a row\<close>

lemma binary_opnd_stop:
  assumes "printable c" "parses_opnd pf es c" "follow rest"
  shows "f_binary (self_fns pf) m (feed es (opnd c @ rest)) = POk c (feed es rest)"
  using assms by (simp add: self_fns_eqs binary_def unary_opnd [OF _ _ follow_not_paren] binary_loop_stop)

lemma binary_loop_last:
  assumes "printable c" "parses_opnd pf es c" "follow rest"
    and "infix_binding_power (kind op) = Some (lbp, rbp)" "start op = 0" "m \<le> lbp"
  shows "binary_loop (self_fns pf) m b (feed es (op # opnd c @ rest))
         = POk (Expr (EBinary b op c) (estart b)) (feed es rest)"
  using binary_opnd_stop [OF assms(1-3), of rbp] binary_loop_stop [OF assms(3)] assms(4-)
  by (subst binary_loop_def) (simp add: self_fns_eqs(4))

definition nest :: "expr \<Rightarrow> token \<Rightarrow> expr \<Rightarrow> token \<Rightarrow> expr \<Rightarrow> expr" where
  "nest a op b op' c =
     (case (infix_binding_power (kind op), infix_binding_power (kind op')) of
        (Some (_, r), Some (l, _)) \<Rightarrow>
          (if l < r then Expr (EBinary (Expr (EBinary a op b) 0) op' c) 0
           else Expr (EBinary a op (Expr (EBinary b op' c) 0)) 0)
      | _ \<Rightarrow> a)"

lemma parses_two_operators:
  assumes p: "printable a" "printable b" "printable c" and fol: "follow rest"
    and o1: "infix_binding_power (kind op) = Some (l1, r1)" "start op = 0"
    and o2: "infix_binding_power (kind op') = Some (l2, r2)" "start op' = 0"
  shows "f_expression (self_fns pf) (feed es (opnd a @ op # opnd b @ op' # opnd c @ rest))
         = POk (nest a op b op' c) (feed es rest)"
proof -
  have ops: "parses_opnd pf es a" "parses_opnd pf es b" "parses_opnd pf es c"
    using p printed_parses(1) [of _ pf es] by auto
  have z: "estart a = 0" "estart b = 0" using p printable_start by auto
  have ua: "unary pf (self_fns pf) (feed es (opnd a @ op # opnd b @ op' # opnd c @ rest))
            = POk a (feed es (op # opnd b @ op' # opnd c @ rest))"
    using o1 infix_not_paren [of "kind op"] by (intro unary_opnd p ops) auto
  have ub: "unary pf (self_fns pf) (feed es (opnd b @ op' # opnd c @ rest)) = POk b (feed es (op' # opnd c @ rest))"
    using o2 infix_not_paren [of "kind op'"] by (intro unary_opnd p ops) auto
  note last = binary_loop_last [OF p(3) ops(3) fol o2]
  have "binary_loop (self_fns pf) 0 a (feed es (op # opnd b @ op' # opnd c @ rest)) = POk (nest a op b op' c) (feed es rest)"
  proof (cases "l2 < r1")
    case True
    then have "binary_loop (self_fns pf) r1 b (feed es (op' # opnd c @ rest)) = POk b (feed es (op' # opnd c @ rest))"
      using o2 by (simp add: binary_loop_def)
    with True ub o1 o2 z last [of 0 "Expr (EBinary a op b) 0"] show ?thesis
      by (subst binary_loop_def) (simp add: self_fns_eqs(3,4) binary_def nest_def)
  next
    case False
    with ub o1 o2 z last [of r1 b] binary_loop_stop [OF fol] show ?thesis
      by (subst binary_loop_def) (simp add: self_fns_eqs(3,4) binary_def nest_def)
  qed
  with ua show ?thesis
    using expression_opnd [OF p(1)] by (simp add: binary_def self_fns_eqs(4))
qed

subsection \<open>Properties\<close>


text \<open>C12: on every token sequence the parser finishes at the end of the input with either a
  module and no recorded error or a non-empty list of errors; it panics only when a literal
  ahead is one that \<open>from_str\<close> rejects.\<close>

theorem parse_total:
  "case parse pf path s of
     POk (Inr m) s' \<Rightarrow> is_at_end s' \<and> errors s' = [] \<and> mod_path m = path
   | POk (Inl es) s' \<Rightarrow> is_at_end s' \<and> es \<noteq> [] \<and> es = errors s' \<and> (\<exists>new. es = errors s @ new)
   | PErr _ _ \<Rightarrow> False
   | PPanic _ \<Rightarrow> \<not> lits_ok pf s
   | PFuel \<Rightarrow> False"
  using parse_loop_ok [of pf s "[]" "[]"] parse_loop_at_end [of pf "[]" "[]" s]
  by (cases "parse_loop pf [] [] s") (auto simp: parse_def decl_ok_def)

text \<open>Parsing what the printer writes for an expression gives that expression back and
  leaves exactly the tokens after it, for every printable expression and every continuation
  that cannot extend it.\<close>

lemma expression_roundtrip:
  assumes "printable e" and "follow rest"
  shows "f_expression (self_fns pf) (feed es (pr e @ rest)) = POk e (feed es rest)"
  using printed_parses(1) [of e pf es] assms by (simp add: parses_def)

lemma expression_roundtrip_witness:
  "f_expression (self_fns (\<lambda>_. None))
     (feed [] (pr (Expr (EIf (Expr (EBinary (Expr (EIdentifier (tok TK_Identifier ''a'')) 0) (tok TK_Less ''<'')
                              (Expr (ELiteral (LInt 4)) 0)) 0)
                 (Expr (EBlock [Expr (EVariable True (tok TK_Identifier ''b'') (Expr (ELiteral (LInt 3)) 0)) 0,
                                Expr (ECall (Expr (EIdentifier (tok TK_Identifier ''f'')) 0)
                                        [Expr (EIdentifier (tok TK_Identifier ''b'')) 0]) 0]) 0)
                 (Some (Expr (EUnary (tok TK_Bang ''!'') (Expr (ELiteral (LBool True)) 0)) 0))) 0)
               @ [tok TK_RightBrace ''}'']))
   = POk (Expr (EIf (Expr (EBinary (Expr (EIdentifier (tok TK_Identifier ''a'')) 0) (tok TK_Less ''<'')
                              (Expr (ELiteral (LInt 4)) 0)) 0)
                 (Expr (EBlock [Expr (EVariable True (tok TK_Identifier ''b'') (Expr (ELiteral (LInt 3)) 0)) 0,
                                Expr (ECall (Expr (EIdentifier (tok TK_Identifier ''f'')) 0)
                                        [Expr (EIdentifier (tok TK_Identifier ''b'')) 0]) 0]) 0)
                 (Some (Expr (EUnary (tok TK_Bang ''!'') (Expr (ELiteral (LBool True)) 0)) 0))) 0)
     (feed [] [tok TK_RightBrace ''}''])"
  by (rule expression_roundtrip)
    (simp_all add: infix_binding_power_def prefix_binding_power_def ends_stops ends_def follow_def opnd_def)

text \<open>C14: for two operators in a row the second joins the right operand unless it binds
  weaker than the first one's right power. As every right power is one below the left power,
  operators of the same level nest to the right: the source text \<open>a - b - c\<close> is read as
  \<open>a - (b - c)\<close>.\<close>

theorem operators_nest:
  assumes "printable a" and "printable b" and "printable c" and "follow rest"
    and "infix_binding_power (kind op) = Some (l1, r1)" and "start op = 0"
    and "infix_binding_power (kind op') = Some (l2, r2)" and "start op' = 0"
  shows "f_expression (self_fns pf) (feed es (opnd a @ op # opnd b @ op' # opnd c @ rest))
         = POk (if l2 < r1 then Expr (EBinary (Expr (EBinary a op b) 0) op' c) 0
                else Expr (EBinary a op (Expr (EBinary b op' c) 0)) 0) (feed es rest)
         \<and> (l1 = l2 \<longrightarrow>
              f_expression (self_fns pf) (feed es (opnd a @ op # opnd b @ op' # opnd c @ rest))
              = POk (Expr (EBinary a op (Expr (EBinary b op' c) 0)) 0) (feed es rest))"
  using parses_two_operators [OF assms] infix_powers [OF assms(5)] assms(5,7)
  by (auto simp: nest_def)

theorem operators_nest_witness:
  "f_expression (self_fns (\<lambda>_. None))
     (feed [] (opnd (Expr (ELiteral (LInt 5)) 0) @ tok TK_Minus ''-'' # opnd (Expr (ELiteral (LInt 2)) 0)
               @ tok TK_Minus ''-'' # opnd (Expr (ELiteral (LInt 1)) 0) @ []))
   = POk (Expr (EBinary (Expr (ELiteral (LInt 5)) 0) (tok TK_Minus ''-'')
            (Expr (EBinary (Expr (ELiteral (LInt 2)) 0) (tok TK_Minus ''-'') (Expr (ELiteral (LInt 1)) 0)) 0)) 0)
       (feed [] [])"
  using operators_nest [of "Expr (ELiteral (LInt 5)) 0" "Expr (ELiteral (LInt 2)) 0" "Expr (ELiteral (LInt 1)) 0"
      "[]" "tok TK_Minus ''-''" 16 15 "tok TK_Minus ''-''" 16 15 "\<lambda>_. None" "[]"]
  by (simp add: follow_def infix_binding_power_def)

text \<open>C34: an integer token the scanner accepts but \<open>i64::from_str\<close> rejects (a width suffix
  such as \<open>5u8\<close>, or a value of 2 to the 63 or more) makes the parser panic instead of
  reporting an error.\<close>

theorem bad_int_panics:
  assumes "kind t = TK_Int" and "i64_from_str (lex t) = None"
  shows "f_expression (self_fns pf) (feed es (t # ts)) = PPanic UnwrapOnErr"
  using assms
  by (simp add: self_fns_eqs(1) expression_def binary_def unary_def call_def primary_def
      prefix_binding_power_def case_prod_beta)

theorem bad_int_panics_witness:
  "f_expression (self_fns (\<lambda>_. None)) (feed [] [tok TK_Int ''5u8'']) = PPanic UnwrapOnErr"
  by (rule bad_int_panics) (simp_all add: i64_from_str_def digit_val_def)

text \<open>C35: after a stray token, recovery skips to the next \<open>fun\<close> and consumes it, so the
  function it introduces is not parsed: its name is reported as a second stray declaration
  and recovery starts over behind it.\<close>

theorem recovery_drops_next_function:
  assumes "kind t \<notin> {TK_Class, TK_Fun, TK_Extern, TK_Error}" and "start t = 0"
    and "kind name = TK_Identifier" and "start name = 0" and "start nxt = 0"
  shows "parse_loop pf fs cs (feed es (t # tok TK_Fun ''fun'' # name # nxt # rest))
         = parse_loop pf fs cs
             (synchronize (push_error (error_new 0 E102) (push_error (error_new 0 E102) (feed es (nxt # rest)))))"
proof -
  have sync: "synchronize (push_error x (feed es (tok TK_Fun ''fun'' # ts))) = push_error x (feed es ts)" for x ts
    by (subst synchronize_step) (cases ts; simp add: is_at_end_def push_error_def feed.simps
        advance_def lexer_next_def item_of_def)
  have adv: "snd (advance (push_error x (feed es (name # nxt # rest)))) = push_error x (feed es (nxt # rest))" for x
    using assms(4) by (simp add: push_error_def feed.simps advance_def lexer_next_def item_of_def)
  have cur: "current (push_error x s) = current s" for x s by (simp add: push_error_def)
  have "parse_loop pf fs cs (feed es (t # tok TK_Fun ''fun'' # name # nxt # rest))
        = parse_loop pf fs cs (push_error (error_new 0 E102) (feed es (name # nxt # rest)))"
    using assms(1,2) by (subst parse_loop_step) (simp add: is_at_end_def Let_def sync)
  also have "\<dots> = parse_loop pf fs cs
      (synchronize (push_error (error_new 0 E102) (push_error (error_new 0 E102) (feed es (nxt # rest)))))"
    using assms(3,5) by (subst parse_loop_step) (simp add: is_at_end_def Let_def adv cur)
  finally show ?thesis .
qed

theorem recovery_drops_next_function_witness:
  "parse_loop (\<lambda>_. None) [] []
     (feed [] (tok TK_Plus ''+'' # tok TK_Fun ''fun'' # tok TK_Identifier ''main'' # tok TK_LeftParen ''('' # []))
   = parse_loop (\<lambda>_. None) [] []
       (synchronize (push_error (error_new 0 E102)
          (push_error (error_new 0 E102) (feed [] (tok TK_LeftParen ''('' # [])))))"
  by (rule recovery_drops_next_function) simp_all

end
