(* ===== verification/ModuleRoundtrip.thy ===== *)
theory ModuleRoundtrip
  imports ParserRoundtrip
begin

section \<open>Printing and parsing modules\<close>

text \<open>
  The printer of \<open>ParserRoundtrip\<close> for whole modules: functions with their parameters and types,
  functions of the host, and classes with members, methods and functions, in the order the parser
  collects them. What it writes is parsed back to the module.
\<close>

definition ident_tok :: "token \<Rightarrow> bool" where
  "ident_tok t \<longleftrightarrow> kind t = TK_Identifier \<and> start t = 0"

fun pr_params :: "parameter list \<Rightarrow> token list" where
  "pr_params [] = []"
| "pr_params [p] = [tok TK_Identifier (par_name p), tok TK_Colon '':'', aty_name (par_ty p)]"
| "pr_params (p # ps) = tok TK_Identifier (par_name p) # tok TK_Colon '':'' # aty_name (par_ty p) # tok TK_Comma '','' # pr_params ps"

definition pr_function :: "ast_function \<Rightarrow> token list" where
  "pr_function f = fn_name f # tok TK_LeftParen ''('' # pr_params (fn_params f) @ tok TK_RightParen '')'' #
     (case fn_ret_type f of None \<Rightarrow> [] | Some t \<Rightarrow> [tok TK_Arrow ''->'', aty_name t])
     @ (case fn_body f of None \<Rightarrow> [] | Some e \<Rightarrow> pr e)"

definition pr_member :: "member \<Rightarrow> token list" where
  "pr_member m = [if mem_mutable m then tok TK_Var ''var'' else tok TK_Val ''val'', mem_name m, tok TK_Colon '':'', aty_name (mem_ty m)]"

definition pr_class :: "ast_class \<Rightarrow> token list" where
  "pr_class c = cls_name c # tok TK_LeftBrace ''{'' # concat (map pr_member (cls_members c))
     @ concat (map (\<lambda>f. tok TK_Fun ''fun'' # pr_function f) (cls_methods c))
     @ concat (map (\<lambda>f. tok TK_Static ''static'' # tok TK_Fun ''fun'' # pr_function f) (cls_functions c)) @ [tok TK_RightBrace ''}'']"

definition pr_decl :: "ast_function \<Rightarrow> token list" where
  "pr_decl f = (if fn_body f = None then [tok TK_Extern ''extern''] else []) @ tok TK_Fun ''fun'' # pr_function f"

definition pr_module :: "ast_module \<Rightarrow> token list" where
  "pr_module m = concat (map (\<lambda>c. tok TK_Class ''class'' # pr_class c) (mod_classes m)) @ concat (map pr_decl (mod_functions m))"

definition printable_function :: "ast_function \<Rightarrow> bool" where
  "printable_function f \<longleftrightarrow> ident_tok (fn_name f) \<and> (\<forall>p \<in> set (fn_params f). ident_tok (aty_name (par_ty p)))
     \<and> (case fn_ret_type f of None \<Rightarrow> True | Some t \<Rightarrow> ident_tok (aty_name t)) \<and> (case fn_body f of None \<Rightarrow> True | Some e \<Rightarrow> printable e)"

definition printable_class :: "ast_class \<Rightarrow> bool" where
  "printable_class c \<longleftrightarrow> ident_tok (cls_name c) \<and> (\<forall>m \<in> set (cls_members c). ident_tok (mem_name m) \<and> ident_tok (aty_name (mem_ty m)))
     \<and> (\<forall>f \<in> set (cls_methods c @ cls_functions c). printable_function f \<and> fn_body f \<noteq> None)"

definition printable_module :: "ast_module \<Rightarrow> bool" where
  "printable_module m \<longleftrightarrow> (\<forall>c \<in> set (mod_classes m). printable_class c) \<and> (\<forall>f \<in> set (mod_functions m). printable_function f)"

text \<open>What follows a declaration.\<close>

definition decl_heads :: "tkind set" where
  "decl_heads = {TK_Class, TK_Fun, TK_Extern, TK_RightBrace, TK_Static, TK_Val, TK_Var}"

definition decl_next :: "token list \<Rightarrow> bool" where
  "decl_next ts \<longleftrightarrow> ts = [] \<or> start (hd ts) = 0 \<and> kind (hd ts) \<in> decl_heads"

lemma decl_next_Cons [simp]: "decl_next (tok k l # ts) \<longleftrightarrow> k \<in> decl_heads"
  by (simp add: decl_next_def)

lemma decl_follow: "decl_next ts \<Longrightarrow> follow ts"
  by (cases ts) (auto simp: decl_next_def decl_heads_def follow_def ends_def infix_binding_power_def)

lemma decl_no_arrow: "decl_next ts \<Longrightarrow> matches TK_Arrow (feed es ts) = (False, feed es ts)"
  by (cases ts) (auto simp: decl_next_def decl_heads_def matches_def check_def)

lemma parse_typ_feed [simp]: "ident_tok t \<Longrightarrow> parse_typ (feed es (t # ts)) = POk (AType t) (feed es ts)"
  by (simp add: parse_typ_def ident_tok_def)

lemma consume_ident [simp]: "ident_tok t \<Longrightarrow> consume TK_Identifier (feed es (t # ts)) = POk t (feed es ts)"
  by (simp add: ident_tok_def)

lemma params_parse:
  "\<forall>p \<in> set ps. ident_tok (aty_name (par_ty p)) \<Longrightarrow> ps \<noteq> [] \<Longrightarrow>
   params_loop qs (feed es (pr_params ps @ tok TK_RightParen l # ts)) = POk (qs @ ps) (feed es (tok TK_RightParen l # ts))"
proof (induction ps arbitrary: qs rule: pr_params.induct)
  case (2 p)
  then show ?case by (subst params_loop.simps) simp
next
  case (3 p p' ps)
  then show ?case by (subst params_loop.simps) simp
qed simp

lemma function_parses:
  assumes "printable_function f" and "decl_next ts"
  shows "parse_function pf (fn_body f = None) (feed es (pr_function f @ ts)) = POk f (feed es ts)"
proof -
  let ?body = "case fn_body f of None \<Rightarrow> [] | Some e \<Rightarrow> pr e"
  let ?ret = "(case fn_ret_type f of None \<Rightarrow> [] | Some t \<Rightarrow> [tok TK_Arrow ''->'', aty_name t]) @ ?body @ ts"
  have ps: "(if \<not> check TK_RightParen (feed es (pr_params (fn_params f) @ tok TK_RightParen '')'' # us))
       then params_loop [] (feed es (pr_params (fn_params f) @ tok TK_RightParen '')'' # us)) else POk [] (feed es (pr_params (fn_params f) @ tok TK_RightParen '')'' # us)))
     = POk (fn_params f) (feed es (tok TK_RightParen '')'' # us))" for us
  proof (cases "fn_params f")
    case (Cons p ps)
    then have "\<exists>us'. pr_params (fn_params f) = tok TK_Identifier (par_name p) # us'" by (cases ps) auto
    moreover have "\<forall>p \<in> set (fn_params f). ident_tok (aty_name (par_ty p))" using assms(1) by (simp add: printable_function_def)
    ultimately show ?thesis using params_parse [of "fn_params f" "[]" es "'')''" us] Cons by auto
  qed simp
  have no: "matches TK_Arrow (feed es (?body @ ts)) = (False, feed es (?body @ ts))"
  proof (cases "fn_body f")
    case None
    then show ?thesis using decl_no_arrow [OF assms(2)] by simp
  next
    case (Some e)
    then have "printable e" using assms(1) by (simp add: printable_function_def)
    then obtain t us where "pr e = t # us" "start t = 0" "kind t \<in> expr_heads" using pr_head by blast
    then show ?thesis using Some by (auto simp: expr_heads_def atom_heads_def)
  qed
  have ret: "(let (m, s) = matches TK_Arrow (feed es ?ret) in if m then pbind (parse_typ s) (\<lambda>ty s. POk (Some ty) s) else POk None s)
     = POk (fn_ret_type f) (feed es (?body @ ts))"
    using no assms(1) by (cases "fn_ret_type f") (simp_all add: printable_function_def)
  have body: "(if fn_body f \<noteq> None then pbind (f_expression (self_fns pf) (feed es (?body @ ts))) (\<lambda>body s. POk (Some body) s)
       else POk None (feed es (?body @ ts))) = POk (fn_body f) (feed es ts)"
    using printed_parses(1) [of _ pf es] assms(1) decl_follow [OF assms(2)]
    by (cases "fn_body f") (auto simp: parses_def printable_function_def)
  have "ident_tok (fn_name f)" using assms(1) by (simp add: printable_function_def)
  then show ?thesis
    unfolding parse_function_def pr_function_def by (simp add: ps) (subst ret [unfolded Let_def], use body in simp)
qed

lemma decl_next_append:
  assumes "decl_next ts" and "\<And>x. \<exists>t us. f x = t # us \<and> start t = 0 \<and> kind t \<in> decl_heads"
  shows "decl_next (concat (map f xs) @ ts)"
proof (cases xs)
  case (Cons x ys)
  obtain t us where "f x = t # us" "start t = 0" "kind t \<in> decl_heads" using assms(2) by blast
  with Cons show ?thesis by (simp add: decl_next_def)
qed (simp add: assms(1))

lemma functions_parse:
  assumes "printable_function f" and "fn_body f \<noteq> None" and "decl_next ts"
  shows "parse_function pf False (feed es (pr_function f @ ts)) = POk f (feed es ts)"
  using function_parses [OF assms(1,3)] assms(2) by simp

lemma member_parses:
  "ident_tok (mem_name m) \<Longrightarrow> ident_tok (aty_name (mem_ty m)) \<Longrightarrow>
   class_loop pf ms mt fs (feed es (pr_member m @ ts)) = class_loop pf (ms @ [m]) mt fs (feed es ts)"
  by (subst class_loop.simps, cases m) (simp add: pr_member_def parse_member_def)

lemma method_parses:
  "printable_function f \<Longrightarrow> fn_body f \<noteq> None \<Longrightarrow> decl_next ts \<Longrightarrow>
   class_loop pf ms mt fs (feed es (tok TK_Fun l # pr_function f @ ts)) = class_loop pf ms (mt @ [f]) fs (feed es ts)"
  by (subst class_loop.simps) (simp add: functions_parse)

lemma static_parses:
  "printable_function f \<Longrightarrow> fn_body f \<noteq> None \<Longrightarrow> decl_next ts \<Longrightarrow>
   class_loop pf ms mt fs (feed es (tok TK_Static l # tok TK_Fun l' # pr_function f @ ts)) = class_loop pf ms mt (fs @ [f]) (feed es ts)"
  by (subst class_loop.simps) (simp add: functions_parse)

lemma members_parse:
  "\<forall>m \<in> set xs. ident_tok (mem_name m) \<and> ident_tok (aty_name (mem_ty m)) \<Longrightarrow>
   class_loop pf ms mt fs (feed es (concat (map pr_member xs) @ ts)) = class_loop pf (ms @ xs) mt fs (feed es ts)"
  by (induction xs arbitrary: ms) (simp_all add: member_parses)

lemma methods_parse:
  "\<forall>f \<in> set xs. printable_function f \<and> fn_body f \<noteq> None \<Longrightarrow> decl_next ts \<Longrightarrow>
   class_loop pf ms mt fs (feed es (concat (map (\<lambda>f. tok TK_Fun ''fun'' # pr_function f) xs) @ ts)) = class_loop pf ms (mt @ xs) fs (feed es ts)"
proof (induction xs arbitrary: mt)
  case (Cons x xs)
  have "decl_next (concat (map (\<lambda>f. tok TK_Fun ''fun'' # pr_function f) xs) @ ts)"
    by (rule decl_next_append [OF Cons.prems(2)]) (simp add: decl_heads_def)
  with Cons show ?case by (simp add: method_parses)
qed simp

lemma statics_parse:
  "\<forall>f \<in> set xs. printable_function f \<and> fn_body f \<noteq> None \<Longrightarrow> decl_next ts \<Longrightarrow>
   class_loop pf ms mt fs (feed es (concat (map (\<lambda>f. tok TK_Static ''static'' # tok TK_Fun ''fun'' # pr_function f) xs) @ ts)) =
   class_loop pf ms mt (fs @ xs) (feed es ts)"
proof (induction xs arbitrary: fs)
  case (Cons x xs)
  have "decl_next (concat (map (\<lambda>f. tok TK_Static ''static'' # tok TK_Fun ''fun'' # pr_function f) xs) @ ts)"
    by (rule decl_next_append [OF Cons.prems(2)]) (simp add: decl_heads_def)
  with Cons show ?case by (simp add: static_parses)
qed simp

lemma class_parses:
  assumes "printable_class c"
  shows "parse_class pf (feed es (pr_class c @ ts)) = POk c (feed es ts)"
proof -
  let ?brace = "tok TK_RightBrace ''}'' # ts"
  have e: "decl_next ?brace" by (simp add: decl_heads_def)
  have st: "decl_next (concat (map (\<lambda>f. tok TK_Static ''static'' # tok TK_Fun ''fun'' # pr_function f) (cls_functions c)) @ ?brace)"
    by (rule decl_next_append [OF e]) (simp add: decl_heads_def)
  have "class_loop pf ms mt fs (feed es ?brace) = POk (ms, mt, fs) (feed es ?brace)" for ms mt fs by (subst class_loop.simps) simp
  with assms show ?thesis
    by (simp add: parse_class_def pr_class_def printable_class_def members_parse methods_parse [OF _ st] statics_parse [OF _ e])
qed

lemma is_at_end_feed [simp]: "kind t \<noteq> TK_Error \<Longrightarrow> \<not> is_at_end (feed es (t # ts))"
  by (simp add: is_at_end_def)

lemma classes_parse:
  "\<forall>c \<in> set xs. printable_class c \<Longrightarrow>
   parse_loop pf fs cs (feed es (concat (map (\<lambda>c. tok TK_Class ''class'' # pr_class c) xs) @ ts)) = parse_loop pf fs (cs @ xs) (feed es ts)"
proof (induction xs arbitrary: cs)
  case (Cons x xs)
  then show ?case by (subst parse_loop_step) (simp add: make_cls_def class_parses)
qed simp

lemma decl_parses:
  assumes "printable_function f" and "decl_next ts"
  shows "parse_loop pf fs cs (feed es (pr_decl f @ ts)) = parse_loop pf (fs @ [f]) cs (feed es ts)"
  using function_parses [OF assms, of pf es]
  by (subst parse_loop_step) (cases "fn_body f"; simp add: pr_decl_def make_fn_def)

lemma decls_parse:
  "\<forall>f \<in> set xs. printable_function f \<Longrightarrow>
   parse_loop pf fs cs (feed es (concat (map pr_decl xs))) = POk (fs @ xs, cs) (feed es [])"
proof (induction xs arbitrary: fs)
  case Nil
  then show ?case by (subst parse_loop_step) (simp add: is_at_end_def)
next
  case (Cons x xs)
  have "decl_next (concat (map pr_decl xs) @ [])"
    by (rule decl_next_append) (auto simp: decl_next_def pr_decl_def decl_heads_def)
  with Cons show ?case by (simp add: decl_parses)
qed

lemma module_parses:
  assumes "printable_module m"
  shows "parse pf (mod_path m) (feed [] (pr_module m)) = POk (Inr m) (feed [] [])"
  using assms by (simp add: parse_def pr_module_def printable_module_def classes_parse decls_parse) (simp add: feed.simps)

text \<open>C4: parsing what the printer writes for a module gives the module back, with its functions,
  its host functions and its classes in order, and uses up the input, for every printable module. The
  parser cannot even start on an empty source: it panics, and only then.\<close>

theorem module_roundtrip:
  assumes "printable_module m"
  shows "(case parser_new (map item_of (pr_module m)) of
      Ret s \<Rightarrow> parse pf (mod_path m) s = POk (Inr m) (feed [] []) \<and> pr_module m \<noteq> []
    | Panic p \<Rightarrow> p = UnwrapOnNone \<and> mod_functions m = [] \<and> mod_classes m = [])"
proof (cases "pr_module m")
  case Nil
  then have "mod_functions m = []" "mod_classes m = []" by (auto simp: pr_module_def pr_decl_def)
  with Nil show ?thesis by (simp add: parser_new_def lexer_next_def)
next
  case (Cons t ts)
  then have "parser_new (map item_of (pr_module m)) = Ret (feed [] (pr_module m))"
    by (simp add: parser_new_def lexer_next_def item_of_def feed.simps)
  with Cons show ?thesis using module_parses [OF assms] by simp
qed

definition point_module :: ast_module where
  "point_module = \<lparr>mod_path = [''geo''], mod_functions =
     [\<lparr>fn_name = tok TK_Identifier ''print'', fn_params = [\<lparr>par_name = ''p'', par_ty = AType (tok TK_Identifier ''Point'')\<rparr>],
       fn_ret_type = None, fn_body = None\<rparr>,
      \<lparr>fn_name = tok TK_Identifier ''main'', fn_params = [], fn_ret_type = Some (AType (tok TK_Identifier ''i64'')),
       fn_body = Some (Expr (EBlock [Expr (ELiteral (LInt 7)) 0]) 0)\<rparr>],
     mod_classes = [\<lparr>cls_name = tok TK_Identifier ''Point'',
       cls_members = [\<lparr>mem_name = tok TK_Identifier ''x'', mem_ty = AType (tok TK_Identifier ''i64''), mem_mutable = True\<rparr>],
       cls_methods = [\<lparr>fn_name = tok TK_Identifier ''get'', fn_params = [], fn_ret_type = Some (AType (tok TK_Identifier ''i64'')),
         fn_body = Some (Expr (EIdentifier (tok TK_Identifier ''x'')) 0)\<rparr>], cls_functions = []\<rparr>]\<rparr>"

theorem module_roundtrip_witness:
  "case parser_new (map item_of (pr_module point_module)) of
      Ret s \<Rightarrow> parse (\<lambda>_. None) [''geo''] s = POk (Inr point_module) (feed [] [])
    | Panic p \<Rightarrow> False"
proof -
  have "printable_module point_module"
    by (simp add: printable_module_def point_module_def printable_class_def printable_function_def ident_tok_def follow_def)
  from module_roundtrip [OF this, of "\<lambda>_. None"] show ?thesis by (auto simp: point_module_def split: outcome.splits)
qed

end
