(* ===== verification/LinkedPrograms.thy ===== *)
theory LinkedPrograms
  imports TypedPrograms ModuleRoundtrip
begin

section \<open>Programs that run\<close>

text \<open>
  The last step: what calls of the program's own functions mean is no parameter any more. In the
  source, a call of a function with a body evaluates the body; in the machine code, it runs the
  code the JIT defined under the name. Functions without a body are the host's.
\<close>

subsection \<open>Calls in the source\<close>

text \<open>The arguments a function takes: one of the kind of each parameter.\<close>

fun fits :: "ty \<Rightarrow> val \<Rightarrow> bool" where
  "fits TBool (BoolV _) = True"
| "fits TI64 (IntV _) = True"
| "fits TF64 (FloatV _) = True"
| "fits (TFunction r) (FunV r') \<longleftrightarrow> r = r'"
| "fits _ _ = False"

text \<open>\<open>E\<close> is what the functions of the host do. \<open>n\<close> bounds the depth of the calls and the rounds of
  every loop.\<close>

definition call_source :: "fpu \<Rightarrow> 'w scalls \<Rightarrow> 'w scalls \<Rightarrow> ast_module \<Rightarrow> nat \<Rightarrow> 'w scalls" where
  "call_source P Z E a n r vs w =
     (case resolve_func (declared_program a) r of
        Panic _ \<Rightarrow> None
      | Ret f \<Rightarrow>
          (case fn_body (irf_ast f) of
             None \<Rightarrow> E r vs w
           | Some e \<Rightarrow>
               if list_all2 fits (map vs_ty (irf_params f)) vs
               then map_option (\<lambda>(v, _, w). (v, w)) (seval P Z (source_fn a) n e ([param_frame (irf_params f) vs], w))
               else None))"

primrec run_source :: "fpu \<Rightarrow> 'w scalls \<Rightarrow> ast_module \<Rightarrow> nat \<Rightarrow> 'w scalls" where
  "run_source P E a 0 = (\<lambda>r vs w. None)"
| "run_source P E a (Suc n) = call_source P (run_source P E a n) E a n"

text \<open>The functions of the host alone, in the source and in the machine.\<close>

definition host_source :: "ast_module \<Rightarrow> 'w scalls \<Rightarrow> 'w scalls" where
  "host_source a E r vs w =
     (case resolve_func (declared_program a) r of
        Panic _ \<Rightarrow> None
      | Ret f \<Rightarrow> if has_body f then None else E r vs w)"

definition own_names :: "ast_module \<Rightarrow> string set" where
  "own_names a = fname ` {f \<in> set (mod_functions a). fn_body f \<noteq> None}"

subsection \<open>Calls in the machine\<close>

text \<open>A call runs the code of the name, or the host's function if the name is not one of the
  program's own. The registers and variables a function starts with are what \<open>G\<close> says.\<close>

inductive runs_call for P :: fpu and Xe :: "'w calls" and own :: "string set" and code :: "string \<rightharpoonup> ('v, 'k, 'r) fview"
    and G :: "string \<Rightarrow> u64 list \<Rightarrow> 'w \<Rightarrow> ('v \<Rightarrow> u64) \<times> (nat \<Rightarrow> u64)" where
  host: "name \<notin> own \<Longrightarrow> Xe name args w = Some (ys, w') \<Longrightarrow> runs_call P Xe own code G name args w ys w'"
| code: "code name = Some F \<Longrightarrow> fv_entry F = Some k \<Longrightarrow> (vals, vars) = G name args w \<Longrightarrow>
    returns_from P X F (entry_config F k args vals vars w) ys w' \<Longrightarrow>
    \<forall>name' as u zs u'. X name' as u = Some (zs, u') \<longrightarrow> runs_call P Xe own code G name' as u zs u' \<Longrightarrow>
    runs_call P Xe own code G name args w ys w'"

definition jit_code :: "('b, 'v, 'k, 'r, 'm) clif \<Rightarrow> ('m \<Rightarrow> nat \<rightharpoonup> ('v, 'k, 'r) fview) \<Rightarrow> ('b, 'm) jit \<Rightarrow> string \<rightharpoonup> ('v, 'k, 'r) fview" where
  "jit_code C defs j name = (case get_name C name (jit_clif j) of Some (FuncId fid) \<Rightarrow> defs (jit_clif j) fid | _ \<Rightarrow> None)"

subsection \<open>Values and words\<close>

lemma rep_fits:
  assumes "rep t [ct] v xs" and "fits p v"
  shows "rep p cs v xs \<and> length xs = 1"
proof (cases v)
  case (BoolV b)
  then show ?thesis using assms by (cases t; cases p) auto
next
  case (IntV b)
  then show ?thesis using assms by (cases t; cases p) auto
next
  case (FloatV b)
  then show ?thesis using assms by (cases t; cases p) auto
next
  case (FunV b)
  then show ?thesis using assms by (cases t; cases p) auto
qed (use assms in \<open>cases p; auto\<close>)+

lemma rep_unique:
  assumes "rep p cs v xs" and "rep p cs' v' xs" and "fits p v"
  shows "v' = v"
  using assms by (cases p; cases v) auto

lemma reps_fit:
  assumes "reps ts vs xss" and "concat (map snd ts) = cs" and "list_all2 fits (map vs_ty ps) vs"
    and "ps = [] \<and> cs = [] \<or> (\<exists>p c. ps = [p] \<and> cs = [c])"
  obtains args where "xss = map (\<lambda>x. [x]) args" and "concat xss = args" and "reps (param_types ps) vs xss"
proof (cases "ps = []")
  case True
  then have "vs = []" using assms(3) by simp
  then have "xss = []" using assms(1) by (cases ts; cases xss) auto
  with \<open>vs = []\<close> True show ?thesis by (intro that [of "[]"]) (simp_all add: param_types_def)
next
  case False
  then obtain p c where p: "ps = [p]" "cs = [c]" using assms(4) by auto
  then obtain v where v: "vs = [v]" "fits (vs_ty p) v" using assms(3) by (cases vs) auto
  then obtain t xs where t: "ts = [t]" "xss = [xs]" "rep (fst t) (snd t) v xs"
    using assms(1) by (cases ts; cases xss; auto elim: reps.elims)
  then have "snd t = [c]" using assms(2) p(2) by simp
  then have "rep (vs_ty p) (ctys (vs_ty p)) v xs \<and> length xs = 1" using rep_fits [of "fst t" c v xs] t(3) v(2) by simp
  then obtain x where "xs = [x]" "rep (vs_ty p) (ctys (vs_ty p)) v [x]" by (cases xs) auto
  then show ?thesis using t(2) v(1) p(1) by (intro that [of "[x]"]) (simp_all add: param_types_def)
qed

lemma reps_unique:
  assumes "reps (param_types ps) vs xss" and "reps (param_types ps) us xss" and "list_all2 fits (map vs_ty ps) vs"
  shows "us = vs"
  using assms
proof (induction ps arbitrary: vs us xss)
  case (Cons p ps)
  obtain v vs' where vs: "vs = v # vs'" using Cons.prems(3) by (cases vs) auto
  obtain xs xss' u us' where "xss = xs # xss'" "us = u # us'"
    using Cons.prems(1,2) vs by (cases xss; cases us) (auto simp: param_types_def)
  with Cons vs show ?case using rep_unique by (auto simp: param_types_def)
next
  case Nil
  then show ?case by (cases us; cases xss) (auto simp: param_types_def)
qed

subsection \<open>Linking\<close>

lemma declared_resolve:
  "resolve_func (declared_program a) r = Ret f \<longleftrightarrow>
   fr_module r = 0 \<and> fr_index r < length (mod_functions a) \<and> f = irm_funcs (declared_module 0 a) ! fr_index r"
proof -
  have "compiled_program a (irm_funcs (declared_module 0 a)) = declared_program a" by (simp add: compiled_program_def fun_upd_idem_iff)
  then show ?thesis using compiled_resolve [of a "irm_funcs (declared_module 0 a)" r f] by (simp add: declared_module_def)
qed

lemma declared_names:
  assumes "typed_module a" and "resolve_func (declared_program a) r = Ret f" and "resolve_func (declared_program a) r' = Ret f'"
    and "irf_name f = irf_name f'"
  shows "r = r'"
proof -
  have "distinct (map fname (mod_functions a))" using assms(1) by (simp add: typed_module_def module_ready_def)
  then have "fr_index r = fr_index r'"
    using assms(2-4) by (auto simp: declared_resolve declared_module_def declared_fn_def distinct_conv_nth)
  then show ?thesis using assms(2,3) by (simp add: declared_resolve)
qed

lemma declared_own:
  assumes "typed_module a" and "resolve_func (declared_program a) r = Ret f"
  shows "irf_name f \<in> own_names a \<longleftrightarrow> has_body f"
proof -
  have "distinct (map fname (mod_functions a))" using assms(1) by (simp add: typed_module_def module_ready_def)
  then show ?thesis
    using assms(2) by (auto simp: own_names_def declared_resolve declared_module_def declared_fn_def distinct_conv_nth in_set_conv_nth)
qed

lemma declared_mem: "resolve_func (declared_program a) r = Ret f \<Longrightarrow> f \<in> set (irm_funcs (declared_module 0 a))"
  by (simp add: declared_resolve declared_module_def)

text \<open>Code that does what the functions of a program mean, while calls do \<open>X\<close> and mean \<open>Z\<close>.\<close>

definition code_means :: "fpu \<Rightarrow> 'w calls \<Rightarrow> 'w scalls \<Rightarrow> ast_module \<Rightarrow> (string \<rightharpoonup> ('v, 'k, 'r) fview) \<Rightarrow> bool" where
  "code_means P X Z a code \<longleftrightarrow> (\<forall>f \<in> set (irm_funcs (declared_module 0 a)). \<forall>e. fn_body (irf_ast f) = Some e \<longrightarrow>
     (\<exists>F. code (irf_name f) = Some F \<and> make_fn_sig (declared_program a) f \<lparr>sig_params = [], sig_returns = []\<rparr> = rret (fv_sig F)
        \<and> fn_means P X Z (source_fn a) f e F))"

text \<open>Calls the machine makes.\<close>

definition justified :: "('w calls) \<Rightarrow> (string \<Rightarrow> u64 list \<Rightarrow> 'w \<Rightarrow> u64 list \<Rightarrow> 'w \<Rightarrow> bool) \<Rightarrow> bool" where
  "justified X R \<longleftrightarrow> (\<forall>name args w ys w'. X name args w = Some (ys, w') \<longrightarrow> R name args w ys w')"

lemma own_call:
  assumes "code_means P X (run_source P E a n) a code" and "justified X (runs_call P Xe own code G)"
    and "resolve_func (declared_program a) r = Ret f" and "has_body f"
    and "run_source P E a (Suc n) r vs w = Some (v, w')" and "reps (param_types (irf_params f)) vs (map (\<lambda>x. [x]) args)"
  shows "\<exists>g ys. fn_sig (declared_program a) r = Some g \<and> rep (irf_ret_type f) (sig_returns g) v ys \<and> length ys = length (sig_returns g)
    \<and> runs_call P Xe own code G (irf_name f) args w ys w'"
proof -
  obtain e where e: "fn_body (irf_ast f) = Some e" using assms(4) by auto
  obtain frs where s: "seval P (run_source P E a n) (source_fn a) n e ([param_frame (irf_params f) vs], w) = Some (v, frs, w')"
    using assms(3,5) e by (auto simp: call_source_def split: if_splits)
  obtain F where F: "code (irf_name f) = Some F" "make_fn_sig (declared_program a) f \<lparr>sig_params = [], sig_returns = []\<rparr> = rret (fv_sig F)"
      "fn_means P X (run_source P E a n) (source_fn a) f e F"
    using assms(1) declared_mem [OF assms(3)] e unfolding code_means_def by blast
  obtain vals vars where G: "(vals, vars) = G (irf_name f) args w" by (metis surj_pair)
  obtain k ys where k: "fv_entry F = Some k" "rep (irf_ret_type f) (sig_returns (fv_sig F)) v ys" "length ys = length (sig_returns (fv_sig F))"
      "returns_from P X F (entry_config F k args vals vars w) ys w'"
    using F(3) assms(6) s unfolding fn_means_def by blast
  have "runs_call P Xe own code G (irf_name f) args w ys w'"
    using assms(2) unfolding justified_def
    by (rule runs_call.code [where code = code and G = G, OF F(1) k(1) G k(4)])
  moreover have "fn_sig (declared_program a) r = Some (fv_sig F)" using F(2) assms(3) by (simp add: fn_sig_def rret_def)
  ultimately show ?thesis using k(2,3) by blast
qed

lemma typed_params:
  assumes "typed_module a" and "resolve_func (declared_program a) r = Ret f" and "has_body f" and "fn_sig (declared_program a) r = Some g"
  shows "irf_params f = [] \<and> sig_params g = [] \<or> (\<exists>p c. irf_params f = [p] \<and> sig_params g = [c])"
proof -
  obtain e g' where e: "typed_body (declared_program a) 0 f e g'"
    using assms(1,3) declared_mem [OF assms(2)] by (auto simp: typed_module_def typed_fn_def) blast
  then have g: "make_fn_sig (declared_program a) f \<lparr>sig_params = [], sig_returns = []\<rparr> = rret g" 
    using assms(2,4) by (auto simp: typed_body_def fn_sig_def rret_def)
  show ?thesis
  proof (cases "irf_params f = []")
    case True
    then show ?thesis using fn_sig_params [OF g] by simp
  next
    case False
    then obtain p where p: "irf_params f = [p]" "word_ty (vs_ty p)" using e by (auto simp: typed_body_def length_Suc_conv)
    then have "sig_params g = ctys (vs_ty p)" using fn_sig_params [OF g] word_scalar [OF p(2)] by simp
    moreover have "\<exists>c. ctys (vs_ty p) = [c]" using p(2) by (cases "vs_ty p") (simp_all add: word_ty_def ctys_def)
    ultimately show ?thesis using p(1) by auto
  qed
qed

text \<open>What the calls do at the next depth: one result the code has, for arguments that stand for
  values the source gives a result for.\<close>

definition own_result :: "fpu \<Rightarrow> 'w scalls \<Rightarrow> ast_module \<Rightarrow> nat \<Rightarrow> (string \<Rightarrow> u64 list \<Rightarrow> 'w \<Rightarrow> u64 list \<Rightarrow> 'w \<Rightarrow> bool) \<Rightarrow>
    string \<Rightarrow> u64 list \<Rightarrow> 'w \<Rightarrow> u64 list \<times> 'w \<Rightarrow> bool" where
  "own_result P E a n R name args w p \<longleftrightarrow> (\<exists>r f g vs v. resolve_func (declared_program a) r = Ret f \<and> irf_name f = name \<and> has_body f
     \<and> fn_sig (declared_program a) r = Some g \<and> reps (param_types (irf_params f)) vs (map (\<lambda>x. [x]) args)
     \<and> run_source P E a n r vs w = Some (v, snd p) \<and> rep (irf_ret_type f) (sig_returns g) v (fst p)
     \<and> length (fst p) = length (sig_returns g) \<and> R name args w (fst p) (snd p))"

definition own_calls :: "fpu \<Rightarrow> 'w scalls \<Rightarrow> ast_module \<Rightarrow> nat \<Rightarrow> (string \<Rightarrow> u64 list \<Rightarrow> 'w \<Rightarrow> u64 list \<Rightarrow> 'w \<Rightarrow> bool) \<Rightarrow> 'w calls \<Rightarrow> 'w calls" where
  "own_calls P E a n R Xe name args w =
     (if name \<notin> own_names a then Xe name args w
      else if \<exists>p. own_result P E a n R name args w p then Some (SOME p. own_result P E a n R name args w p) else None)"

lemma own_callsD:
  assumes "own_calls P E a n R Xe name args w = Some p" and "name \<in> own_names a"
  shows "own_result P E a n R name args w p"
  using assms by (auto simp: own_calls_def split: if_splits intro: someI)

lemma own_calls_match:
  assumes "typed_module a" and "code_means P X (run_source P E a n) a code" and "justified X (runs_call P Xe (own_names a) code G)"
    and "calls_match (declared_program a) (host_source a E) (calls_of (declared_program a) Xe)"
  shows "calls_match (declared_program a) (run_source P E a (Suc n))
    (calls_of (declared_program a) (own_calls P E a (Suc n) (runs_call P Xe (own_names a) code G) Xe))"
    (is "calls_match ?M ?Z (calls_of ?M ?X)")
  unfolding calls_match_def
proof (intro allI impI)
  fix r f g ts vs xss w v w'
  assume r: "resolve_func ?M r = Ret f" "fn_sig ?M r = Some g" "reps ts vs xss" "concat (map snd ts) = sig_params g" "?Z r vs w = Some (v, w')"
  show "\<exists>ys. calls_of ?M ?X r (concat xss) w = Some (ys, w') \<and> rep (irf_ret_type f) (sig_returns g) v ys"
  proof (cases "has_body f")
    case False
    then have "host_source a E r vs w = Some (v, w')" using r(1,5) by (simp add: host_source_def call_source_def)
    then have "\<exists>ys. calls_of ?M Xe r (concat xss) w = Some (ys, w') \<and> rep (irf_ret_type f) (sig_returns g) v ys"
      using assms(4) r(1-4) unfolding calls_match_def by blast
    moreover have "?X (irf_name f) as u = Xe (irf_name f) as u" for as u
      using False declared_own [OF assms(1) r(1)] by (simp add: own_calls_def)
    ultimately show ?thesis using r(1) by (simp add: calls_of_def)
  next
    case True
    have fit: "list_all2 fits (map vs_ty (irf_params f)) vs"
      using r(1,5) True by (auto simp: call_source_def split: if_splits option.splits)
    obtain args where args: "xss = map (\<lambda>x. [x]) args" "concat xss = args" "reps (param_types (irf_params f)) vs xss"
      by (rule reps_fit [OF r(3,4) fit typed_params [OF assms(1) r(1) True r(2)]])
    let ?P = "own_result P E a (Suc n) (runs_call P Xe (own_names a) code G) (irf_name f) args w"
    have vs: "reps (param_types (irf_params f)) vs (map (\<lambda>x. [x]) args)" using args(1,3) by simp
    obtain ys where "rep (irf_ret_type f) (sig_returns g) v ys" "length ys = length (sig_returns g)"
        "runs_call P Xe (own_names a) code G (irf_name f) args w ys w'"
      using own_call [OF assms(2,3) r(1) True r(5) vs] r(2) by auto
    then have "?P (ys, w')" unfolding own_result_def fst_conv snd_conv using r(1,2,5) True vs by blast
    then have "\<exists>p. ?P p" ..
    then obtain q where q: "?X (irf_name f) args w = Some q"
      unfolding own_calls_def using declared_own [OF assms(1) r(1)] True by simp
    obtain r' f' g' us u where o: "resolve_func ?M r' = Ret f'" "irf_name f' = irf_name f" "fn_sig ?M r' = Some g'"
        "reps (param_types (irf_params f')) us (map (\<lambda>x. [x]) args)" "?Z r' us w = Some (u, snd q)" "rep (irf_ret_type f') (sig_returns g') u (fst q)"
      using own_callsD [OF q] declared_own [OF assms(1) r(1)] True unfolding own_result_def by blast
    have "r' = r" by (rule declared_names [OF assms(1) o(1) r(1) o(2)])
    with o r(1,2) have f: "f' = f" "g' = g" by simp_all
    have "us = vs" using reps_unique [OF args(3) _ fit] o(4) args(1) f by simp
    then have "u = v" "snd q = w'" using o(5) r(5) \<open>r' = r\<close> by simp_all
    then show ?thesis using q o(6) f r(1) args(2) by (cases q) (auto simp: calls_of_def)
  qed
qed

lemma own_calls_fit:
  assumes "typed_module a" and "calls_fit (declared_program a) Xe"
  shows "calls_fit (declared_program a) (own_calls P E a n R Xe)"
  unfolding calls_fit_def
proof (intro allI impI)
  fix r f g xs w ys w'
  assume r: "resolve_func (declared_program a) r = Ret f" "fn_sig (declared_program a) r = Some g"
    "own_calls P E a n R Xe (irf_name f) xs w = Some (ys, w')"
  show "length ys = length (sig_returns g)"
  proof (cases "irf_name f \<in> own_names a")
    case True
    then obtain r' f' g' where o: "resolve_func (declared_program a) r' = Ret f'" "irf_name f' = irf_name f" "fn_sig (declared_program a) r' = Some g'"
        "length ys = length (sig_returns g')"
      using own_callsD [OF r(3)] unfolding own_result_def by auto
    have "r' = r" by (rule declared_names [OF assms(1) o(1) r(1) o(2)])
    then show ?thesis using o(3,4) r(2) by simp
  next
    case False
    then have "Xe (irf_name f) xs w = Some (ys, w')" using r(3) by (simp add: own_calls_def)
    then show ?thesis using assms(2) r(1,2) unfolding calls_fit_def by blast
  qed
qed

lemma own_calls_justified:
  "justified (own_calls P E a n (runs_call P Xe (own_names a) code G) Xe) (runs_call P Xe (own_names a) code G)"
  unfolding justified_def
proof (intro allI impI)
  fix name args w ys w'
  assume x: "own_calls P E a n (runs_call P Xe (own_names a) code G) Xe name args w = Some (ys, w')"
  show "runs_call P Xe (own_names a) code G name args w ys w'"
  proof (cases "name \<in> own_names a")
    case True
    then show ?thesis using own_callsD [OF x] by (auto simp: own_result_def)
  next
    case False
    then show ?thesis using x by (auto simp: own_calls_def intro: runs_call.host)
  qed
qed

lemma linked:
  fixes Xe :: "'w calls"
  assumes "typed_module a" and "calls_fit (declared_program a) Xe"
    and "calls_match (declared_program a) (host_source a E) (calls_of (declared_program a) Xe)"
    and "\<And>(X :: 'w calls) Z. calls_fit (declared_program a) X \<Longrightarrow> calls_match (declared_program a) Z (calls_of (declared_program a) X) \<Longrightarrow> code_means P X Z a code"
  shows "\<exists>X. code_means P X (run_source P E a n) a code \<and> justified X (runs_call P Xe (own_names a) code G)"
proof (induction n)
  case 0
  have "code_means P (\<lambda>_ _ _. None) (run_source P E a 0) a code" by (rule assms(4)) (simp_all add: calls_fit_def calls_match_def)
  then show ?case by (auto simp: justified_def intro: exI [of _ "\<lambda>_ _ _. None"])
next
  case (Suc n)
  then obtain X where X: "code_means P X (run_source P E a n) a code" "justified X (runs_call P Xe (own_names a) code G)" by blast
  show ?case
    using assms(4) [OF own_calls_fit [OF assms(1,2)] own_calls_match [OF assms(1) X assms(3)]] own_calls_justified by blast
qed

subsection \<open>From source to result\<close>

text \<open>
  C1: a program runs as its source says. Take a source that parses to a module the checker
  accepts, and a code generator that keeps its contract whatever calls do. Then \<open>execute_module\<close>
  compiles and translates the module without a panic and calls \<open>main\<close>. For every function with a
  body and arguments of its types, if evaluating the source, the calls it makes and theirs
  included, gives a value, then the machine code defined under the name of the function, calling
  the code of the other functions and the host's, returns words that stand for the value and
  leaves the world the same way, whatever the registers hold at each entry. \<open>E\<close> says what the
  host's functions mean and \<open>Xe\<close> what they do; the two must agree.
\<close>

theorem typed_module_runs:
  fixes T :: "('b, 'v, 'k, 'r, 'm, 'jb, 't) toolchain" and Xe :: "'w calls"
  assumes "\<forall>X :: 'w calls. jit_contract (tc_clif T) view blank syms P X exported defs known"
    and "fresh_jit blank syms defs (jit_new (tc_jit T) symbols)"
    and "\<forall>t. returns (tc_show T t)" and "\<forall>n \<le> 6. tc_buf T n = tc_buf T 0"
    and "parse_source T program [''script''] = rret (Inr a)" and "typed_module a"
    and "\<forall>f \<in> set (mod_functions a). fn_body f = None \<longrightarrow> fname f \<in> known"
    and "calls_fit (declared_program a) Xe" and "calls_match (declared_program a) (host_source a E) (calls_of (declared_program a) Xe)"
  shows "\<exists>j. execute_module T program symbols = rbind (exec (tc_clif T) (tc_call T) ''main'' j) (\<lambda>t. rret (Inr t))
     \<and> (\<forall>G n r f vs args w v w'. resolve_func (declared_program a) r = Ret f \<longrightarrow> has_body f \<longrightarrow>
          run_source P E a n r vs w = Some (v, w') \<longrightarrow> reps (param_types (irf_params f)) vs (map (\<lambda>x. [x]) args) \<longrightarrow>
          (\<exists>g ys. fn_sig (declared_program a) r = Some g \<and> rep (irf_ret_type f) (sig_returns g) v ys
             \<and> runs_call P Xe (own_names a) (jit_code (tc_clif T) defs j) G (irf_name f) args w ys w'))"
proof -
  let ?Q = "\<lambda>h M j. module_compiler_consume (tc_buf T) (tc_show T) (module_compiler_new 0) (snd (compiler_new [a])) = Ret (Inr 0, h)
     \<and> jit_module (tc_clif T) 0 (h_mods h, jit_new (tc_jit T) symbols) = rret (M, j)"
  have code: "\<exists>h M j. ?Q h M j \<and> code_means P X Z a (jit_code (tc_clif T) defs j)"
    if "calls_fit (declared_program a) X" "calls_match (declared_program a) Z (calls_of (declared_program a) X)" for X :: "'w calls" and Z
    using typed_module_code [OF assms(1) [rule_format, of X] assms(2,3,4,6) that assms(7)]
    unfolding code_means_def jit_code_def by fastforce
  obtain h M j where Q: "?Q h M j" using code [OF assms(8,9)] by blast
  have means: "code_means P X Z a (jit_code (tc_clif T) defs j)"
    if "calls_fit (declared_program a) X" "calls_match (declared_program a) Z (calls_of (declared_program a) X)" for X :: "'w calls" and Z
    using code [OF that] Q by (auto simp: rret_def)
  have "\<exists>g ys. fn_sig (declared_program a) r = Some g \<and> rep (irf_ret_type f) (sig_returns g) v ys
      \<and> runs_call P Xe (own_names a) (jit_code (tc_clif T) defs j) G (irf_name f) args w ys w'"
    if r: "resolve_func (declared_program a) r = Ret f" "has_body f" "run_source P E a n r vs w = Some (v, w')"
      "reps (param_types (irf_params f)) vs (map (\<lambda>x. [x]) args)" for G n r f vs args w v w'
  proof -
    obtain m where "n = Suc m" using r(3) by (cases n) auto
    with r(3) have r3: "run_source P E a (Suc m) r vs w = Some (v, w')" by simp
    obtain X where "code_means P X (run_source P E a m) a (jit_code (tc_clif T) defs j)"
        "justified X (runs_call P Xe (own_names a) (jit_code (tc_clif T) defs j) G)"
      using linked [OF assms(6,8,9) means, of m G] by blast
    from own_call [OF this r(1,2) r3 r(4)] show ?thesis by blast
  qed
  moreover have "execute_module T program symbols = rbind (exec (tc_clif T) (tc_call T) ''main'' j) (\<lambda>t. rret (Inr t))"
    using Q assms(5) by (simp add: execute_module_def case_prod_beta)
  ultimately show ?thesis by blast
qed

text \<open>The repository's program \<open>basic_funcs.yacari\<close>, and a scanner that finds its tokens. The host
  offers no functions.\<close>

definition i64_type :: atype where "i64_type = AType (tok TK_Identifier ''i64'')"

definition name_expr :: "string \<Rightarrow> expr" where "name_expr x = Expr (EIdentifier (tok TK_Identifier x)) 0"

definition i64_fn :: "string \<Rightarrow> string list \<Rightarrow> expr \<Rightarrow> ast_function" where
  "i64_fn x ps e = \<lparr>fn_name = tok TK_Identifier x, fn_params = map (\<lambda>p. \<lparr>par_name = p, par_ty = i64_type\<rparr>) ps,
     fn_ret_type = Some i64_type, fn_body = Some e\<rparr>"

definition basic_funcs :: ast_module where
  "basic_funcs = \<lparr>mod_path = [''script''], mod_functions =
     [i64_fn ''main'' [] (Expr (EBlock [Expr (ECall (name_expr ''a'') []) 0, Expr (ECall (name_expr ''b'') [Expr (ELiteral (LInt 422)) 0]) 0]) 0),
      i64_fn ''a'' [] (Expr (EBlock [Expr (ELiteral (LInt 42)) 0]) 0),
      i64_fn ''b'' [''a''] (name_expr ''a'')], mod_classes = []\<rparr>"

definition basic_tools :: "(lbuilder, nat, nat, nat, lmodule, unit, unit) toolchain" where
  "basic_tools = demo_tools\<lparr>tc_scan := (\<lambda>_. map item_of (pr_module basic_funcs))\<rparr>"

lemmas basic_defs = basic_funcs_def i64_fn_def i64_type_def name_expr_def
lemma basic_fns: "mod_functions basic_funcs = [i64_fn ''main'' [] (Expr (EBlock [Expr (ECall (name_expr ''a'') []) 0, Expr (ECall (name_expr ''b'') [Expr (ELiteral (LInt 422)) 0]) 0]) 0),
      i64_fn ''a'' [] (Expr (EBlock [Expr (ELiteral (LInt 42)) 0]) 0), i64_fn ''b'' [''a''] (name_expr ''a'')]"
  by (simp add: basic_funcs_def)
lemmas basic_decl_defs = declared_fn_def param_store_def aty_res_def prim_ty_def ty_res_def

lemma basic_parses: "parse_source basic_tools program [''script''] = rret (Inr basic_funcs)"
proof -
  have "printable_module basic_funcs"
    by (simp add: basic_defs printable_module_def printable_function_def ident_tok_def follow_def opnd_def ends_def infix_binding_power_def)
  from module_roundtrip [OF this, of "\<lambda>_. None"] show ?thesis
    by (auto simp: parse_source_def basic_tools_def demo_tools_def basic_funcs_def split: outcome.splits)
qed

lemma basic_ready: "module_ready 0 basic_funcs"
  by (simp add: module_ready_def basic_defs sig_ok_def body_ready_def aty_res_def prim_ty_def ty_res_def)

abbreviation basic_ref :: "nat \<Rightarrow> func_ref" where "basic_ref i \<equiv> \<lparr>fr_module = 0, fr_index = i\<rparr>"

lemma basic_length: "length (mod_functions basic_funcs) = 3"
  by (simp add: basic_funcs_def)

lemma basic_resolve:
  "resolve_func (declared_program basic_funcs) (basic_ref i) =
     (if i < 3 then Ret (declared_fn 0 [] (mod_functions basic_funcs ! i)) else Panic IndexOutOfBounds)"
  by (simp add: resolve_func_def idx_def declared_module_def basic_funcs_def less_Suc_eq numeral_3_eq_3)

lemma basic_sig:
  "i < 3 \<Longrightarrow> make_fn_sig M (declared_fn 0 [] (mod_functions basic_funcs ! i)) \<lparr>sig_params = [], sig_returns = []\<rparr> =
     rret \<lparr>sig_params = if i = 2 then [CI64] else [], sig_returns = [CI64]\<rparr>"
  by (auto simp: numeral_3_eq_3 less_Suc_eq basic_defs basic_decl_defs make_fn_sig_def translate_type_def)

lemma basic_fn_sig:
  "i < 3 \<Longrightarrow> fn_sig (declared_program basic_funcs) (basic_ref i) =
     Some \<lparr>sig_params = if i = 2 then [CI64] else [], sig_returns = [CI64]\<rparr>"
  by (simp add: fn_sig_def basic_resolve basic_sig rret_def)

lemma basic_find: "cc_mods C = declared_program basic_funcs \<Longrightarrow> cc_self C = 0 \<Longrightarrow>
  find_function C x = (if x = ''main'' then Some (basic_ref 0) else if x = ''a'' then Some (basic_ref 1) else if x = ''b'' then Some (basic_ref 2) else None)"
  by (auto simp: find_function_def declared_module_def basic_defs basic_decl_defs)

lemma basic_bodies:
  "i < 3 \<Longrightarrow> \<exists>e. fn_body (mod_functions basic_funcs ! i) = Some e \<and> typed_body (declared_program basic_funcs) 0 (declared_fn 0 [] (mod_functions basic_funcs ! i)) e
    \<lparr>sig_params = if i = 2 then [CI64] else [], sig_returns = [CI64]\<rparr>"
  unfolding numeral_3_eq_3 less_Suc_eq
  by (elim disjE) (simp_all add: typed_body_def basic_sig, simp_all add: basic_fns i64_fn_def i64_type_def name_expr_def
      basic_decl_defs body_ctx_def types_in_def ec_new_def params_env_def scope_def basic_find wt_call_def
      func_resolve_eq basic_resolve basic_fn_sig ref_ty_def scalar_ty_def word_ty_def ctys_def)

lemma basic_typed: "typed_module basic_funcs"
proof -
  have "typed_fn (declared_program basic_funcs) 0 (declared_fn 0 [] (mod_functions basic_funcs ! i))" if "i < 3" for i
    using basic_bodies [OF that] by (auto simp: typed_fn_def declared_fn_def)
  then have "\<forall>f \<in> set (mod_functions basic_funcs). typed_fn (declared_program basic_funcs) 0 (declared_fn 0 [] f)"
    using basic_length by (metis in_set_conv_nth)
  then show ?thesis using basic_ready by (simp add: typed_module_def declared_module_def basic_funcs_def)
qed

lemma basic_runs: "run_source P E basic_funcs 2 (basic_ref 0) [] w = Some (IntV 422, w)"
  by (simp add: numeral_2_eq_2 call_source_def basic_resolve basic_fns i64_fn_def i64_type_def name_expr_def basic_decl_defs
      source_fn_def param_frame_def)

theorem typed_module_runs_witness:
  "\<exists>j. execute_module basic_tools [] [] = rbind (exec list_clif (\<lambda>_. rret ()) ''main'' j) (\<lambda>t. rret (Inr t))
     \<and> (\<forall>G. runs_call no_fpu no_calls (own_names basic_funcs) (jit_code list_clif (\<lambda>jm i. ldefs jm i) j) G ''main'' [] () [422] ())"
proof -
  let ?E = "\<lambda>_ _ _. None" and ?M = "declared_program basic_funcs"
  have t: "tc_clif basic_tools = list_clif" "tc_call basic_tools = (\<lambda>_. rret ())" "tc_show basic_tools = (\<lambda>_. Ret [])" "tc_buf basic_tools = (\<lambda>_. 6)"
    "jit_new (tc_jit basic_tools) [] = new_jit"
    by (simp_all add: basic_tools_def demo_tools_def jit_new_def new_jit_def)
  have h: "host_source basic_funcs ?E = ?E" by (auto simp: host_source_def fun_eq_iff split: outcome.splits)
  have "\<exists>j. execute_module basic_tools [] [] = rbind (exec (tc_clif basic_tools) (tc_call basic_tools) ''main'' j) (\<lambda>t. rret (Inr t))
     \<and> (\<forall>G n r f vs args w v w'. resolve_func ?M r = Ret f \<longrightarrow> has_body f \<longrightarrow>
          run_source no_fpu ?E basic_funcs n r vs w = Some (v, w') \<longrightarrow> reps (param_types (irf_params f)) vs (map (\<lambda>x. [x]) args) \<longrightarrow>
          (\<exists>g ys. fn_sig ?M r = Some g \<and> rep (irf_ret_type f) (sig_returns g) v ys
             \<and> runs_call no_fpu no_calls (own_names basic_funcs) (jit_code (tc_clif basic_tools) (\<lambda>jm i. ldefs jm i) j) G (irf_name f) args w ys w'))"
  proof (rule typed_module_runs [where known = "{}"])
    show "\<forall>X :: unit calls. jit_contract (tc_clif basic_tools) lview (\<lambda>b. lblank b) (\<lambda>jm. lsyms jm) no_fpu X (\<lambda>jm. set (lm_exported jm)) (\<lambda>jm i. ldefs jm i) {}"
      unfolding t(1) by (rule allI) (rule lb.jit_contract_axioms)
    show "fresh_jit (\<lambda>b. lblank b) (\<lambda>jm. lsyms jm) (\<lambda>jm i. ldefs jm i) (jit_new (tc_jit basic_tools) [])"
      unfolding t(5) by (simp add: fresh_jit_def new_jit_def first_of_def at_Nil fun_eq_iff)
    show "calls_match ?M (host_source basic_funcs ?E) (calls_of ?M no_calls)" unfolding h by (simp add: calls_match_def)
  qed (simp_all add: t basic_parses basic_typed no_calls_fit returns_def basic_fns i64_fn_def)
  then obtain j where j: "execute_module basic_tools [] [] = rbind (exec list_clif (\<lambda>_. rret ()) ''main'' j) (\<lambda>t. rret (Inr t))"
    "\<And>G n r f vs args w v w'. resolve_func ?M r = Ret f \<Longrightarrow> has_body f \<Longrightarrow>
          run_source no_fpu ?E basic_funcs n r vs w = Some (v, w') \<Longrightarrow> reps (param_types (irf_params f)) vs (map (\<lambda>x. [x]) args) \<Longrightarrow>
          \<exists>g ys. fn_sig ?M r = Some g \<and> rep (irf_ret_type f) (sig_returns g) v ys
             \<and> runs_call no_fpu no_calls (own_names basic_funcs) (jit_code list_clif (\<lambda>jm i. ldefs jm i) j) G (irf_name f) args w ys w'"
    unfolding t(1,2) by blast
  have "runs_call no_fpu no_calls (own_names basic_funcs) (jit_code list_clif (\<lambda>jm i. ldefs jm i) j) G ''main'' [] () [422] ()" for G
    using j(2) [of "basic_ref 0" _ 2 "[]" "()" "IntV 422" "()" "[]" G] basic_runs [of no_fpu ?E "()"]
    by (auto simp: basic_resolve basic_fns i64_fn_def i64_type_def basic_decl_defs param_types_def)
  with j(1) show ?thesis by blast
qed
end
